(* ===== verification/Kern_Prelude.thy ===== *)
theory Kern_Prelude
  imports Main "HOL-Library.Word"
begin

text \<open>
  Shared vocabulary of the iPosix development: the machine integers of the
  32-bit x86 target, the ways a C++ statement can go wrong (a value of type
  \<open>fault\<close>), the result type every operation that can go wrong returns, and
  the lemmas on words and lists that the components share.
\<close>

unbundle bit_operations_syntax

section \<open>Machine integers\<close>

type_synonym u8 = "8 word"
type_synonym u16 = "16 word"
type_synonym u32 = "32 word"
type_synonym u64 = "64 word"

text \<open>Pointers are 32-bit addresses; the null pointer is the address \<open>0\<close>.\<close>

type_synonym ptr = u32

section \<open>Faults\<close>

text \<open>
  C++ statements with undefined behaviour are branches of the model: an access
  through the null pointer, an access through a pointer no live object is at,
  an index past the end of an array, the dereference of \<open>map::end()\<close>, a
  division by zero, and the deliberate stop \<open>die()\<close>.
\<close>

datatype fault =
    Null_deref
  | Wild_access
  | Out_of_bounds
  | End_deref
  | Div_zero
  | Die

type_synonym 'a result = "fault + 'a"

fun bind_result :: "'a result \<Rightarrow> ('a \<Rightarrow> 'b result) \<Rightarrow> 'b result" where
  "bind_result (Inl e) f = Inl e"
| "bind_result (Inr x) f = f x"

lemma bind_result_Inr_iff:
  "bind_result r f = Inr y \<longleftrightarrow> (\<exists>x. r = Inr x \<and> f x = Inr y)"
  by (cases r) auto

lemma bind_result_Inl_iff:
  "bind_result r f = Inl e \<longleftrightarrow> (r = Inl e \<or> (\<exists>x. r = Inr x \<and> f x = Inl e))"
  by (cases r) auto

section \<open>Collections of facts\<close>

named_theorems kern_defs \<open>definitions of the model unfolded together\<close>
named_theorems kern_inv \<open>preservation of the component invariants\<close>

section \<open>Words\<close>

lemma unat_plus_nowrap:
  fixes a b :: "'a::len word"
  assumes "unat a + unat b < 2 ^ LENGTH('a)"
  shows "unat (a + b) = unat a + unat b"
  using assms by (simp add: unat_word_ariths)

lemma unat_minus_le:
  fixes a b :: "'a::len word"
  assumes "b \<le> a"
  shows "unat (a - b) = unat a - unat b"
  using assms by (rule unat_sub)

lemma unat_lt32: "unat (a :: u32) < 4294967296"
  using unsigned_less [of a, where ?'a = nat] by simp

lemma unat_lt64: "unat (a :: u64) < 18446744073709551616"
  using unsigned_less [of a, where ?'a = nat] by simp

lemma plus_le_nowrap:
  fixes a b :: "'a::len word"
  assumes "a \<le> a + b"
  shows "unat (a + b) = unat a + unat b"
  using assms by (simp add: no_olen_add_nat unat_plus_nowrap)

lemma unat_of_nat_lt: "m < 2 ^ LENGTH('a) \<Longrightarrow> unat (of_nat m :: 'a::len word) = m"
  by (simp add: unsigned_of_nat take_bit_nat_eq_self)

lemma unat_ucast32: "unat (ucast (x :: u64) :: u32) = unat x mod 2 ^ 32"
  by (simp add: unsigned_ucast_eq take_bit_eq_mod)

lemma unat_ucast64: "unat (ucast (x :: u32) :: u64) = unat x"
  using unat_lt32 [of x] by (simp add: unsigned_ucast_eq take_bit_eq_mod)

text \<open>
  Masking off the low bits rounds down to a multiple of a power of two, keeping
  the low bits is the remainder.
\<close>

lemma and_not_mask_ident:
  fixes x :: "'a::len word"
  shows "(x AND NOT (mask n)) + take_bit n x = x"
proof -
  have "x AND NOT (mask n) = push_bit n (drop_bit n x)"
    by (rule bit_word_eqI) (auto simp: bit_simps)
  then show ?thesis by (simp add: bits_ident)
qed

lemma unat_take_bit: "unat (take_bit n (x :: 'a::len word)) = unat x mod 2 ^ n"
  unfolding unsigned_take_bit_eq by (rule take_bit_eq_mod)

lemma unat_and_not_mask:
  fixes x :: "'a::len word"
  shows "unat (x AND NOT (mask n)) = unat x - unat x mod 2 ^ n"
proof -
  have "x AND NOT (mask n) = x - take_bit n x"
    using and_not_mask_ident [of x n] by (simp add: eq_diff_eq)
  moreover have "take_bit n x \<le> x"
    by (simp add: word_le_nat_alt unat_take_bit)
  ultimately show ?thesis by (simp add: unat_minus_le unat_take_bit)
qed

lemma unat_and_mask: "unat ((x :: 'a::len word) AND mask n) = unat x mod 2 ^ n"
  by (simp flip: take_bit_eq_mask add: unat_take_bit)

lemma unat_lt8: "unat (a :: u8) < 256"
  using unsigned_less [of a, where ?'a = nat] by simp

lemma unat_lt16: "unat (a :: u16) < 65536"
  using unsigned_less [of a, where ?'a = nat] by simp

lemma bit7_iff: "bit (c :: u8) 7 \<longleftrightarrow> 128 \<le> unat c"
proof -
  have "bit c 7 \<longleftrightarrow> odd (unat c div 128)"
    using bit_unsigned_iff [of c 7, where ?'a = nat] by (simp add: bit_iff_odd)
  moreover have "unat c div 128 = (if 128 \<le> unat c then 1 else 0)"
    using unat_lt8 [of c] by (auto intro!: div_nat_eqI)
  ultimately show ?thesis by simp
qed

section \<open>Polling\<close>

text \<open>
  A loop that reads until what it reads satisfies \<open>ready\<close>: the \<open>n\<close>-th reading is \<open>reads n\<close>, and
  the number of the next reading is returned. A loop that does not end is \<open>None\<close>.
\<close>

partial_function (option) poll :: "('a \<Rightarrow> bool) \<Rightarrow> (nat \<Rightarrow> 'a) \<Rightarrow> nat \<Rightarrow> nat option" where
  "poll ready reads n = (if ready (reads n) then Some (Suc n) else poll ready reads (Suc n))"

lemma poll_returns:
  "ready (reads m) \<Longrightarrow> n \<le> m \<Longrightarrow> \<exists>k. n \<le> k \<and> k \<le> m \<and> ready (reads k) \<and> poll ready reads n = Some (Suc k)"
proof (induction "m - n" arbitrary: n)
  case 0
  then show ?case by (intro exI [of _ m]) (simp add: poll.simps [of ready reads n])
next
  case (Suc d)
  show ?case
  proof (cases "ready (reads n)")
    case True
    then show ?thesis using Suc.prems by (intro exI [of _ n]) (simp add: poll.simps [of ready reads n])
  next
    case False
    have "\<exists>k. Suc n \<le> k \<and> k \<le> m \<and> ready (reads k) \<and> poll ready reads (Suc n) = Some (Suc k)"
      using Suc by (intro Suc.hyps(1)) auto
    then show ?thesis using False by (auto simp: poll.simps [of ready reads n] dest: Suc_leD)
  qed
qed

lemma poll_result:
  assumes "poll ready reads n = Some k"
  shows "n < k \<and> ready (reads (k - 1)) \<and> (\<forall>j. n \<le> j \<and> j < k - 1 \<longrightarrow> \<not> ready (reads j))"
proof (rule poll.raw_induct [OF _ assms])
  fix f :: "('a \<Rightarrow> bool) \<Rightarrow> (nat \<Rightarrow> 'a) \<Rightarrow> nat \<Rightarrow> nat option" and ready reads n k
  assume ih: "\<And>ready reads n k. f ready reads n = Some k
      \<Longrightarrow> n < k \<and> ready (reads (k - 1)) \<and> (\<forall>j. n \<le> j \<and> j < k - 1 \<longrightarrow> \<not> ready (reads j))"
    and s: "(if ready (reads n) then Some (Suc n) else f ready reads (Suc n)) = Some k"
  show "n < k \<and> ready (reads (k - 1)) \<and> (\<forall>j. n \<le> j \<and> j < k - 1 \<longrightarrow> \<not> ready (reads j))"
  proof (cases "ready (reads n)")
    case True
    then show ?thesis using s by auto
  next
    case False
    then have "f ready reads (Suc n) = Some k" using s by simp
    from ih [OF this] show ?thesis using False by (metis Suc_leI Suc_lessD le_neq_implies_less)
  qed
qed

section \<open>Rounding up\<close>

lemma round_up_quot:
  fixes q r d :: nat
  assumes "r < d"
  shows "(q * d + r + (d - 1)) div d = (if r = 0 then q else Suc q)"
  using assms by (cases r) (auto intro!: div_nat_eqI simp: mult.commute [of d])

lemma round_up_div:
  fixes n d :: nat
  assumes "0 < d"
  shows "(n + (d - 1)) div d * d = (if n mod d = 0 then n else n + d - n mod d)"
proof -
  have "n div d * d + n mod d = n" by simp
  moreover have "(n div d * d + n mod d + (d - 1)) div d
      = (if n mod d = 0 then n div d else Suc (n div d))"
    using assms by (intro round_up_quot) simp
  ultimately have q: "(n + (d - 1)) div d = (if n mod d = 0 then n div d else Suc (n div d))"
    by (simp only:)
  have "n div d * d = n - n mod d" by (rule minus_mod_eq_div_mult [symmetric])
  moreover have "n mod d \<le> n" by simp
  ultimately show ?thesis
    unfolding q by (cases "n mod d = 0") simp_all
qed

section \<open>Lists\<close>

lemma list_all_nth_in: "list_all P xs \<Longrightarrow> i < length xs \<Longrightarrow> P (xs ! i)"
  by (simp add: list_all_length)

end
