(* ===== verification/Memory_Area.thy ===== *)
theory Memory_Area
  imports Kern_Prelude
begin

text \<open>
  Continuous areas of physical memory (kern/mm/memory_area.cpp) and the
  selection of the usable ones from the multiboot memory map
  (kern/arch/x86/devices/memory.cpp, memory::init and get_memory_areas).
\<close>

section \<open>memory_area\<close>

record memory_area =
  low :: u32
  high :: u32

definition area_less :: "memory_area \<Rightarrow> memory_area \<Rightarrow> bool" where
  "area_less this ma \<longleftrightarrow> low this < low ma \<and> high this < high ma \<and> high this < low ma"

definition area_greater :: "memory_area \<Rightarrow> memory_area \<Rightarrow> bool" where
  "area_greater this ma \<longleftrightarrow> low this > low ma \<and> high this > high ma \<and> low this > high ma"

definition area_size :: "memory_area \<Rightarrow> u32" where
  "area_size this = high this - low this"

text \<open>The flag is the return value, the area is \<open>*this\<close> afterwards.\<close>

definition combine :: "memory_area \<Rightarrow> memory_area \<Rightarrow> bool \<times> memory_area" where
  "combine this ma =
     (if low ma = high this then (True, this\<lparr>high := high ma\<rparr>)
      else if low this = high ma then (True, this\<lparr>low := low ma\<rparr>)
      else (False, this))"

text \<open>The addresses of an area: \<open>high\<close> is the first unusable address.\<close>

definition area_addrs :: "memory_area \<Rightarrow> nat set" where
  "area_addrs a = {unat (low a) ..< unat (high a)}"

definition area_ok :: "memory_area \<Rightarrow> bool" where
  "area_ok a \<longleftrightarrow> low a \<le> high a"

lemma combine_addrs:
  assumes "area_ok a" "area_ok b" "combine a b = (True, c)"
  shows "area_ok c" "area_addrs c = area_addrs a \<union> area_addrs b"
  using assms
  by (auto simp: combine_def area_ok_def area_addrs_def word_le_nat_alt split: if_splits)

lemma combine_disjoint:
  assumes "area_ok a" "area_ok b" "combine a b = (True, c)"
  shows "area_addrs a \<inter> area_addrs b = {}"
  using assms
  by (auto simp: combine_def area_ok_def area_addrs_def word_le_nat_alt split: if_splits)

lemma area_size_card: "area_ok a \<Longrightarrow> unat (area_size a) = card (area_addrs a)"
  by (simp add: area_ok_def area_size_def area_addrs_def unat_minus_le)

section \<open>memory::init\<close>

text \<open>
  The boot loader hands the kernel the section headers of its own ELF image and
  the BIOS memory map; both are arguments here. The first loop finds the highest
  address of the kernel image, which is then rounded up to 64 KiB.
\<close>

record elf_section =
  sh_type :: u32
  sh_addr :: u32
  sh_size :: u32

record mmap_entry =
  map_size :: u32
  base_addr_low :: u32
  base_addr_high :: u32
  length_low :: u32
  length_high :: u32
  map_type :: u32

definition highest_step :: "u32 \<Rightarrow> elf_section \<Rightarrow> u32" where
  "highest_step m s =
     (if sh_type s \<noteq> 0
      then (let val = sh_addr s + sh_size s in if val > m then val else m)
      else m)"

definition highest_address :: "elf_section list \<Rightarrow> u32" where
  "highest_address = foldl highest_step 0"

definition round_kernel_end :: "u32 \<Rightarrow> u32" where
  "round_kernel_end m =
     (let m' = (if m AND 0x00FFFF \<noteq> 0 then m + 0x010000 else m) in m' AND 0xFFFF0000)"

text \<open>
  The array \<open>areas\<close> has ten elements. The code guards the store with
  \<open>area_count == sizeof( areas )\<close>, and \<open>sizeof\<close> counts bytes: ten
  areas of two 32-bit pointers are 80. The list holds the first \<open>area_count\<close>
  elements of the array.
\<close>

definition areas_dim :: nat where
  "areas_dim = 10"

definition areas_sizeof :: nat where
  "areas_sizeof = 80"

definition store_area :: "memory_area list \<Rightarrow> memory_area \<Rightarrow> memory_area list result" where
  "store_area areas a =
     (if length areas < areas_dim then Inr (areas @ [a]) else Inl Out_of_bounds)"

definition select_area ::
  "u32 \<Rightarrow> memory_area list \<Rightarrow> mmap_entry \<Rightarrow> memory_area list result" where
  "select_area kend areas m =
     (if map_size m \<noteq> 20 then Inr areas
      else if base_addr_low m = 0 \<and> length_low m \<le> 640 * 1024 \<and> map_type m = 1 then Inr areas
      else if base_addr_low m \<ge> 1 * 1024 * 1024 \<and> map_type m = 1 then
        (let lo = base_addr_low m;
             hi = lo + length_low m;
             lo' = (if lo < kend then kend else lo)
         in if lo' \<ge> hi \<or> length areas = areas_sizeof then Inr areas
            else store_area areas \<lparr>low = lo', high = hi\<rparr>)
      else Inr areas)"

fun select_areas ::
  "u32 \<Rightarrow> memory_area list \<Rightarrow> mmap_entry list \<Rightarrow> memory_area list result" where
  "select_areas kend areas [] = Inr areas"
| "select_areas kend areas (m # ms) =
     bind_result (select_area kend areas m) (\<lambda>areas'. select_areas kend areas' ms)"

definition memory_init ::
  "elf_section list \<Rightarrow> mmap_entry list option \<Rightarrow> memory_area list result" where
  "memory_init sections mmap =
     (let kend = round_kernel_end (highest_address sections) in
      case mmap of None \<Rightarrow> Inr [] | Some ms \<Rightarrow> select_areas kend [] ms)"

definition get_memory_areas :: "memory_area list \<Rightarrow> nat \<Rightarrow> memory_area list" where
  "get_memory_areas areas n = take (if n < length areas then n else length areas) areas"

subsection \<open>The end of the kernel image\<close>

lemma highest_step_ge: "m \<le> highest_step m s"
  by (auto simp: highest_step_def Let_def)

lemma foldl_highest_ge: "m \<le> foldl highest_step m secs"
  by (induction secs arbitrary: m) (auto intro: order_trans [OF highest_step_ge])

lemma foldl_highest_member:
  "s \<in> set secs \<Longrightarrow> sh_type s \<noteq> 0 \<Longrightarrow> sh_addr s + sh_size s \<le> foldl highest_step m secs"
proof (induction secs arbitrary: m)
  case Nil
  then show ?case by simp
next
  case (Cons t ts)
  show ?case
  proof (cases "s = t")
    case True
    with Cons.prems have "sh_addr s + sh_size s \<le> highest_step m t"
      by (auto simp: highest_step_def Let_def)
    then show ?thesis using foldl_highest_ge [of "highest_step m t" ts] by simp
  next
    case False
    with Cons show ?thesis by simp
  qed
qed

lemma unat_and_FFFF: "unat ((m :: u32) AND 0x00FFFF) = unat m mod 65536"
proof -
  have "(0x00FFFF :: u32) = mask 16" by (simp add: mask_eq_exp_minus_1)
  then have "unat (m AND 0x00FFFF) = unat m mod 2 ^ 16" by (simp only: unat_and_mask)
  then show ?thesis by simp
qed

lemma unat_and_FFFF0000: "unat ((m :: u32) AND 0xFFFF0000) = unat m - unat m mod 65536"
proof -
  have "(0xFFFF0000 :: u32) = NOT (mask 16)" by (simp add: mask_eq_exp_minus_1)
  then have "unat (m AND 0xFFFF0000) = unat m - unat m mod 2 ^ 16"
    by (simp only: unat_and_not_mask)
  then show ?thesis by simp
qed

lemma unat_round_kernel_end:
  assumes "m \<le> 0xFFFF0000"
  shows "unat (round_kernel_end m) = (unat m + 65535) div 65536 * 65536"
proof -
  have up: "(unat m + 65535) div 65536 * 65536 =
      (if unat m mod 65536 = 0 then unat m else unat m + 65536 - unat m mod 65536)"
    using round_up_div [of 65536 "unat m"] by simp
  have eq0: "m AND 0x00FFFF = 0 \<longleftrightarrow> unat m mod 65536 = 0"
    using unat_and_FFFF [of m] by (metis unat_eq_0)
  show ?thesis
  proof (cases "unat m mod 65536 = 0")
    case True
    then have "m AND 0x00FFFF = 0" by (simp only: eq0)
    then have "round_kernel_end m = m AND 0xFFFF0000"
      by (simp only: round_kernel_end_def Let_def simp_thms if_False)
    then have "unat (round_kernel_end m) = unat m"
      using True by (simp only: unat_and_FFFF0000 diff_zero)
    with up True show ?thesis by simp
  next
    case False
    then have "unat m \<noteq> 0xFFFF0000" by auto
    moreover have "unat m \<le> 0xFFFF0000"
      using assms by (simp add: word_le_nat_alt)
    ultimately have "unat (m + 0x010000) = unat m + 65536"
      by (subst unat_plus_nowrap) simp_all
    moreover have "round_kernel_end m = (m + 0x010000) AND 0xFFFF0000"
      using False eq0 by (simp only: round_kernel_end_def Let_def simp_thms if_True)
    ultimately have "unat (round_kernel_end m) = unat m + 65536 - (unat m + 65536) mod 65536"
      by (simp only: unat_and_FFFF0000)
    with up False show ?thesis by simp
  qed
qed

subsection \<open>What is selected\<close>

text \<open>
  The specification: an entry is usable when it is a 20 byte entry of type 1 at
  or above 1 MiB of which something is left above the kernel image; the area
  kept is what is left.
\<close>

definition usable :: "u32 \<Rightarrow> mmap_entry \<Rightarrow> bool" where
  "usable kend m \<longleftrightarrow> map_size m = 20 \<and> map_type m = 1 \<and> base_addr_low m \<ge> 0x100000
     \<and> max (base_addr_low m) kend < base_addr_low m + length_low m"

definition usable_area :: "u32 \<Rightarrow> mmap_entry \<Rightarrow> memory_area" where
  "usable_area kend m =
     \<lparr>low = max (base_addr_low m) kend, high = base_addr_low m + length_low m\<rparr>"

lemma select_area_eq:
  assumes "length areas \<le> areas_dim"
  shows "select_area kend areas m =
    (if usable kend m then store_area areas (usable_area kend m) else Inr areas)"
  using assms
  by (auto simp: select_area_def usable_def usable_area_def areas_dim_def areas_sizeof_def
      Let_def max_def)

lemma select_areas_eq:
  assumes "length areas \<le> areas_dim"
  shows "select_areas kend areas ms =
    (let us = filter (usable kend) ms
     in if length areas + length us \<le> areas_dim
        then Inr (areas @ map (usable_area kend) us) else Inl Out_of_bounds)"
  using assms
proof (induction ms arbitrary: areas)
  case Nil
  then show ?case by simp
next
  case (Cons m ms)
  show ?case
  proof (cases "usable kend m \<and> length areas < areas_dim")
    case True
    then have "select_area kend areas m = Inr (areas @ [usable_area kend m])"
      using Cons.prems by (simp add: select_area_eq store_area_def)
    with True show ?thesis
      by (simp add: Cons.IH [of "areas @ [usable_area kend m]"] Let_def)
  next
    case False
    with Cons show ?thesis
      by (auto simp: select_area_eq store_area_def Let_def)
  qed
qed

text \<open>Memory::init keeps exactly the usable parts of the memory map, in the
  order of the map, as long as there are at most ten of them; an eleventh usable
  entry is written past the end of the array, because the guard compares the
  count with the size of the array in bytes (80).\<close>

theorem memory_init_eq:
  "memory_init secs (Some ms) =
    (let kend = round_kernel_end (highest_address secs); us = filter (usable kend) ms
     in if length us \<le> areas_dim then Inr (map (usable_area kend) us) else Inl Out_of_bounds)"
  by (simp add: memory_init_def select_areas_eq Let_def)

lemma memory_init_member:
  assumes "memory_init secs (Some ms) = Inr areas" "a \<in> set areas"
  obtains m where "m \<in> set ms" "usable (round_kernel_end (highest_address secs)) m"
    "a = usable_area (round_kernel_end (highest_address secs)) m"
proof -
  have "areas = map (usable_area (round_kernel_end (highest_address secs)))
      (filter (usable (round_kernel_end (highest_address secs))) ms)"
    using assms(1) by (auto simp: memory_init_def select_areas_eq Let_def split: if_splits)
  with assms(2) show ?thesis by (auto intro: that)
qed

text \<open>No memory area handed to the allocators overlaps a section of the kernel
  image: every section that takes part ends at or below the first address of every
  selected area, provided the image ends at or below 0xFFFF0000 so that rounding
  its end up to 64 KiB does not wrap to zero.\<close>

theorem memory_init_avoids_kernel:
  assumes "memory_init secs (Some ms) = Inr areas"
    and "highest_address secs \<le> 0xFFFF0000"
    and "s \<in> set secs" "sh_type s \<noteq> 0" and "sh_addr s \<le> sh_addr s + sh_size s"
    and "a \<in> set areas"
  shows "area_addrs a \<inter> {unat (sh_addr s) ..< unat (sh_addr s) + unat (sh_size s)} = {}
    \<and> area_addrs a \<noteq> {}"
proof -
  obtain m where m: "usable (round_kernel_end (highest_address secs)) m"
    "a = usable_area (round_kernel_end (highest_address secs)) m"
    using memory_init_member [OF assms(1,6)] by metis
  have "unat (sh_addr s + sh_size s) \<le> unat (highest_address secs)"
    using foldl_highest_member [OF assms(3,4), of 0]
    by (simp add: highest_address_def word_le_nat_alt)
  also have "\<dots> \<le> unat (round_kernel_end (highest_address secs))"
    using round_up_div [of 65536 "unat (highest_address secs)"]
      mod_less_divisor [of 65536 "unat (highest_address secs)"]
    by (simp add: unat_round_kernel_end [OF assms(2)] del: mod_less_divisor)
  also have "\<dots> \<le> unat (low a)"
    using m(2) by (simp add: usable_area_def max_def word_le_nat_alt)
  finally have "unat (sh_addr s + sh_size s) \<le> unat (low a)" .
  then have "area_addrs a \<inter> {unat (sh_addr s) ..< unat (sh_addr s) + unat (sh_size s)} = {}"
    using plus_le_nowrap [OF assms(5)] by (auto simp: area_addrs_def)
  moreover have "area_addrs a \<noteq> {}"
    using m by (simp add: usable_def usable_area_def area_addrs_def word_less_nat_alt)
  ultimately show ?thesis ..
qed

theorem memory_init_avoids_kernel_witness:
  "area_addrs \<lparr>low = 0x130000, high = 0x800000\<rparr> \<inter> {0x100000 ..< 0x12A010} = {}
    \<and> area_addrs \<lparr>low = 0x130000, high = 0x800000\<rparr> \<noteq> {}"
proof -
  let ?sec = "\<lparr>sh_type = 1, sh_addr = 0x100000, sh_size = 0x2A010\<rparr>"
  let ?m = "\<lparr>map_size = 20, base_addr_low = 0x100000, base_addr_high = 0,
     length_low = 0x700000, length_high = 0, map_type = 1\<rparr>"
  have hi: "highest_address [?sec] = 0x12A010"
    by (simp add: highest_address_def highest_step_def)
  have kend: "round_kernel_end 0x12A010 = 0x130000"
    by (simp add: round_kernel_end_def)
  have "memory_init [?sec] (Some [?m]) = Inr [\<lparr>low = 0x130000, high = 0x800000\<rparr>]"
    by (simp add: memory_init_def hi kend select_area_def store_area_def areas_dim_def
        areas_sizeof_def)
  from memory_init_avoids_kernel [OF this, of ?sec "\<lparr>low = 0x130000, high = 0x800000\<rparr>"] hi
  show ?thesis by simp
qed

end
