(* ===== verification/Area_Alloc.thy ===== *)
theory Area_Alloc
  imports Memory_Area
begin

text \<open>
  The two area based allocation policies: straight (kern/include/mm/policies/straight.h),
  which cuts blocks off the front of the first area that fits and never takes one
  back, and simple (simple.h), which adds a table of the live blocks so that they
  can be returned. The template parameter \<open>Unit\<close> is the argument \<open>unit\<close>.
\<close>

section \<open>straight\<close>

definition max_areas :: nat where
  "max_areas = 10"

text \<open>The first \<open>area_count\<close> elements of the array \<open>areas\<close>.\<close>

record straight =
  areas :: "memory_area list"

definition straight_init :: straight where
  "straight_init = \<lparr>areas = []\<rparr>"

definition next_unit :: "u32 \<Rightarrow> u32 \<Rightarrow> u32" where
  "next_unit unit lo = (if unit \<noteq> 0 then lo + (unit - lo mod unit) else lo)"

fun first_fit :: "u32 \<Rightarrow> u32 \<Rightarrow> memory_area list \<Rightarrow> (ptr \<times> memory_area list) option" where
  "first_fit unit n [] = None"
| "first_fit unit n (ma # mas) =
     (if area_size ma \<ge> n
      then Some (low ma, ma\<lparr>low := next_unit unit (low ma + n)\<rparr> # mas)
      else map_option (\<lambda>(p, mas'). (p, ma # mas')) (first_fit unit n mas))"

definition straight_malloc :: "u32 \<Rightarrow> u32 \<Rightarrow> ('a) straight_scheme \<Rightarrow> ptr \<times> ('a) straight_scheme" where
  "straight_malloc unit n s =
     (case first_fit unit n (areas s) of
        None \<Rightarrow> (0, s)
      | Some (p, as) \<Rightarrow> (p, s\<lparr>areas := as\<rparr>))"

definition straight_free :: "ptr \<Rightarrow> 'a straight_scheme \<Rightarrow> bool \<times> 'a straight_scheme" where
  "straight_free p s = (True, s)"

text \<open>
  The alignment loop of set_memory_areas computes new bounds in the local
  variables \<open>mlow\<close> and \<open>mhigh\<close> and leaves the area as it is.
\<close>

definition align_bounds :: "u32 \<Rightarrow> memory_area \<Rightarrow> u32 \<times> u32" where
  "align_bounds unit m =
     (let modulo = low m mod unit;
          mlow = low m + (unit - modulo);
          mhigh = high m - modulo
      in (mlow, if mhigh < mlow then mlow else mhigh))"

definition align_area :: "u32 \<Rightarrow> memory_area \<Rightarrow> memory_area" where
  "align_area unit m = (let (mlow, mhigh) = align_bounds unit m in m)"

definition straight_set_memory_areas ::
  "u32 \<Rightarrow> memory_area list \<Rightarrow> 'a straight_scheme \<Rightarrow> 'a straight_scheme" where
  "straight_set_memory_areas unit mem s =
     (let as = get_memory_areas mem max_areas
      in if unit = 0 then s\<lparr>areas := as\<rparr> else s\<lparr>areas := map (align_area unit) as\<rparr>)"

lemma straight_set_memory_areas_eq:
  "straight_set_memory_areas unit mem s = s\<lparr>areas := take max_areas mem\<rparr>"
  by (simp add: straight_set_memory_areas_def align_area_def get_memory_areas_def map_idI
      Let_def split_def)

section \<open>simple\<close>

record alloc =
  a_addr :: ptr
  a_size :: u32

text \<open>\<open>first_free_alloc\<close> points into the table or is null.\<close>

record simple = straight +
  allocs :: "alloc list"
  first_free_alloc :: "nat option"

definition allocs_size :: nat where
  "allocs_size = 1024"

definition simple_init :: simple where
  "simple_init = \<lparr>areas = [],
     allocs = replicate allocs_size \<lparr>a_addr = 0, a_size = 0\<rparr>, first_free_alloc = Some 0\<rparr>"

text \<open>The slot the while loop stops at: the first with no address, or the end.\<close>

definition next_free :: "alloc list \<Rightarrow> nat \<Rightarrow> nat" where
  "next_free as i = i + length (takeWhile (\<lambda>a. a_addr a \<noteq> 0) (drop i as))"

definition simple_malloc :: "u32 \<Rightarrow> u32 \<Rightarrow> simple \<Rightarrow> ptr \<times> simple" where
  "simple_malloc unit n s =
     (case first_free_alloc s of
        None \<Rightarrow> (0, s)
      | Some f \<Rightarrow>
          (let (addr, s1) = straight_malloc unit n s
           in if addr = 0 then (0, s1)
              else
                (let as = (allocs s1)[f := \<lparr>a_addr = addr, a_size = n\<rparr>];
                     f' = next_free as (Suc f)
                 in (addr, s1\<lparr>allocs := as,
                      first_free_alloc := (if f' = length as then None else Some f')\<rparr>))))"

fun try_combine :: "memory_area \<Rightarrow> memory_area list \<Rightarrow> memory_area list option" where
  "try_combine a [] = None"
| "try_combine a (it # its) =
     (case combine it a of
        (True, it') \<Rightarrow> Some (it' # its)
      | (False, _) \<Rightarrow> map_option ((#) it) (try_combine a its))"

lemma try_combine_length: "try_combine a its = Some its' \<Longrightarrow> length its' = length its"
  by (induction its arbitrary: its') (auto split: prod.splits bool.splits)

function merge_areas :: "memory_area list \<Rightarrow> memory_area list" where
  "merge_areas [] = []"
| "merge_areas (a # rest) =
     (case try_combine a rest of
        Some rest' \<Rightarrow> merge_areas rest'
      | None \<Rightarrow> a # merge_areas rest)"
  by pat_completeness auto
termination
  by (relation "measure length") (auto dest: try_combine_length)

fun find_alloc :: "ptr \<Rightarrow> alloc list \<Rightarrow> nat option" where
  "find_alloc p [] = None"
| "find_alloc p (a # as) = (if a_addr a = p then Some 0 else map_option Suc (find_alloc p as))"

definition simple_free :: "ptr \<Rightarrow> simple \<Rightarrow> bool \<times> simple" where
  "simple_free area s =
     (if area = 0 then (True, s)
      else
        (case find_alloc area (allocs s) of
           None \<Rightarrow> (False, s)
         | Some a \<Rightarrow>
             (let ma = \<lparr>low = area, high = area + a_size (allocs s ! a)\<rparr>;
                  s1 = (if length (areas s) \<noteq> max_areas
                        then s\<lparr>areas := merge_areas (areas s @ [ma])\<rparr> else s)
              in (True, s1\<lparr>allocs := (allocs s1)[a := (allocs s1 ! a)\<lparr>a_addr := 0\<rparr>],
                   first_free_alloc :=
                     (case first_free_alloc s1 of
                        None \<Rightarrow> None
                      | Some f \<Rightarrow> if f > a then Some a else Some f)\<rparr>))))"

section \<open>Conservation of memory\<close>

text \<open>
  How many of a list of areas an address lies in. Two areas overlap at an address
  that is covered twice.
\<close>

definition cover :: "memory_area list \<Rightarrow> nat \<Rightarrow> nat" where
  "cover as n = sum_list (map (\<lambda>a. of_bool (n \<in> area_addrs a)) as)"

lemma cover_simps [simp]:
  "cover [] n = 0"
  "cover (a # as) n = of_bool (n \<in> area_addrs a) + cover as n"
  "cover (as @ bs) n = cover as n + cover bs n"
  by (simp_all add: cover_def)

lemma try_combine_cover:
  "try_combine a its = Some its' \<Longrightarrow> area_ok a \<Longrightarrow> list_all area_ok its
   \<Longrightarrow> list_all area_ok its' \<and> (\<forall>n. cover its' n = of_bool (n \<in> area_addrs a) + cover its n)"
proof (induction its arbitrary: its')
  case Nil
  then show ?case by simp
next
  case (Cons it its)
  obtain b c where c: "combine it a = (b, c)" by fastforce
  show ?case
  proof (cases b)
    case True
    then have ct: "combine it a = (True, c)" using c by simp
    have oks: "area_ok it" "area_ok a" using Cons.prems by simp_all
    note ok = combine_addrs(1) [OF oks ct] and un = combine_addrs(2) [OF oks ct]
      and dj = combine_disjoint [OF oks ct]
    have "of_bool (n \<in> area_addrs c)
        = of_bool (n \<in> area_addrs a) + (of_bool (n \<in> area_addrs it) :: nat)" for n
      using dj unfolding un by auto
    moreover have "its' = c # its" using True c Cons.prems by simp
    ultimately show ?thesis using ok Cons.prems by simp
  next
    case False
    with c Cons.prems obtain r where r: "try_combine a its = Some r" "its' = it # r"
      by auto
    with Cons.IH [OF r(1)] Cons.prems show ?thesis by simp
  qed
qed

lemma merge_areas_cover:
  "list_all area_ok as
   \<Longrightarrow> list_all area_ok (merge_areas as) \<and> (\<forall>n. cover (merge_areas as) n = cover as n)"
proof (induction as rule: merge_areas.induct)
  case 1
  then show ?case by simp
next
  case (2 a rest)
  then show ?case
    by (cases "try_combine a rest") (auto dest: try_combine_cover)
qed

lemma try_combine_low:
  "try_combine a its = Some its' \<Longrightarrow> low ` set its' \<subseteq> insert (low a) (low ` set its)"
  by (induction its arbitrary: its')
    (auto simp: combine_def split: prod.splits bool.splits if_splits, blast+)

lemma merge_areas_low: "low ` set (merge_areas as) \<subseteq> low ` set as"
proof (induction as rule: merge_areas.induct)
  case 1
  then show ?case by simp
next
  case (2 a rest)
  then show ?case
    by (cases "try_combine a rest") (auto dest: try_combine_low)
qed

lemma merge_areas_length: "length (merge_areas as) \<le> length as"
proof (induction as rule: merge_areas.induct)
  case 1
  then show ?case by simp
next
  case (2 a rest)
  then show ?case
    by (cases "try_combine a rest") (auto dest: try_combine_length)
qed

text \<open>Cutting a block off the front of the first area that fits.\<close>

definition block :: "ptr \<Rightarrow> u32 \<Rightarrow> memory_area" where
  "block p n = \<lparr>low = p, high = p + n\<rparr>"

lemma cut_area:
  assumes "area_ok a" "n \<le> area_size a"
  shows "area_ok (block (low a) n)" "area_ok (a\<lparr>low := low a + n\<rparr>)"
    and "of_bool (x \<in> area_addrs a)
      = of_bool (x \<in> area_addrs (block (low a) n)) + (of_bool (x \<in> area_addrs (a\<lparr>low := low a + n\<rparr>)) :: nat)"
proof -
  have "unat n \<le> unat (high a) - unat (low a)" "unat (low a) \<le> unat (high a)"
    using assms by (simp_all add: area_ok_def area_size_def word_le_nat_alt unat_minus_le)
  moreover from this have "unat (low a + n) = unat (low a) + unat n"
    using unat_lt32 [of "high a"] by (intro unat_plus_nowrap) simp
  ultimately show "area_ok (block (low a) n)" "area_ok (a\<lparr>low := low a + n\<rparr>)"
    and "of_bool (x \<in> area_addrs a)
      = of_bool (x \<in> area_addrs (block (low a) n)) + (of_bool (x \<in> area_addrs (a\<lparr>low := low a + n\<rparr>)) :: nat)"
    by (auto simp: area_ok_def block_def area_addrs_def word_le_nat_alt)
qed

lemma first_fit_cover:
  "first_fit 0 n as = Some (p, as') \<Longrightarrow> list_all area_ok as
   \<Longrightarrow> area_ok (block p n) \<and> list_all area_ok as' \<and> length as' = length as
     \<and> p \<in> low ` set as \<and> (\<forall>x. cover as x = of_bool (x \<in> area_addrs (block p n)) + cover as' x)"
proof (induction as arbitrary: as')
  case Nil
  then show ?case by simp
next
  case (Cons a as)
  show ?case
  proof (cases "n \<le> area_size a")
    case True
    then show ?thesis
      using Cons.prems cut_area [OF _ True] by (auto simp: next_unit_def)
  next
    case False
    with Cons.prems obtain r where r: "first_fit 0 n as = Some (p, r)" "as' = a # r"
      by auto
    have "area_ok (block p n) \<and> list_all area_ok r \<and> length r = length as
     \<and> p \<in> low ` set as \<and> (\<forall>x. cover as x = of_bool (x \<in> area_addrs (block p n)) + cover r x)"
      using Cons.IH [OF r(1)] Cons.prems by simp
    with Cons.prems r show ?thesis by simp
  qed
qed

subsection \<open>The table of live blocks\<close>

definition alloc_area :: "alloc \<Rightarrow> memory_area" where
  "alloc_area a = block (a_addr a) (a_size a)"

definition live_blocks :: "alloc list \<Rightarrow> memory_area list" where
  "live_blocks as = map alloc_area (filter (\<lambda>a. a_addr a \<noteq> 0) as)"

definition slot_cover :: "alloc \<Rightarrow> nat \<Rightarrow> nat" where
  "slot_cover a n = (if a_addr a \<noteq> 0 then of_bool (n \<in> area_addrs (alloc_area a)) else 0)"

lemma cover_live_blocks: "cover (live_blocks as) n = sum_list (map (\<lambda>a. slot_cover a n) as)"
  by (induction as) (simp_all add: live_blocks_def slot_cover_def)

lemma sum_list_map_update:
  fixes g :: "'a \<Rightarrow> nat"
  assumes "f < length as"
  shows "sum_list (map g (as[f := x])) + g (as ! f) = sum_list (map g as) + g x"
  using assms by (induction as arbitrary: f) (auto split: nat.splits)

lemma cover_live_update:
  assumes "f < length as"
  shows "cover (live_blocks (as[f := x])) n + slot_cover (as ! f) n
    = cover (live_blocks as) n + slot_cover x n"
  using sum_list_map_update [OF assms, of "\<lambda>a. slot_cover a n" x]
  by (simp add: cover_live_blocks)

lemma next_free_le: "i \<le> length as \<Longrightarrow> next_free as i \<le> length as"
  using length_takeWhile_le [of "\<lambda>a. a_addr a \<noteq> 0" "drop i as"]
  by (simp add: next_free_def)

lemma next_free_addr:
  assumes "i \<le> length as" "next_free as i < length as"
  shows "a_addr (as ! next_free as i) = 0"
proof -
  let ?P = "\<lambda>a. a_addr a \<noteq> 0"
  have "length (takeWhile ?P (drop i as)) < length (drop i as)"
    using assms by (simp add: next_free_def)
  then have "\<not> ?P (drop i as ! length (takeWhile ?P (drop i as)))"
    by (rule nth_length_takeWhile)
  with assms show ?thesis by (simp add: next_free_def)
qed

lemma find_alloc_Some:
  "find_alloc p as = Some i \<Longrightarrow> i < length as \<and> a_addr (as ! i) = p"
  by (induction as arbitrary: i) (auto split: if_splits)

lemma find_alloc_None: "find_alloc p as = None \<longleftrightarrow> p \<notin> a_addr ` set as"
  by (induction as) auto

subsection \<open>The invariant of the policy and what its operations do to it\<close>

definition simple_inv :: "simple \<Rightarrow> bool" where
  "simple_inv s \<longleftrightarrow>
     list_all area_ok (areas s) \<and> 0 \<notin> low ` set (areas s) \<and> length (areas s) \<le> max_areas
   \<and> list_all area_ok (live_blocks (allocs s))
   \<and> (case first_free_alloc s of None \<Rightarrow> True
      | Some f \<Rightarrow> f < length (allocs s) \<and> a_addr (allocs s ! f) = 0)"

definition simple_total :: "simple \<Rightarrow> nat \<Rightarrow> nat" where
  "simple_total s n = cover (areas s) n + cover (live_blocks (allocs s)) n"

lemma simple_inv_init: "simple_inv simple_init"
  by (simp add: simple_inv_def simple_init_def live_blocks_def allocs_size_def max_areas_def
      filter_replicate)

lemma area_ok_live_update:
  "list_all area_ok (live_blocks as) \<Longrightarrow> (a_addr x \<noteq> 0 \<Longrightarrow> area_ok (alloc_area x))
   \<Longrightarrow> list_all area_ok (live_blocks (as[f := x]))"
  by (auto simp: live_blocks_def list_all_iff dest!: set_update_subset_insert [THEN subsetD])

lemma first_fit_low:
  "first_fit 0 n as = Some (p, as') \<Longrightarrow> list_all area_ok as \<Longrightarrow> 0 \<notin> low ` set as
   \<Longrightarrow> 0 \<notin> low ` set as'"
proof (induction as arbitrary: as')
  case Nil
  then show ?case by simp
next
  case (Cons a as)
  show ?case
  proof (cases "n \<le> area_size a")
    case True
    have "low a \<le> low a + n"
      using cut_area(1) [OF _ True] Cons.prems by (simp add: area_ok_def block_def)
    then have "low a + n \<noteq> 0"
      using Cons.prems by (auto simp: word_le_nat_alt unat_eq_0)
    then show ?thesis using True Cons.prems by (auto simp: next_unit_def)
  next
    case False
    with Cons show ?thesis by auto
  qed
qed

text \<open>With no allocation unit, the policy simple conserves memory on every
  allocation: each address is covered by the free areas and the live blocks
  together exactly as often after the call as before, the returned block is added
  to the live ones, and the invariant is kept. In particular no address is ever in
  two live blocks, or both free and live, if it was not at the start.\<close>

theorem simple_malloc_conserves:
  assumes "simple_inv s" and "simple_malloc 0 n s = (p, s')"
  shows "simple_inv s' \<and> simple_total s' = simple_total s
    \<and> (p \<noteq> 0 \<longrightarrow> (\<forall>x. cover (live_blocks (allocs s')) x
         = of_bool (x \<in> area_addrs (block p n)) + cover (live_blocks (allocs s)) x))"
proof (cases "first_free_alloc s")
  case None
  then show ?thesis using assms by (simp add: simple_malloc_def)
next
  case (Some f)
  note f = Some
  show ?thesis
  proof (cases "first_fit 0 n (areas s)")
    case None
    then show ?thesis using assms f by (simp add: simple_malloc_def straight_malloc_def)
  next
    case (Some r)
    then obtain q as' where ff: "first_fit 0 n (areas s) = Some (q, as')" by (cases r) auto
    have inv: "list_all area_ok (areas s)" "0 \<notin> low ` set (areas s)" "f < length (allocs s)"
      "a_addr (allocs s ! f) = 0" "length (areas s) \<le> max_areas"
      "list_all area_ok (live_blocks (allocs s))"
      using assms(1) f by (simp_all add: simple_inv_def)
    note c = first_fit_cover [OF ff inv(1)]
    let ?x = "\<lparr>a_addr = q, a_size = n\<rparr>"
    let ?as = "(allocs s)[f := ?x]"
    have q: "q \<noteq> 0" using c inv(2) by auto
    then have s': "p = q" "areas s' = as'" "allocs s' = ?as"
      "first_free_alloc s' = (if next_free ?as (Suc f) = length (allocs s) then None
         else Some (next_free ?as (Suc f)))"
      using assms(2) f ff by (auto simp: simple_malloc_def straight_malloc_def Let_def)
    have live: "cover (live_blocks ?as) y
        = of_bool (y \<in> area_addrs (block q n)) + cover (live_blocks (allocs s)) y" for y
      using cover_live_update [OF inv(3), of ?x y] inv(4) q
      by (simp add: slot_cover_def alloc_area_def)
    have "next_free ?as (Suc f) \<le> length (allocs s)"
      using next_free_le [of "Suc f" ?as] inv(3) by simp
    then have "case first_free_alloc s' of None \<Rightarrow> True
        | Some f' \<Rightarrow> f' < length (allocs s') \<and> a_addr (allocs s' ! f') = 0"
      using next_free_addr [of "Suc f" ?as] inv(3) s' by simp
    moreover have "list_all area_ok (live_blocks ?as)"
      using inv(6) c by (intro area_ok_live_update) (simp_all add: alloc_area_def)
    ultimately have "simple_inv s'"
      using c s' inv first_fit_low [OF ff inv(1,2)] by (simp add: simple_inv_def)
    moreover have "simple_total s' = simple_total s"
      using c live s' by (auto simp: simple_total_def)
    ultimately show ?thesis using live s' by simp
  qed
qed

theorem simple_malloc_conserves_witness:
  "fst (simple_malloc 0 16 \<lparr>areas = [\<lparr>low = 0x1000, high = 0x2000\<rparr>],
      allocs = [\<lparr>a_addr = 0, a_size = 0\<rparr>, \<lparr>a_addr = 0, a_size = 0\<rparr>], first_free_alloc = Some 0\<rparr>) = 0x1000
   \<and> simple_inv (snd (simple_malloc 0 16 \<lparr>areas = [\<lparr>low = 0x1000, high = 0x2000\<rparr>],
      allocs = [\<lparr>a_addr = 0, a_size = 0\<rparr>, \<lparr>a_addr = 0, a_size = 0\<rparr>], first_free_alloc = Some 0\<rparr>))"
proof -
  let ?s = "\<lparr>areas = [\<lparr>low = 0x1000, high = 0x2000\<rparr>],
      allocs = [\<lparr>a_addr = 0, a_size = 0\<rparr>, \<lparr>a_addr = 0, a_size = 0\<rparr>], first_free_alloc = Some 0\<rparr>"
  have "simple_inv ?s"
    by (simp add: simple_inv_def area_ok_def live_blocks_def max_areas_def)
  from simple_malloc_conserves [OF this, of 16 "fst (simple_malloc 0 16 ?s)" "snd (simple_malloc 0 16 ?s)"]
  show ?thesis
    by (simp add: simple_malloc_def straight_malloc_def area_size_def next_free_def Let_def)
qed

text \<open>Returning a live block conserves memory as well while the array of free
  areas has room; when all ten areas are in use the block leaves the table of live
  blocks but reaches no area, so its addresses are lost, and never duplicated.\<close>

theorem simple_free_conserves:
  assumes "simple_inv s" and "p \<noteq> 0" and "simple_free p s = (True, s')"
  shows "simple_inv s'
    \<and> (length (areas s) < max_areas \<longrightarrow> simple_total s' = simple_total s)
    \<and> (length (areas s) = max_areas \<longrightarrow> areas s' = areas s)
    \<and> (\<forall>x. simple_total s' x \<le> simple_total s x)"
proof -
  obtain i where fi: "find_alloc p (allocs s) = Some i"
    using assms(2,3) by (auto simp: simple_free_def split: option.splits)
  note i = find_alloc_Some [OF fi]
  let ?ma = "\<lparr>low = p, high = p + a_size (allocs s ! i)\<rparr>"
  let ?x = "(allocs s ! i)\<lparr>a_addr := 0\<rparr>"
  let ?as = "if length (areas s) \<noteq> max_areas then merge_areas (areas s @ [?ma]) else areas s"
  have s': "areas s' = ?as" "allocs s' = (allocs s)[i := ?x]"
    "first_free_alloc s' = (case first_free_alloc s of None \<Rightarrow> None
       | Some f \<Rightarrow> if f > i then Some i else Some f)"
    using assms(2,3) fi by (auto simp: simple_free_def Let_def)
  have inv: "list_all area_ok (areas s)" "0 \<notin> low ` set (areas s)"
    "length (areas s) \<le> max_areas" "list_all area_ok (live_blocks (allocs s))"
    using assms(1) by (simp_all add: simple_inv_def)
  have ma: "?ma = alloc_area (allocs s ! i)"
    using i by (simp add: alloc_area_def block_def)
  have ok: "area_ok ?ma"
    using inv(4) i assms(2) unfolding ma by (auto simp: live_blocks_def list_all_iff)
  have live: "cover (live_blocks (allocs s')) x + of_bool (x \<in> area_addrs ?ma)
      = cover (live_blocks (allocs s)) x" for x
    using cover_live_update [of i "allocs s" ?x x] i assms(2) unfolding s' ma
    by (simp add: slot_cover_def)
  have merged: "list_all area_ok (merge_areas (areas s @ [?ma]))"
    "cover (merge_areas (areas s @ [?ma])) x = cover (areas s) x + of_bool (x \<in> area_addrs ?ma)" for x
    using merge_areas_cover [of "areas s @ [?ma]"] inv(1) ok by simp_all
  have "0 \<notin> low ` set (merge_areas (areas s @ [?ma]))"
    using merge_areas_low [of "areas s @ [?ma]"] inv(2) assms(2) by auto
  moreover have "length (merge_areas (areas s @ [?ma])) \<le> Suc (length (areas s))"
    using merge_areas_length [of "areas s @ [?ma]"] by simp
  moreover have "list_all area_ok (live_blocks (allocs s'))"
    unfolding s' by (intro area_ok_live_update inv(4)) simp
  moreover have "case first_free_alloc s' of None \<Rightarrow> True
      | Some f \<Rightarrow> f < length (allocs s') \<and> a_addr (allocs s' ! f) = 0"
    using assms(1) i by (auto simp: s' simple_inv_def nth_list_update split: option.splits)
  ultimately have "simple_inv s'"
    using merged inv by (auto simp: simple_inv_def s'(1))
  moreover have "simple_total s' x = simple_total s x" if "length (areas s) < max_areas" for x
    using that live [of x] merged(2) [of x] by (simp add: simple_total_def s'(1))
  moreover have "simple_total s' x \<le> simple_total s x" for x
    using live [of x] merged(2) [of x] by (simp add: simple_total_def s'(1))
  ultimately show ?thesis by (auto simp: s'(1) fun_eq_iff)
qed

theorem simple_free_conserves_witness:
  "simple_inv \<lparr>areas = [\<lparr>low = 0x1000, high = 0x2000\<rparr>],
      allocs = [\<lparr>a_addr = 0, a_size = 16\<rparr>], first_free_alloc = None\<rparr>"
proof -
  let ?s = "\<lparr>areas = [\<lparr>low = 0x1010, high = 0x2000\<rparr>],
      allocs = [\<lparr>a_addr = 0x1000, a_size = 16\<rparr>], first_free_alloc = None\<rparr>"
  have "simple_inv ?s"
    by (simp add: simple_inv_def area_ok_def live_blocks_def alloc_area_def block_def max_areas_def)
  from simple_free_conserves [OF this, of "0x1000" "snd (simple_free 0x1000 ?s)"]
  show ?thesis
    by (simp add: simple_free_def combine_def max_areas_def Let_def)
qed

section \<open>An exhausted table stays exhausted\<close>

datatype simple_op = Malloc u32 | Free ptr

fun simple_run :: "u32 \<Rightarrow> simple_op list \<Rightarrow> simple \<Rightarrow> ptr list \<times> simple" where
  "simple_run unit [] s = ([], s)"
| "simple_run unit (Malloc n # ops) s =
     (let (p, s1) = simple_malloc unit n s; (ps, s2) = simple_run unit ops s1 in (p # ps, s2))"
| "simple_run unit (Free p # ops) s =
     (let (b, s1) = simple_free p s in simple_run unit ops s1)"

lemma simple_free_stuck:
  "first_free_alloc s = None \<Longrightarrow> first_free_alloc (snd (simple_free p s)) = None"
  by (simp add: simple_free_def Let_def split: option.splits)

lemma simple_malloc_stuck:
  "first_free_alloc s = None \<Longrightarrow> simple_malloc unit n s = (0, s)"
  by (simp add: simple_malloc_def)

text \<open>Once the table of live blocks has been filled (the pointer to the first
  free slot is null), the policy never allocates again, whatever is returned in
  between: free only moves the pointer back when it compares greater than the
  freed slot, and null never does.\<close>

theorem simple_exhausted_forever:
  assumes "first_free_alloc s = None" and "simple_run unit ops s = (ps, s')"
  shows "first_free_alloc s' = None \<and> set ps \<subseteq> {0}"
  using assms
proof (induction ops arbitrary: s ps)
  case Nil
  then show ?case by simp
next
  case (Cons oper ops)
  show ?case
  proof (cases oper)
    case (Malloc n)
    then obtain qs where "simple_run unit ops s = (qs, s')" "ps = 0 # qs"
      using Cons.prems by (auto simp: simple_malloc_stuck Let_def split: prod.splits)
    with Cons.IH [OF Cons.prems(1)] show ?thesis by simp
  next
    case (Free p)
    then show ?thesis
      using Cons.prems(2) Cons.IH [of "snd (simple_free p s)" ps]
        simple_free_stuck [OF Cons.prems(1), of p]
      by (simp add: Let_def split_def)
  qed
qed

theorem simple_exhausted_forever_witness:
  "fst (simple_run 0 [Free 0x1000, Malloc 4] \<lparr>areas = [\<lparr>low = 0x1010, high = 0x2000\<rparr>],
      allocs = [\<lparr>a_addr = 0x1000, a_size = 16\<rparr>], first_free_alloc = None\<rparr>) = [0]"
proof -
  let ?s = "\<lparr>areas = [\<lparr>low = 0x1010, high = 0x2000\<rparr>],
      allocs = [\<lparr>a_addr = 0x1000, a_size = 16\<rparr>], first_free_alloc = None\<rparr>"
  have "length (fst (simple_run 0 [Free 0x1000, Malloc 4] ?s)) = 1"
    by (simp add: Let_def split_def)
  moreover have "set (fst (simple_run 0 [Free 0x1000, Malloc 4] ?s)) \<subseteq> {0}"
    using simple_exhausted_forever [of ?s "0" "[Free 0x1000, Malloc 4]"
      "fst (simple_run 0 [Free 0x1000, Malloc 4] ?s)" "snd (simple_run 0 [Free 0x1000, Malloc 4] ?s)"]
    by simp
  ultimately show ?thesis by (auto simp: length_Suc_conv)
qed

section \<open>Allocation units\<close>

text \<open>With an allocation unit, straight::malloc moves the start of the area to
  the unit after the end of the block even where the end is aligned already. A
  block that uses up an aligned area therefore leaves the area with its start past
  its end, whose size wraps around, and the next request is served from memory
  beyond the area.\<close>

theorem straight_malloc_leaves_area:
  assumes "unit \<noteq> 0" and "area_ok a" and "high a mod unit = 0" and "high a < high a + unit"
    and "m \<le> - unit"
  shows "let (p, s1) = straight_malloc unit (area_size a) \<lparr>areas = [a]\<rparr>;
             (q, s2) = straight_malloc unit m s1
         in p = low a \<and> q = high a + unit \<and> unat q \<notin> area_addrs a"
proof -
  have "low a + area_size a = high a" by (simp add: area_size_def)
  with assms show ?thesis
    by (simp add: straight_malloc_def next_unit_def area_size_def area_addrs_def
        word_less_nat_alt)
qed

theorem straight_malloc_leaves_area_witness:
  "fst (straight_malloc 0x1000 4
     (snd (straight_malloc 0x1000 0x1000 \<lparr>areas = [\<lparr>low = 0x10000, high = 0x11000\<rparr>]\<rparr>))) = 0x12000"
  using straight_malloc_leaves_area [of "0x1000" "\<lparr>low = 0x10000, high = 0x11000\<rparr>" 4]
  by (simp add: area_ok_def area_size_def Let_def split_def)

end
