(* ===== verification/Round_Robin.thy ===== *)
theory Round_Robin
  imports Kern_Prelude "HOL-Library.Multiset"
begin

text \<open>
  The scheduling strategy round_robin
  (kern/include/scheduler/policies/round_robin.hpp): a singly linked list of ready
  processes with a pointer to the current one, and two further lists for inactive
  and blocked processes. The list cells are objects on the heap; the model keeps
  one store of cells per list, so that a deleted cell and a pointer left behind to
  it can be told apart from a live one. Processes are opaque pointers here.
\<close>

section \<open>State\<close>

record plist_cell =
  pl_next :: ptr
  pl_process :: ptr

type_synonym cell_store = "ptr \<Rightarrow> plist_cell option"

record round_robin =
  list_head :: ptr
  inactive_list_head :: ptr
  blocked_list_head :: ptr
  rr_cur :: ptr
  ready_cells :: cell_store
  inactive_cells :: cell_store
  blocked_cells :: cell_store

definition round_robin_new :: round_robin where
  "round_robin_new = \<lparr>list_head = 0, inactive_list_head = 0, blocked_list_head = 0, rr_cur = 0,
     ready_cells = Map.empty, inactive_cells = Map.empty, blocked_cells = Map.empty\<rparr>"

text \<open>Reading through a pointer to a cell.\<close>

definition cell_at :: "cell_store \<Rightarrow> ptr \<Rightarrow> plist_cell result" where
  "cell_at st p =
     (if p = 0 then Inl Null_deref
      else case st p of None \<Rightarrow> Inl Wild_access | Some c \<Rightarrow> Inr c)"

section \<open>Operations\<close>

definition get_current_process :: "round_robin \<Rightarrow> ptr result" where
  "get_current_process s =
     (if rr_cur s \<noteq> 0
      then bind_result (cell_at (ready_cells s) (rr_cur s)) (\<lambda>c. Inr (pl_process c))
      else Inr 0)"

definition get_next_process :: "round_robin \<Rightarrow> (ptr \<times> round_robin) result" where
  "get_next_process s =
     (if rr_cur s \<noteq> 0
      then bind_result (cell_at (ready_cells s) (rr_cur s)) (\<lambda>c.
        let cur' = (if pl_next c \<noteq> 0 then pl_next c else list_head s);
            s' = s\<lparr>rr_cur := cur'\<rparr>
        in if cur' \<noteq> 0
           then bind_result (cell_at (ready_cells s) cur') (\<lambda>c'. Inr (pl_process c', s'))
           else Inr (0, s'))
      else Inr (0, s))"

text \<open>
  \<open>pl\<close> is the address \<open>new\<close> returns for the cell; it is 0 when there is no memory.
\<close>

definition push_new :: "ptr \<Rightarrow> ptr \<Rightarrow> round_robin \<Rightarrow> round_robin" where
  "push_new pl process s =
     (if pl \<noteq> 0
      then s\<lparr>ready_cells := (ready_cells s)(pl \<mapsto> \<lparr>pl_next = list_head s, pl_process = process\<rparr>),
             rr_cur := (if rr_cur s = 0 then (if list_head s \<noteq> 0 then list_head s else pl)
                        else rr_cur s),
             list_head := pl\<rparr>
      else s)"

partial_function (option) find_process ::
  "cell_store \<Rightarrow> ptr \<Rightarrow> ptr \<Rightarrow> ptr \<Rightarrow> (ptr \<times> ptr) result option" where
  "find_process st process cur prev =
     (if cur = 0 then Some (Inr (0, prev))
      else case st cur of
        None \<Rightarrow> Some (Inl Wild_access)
      | Some c \<Rightarrow>
          if pl_process c \<noteq> process then find_process st process (pl_next c) cur
          else Some (Inr (cur, prev)))"

definition unlink :: "ptr \<Rightarrow> ptr \<Rightarrow> plist_cell \<Rightarrow> round_robin \<Rightarrow> round_robin result" where
  "unlink cur prev c s =
     (if prev \<noteq> 0
      then bind_result (cell_at (ready_cells s) prev) (\<lambda>p.
        Inr (s\<lparr>ready_cells := (ready_cells s)(prev \<mapsto> p\<lparr>pl_next := pl_next c\<rparr>)\<rparr>))
      else if cur = list_head s then Inr (s\<lparr>list_head := pl_next c\<rparr>)
      else Inr s)"

definition remove_process :: "ptr \<Rightarrow> round_robin \<Rightarrow> (ptr \<times> round_robin) result option" where
  "remove_process process s =
     (case find_process (ready_cells s) process (list_head s) 0 of
        None \<Rightarrow> None
      | Some (Inl e) \<Rightarrow> Some (Inl e)
      | Some (Inr (cur, prev)) \<Rightarrow>
          Some
            (if cur = 0 then Inr (0, s)
             else bind_result (cell_at (ready_cells s) cur) (\<lambda>c.
               bind_result (unlink cur prev c s) (\<lambda>s1.
                 Inr (pl_process c, s1\<lparr>ready_cells := (ready_cells s1)(cur := None)\<rparr>)))))"

definition ticks_between_reschedulings :: u64 where
  "ticks_between_reschedulings = 1000"

definition move_to_inactive :: "ptr \<Rightarrow> ptr \<Rightarrow> round_robin \<Rightarrow> round_robin result" where
  "move_to_inactive aux process s =
     (if aux = 0 then Inl Null_deref
      else Inr (s\<lparr>inactive_cells := (inactive_cells s)(aux \<mapsto>
                    \<lparr>pl_next = inactive_list_head s, pl_process = process\<rparr>),
                  inactive_list_head := aux\<rparr>))"

definition move_to_blocked :: "ptr \<Rightarrow> ptr \<Rightarrow> round_robin \<Rightarrow> round_robin result" where
  "move_to_blocked aux process s =
     (if aux = 0 then Inl Null_deref
      else Inr (s\<lparr>blocked_cells := (blocked_cells s)(aux \<mapsto>
                    \<lparr>pl_next = blocked_list_head s, pl_process = process\<rparr>),
                  blocked_list_head := aux\<rparr>))"

text \<open>
  The search in remove_from_blocked goes on while the process \<^emph>\<open>is\<close> the one asked for.
  The test after it names \<open>cur\<close>, the current cell of the ready list, and is an
  assignment to its process.
\<close>

partial_function (option) skip_blocked ::
  "cell_store \<Rightarrow> ptr \<Rightarrow> ptr \<Rightarrow> ptr \<Rightarrow> (ptr \<times> ptr) result option" where
  "skip_blocked st process aux prev =
     (if aux = 0 then Some (Inr (0, prev))
      else case st aux of
        None \<Rightarrow> Some (Inl Wild_access)
      | Some c \<Rightarrow>
          if pl_process c = process then skip_blocked st process (pl_next c) aux
          else Some (Inr (aux, prev)))"

definition assign_current :: "ptr \<Rightarrow> round_robin \<Rightarrow> (bool \<times> round_robin) result" where
  "assign_current process s =
     (if rr_cur s = 0 then Inr (False, s)
      else bind_result (cell_at (ready_cells s) (rr_cur s)) (\<lambda>c.
        Inr (process \<noteq> 0, s\<lparr>ready_cells := (ready_cells s)(rr_cur s \<mapsto> c\<lparr>pl_process := process\<rparr>)\<rparr>)))"

definition unlink_blocked :: "ptr \<Rightarrow> ptr \<Rightarrow> round_robin \<Rightarrow> (ptr \<times> round_robin) result" where
  "unlink_blocked aux prev s =
     (let next_of = bind_result (cell_at (blocked_cells s) aux) (\<lambda>c. Inr (pl_next c))
      in bind_result
           (if prev \<noteq> 0
            then bind_result next_of (\<lambda>n. bind_result (cell_at (blocked_cells s) prev) (\<lambda>p.
              Inr (s\<lparr>blocked_cells := (blocked_cells s)(prev \<mapsto> p\<lparr>pl_next := n\<rparr>)\<rparr>)))
            else if aux = blocked_list_head s
            then bind_result next_of (\<lambda>n. Inr (s\<lparr>blocked_list_head := n\<rparr>))
            else Inr s)
           (\<lambda>s1. bind_result (cell_at (blocked_cells s1) aux) (\<lambda>c.
              Inr (pl_process c, s1\<lparr>blocked_cells := (blocked_cells s1)(aux := None)\<rparr>))))"

definition remove_from_blocked :: "ptr \<Rightarrow> round_robin \<Rightarrow> (ptr \<times> round_robin) result option" where
  "remove_from_blocked process s =
     (case skip_blocked (blocked_cells s) process (blocked_list_head s) 0 of
        None \<Rightarrow> None
      | Some (Inl e) \<Rightarrow> Some (Inl e)
      | Some (Inr (aux, prev)) \<Rightarrow>
          Some (bind_result (assign_current process s) (\<lambda>(b, s1).
            if b then unlink_blocked aux prev s1 else Inr (0, s1))))"


section \<open>Linked cells\<close>

text \<open>\<open>chain st p ns e\<close>: from \<open>p\<close> the cells at the addresses \<open>ns\<close> lead to \<open>e\<close>.\<close>

fun chain :: "cell_store \<Rightarrow> ptr \<Rightarrow> ptr list \<Rightarrow> ptr \<Rightarrow> bool" where
  "chain st p [] e \<longleftrightarrow> p = e"
| "chain st p (n # ns) e \<longleftrightarrow> p = n \<and> n \<noteq> 0 \<and> (\<exists>c. st n = Some c \<and> chain st (pl_next c) ns e)"

lemma chain_append:
  "chain st p (xs @ ys) e \<longleftrightarrow> (\<exists>m. chain st p xs m \<and> chain st m ys e)"
  by (induction xs arbitrary: p) auto

lemma chain_cong:
  "(\<And>n. n \<in> set ns \<Longrightarrow> st' n = st n) \<Longrightarrow> chain st' p ns e = chain st p ns e"
  by (induction ns arbitrary: p) auto

lemma chain_upd: "n \<notin> set ns \<Longrightarrow> chain (st(n := v)) p ns e = chain st p ns e"
  by (rule chain_cong) auto

lemma chain_live: "chain st p ns e \<Longrightarrow> n \<in> set ns \<Longrightarrow> n \<noteq> 0 \<and> st n \<noteq> None"
  by (induction ns arbitrary: p) auto

lemma chain_snoc:
  "chain st p (xs @ [n]) e \<longleftrightarrow>
    (\<exists>c. chain st p xs n \<and> n \<noteq> 0 \<and> st n = Some c \<and> pl_next c = e)"
  by (auto simp: chain_append)

text \<open>Redirecting the last cell of a part of the list.\<close>

lemma chain_relink:
  assumes "chain st p (xs @ [n]) m" "distinct (xs @ [n])" "st n = Some c"
  shows "chain (st(n \<mapsto> c\<lparr>pl_next := e\<rparr>)) p (xs @ [n]) e"
  using assms by (auto simp: chain_snoc chain_upd)

definition process_at :: "cell_store \<Rightarrow> ptr \<Rightarrow> ptr" where
  "process_at st n = (case st n of None \<Rightarrow> 0 | Some c \<Rightarrow> pl_process c)"

text \<open>
  The abstract value: the processes in the order in which they will run, the
  current one first. The list is split at the current cell.
\<close>

definition rr_split :: "round_robin \<Rightarrow> ptr list \<Rightarrow> ptr list \<Rightarrow> bool" where
  "rr_split s xs ys \<longleftrightarrow> chain (ready_cells s) (list_head s) (xs @ ys) 0 \<and> distinct (xs @ ys)
     \<and> rr_cur s = (case ys of [] \<Rightarrow> 0 | c # _ \<Rightarrow> c) \<and> (ys = [] \<longrightarrow> xs = [])"

definition rr_rep :: "round_robin \<Rightarrow> ptr list \<Rightarrow> bool" where
  "rr_rep s qs \<longleftrightarrow> (\<exists>xs ys. rr_split s xs ys \<and> qs = map (process_at (ready_cells s)) (ys @ xs))"

lemma rr_repI:
  "rr_split s xs ys \<Longrightarrow> map (process_at (ready_cells s)) (ys @ xs) = qs \<Longrightarrow> rr_rep s qs"
  by (auto simp: rr_rep_def)

lemma rr_rep_new: "rr_rep round_robin_new []"
  by (auto simp: rr_rep_def rr_split_def round_robin_new_def)

lemma rr_rep_Nil: "rr_rep s [] \<Longrightarrow> rr_cur s = 0 \<and> list_head s = 0"
  by (auto simp: rr_rep_def rr_split_def)

lemma rr_rep_Cons:
  assumes "rr_rep s (p # qs)"
  obtains xs c zs where "rr_split s xs (c # zs)" "p = process_at (ready_cells s) c"
    "qs = map (process_at (ready_cells s)) (zs @ xs)"
proof -
  obtain xs ys where sp: "rr_split s xs ys" "p # qs = map (process_at (ready_cells s)) (ys @ xs)"
    using assms by (auto simp: rr_rep_def)
  then obtain c zs where "ys = c # zs" by (cases ys) (auto simp: rr_split_def)
  with sp that show ?thesis by auto
qed

lemma rr_current:
  "rr_rep s qs \<Longrightarrow> get_current_process s = Inr (case qs of [] \<Rightarrow> 0 | p # _ \<Rightarrow> p)"
proof (cases qs)
  case Nil
  moreover assume "rr_rep s qs"
  ultimately show ?thesis using rr_rep_Nil by (simp add: get_current_process_def)
next
  case (Cons p ps)
  moreover assume "rr_rep s qs"
  ultimately obtain xs c zs where "rr_split s xs (c # zs)" "p = process_at (ready_cells s) c"
    by (metis rr_rep_Cons)
  then show ?thesis
    using Cons by (auto simp: rr_split_def chain_append get_current_process_def cell_at_def process_at_def)
qed

lemma rr_next:
  assumes "rr_rep s (p # qs)"
  shows "\<exists>s'. get_next_process s = Inr (hd (qs @ [p]), s') \<and> rr_rep s' (qs @ [p])"
proof -
  obtain xs c zs where sp: "rr_split s xs (c # zs)" "p = process_at (ready_cells s) c"
    "qs = map (process_at (ready_cells s)) (zs @ xs)"
    using assms by (rule rr_rep_Cons)
  note S = sp(1) [unfolded rr_split_def]
  obtain cc where cc: "ready_cells s c = Some cc" "c \<noteq> 0" and zs: "chain (ready_cells s) (pl_next cc) zs 0"
    and xs: "chain (ready_cells s) (list_head s) xs c"
    using S by (auto simp: chain_append)
  show ?thesis
  proof (cases zs)
    case Nil
    let ?s = "s\<lparr>rr_cur := list_head s\<rparr>"
    have hd0: "list_head s \<noteq> 0" using xs cc by (cases xs) auto
    have "rr_split ?s [] (xs @ [c])"
      using S Nil xs by (auto simp: rr_split_def split: list.splits)
    then have rep: "rr_rep ?s (qs @ [p])"
      unfolding rr_rep_def using sp Nil by (intro exI [of _ "[]"] exI [of _ "xs @ [c]"]) simp
    have nx: "get_next_process s = bind_result (get_current_process ?s) (\<lambda>q. Inr (q, ?s))"
      using S Nil zs cc hd0
      by (cases "cell_at (ready_cells s) (list_head s)")
        (simp_all add: get_next_process_def get_current_process_def cell_at_def)
    show ?thesis using rep nx rr_current [OF rep] by (cases qs) auto
  next
    case (Cons d ds)
    let ?s = "s\<lparr>rr_cur := d\<rparr>"
    have d0: "d \<noteq> 0" "pl_next cc = d" using zs Cons by auto
    have "rr_split ?s (xs @ [c]) (d # ds)" using S Cons by (auto simp: rr_split_def)
    then have rep: "rr_rep ?s (qs @ [p])"
      unfolding rr_rep_def using sp Cons by (intro exI [of _ "xs @ [c]"] exI [of _ "d # ds"]) simp
    have nx: "get_next_process s = bind_result (get_current_process ?s) (\<lambda>q. Inr (q, ?s))"
      using S Cons d0 cc
      by (cases "cell_at (ready_cells s) d")
        (simp_all add: get_next_process_def get_current_process_def cell_at_def)
    show ?thesis using rep nx rr_current [OF rep] by (cases qs) auto
  qed
qed

lemma rr_next_empty: "rr_rep s [] \<Longrightarrow> get_next_process s = Inr (0, s)"
  using rr_rep_Nil by (simp add: get_next_process_def)

lemma map_process_upd: "n \<notin> set ns \<Longrightarrow> map (process_at (st(n := v))) ns = map (process_at st) ns"
  by (auto simp: process_at_def)

lemma rr_push:
  assumes "rr_rep s qs" "pl \<noteq> 0" "ready_cells s pl = None"
  shows "\<exists>as bs. qs = as @ bs \<and> (qs \<noteq> [] \<longrightarrow> as \<noteq> []) \<and> rr_rep (push_new pl p s) (as @ p # bs)"
proof -
  obtain xs ys where sp: "rr_split s xs ys" "qs = map (process_at (ready_cells s)) (ys @ xs)"
    using assms(1) by (auto simp: rr_rep_def)
  note S = sp(1) [unfolded rr_split_def]
  have fresh: "pl \<notin> set (xs @ ys)" using chain_live assms(3) S by blast
  let ?st = "(ready_cells s)(pl \<mapsto> \<lparr>pl_next = list_head s, pl_process = p\<rparr>)"
  have ch: "chain ?st pl (pl # xs @ ys) 0" using S fresh assms(2) by (simp add: chain_upd)
  have hd0: "list_head s = 0 \<longleftrightarrow> ys = []"
    using S by (cases xs; cases ys) auto
  show ?thesis
  proof (cases ys)
    case Nil
    then have "rr_split (push_new pl p s) [] [pl]"
      using S ch assms(2) hd0 by (simp add: rr_split_def push_new_def)
    then have "rr_rep (push_new pl p s) ([] @ p # [])"
      unfolding rr_rep_def
      by (intro exI [of _ "[]"] exI [of _ "[pl]"]) (simp add: push_new_def assms(2) process_at_def)
    moreover have "qs = []" using sp S Nil by simp
    ultimately show ?thesis by (intro exI [of _ "[]"]) simp
  next
    case (Cons c zs)
    have "rr_cur s = c" using S Cons by simp
    moreover have "c \<noteq> 0" using chain_live [of _ _ "xs @ ys"] S Cons by (metis in_set_conv_decomp)
    ultimately have c0: "rr_cur s \<noteq> 0" "rr_cur s = c" by simp_all
    have pn: "ready_cells (push_new pl p s) = ?st" "list_head (push_new pl p s) = pl"
      "rr_cur (push_new pl p s) = c"
      using c0 assms(2) by (simp_all add: push_new_def)
    have "rr_split (push_new pl p s) (pl # xs) ys"
      unfolding rr_split_def pn append_Cons using ch S fresh Cons by (simp only: list.case distinct.simps) simp
    moreover have "map (process_at ?st) (ys @ pl # xs)
        = map (process_at (ready_cells s)) ys @ p # map (process_at (ready_cells s)) xs"
      using fresh by (auto simp: process_at_def)
    ultimately have "rr_rep (push_new pl p s)
        (map (process_at (ready_cells s)) ys @ p # map (process_at (ready_cells s)) xs)"
      by (intro rr_repI [of _ "pl # xs" ys]) (simp_all only: pn(1))
    moreover have "qs = map (process_at (ready_cells s)) ys @ map (process_at (ready_cells s)) xs"
      using sp(2) by simp
    moreover have "map (process_at (ready_cells s)) ys \<noteq> []" using Cons by simp
    ultimately show ?thesis by blast
  qed
qed

section \<open>Removing a process\<close>

lemma find_process_skip:
  "chain st p pre m \<Longrightarrow> \<forall>n \<in> set pre. process_at st n \<noteq> proc \<Longrightarrow>
   find_process st proc p q = find_process st proc m (if pre = [] then q else last pre)"
proof (induction pre arbitrary: p q)
  case Nil
  then show ?case by simp
next
  case (Cons n pre)
  then obtain c where c: "p = n" "n \<noteq> 0" "st n = Some c" "chain st (pl_next c) pre m" by auto
  then have "find_process st proc p q = find_process st proc (pl_next c) n"
    using Cons.prems(2) by (subst find_process.simps) (simp add: process_at_def)
  with Cons.IH [OF c(4), of n] Cons.prems(2) show ?case by simp
qed

lemma find_process_absent:
  "chain st p ns 0 \<Longrightarrow> \<forall>n \<in> set ns. process_at st n \<noteq> proc \<Longrightarrow>
   \<exists>q'. find_process st proc p q = Some (Inr (0, q'))"
  by (simp add: find_process_skip) (simp add: find_process.simps [of st proc 0])

lemma remove_cell:
  assumes ch: "chain (ready_cells s) (list_head s) (pre @ n # post) 0"
    and d: "distinct (pre @ n # post)"
    and p: "process_at (ready_cells s) n = proc" "\<forall>m \<in> set pre. process_at (ready_cells s) m \<noteq> proc"
  shows "\<exists>s'. remove_process proc s = Some (Inr (proc, s'))
     \<and> chain (ready_cells s') (list_head s') (pre @ post) 0 \<and> rr_cur s' = rr_cur s
     \<and> ready_cells s' n = None
     \<and> (\<forall>m \<in> set (pre @ post). process_at (ready_cells s') m = process_at (ready_cells s) m)"
proof -
  let ?st = "ready_cells s"
  obtain c where pre: "chain ?st (list_head s) pre n" and c: "?st n = Some c" "n \<noteq> 0"
    and post: "chain ?st (pl_next c) post 0"
    using ch by (auto simp: chain_append)
  have pc: "pl_process c = proc" using p(1) c by (simp add: process_at_def)
  have "find_process ?st proc n q = Some (Inr (n, q))" for q
    using c pc by (subst find_process.simps) simp
  then have fp: "find_process ?st proc (list_head s) 0 = Some (Inr (n, if pre = [] then 0 else last pre))"
    using find_process_skip [OF pre p(2), of 0] by simp
  show ?thesis
  proof (cases pre rule: rev_cases)
    case Nil
    let ?s = "s\<lparr>list_head := pl_next c, ready_cells := ?st(n := None)\<rparr>"
    have "remove_process proc s = Some (Inr (proc, ?s))"
      using fp Nil pre c pc by (simp add: remove_process_def cell_at_def unlink_def)
    moreover have "chain (?st(n := None)) (pl_next c) post 0" using d post by (simp add: chain_upd)
    ultimately show ?thesis using Nil d
      by (intro exI [of _ ?s]) (auto simp: process_at_def)
  next
    case (snoc xs k)
    obtain ck where k: "?st k = Some ck" "k \<noteq> 0" using pre snoc by (auto simp: chain_append)
    have kn: "k \<noteq> n" using d snoc by auto
    let ?st1 = "?st(k \<mapsto> ck\<lparr>pl_next := pl_next c\<rparr>)"
    let ?s = "s\<lparr>ready_cells := ?st1(n := None)\<rparr>"
    have "remove_process proc s = Some (Inr (proc, ?s))"
      using fp snoc c k pc kn by (simp add: remove_process_def cell_at_def unlink_def)
    moreover have "chain ?st1 (list_head s) pre (pl_next c)"
      unfolding snoc by (rule chain_relink) (use pre snoc d k in auto)
    moreover have "chain ?st1 (pl_next c) post 0"
      by (subst chain_upd) (use post d snoc in auto)
    ultimately show ?thesis using k d kn
      by (intro exI [of _ ?s]) (auto simp: process_at_def chain_append chain_upd)
  qed
qed

lemma rr_remove:
  assumes "rr_rep s (c # qs)" "p \<in> set qs" "p \<noteq> c"
  shows "\<exists>s' as bs. qs = as @ p # bs \<and> remove_process p s = Some (Inr (p, s'))
     \<and> rr_rep s' (c # as @ bs)"
proof -
  let ?pr = "process_at (ready_cells s)"
  obtain xs n zs where sp: "rr_split s xs (n # zs)" "c = ?pr n" "qs = map ?pr (zs @ xs)"
    using assms(1) by (rule rr_rep_Cons)
  note S = sp(1) [unfolded rr_split_def]
  have keep: "rr_rep s' (c # map ?pr (zs' @ xs'))"
    if "chain (ready_cells s') (list_head s') (xs' @ n # zs') 0" "distinct (xs' @ n # zs')"
      "rr_cur s' = n" "\<forall>m \<in> set (xs' @ n # zs'). process_at (ready_cells s') m = ?pr m" for s' xs' zs'
  proof (rule rr_repI [of _ xs' "n # zs'"])
    show "rr_split s' xs' (n # zs')" using that by (simp add: rr_split_def)
    show "map (process_at (ready_cells s')) ((n # zs') @ xs') = c # map ?pr (zs' @ xs')"
      using that(4) sp(2) by simp
  qed
  show ?thesis
  proof (cases "p \<in> ?pr ` set xs")
    case True
    then obtain pre m x2 where x: "xs = pre @ m # x2" "?pr m = p" "\<forall>k \<in> set pre. ?pr k \<noteq> p"
      using split_list_first_prop [of xs "\<lambda>m. ?pr m = p"] by auto
    have "chain (ready_cells s) (list_head s) (pre @ m # (x2 @ n # zs)) 0"
      "distinct (pre @ m # (x2 @ n # zs))" using S x by simp_all
    from remove_cell [OF this x(2,3)] obtain s' where
      "remove_process p s = Some (Inr (p, s'))"
      "chain (ready_cells s') (list_head s') ((pre @ x2) @ n # zs) 0" "rr_cur s' = n"
      "\<forall>k \<in> set ((pre @ x2) @ n # zs). process_at (ready_cells s') k = ?pr k"
      using S by auto
    moreover from this keep [of s' "pre @ x2" zs] have "rr_rep s' (c # map ?pr (zs @ pre @ x2))"
      using S x by simp
    moreover have "qs = (map ?pr zs @ map ?pr pre) @ p # map ?pr x2" using sp(3) x by simp
    ultimately show ?thesis by (metis append.assoc map_append)
  next
    case False
    then have "p \<in> ?pr ` set zs" using assms(2) sp(3) by auto
    then obtain y1 m y2 where y: "zs = y1 @ m # y2" "?pr m = p" "\<forall>k \<in> set y1. ?pr k \<noteq> p"
      using split_list_first_prop [of zs "\<lambda>m. ?pr m = p"] by auto
    have "chain (ready_cells s) (list_head s) ((xs @ n # y1) @ m # y2) 0"
      "distinct ((xs @ n # y1) @ m # y2)" using S y by simp_all
    moreover have "\<forall>k \<in> set (xs @ n # y1). ?pr k \<noteq> p" using False y(3) assms(3) sp(2) by auto
    ultimately obtain s' where s': "remove_process p s = Some (Inr (p, s'))"
      "chain (ready_cells s') (list_head s') (xs @ n # (y1 @ y2)) 0" "rr_cur s' = n"
      "\<forall>k \<in> set (xs @ n # (y1 @ y2)). process_at (ready_cells s') k = ?pr k"
      using remove_cell [of s "xs @ n # y1" m y2 p] y(2) S by auto
    from keep [OF s'(2) _ s'(3,4)] have "rr_rep s' (c # map ?pr (y1 @ y2 @ xs))"
      using S y by simp
    moreover have "qs = map ?pr y1 @ p # map ?pr (y2 @ xs)" using sp(3) y by simp
    ultimately show ?thesis using s'(1) by (metis map_append)
  qed
qed

lemma rr_remove_absent:
  assumes "rr_rep s qs" "p \<notin> set qs"
  shows "remove_process p s = Some (Inr (0, s))"
proof -
  obtain xs ys where sp: "rr_split s xs ys" "qs = map (process_at (ready_cells s)) (ys @ xs)"
    using assms(1) by (auto simp: rr_rep_def)
  have "\<forall>n \<in> set (xs @ ys). process_at (ready_cells s) n \<noteq> p" using assms(2) sp(2) by auto
  then obtain q' where "find_process (ready_cells s) p (list_head s) 0 = Some (Inr (0, q'))"
    using find_process_absent sp(1) unfolding rr_split_def by blast
  then show ?thesis by (simp add: remove_process_def)
qed

lemma rr_remove_current:
  assumes "rr_rep s (p # qs)" "p \<notin> set qs"
  shows "\<exists>s'. remove_process p s = Some (Inr (p, s')) \<and> rr_cur s' \<noteq> 0
     \<and> ready_cells s' (rr_cur s') = None"
proof -
  let ?pr = "process_at (ready_cells s)"
  obtain xs n zs where sp: "rr_split s xs (n # zs)" "p = ?pr n" "qs = map ?pr (zs @ xs)"
    using assms(1) by (rule rr_rep_Cons)
  note S = sp(1) [unfolded rr_split_def]
  have "\<forall>k \<in> set xs. ?pr k \<noteq> p" using assms(2) sp(3) by auto
  moreover have "n \<noteq> 0" using S chain_live by (metis in_set_conv_decomp)
  ultimately show ?thesis using remove_cell [of s xs n zs p] S sp(2) by auto
qed

section \<open>The contract of a scheduling strategy\<close>

text \<open>
  kernel_cpp/policy_requirements/scheduler_strategy.txt says what the scheduler expects
  of a strategy. The abstract value is the list of the processes, the running one first.
\<close>

primrec iterate_next :: "('s \<Rightarrow> (ptr \<times> 's) result) \<Rightarrow> nat \<Rightarrow> 's \<Rightarrow> (ptr list \<times> 's) result" where
  "iterate_next nxt 0 s = Inr ([], s)"
| "iterate_next nxt (Suc k) s =
     bind_result (nxt s) (\<lambda>(p, s1). bind_result (iterate_next nxt k s1) (\<lambda>(ps, s2). Inr (p # ps, s2)))"

locale scheduling_strategy =
  fixes rep :: "'s \<Rightarrow> ptr list \<Rightarrow> bool"
    and current :: "'s \<Rightarrow> ptr result"
    and nxt :: "'s \<Rightarrow> (ptr \<times> 's) result"
    and push :: "ptr \<Rightarrow> ptr \<Rightarrow> 's \<Rightarrow> 's"
    and rm :: "ptr \<Rightarrow> 's \<Rightarrow> (ptr \<times> 's) result option"
    and fresh :: "ptr \<Rightarrow> 's \<Rightarrow> bool"
  assumes current_rep: "rep s qs \<Longrightarrow> current s = Inr (case qs of [] \<Rightarrow> 0 | p # _ \<Rightarrow> p)"
    and next_rep: "rep s (p # qs) \<Longrightarrow> \<exists>s'. nxt s = Inr (hd (qs @ [p]), s') \<and> rep s' (qs @ [p])"
    and next_empty: "rep s [] \<Longrightarrow> nxt s = Inr (0, s)"
    and push_rep: "rep s qs \<Longrightarrow> fresh a s \<Longrightarrow>
      \<exists>as bs. qs = as @ bs \<and> (qs \<noteq> [] \<longrightarrow> as \<noteq> []) \<and> rep (push a p s) (as @ p # bs)"
    and rm_rep: "rep s (c # qs) \<Longrightarrow> p \<in> set qs \<Longrightarrow> p \<noteq> c \<Longrightarrow>
      \<exists>s' as bs. qs = as @ p # bs \<and> rm p s = Some (Inr (p, s')) \<and> rep s' (c # as @ bs)"
    and rm_absent: "rep s qs \<Longrightarrow> p \<notin> set qs \<Longrightarrow> rm p s = Some (Inr (0, s))"
begin

lemma iterate_rep:
  "k \<le> length qs \<Longrightarrow> rep s qs \<Longrightarrow>
   \<exists>s'. iterate_next nxt k s = Inr (take k (rotate1 qs), s') \<and> rep s' (rotate k qs)"
proof (induction k arbitrary: s qs)
  case 0
  then show ?case by simp
next
  case (Suc k)
  then obtain p ps where qs: "qs = p # ps" by (cases qs) auto
  with Suc.prems next_rep obtain s1 where s1: "nxt s = Inr (hd (ps @ [p]), s1)" "rep s1 (ps @ [p])"
    by blast
  from Suc.IH [OF _ s1(2)] Suc.prems qs obtain s2 where
    "iterate_next nxt k s1 = Inr (take k (rotate1 (ps @ [p])), s2)" "rep s2 (rotate k (ps @ [p]))"
    by auto
  moreover have "take (Suc k) (ps @ [p]) = hd (ps @ [p]) # take k (rotate1 (ps @ [p]))"
    using Suc.prems qs by (cases ps) (auto simp: le_Suc_eq)
  ultimately show ?case
    using s1(1) qs by (auto simp: rotate1_rotate_swap)
qed

lemma full_round:
  "rep s qs \<Longrightarrow> \<exists>s'. iterate_next nxt (length qs) s = Inr (rotate1 qs, s') \<and> rep s' qs"
  using iterate_rep [of "length qs" qs s] by simp

lemma push_then_round:
  assumes "rep s qs" "fresh a s"
  shows "\<exists>ps s'. iterate_next nxt (Suc (length qs)) (push a p s) = Inr (ps, s')
    \<and> mset ps = add_mset p (mset qs) \<and> (qs \<noteq> [] \<longrightarrow> last ps = hd qs)"
proof -
  from push_rep [OF assms, of p] obtain as bs where q: "qs = as @ bs" "qs \<noteq> [] \<longrightarrow> as \<noteq> []"
    and r: "rep (push a p s) (as @ p # bs)" by blast
  from full_round [OF r] obtain s' where
    "iterate_next nxt (Suc (length qs)) (push a p s) = Inr (rotate1 (as @ p # bs), s')"
    using q(1) by auto
  moreover have "last (rotate1 (as @ p # bs)) = hd qs" if "qs \<noteq> []"
    using q that by (cases as) auto
  moreover have "mset (rotate1 (as @ p # bs)) = add_mset p (mset qs)"
    using q(1) by (cases as) simp_all
  ultimately show ?thesis by blast
qed

lemma remove_then_round:
  assumes "rep s (c # qs)" "p \<in> set qs" "p \<noteq> c"
  shows "\<exists>s' ps s''. rm p s = Some (Inr (p, s')) \<and> current s' = Inr c
    \<and> iterate_next nxt (length qs) s' = Inr (ps, s'') \<and> mset ps = mset (c # qs) - {#p#}"
proof -
  from rm_rep [OF assms] obtain s' as bs where q: "qs = as @ p # bs"
    "rm p s = Some (Inr (p, s'))" "rep s' (c # as @ bs)" by blast
  from full_round [OF q(3)] obtain s'' where
    it: "iterate_next nxt (length qs) s' = Inr (rotate1 (c # as @ bs), s'')"
    using q(1) by auto
  have "mset (rotate1 (c # as @ bs)) = mset (c # qs) - {#p#}" using q(1) by simp
  with it q(2) current_rep [OF q(3)] show ?thesis by auto
qed

end

definition rr_fresh :: "ptr \<Rightarrow> round_robin \<Rightarrow> bool" where
  "rr_fresh a s \<longleftrightarrow> a \<noteq> 0 \<and> ready_cells s a = None"

interpretation rrs: scheduling_strategy rr_rep get_current_process get_next_process push_new
  remove_process rr_fresh
proof unfold_locales
  show "rr_rep s qs \<Longrightarrow> rr_fresh a s \<Longrightarrow>
      \<exists>as bs. qs = as @ bs \<and> (qs \<noteq> [] \<longrightarrow> as \<noteq> []) \<and> rr_rep (push_new a p s) (as @ p # bs)"
    for s qs a p by (rule rr_push) (simp_all add: rr_fresh_def)
qed (rule rr_current rr_next rr_next_empty rr_remove rr_remove_absent; assumption)+

text \<open>C27: round_robin is fair. With \<open>n\<close> processes ready, \<open>n\<close> calls of get_next_process
  return every one of them exactly once, the running process last, no call faults, and
  the strategy is then where it was.\<close>

theorem round_robin_fair:
  assumes "rr_rep s qs"
  shows "\<exists>s'. iterate_next get_next_process (length qs) s = Inr (rotate1 qs, s') \<and> rr_rep s' qs
    \<and> get_current_process s' = get_current_process s"
proof -
  obtain s' where "iterate_next get_next_process (length qs) s = Inr (rotate1 qs, s')" "rr_rep s' qs"
    using rrs.full_round [OF assms] by blast
  with rrs.current_rep [OF assms] rrs.current_rep show ?thesis by metis
qed

text \<open>Push_new makes a process take part: the next round over one process more
  contains it once beside all others, and does not preempt the running process.\<close>

theorem push_new_scheduled:
  assumes "rr_rep s qs" and "a \<noteq> 0" and "ready_cells s a = None"
  shows "\<exists>ps s'. iterate_next get_next_process (Suc (length qs)) (push_new a p s) = Inr (ps, s')
    \<and> mset ps = add_mset p (mset qs) \<and> (qs \<noteq> [] \<longrightarrow> last ps = hd qs)"
  by (rule rrs.push_then_round) (use assms in \<open>simp_all add: rr_fresh_def\<close>)

text \<open>Remove takes a process that is not running out of the rounds and returns it;
  the running process stays, and all others are still scheduled.\<close>

theorem remove_unschedules:
  assumes "rr_rep s (c # qs)" and "p \<in> set qs" and "p \<noteq> c"
  shows "\<exists>s' ps s''. remove_process p s = Some (Inr (p, s')) \<and> get_current_process s' = Inr c
    \<and> iterate_next get_next_process (length qs) s' = Inr (ps, s'') \<and> mset ps = mset (c # qs) - {#p#}"
  by (rule rrs.remove_then_round [OF assms])

text \<open>Removing the running process deletes its cell and leaves \<open>cur\<close> pointing to it:
  every later look at the current or the next process reads freed memory.\<close>

theorem remove_current_dangles:
  assumes "rr_rep s (p # qs)" and "p \<notin> set qs"
  shows "\<exists>s'. remove_process p s = Some (Inr (p, s'))
    \<and> get_current_process s' = Inl Wild_access \<and> get_next_process s' = Inl Wild_access"
  using rr_remove_current [OF assms]
  by (auto simp: get_current_process_def get_next_process_def cell_at_def)

section \<open>The blocked list\<close>

lemma skip_blocked_skip:
  "chain st p pre m \<Longrightarrow> \<forall>n \<in> set pre. process_at st n = proc \<Longrightarrow>
   skip_blocked st proc p q = skip_blocked st proc m (if pre = [] then q else last pre)"
proof (induction pre arbitrary: p q)
  case Nil
  then show ?case by simp
next
  case (Cons n pre)
  then obtain c where c: "p = n" "n \<noteq> 0" "st n = Some c" "chain st (pl_next c) pre m" by auto
  then have "skip_blocked st proc p q = skip_blocked st proc (pl_next c) n"
    using Cons.prems(2) by (subst skip_blocked.simps) (simp add: process_at_def)
  with Cons.IH [OF c(4), of n] Cons.prems(2) show ?case by simp
qed

text \<open>Remove_from_blocked never returns the process it is asked for. If every blocked
  process is that process (or none is blocked) it reads through a null pointer; otherwise
  it removes and returns a different one, and in both cases it has first overwritten the
  process of the running cell.\<close>

theorem remove_from_blocked_wrong:
  assumes ch: "chain (blocked_cells s) (blocked_list_head s) bs 0"
    and cur: "rr_cur s \<noteq> 0" "ready_cells s (rr_cur s) = Some c" and p: "p \<noteq> 0"
  shows "\<exists>r. remove_from_blocked p s = Some r \<and>
    (if \<forall>n \<in> set bs. process_at (blocked_cells s) n = p then r = Inl Null_deref
     else \<exists>q s'. r = Inr (q, s') \<and> q \<noteq> p \<and> get_current_process s' = Inr p)"
proof -
  let ?st = "blocked_cells s"
  let ?s1 = "s\<lparr>ready_cells := (ready_cells s)(rr_cur s \<mapsto> c\<lparr>pl_process := p\<rparr>)\<rparr>"
  have asg: "assign_current p s = Inr (True, ?s1)"
    using cur p by (simp add: assign_current_def cell_at_def)
  show ?thesis
  proof (cases "\<forall>n \<in> set bs. process_at ?st n = p")
    case True
    have "skip_blocked ?st p (blocked_list_head s) 0 = Some (Inr (0, if bs = [] then 0 else last bs))"
      using skip_blocked_skip [OF ch True] by (simp add: skip_blocked.simps [of ?st p 0])
    moreover have "bs = [] \<Longrightarrow> blocked_list_head s = 0" using ch by simp
    moreover have "bs \<noteq> [] \<Longrightarrow> last bs \<noteq> 0" using chain_live [OF ch] by simp
    ultimately have "remove_from_blocked p s = Some (Inl Null_deref)"
      using asg by (simp add: remove_from_blocked_def unlink_blocked_def cell_at_def)
    with True show ?thesis by simp
  next
    case False
    then obtain pre n post where b: "bs = pre @ n # post" "process_at ?st n \<noteq> p"
      "\<forall>m \<in> set pre. process_at ?st m = p"
      using split_list_first_prop [of bs "\<lambda>m. process_at ?st m \<noteq> p"] by auto
    obtain cn where pre: "chain ?st (blocked_list_head s) pre n" and n: "?st n = Some cn" "n \<noteq> 0"
      using ch b(1) by (auto simp: chain_append)
    have pn: "pl_process cn \<noteq> p" using b(2) n by (simp add: process_at_def)
    have sk: "skip_blocked ?st p (blocked_list_head s) 0 = Some (Inr (n, if pre = [] then 0 else last pre))"
      using skip_blocked_skip [OF pre b(3)] n pn by (simp add: skip_blocked.simps [of ?st p n])
    obtain s' where s': "unlink_blocked n (if pre = [] then 0 else last pre) ?s1 = Inr (pl_process cn, s')"
        "ready_cells s' = ready_cells ?s1" "rr_cur s' = rr_cur s"
    proof -
    have "\<exists>s'. unlink_blocked n (if pre = [] then 0 else last pre) ?s1 = Inr (pl_process cn, s')
        \<and> ready_cells s' = ready_cells ?s1 \<and> rr_cur s' = rr_cur s"
    proof (cases "pre = []")
      case True
      then show ?thesis using pre n by (simp add: unlink_blocked_def cell_at_def)
    next
      case False
      then obtain k where "?st (last pre) = Some k" "last pre \<noteq> 0"
        using chain_live [OF pre, of "last pre"] by auto
      moreover have "last pre \<noteq> n" using b(2,3) False by (metis last_in_set)
      ultimately show ?thesis using False n by (simp add: unlink_blocked_def cell_at_def)
    qed
    then show ?thesis using that by blast
    qed
    have "get_current_process s' = Inr p"
      using s'(2,3) cur by (simp add: get_current_process_def cell_at_def)
    moreover have "remove_from_blocked p s = Some (Inr (pl_process cn, s'))"
      using sk asg s'(1) by (simp add: remove_from_blocked_def)
    ultimately show ?thesis using False pn by auto
  qed
qed

section \<open>Examples\<close>

definition rr_sample :: round_robin where
  "rr_sample = push_new 0x300 30 (push_new 0x200 20 (push_new 0x100 10 round_robin_new))"

lemma rr_sample_rep: "rr_rep rr_sample [10, 30, 20]"
  by (rule rr_repI [of _ "[0x300, 0x200]" "[0x100]"])
    (simp_all add: rr_split_def rr_sample_def push_new_def round_robin_new_def process_at_def)

theorem round_robin_fair_witness:
  "\<exists>s'. iterate_next get_next_process 3 rr_sample = Inr ([30, 20, 10], s')"
  using round_robin_fair [OF rr_sample_rep] by (auto simp: numeral_3_eq_3)

theorem push_new_scheduled_witness:
  "\<exists>ps s'. iterate_next get_next_process (Suc (Suc (Suc (Suc 0)))) (push_new 0x400 40 rr_sample) = Inr (ps, s')
    \<and> mset ps = {#40, 10, 30, 20#} \<and> last ps = 10"
proof -
  have "ready_cells rr_sample 0x400 = None"
    by (simp add: rr_sample_def push_new_def round_robin_new_def)
  then show ?thesis
    using push_new_scheduled [OF rr_sample_rep, of "0x400" 40] by (simp del: iterate_next.simps)
qed

theorem remove_unschedules_witness:
  "\<exists>s' ps s''. remove_process 20 rr_sample = Some (Inr (20, s')) \<and> get_current_process s' = Inr 10
    \<and> iterate_next get_next_process (Suc (Suc 0)) s' = Inr (ps, s'') \<and> mset ps = {#10, 30#}"
  using remove_unschedules [OF rr_sample_rep, of 20]
  by (simp del: iterate_next.simps)

theorem remove_current_dangles_witness:
  "\<exists>s'. remove_process 10 rr_sample = Some (Inr (10, s')) \<and> get_next_process s' = Inl Wild_access"
  using remove_current_dangles [OF rr_sample_rep] by auto

theorem remove_from_blocked_wrong_witness:
  "\<exists>s. move_to_blocked 0x500 20 rr_sample = Inr s
     \<and> remove_from_blocked 20 s = Some (Inl Null_deref)"
proof -
  let ?s = "rr_sample\<lparr>blocked_cells := [0x500 \<mapsto> \<lparr>pl_next = 0, pl_process = 20\<rparr>], blocked_list_head := 0x500\<rparr>"
  have "move_to_blocked 0x500 20 rr_sample = Inr ?s"
    by (simp add: move_to_blocked_def rr_sample_def push_new_def round_robin_new_def)
  moreover have "chain (blocked_cells ?s) (blocked_list_head ?s) [0x500] 0" by simp
  from remove_from_blocked_wrong [OF this, of "\<lparr>pl_next = 0, pl_process = 10\<rparr>" 20]
  have "remove_from_blocked 20 ?s = Some (Inl Null_deref)"
    by (simp add: rr_sample_def push_new_def round_robin_new_def process_at_def)
  ultimately show ?thesis by blast
qed

end
