(* ===== verification/Block_Device.thy ===== *)
theory Block_Device
  imports Kern_Prelude
begin

text \<open>
  Byte access to a block device (kern/devices/i_block_device.cpp): read and write split
  a range of bytes into a head, whole blocks and a tail, and transfer them with the
  methods read_block and write_block of the device, which are parameters here. The
  locale states what the two methods promise to any caller; \<open>disk_laws\<close> says that they
  transfer the contents of a disk.
\<close>

section \<open>The operations\<close>

text \<open>
  read_block gets the block, the number of blocks, the part of the buffer from where it
  is to write on, and the device; it returns its result (\<open>-1\<close> for an error), the buffer
  and the device. write_block only reads the buffer.
\<close>

type_synonym 'd block_read = "u64 \<Rightarrow> u32 \<Rightarrow> u8 list \<Rightarrow> 'd \<Rightarrow> (u32 \<times> u8 list \<times> 'd) result"
type_synonym 'd block_write = "u64 \<Rightarrow> u32 \<Rightarrow> u8 list \<Rightarrow> 'd \<Rightarrow> (u32 \<times> 'd) result"

definition memcpy :: "nat \<Rightarrow> nat \<Rightarrow> nat \<Rightarrow> u8 list \<Rightarrow> u8 list \<Rightarrow> u8 list result" where
  "memcpy to from n src dst =
     (if from + n \<le> length src \<and> to + n \<le> length dst
      then Inr (take to dst @ take n (drop from src) @ drop (to + n) dst)
      else Inl Out_of_bounds)"

fun bind_loop :: "'a result option \<Rightarrow> ('a \<Rightarrow> 'b result option) \<Rightarrow> 'b result option" where
  "bind_loop None f = None"
| "bind_loop (Some (Inl e)) f = Some (Inl e)"
| "bind_loop (Some (Inr x)) f = f x"

record 'd transfer =
  tr_ok :: bool
  tr_tmp :: "u8 list"
  tr_buf :: "u8 list"
  tr_pos :: u32
  tr_rem :: u32
  tr_block :: u64
  tr_dev :: 'd

definition transfer_start :: "u32 \<Rightarrow> u64 \<Rightarrow> u32 \<Rightarrow> u8 list \<Rightarrow> u8 list \<Rightarrow> 'd \<Rightarrow> 'd transfer" where
  "transfer_start bs base n tmp buf d =
     \<lparr>tr_ok = True, tr_tmp = tmp, tr_buf = buf, tr_pos = 0, tr_rem = n,
      tr_block = base div ucast bs, tr_dev = d\<rparr>"

definition head_len :: "u32 \<Rightarrow> u64 \<Rightarrow> u32 \<Rightarrow> u32" where
  "head_len bs skip remain =
     (let max_len = ucast (ucast bs - skip) in if remain > max_len then max_len else remain)"

definition read_head :: "'d block_read \<Rightarrow> u32 \<Rightarrow> u64 \<Rightarrow> 'd transfer \<Rightarrow> 'd transfer result" where
  "read_head rd bs skip s =
     (if skip > 0
      then (let len = head_len bs skip (tr_rem s)
            in bind_result (rd (tr_block s) 1 (tr_tmp s) (tr_dev s)) (\<lambda>(t, tmp, d).
                 bind_result (memcpy (unat (tr_pos s)) (unat skip) (unat len) tmp (tr_buf s)) (\<lambda>buf.
                   Inr (s\<lparr>tr_ok := tr_ok s \<and> t \<noteq> - 1, tr_tmp := tmp, tr_buf := buf,
                          tr_pos := tr_pos s + len, tr_rem := tr_rem s - len,
                          tr_block := tr_block s + 1, tr_dev := d\<rparr>))))
      else Inr s)"

partial_function (option) read_main ::
  "'d block_read \<Rightarrow> u32 \<Rightarrow> 'd transfer \<Rightarrow> 'd transfer result option" where
  "read_main rd bs s =
     (if tr_rem s > bs \<and> tr_ok s
      then (case rd (tr_block s) (tr_rem s div bs) (drop (unat (tr_pos s)) (tr_buf s)) (tr_dev s) of
              Inl e \<Rightarrow> Some (Inl e)
            | Inr (t, data, d) \<Rightarrow>
                read_main rd bs
                  (let s1 = s\<lparr>tr_buf := take (unat (tr_pos s)) (tr_buf s) @ data, tr_dev := d\<rparr>
                   in if t \<noteq> - 1
                      then s1\<lparr>tr_pos := tr_pos s + t * bs, tr_rem := tr_rem s - t * bs,
                              tr_block := tr_block s + scast t\<rparr>
                      else s1\<lparr>tr_ok := False\<rparr>))
      else Some (Inr s))"

definition read_tail :: "'d block_read \<Rightarrow> 'd transfer \<Rightarrow> 'd transfer result" where
  "read_tail rd s =
     (if tr_rem s > 0 \<and> tr_ok s
      then bind_result (rd (tr_block s) 1 (tr_tmp s) (tr_dev s)) (\<lambda>(t, tmp, d).
             bind_result (memcpy (unat (tr_pos s)) 0 (unat (tr_rem s)) tmp (tr_buf s)) (\<lambda>buf.
               Inr (s\<lparr>tr_ok := t \<noteq> - 1, tr_tmp := tmp, tr_buf := buf, tr_dev := d\<rparr>)))
      else Inr s)"

text \<open>\<open>tmp\<close> is the memory \<open>new\<close> returns for one block, with what happens to be in it.\<close>

definition bd_read ::
  "'d block_read \<Rightarrow> u32 \<Rightarrow> u8 list option \<Rightarrow> u64 \<Rightarrow> u32 \<Rightarrow> u8 list \<Rightarrow> 'd
   \<Rightarrow> (u32 \<times> u8 list \<times> 'd) result option" where
  "bd_read rd bs tmp base n buf d =
     (case tmp of
        None \<Rightarrow> Some (Inr (- 1, buf, d))
      | Some tmp \<Rightarrow>
          if bs = 0 then Some (Inl Div_zero)
          else
            bind_loop (Some (read_head rd bs (base mod ucast bs) (transfer_start bs base n tmp buf d)))
              (\<lambda>s. bind_loop (read_main rd bs s) (\<lambda>s. bind_loop (Some (read_tail rd s)) (\<lambda>s.
                Some (Inr (if tr_ok s then n else - 1, tr_buf s, tr_dev s))))))"

text \<open>
  write reads the blocks it only changes a part of before it writes them. A failed read
  does not keep it from writing.
\<close>

definition write_head ::
  "'d block_read \<Rightarrow> 'd block_write \<Rightarrow> u32 \<Rightarrow> u64 \<Rightarrow> 'd transfer \<Rightarrow> 'd transfer result" where
  "write_head rd wr bs skip s =
     (if skip > 0
      then (let len = head_len bs skip (tr_rem s)
            in bind_result (rd (tr_block s) 1 (tr_tmp s) (tr_dev s)) (\<lambda>(t, tmp, d).
                 bind_result (memcpy (unat skip) (unat (tr_pos s)) (unat len) (tr_buf s) tmp) (\<lambda>tmp1.
                   bind_result (wr (tr_block s) 1 tmp1 d) (\<lambda>(t1, d1).
                     Inr (s\<lparr>tr_ok := tr_ok s \<and> t \<noteq> - 1 \<and> t1 \<noteq> - 1, tr_tmp := tmp1,
                            tr_pos := tr_pos s + len, tr_rem := tr_rem s - len,
                            tr_block := tr_block s + 1, tr_dev := d1\<rparr>)))))
      else Inr s)"

partial_function (option) write_main ::
  "'d block_write \<Rightarrow> u32 \<Rightarrow> 'd transfer \<Rightarrow> 'd transfer result option" where
  "write_main wr bs s =
     (if tr_rem s > bs \<and> tr_ok s
      then (case wr (tr_block s) (tr_rem s div bs) (drop (unat (tr_pos s)) (tr_buf s)) (tr_dev s) of
              Inl e \<Rightarrow> Some (Inl e)
            | Inr (t, d) \<Rightarrow>
                write_main wr bs
                  (if t \<noteq> - 1
                   then s\<lparr>tr_pos := tr_pos s + t * bs, tr_rem := tr_rem s - t * bs,
                          tr_block := tr_block s + scast t, tr_dev := d\<rparr>
                   else s\<lparr>tr_ok := False, tr_dev := d\<rparr>))
      else Some (Inr s))"

definition write_tail :: "'d block_read \<Rightarrow> 'd block_write \<Rightarrow> 'd transfer \<Rightarrow> 'd transfer result" where
  "write_tail rd wr s =
     (if tr_rem s > 0 \<and> tr_ok s
      then bind_result (rd (tr_block s) 1 (tr_tmp s) (tr_dev s)) (\<lambda>(t, tmp, d).
             bind_result (memcpy 0 (unat (tr_pos s)) (unat (tr_rem s)) (tr_buf s) tmp) (\<lambda>tmp1.
               bind_result (wr (tr_block s) 1 tmp1 d) (\<lambda>(t1, d1).
                 Inr (s\<lparr>tr_ok := t \<noteq> - 1 \<and> t1 \<noteq> - 1, tr_tmp := tmp1, tr_dev := d1\<rparr>))))
      else Inr s)"

text \<open>Unlike read, write does not look whether it got the memory for a block.\<close>

definition bd_write ::
  "'d block_read \<Rightarrow> 'd block_write \<Rightarrow> u32 \<Rightarrow> u8 list option \<Rightarrow> u64 \<Rightarrow> u32 \<Rightarrow> u8 list \<Rightarrow> 'd
   \<Rightarrow> (u32 \<times> 'd) result option" where
  "bd_write rd wr bs tmp base n buf d =
     (if bs = 0 then Some (Inl Div_zero)
      else
        (let finish = (\<lambda>s. Some (Inr (if tr_ok s then n else - 1, tr_dev s)));
             skip = base mod ucast bs;
             s0 = transfer_start bs base n (case tmp of None \<Rightarrow> [] | Some t \<Rightarrow> t) buf d
         in if tmp = None
            then if skip > 0 then Some (Inl Null_deref)
                 else bind_loop (write_main wr bs s0) (\<lambda>s.
                        if tr_rem s > 0 \<and> tr_ok s then Some (Inl Null_deref) else finish s)
            else
              bind_loop (Some (write_head rd wr bs skip s0)) (\<lambda>s.
                bind_loop (write_main wr bs s) (\<lambda>s. bind_loop (Some (write_tail rd wr s)) finish))))"

section \<open>Slices of the contents\<close>

definition chunk :: "(nat \<Rightarrow> u8) \<Rightarrow> nat \<Rightarrow> nat \<Rightarrow> u8 list" where
  "chunk f a n = map f [a..<a + n]"

definition patch :: "nat \<Rightarrow> u8 list \<Rightarrow> (nat \<Rightarrow> u8) \<Rightarrow> nat \<Rightarrow> u8" where
  "patch a xs f = (\<lambda>i. if a \<le> i \<and> i < a + length xs then xs ! (i - a) else f i)"

lemma length_chunk [simp]: "length (chunk f a n) = n"
  by (simp add: chunk_def)

lemma chunk_0 [simp]: "chunk f a 0 = []"
  by (simp add: chunk_def)

lemma nth_chunk [simp]: "i < n \<Longrightarrow> chunk f a n ! i = f (a + i)"
  by (simp add: chunk_def)

lemma chunk_append: "chunk f a m @ chunk f (a + m) n = chunk f a (m + n)"
  by (rule nth_equalityI) (auto simp: nth_append)

lemma take_drop_chunk: "k + m \<le> n \<Longrightarrow> take m (drop k (chunk f a n)) = chunk f (a + k) m"
  by (rule nth_equalityI) (auto simp: add.assoc)

lemma patch_Nil [simp]: "patch a [] f = f"
  by (rule ext) (auto simp: patch_def)

lemma patch_append: "patch (a + length xs) ys (patch a xs f) = patch a (xs @ ys) f"
  by (auto simp: patch_def nth_append fun_eq_iff)

lemma patch_within:
  assumes "k + length xs \<le> n"
  shows "patch a (take k (chunk f a n) @ xs @ drop (k + length xs) (chunk f a n)) f = patch (a + k) xs f"
proof
  fix i
  let ?zs = "take k (chunk f a n) @ xs @ drop (k + length xs) (chunk f a n)"
  have len: "length ?zs = n" using assms by simp
  show "patch a ?zs f i = patch (a + k) xs f i"
  proof (cases "a \<le> i \<and> i < a + n")
    case True
    then obtain j where j: "i = a + j" "j < n" by (metis le_Suc_ex nat_add_left_cancel_less)
    with assms have "?zs ! j = (if k \<le> j \<and> j < k + length xs then xs ! (j - k) else f (a + j))"
      by (auto simp: nth_append)
    then show ?thesis using len j by (auto simp: patch_def)
  next
    case False
    then show ?thesis using assms len by (auto simp: patch_def)
  qed
qed

lemma chunk_patch: "length xs = n \<Longrightarrow> chunk (patch a xs f) a n = xs"
  by (rule nth_equalityI) (auto simp: patch_def)

section \<open>The numbers of a transfer\<close>

lemma head_len_nat:
  assumes "skip < ucast bs"
  shows "unat (head_len bs skip r) = min (unat bs - unat skip) (unat r)"
proof -
  have lt: "unat skip < unat bs" using assms by (simp add: word_less_nat_alt unat_ucast64)
  have "unat (ucast bs - skip) = unat bs - unat skip"
    using lt by (simp add: unat_sub word_le_nat_alt unat_ucast64)
  then have "unat (ucast (ucast bs - skip) :: u32) = unat bs - unat skip"
    using unat_lt32 [of bs] by (simp add: unat_ucast32)
  then show ?thesis by (auto simp: head_len_def Let_def word_less_nat_alt)
qed

lemma block_count:
  fixes r bs t :: u32
  assumes "t \<le> r div bs"
  shows "unat (t * bs) = unat t * unat bs" and "unat t * unat bs \<le> unat r"
    and "unat (r - t * bs) = unat r - unat t * unat bs"
proof -
  have "unat t \<le> unat r div unat bs" using assms by (simp add: word_le_nat_alt unat_div)
  then have "unat t * unat bs \<le> unat r div unat bs * unat bs" by (rule mult_le_mono1)
  also have "\<dots> \<le> unat r" by simp
  finally show le: "unat t * unat bs \<le> unat r" .
  then show eq: "unat (t * bs) = unat t * unat bs"
    using unat_lt32 [of r] by (simp add: unat_word_ariths)
  show "unat (r - t * bs) = unat r - unat t * unat bs"
    using le by (simp add: unat_sub word_le_nat_alt eq)
qed

lemma block_less:
  fixes r bs t :: u32
  assumes "t \<le> r div bs" and "0 < unat t" and "0 < unat bs"
  shows "unat (r - t * bs) < unat r"
proof -
  have "0 < unat t * unat bs" using assms(2,3) by simp
  then show ?thesis using block_count(2,3) [OF assms(1)] by linarith
qed

section \<open>What every block device promises\<close>

text \<open>
  read_block and write_block touch only the bytes of the blocks they are asked for, and
  transfer at most so many blocks, or report an error.
\<close>

locale block_device =
  fixes bs :: u32
    and rd :: "'d block_read"
    and wr :: "'d block_write"
  assumes bs_pos: "bs \<noteq> 0"
    and rd_fits: "unat n * unat bs \<le> length data \<Longrightarrow>
      \<exists>t data' d'. rd b n data d = Inr (t, data', d') \<and> length data' = length data
        \<and> drop (unat n * unat bs) data' = drop (unat n * unat bs) data \<and> (t = - 1 \<or> t \<le> n)"
    and wr_fits: "unat n * unat bs \<le> length data \<Longrightarrow>
      \<exists>t d'. wr b n data d = Inr (t, d') \<and> (t = - 1 \<or> t \<le> n)"
begin

text \<open>A device makes progress on up to \<open>k\<close> blocks when it never transfers none of them.\<close>

definition progress :: "nat \<Rightarrow> bool" where
  "progress k \<longleftrightarrow> (\<forall>b n data d t data' d'. 0 < n \<and> unat n \<le> k \<and> rd b n data d = Inr (t, data', d') \<longrightarrow> t \<noteq> 0)"

definition stays :: "'d transfer \<Rightarrow> 'd transfer \<Rightarrow> bool" where
  "stays s s' \<longleftrightarrow> length (tr_buf s') = length (tr_buf s) \<and> length (tr_tmp s') = length (tr_tmp s)
    \<and> unat (tr_pos s') + unat (tr_rem s') = unat (tr_pos s) + unat (tr_rem s)
    \<and> drop (unat (tr_pos s) + unat (tr_rem s)) (tr_buf s') = drop (unat (tr_pos s) + unat (tr_rem s)) (tr_buf s)"

lemma stays_refl: "stays s s"
  by (simp add: stays_def)

lemma stays_trans: "stays s t \<Longrightarrow> stays t u \<Longrightarrow> stays s u"
  by (simp add: stays_def)

lemma read_round:
  assumes "progress k" and "unat (tr_rem s) div unat bs \<le> k"
    and "unat (tr_pos s) + unat (tr_rem s) \<le> length (tr_buf s)"
    and "unat (tr_pos s) + unat (tr_rem s) < 2 ^ 32" and "tr_rem s > bs" and "tr_ok s"
  shows "\<exists>s'. read_main rd bs s = read_main rd bs s' \<and> stays s s'
    \<and> (tr_ok s' \<longrightarrow> unat (tr_rem s') < unat (tr_rem s)) \<and> unat (tr_rem s') \<le> unat (tr_rem s)"
proof -
  let ?n = "tr_rem s div bs" and ?p = "unat (tr_pos s)"
  have n: "unat ?n * unat bs \<le> unat (tr_rem s)" using block_count(2) [of ?n "tr_rem s" bs] by simp
  then have fits: "unat ?n * unat bs \<le> length (drop ?p (tr_buf s))" using assms(3) by simp
  obtain t data d' where r: "rd (tr_block s) ?n (drop ?p (tr_buf s)) (tr_dev s) = Inr (t, data, d')"
    and data: "length data = length (drop ?p (tr_buf s))"
      "drop (unat ?n * unat bs) data = drop (unat ?n * unat bs) (drop ?p (tr_buf s))"
    and t: "t = - 1 \<or> t \<le> ?n"
    using rd_fits [OF fits] by blast
  let ?s1 = "s\<lparr>tr_buf := take ?p (tr_buf s) @ data, tr_dev := d'\<rparr>"
  have buf: "length (take ?p (tr_buf s) @ data) = length (tr_buf s)"
    using data(1) assms(3) by simp
  have "drop (?p + unat (tr_rem s)) (take ?p (tr_buf s) @ data) = drop (unat (tr_rem s)) data"
    using assms(3) by simp
  also have "\<dots> = drop (unat (tr_rem s) - unat ?n * unat bs) (drop (unat ?n * unat bs) data)"
    using n by simp
  also have "\<dots> = drop (?p + unat (tr_rem s)) (tr_buf s)"
    unfolding data(2) using n by (simp add: add.commute)
  finally have stay1: "stays s ?s1" using buf by (simp add: stays_def)
  show ?thesis
  proof (cases "t = - 1")
    case True
    have "read_main rd bs s = read_main rd bs (?s1\<lparr>tr_ok := False\<rparr>)"
      using assms(5,6) by (subst read_main.simps) (simp add: r True Let_def)
    then show ?thesis using stay1 by (intro exI [of _ "?s1\<lparr>tr_ok := False\<rparr>"]) (simp add: stays_def)
  next
    case False
    then have le: "t \<le> ?n" using t by simp
    note bc = block_count [OF le]
    have "0 < ?n" using assms(5) bs_pos
      by (simp add: word_less_nat_alt unat_div div_greater_zero_iff unat_gt_0)
    moreover have "unat ?n \<le> k" using assms(2) by (simp add: unat_div)
    ultimately have "t \<noteq> 0" using assms(1) r unfolding progress_def by blast
    then have less: "unat (tr_rem s - t * bs) < unat (tr_rem s)"
      using block_less [OF le] bs_pos by (simp add: unat_gt_0)
    have "unat (tr_pos s + t * bs) = ?p + unat t * unat bs"
      using bc(1,2) assms(4) by (simp add: unat_plus_nowrap)
    then have "stays ?s1 (?s1\<lparr>tr_pos := tr_pos s + t * bs, tr_rem := tr_rem s - t * bs,
        tr_block := tr_block s + scast t\<rparr>)" (is "stays _ ?s2")
      using bc by (simp add: stays_def)
    then have "stays s ?s2" using stay1 stays_trans by blast
    moreover have "read_main rd bs s = read_main rd bs ?s2"
      using assms(5,6) False by (subst read_main.simps) (simp add: r Let_def)
    moreover have "unat (tr_rem ?s2) < unat (tr_rem s)" using less by simp
    ultimately show ?thesis by (intro exI [of _ ?s2]) auto
  qed
qed

lemma read_main_stays:
  assumes "progress k" and "unat (tr_rem s) div unat bs \<le> k"
    and "unat (tr_pos s) + unat (tr_rem s) \<le> length (tr_buf s)"
    and "unat (tr_pos s) + unat (tr_rem s) < 2 ^ 32"
  shows "\<exists>s'. read_main rd bs s = Some (Inr s') \<and> stays s s' \<and> (tr_ok s' \<longrightarrow> tr_rem s' \<le> bs)"
  using assms(2,3,4)
proof (induction "(if tr_ok s then 1 else 0) + unat (tr_rem s)" arbitrary: s rule: less_induct)
  case less
  show ?case
  proof (cases "tr_rem s > bs \<and> tr_ok s")
    case False
    then have "read_main rd bs s = Some (Inr s)" by (subst read_main.simps) auto
    moreover have "tr_ok s \<longrightarrow> tr_rem s \<le> bs" using False by auto
    ultimately show ?thesis using stays_refl by blast
  next
    case True
    obtain s2 where s2: "read_main rd bs s = read_main rd bs s2" "stays s s2"
        "tr_ok s2 \<longrightarrow> unat (tr_rem s2) < unat (tr_rem s)" "unat (tr_rem s2) \<le> unat (tr_rem s)"
      using read_round [OF assms(1) less.prems] True by blast
    have "unat (tr_rem s2) div unat bs \<le> k"
      using s2(4) less.prems(1) div_le_mono le_trans by blast
    moreover have "unat (tr_pos s2) + unat (tr_rem s2) \<le> length (tr_buf s2)"
      "unat (tr_pos s2) + unat (tr_rem s2) < 2 ^ 32"
      using s2(2) less.prems(2,3) by (simp_all add: stays_def)
    ultimately obtain s' where "read_main rd bs s2 = Some (Inr s')" "stays s2 s'" "tr_ok s' \<longrightarrow> tr_rem s' \<le> bs"
      using less.hyps [of s2] s2(3,4) True by (cases "tr_ok s2") auto
    then show ?thesis using s2(1,2) stays_trans by metis
  qed
qed

lemma rd_block:
  assumes "length tmp = unat bs"
  obtains t tmp' d' where "rd b 1 tmp d = Inr (t, tmp', d')" and "length tmp' = unat bs"
proof -
  have "unat (1 :: u32) * unat bs \<le> length tmp" using assms by simp
  from rd_fits [OF this, of b d] show ?thesis using assms that by auto
qed

lemma wr_block:
  assumes "length tmp = unat bs"
  obtains t d' where "wr b 1 tmp d = Inr (t, d')"
proof -
  have "unat (1 :: u32) * unat bs \<le> length tmp" using assms by simp
  from wr_fits [OF this, of b d] show ?thesis using that by auto
qed

lemma read_head_stays:
  assumes "skip < ucast bs" and "length (tr_tmp s) = unat bs"
    and "unat (tr_pos s) + unat (tr_rem s) \<le> length (tr_buf s)"
    and "unat (tr_pos s) + unat (tr_rem s) < 2 ^ 32"
  shows "\<exists>s'. read_head rd bs skip s = Inr s' \<and> stays s s' \<and> unat (tr_rem s') \<le> unat (tr_rem s)"
proof (cases "skip > 0")
  case False
  then show ?thesis using stays_refl by (simp add: read_head_def)
next
  case True
  let ?len = "head_len bs skip (tr_rem s)" and ?p = "unat (tr_pos s)"
  obtain t tmp d where r: "rd (tr_block s) 1 (tr_tmp s) (tr_dev s) = Inr (t, tmp, d)"
    and tmp: "length tmp = unat bs"
    using rd_block [OF assms(2)] by blast
  have sk: "unat skip < unat bs" using assms(1) by (simp add: word_less_nat_alt unat_ucast64)
  have le: "unat skip + unat ?len \<le> unat bs" "unat ?len \<le> unat (tr_rem s)"
    using head_len_nat [OF assms(1), of "tr_rem s"] sk by linarith+
  have "unat (tr_pos s + ?len) = ?p + unat ?len"
    using assms(4) le by (simp add: unat_plus_nowrap)
  moreover have "unat (tr_rem s - ?len) = unat (tr_rem s) - unat ?len"
    using le by (simp add: unat_sub word_le_nat_alt)
  moreover have "?p + unat ?len \<le> length (tr_buf s)" using le assms(3) by linarith
  moreover from this have "memcpy ?p (unat skip) (unat ?len) tmp (tr_buf s)
      = Inr (take ?p (tr_buf s) @ take (unat ?len) (drop (unat skip) tmp) @ drop (?p + unat ?len) (tr_buf s))"
    using tmp le by (simp add: memcpy_def)
  ultimately show ?thesis
    using True r tmp le assms(2,3) by (simp add: read_head_def Let_def stays_def add.commute)
qed

lemma read_tail_stays:
  assumes "length (tr_tmp s) = unat bs" and "unat (tr_pos s) + unat (tr_rem s) \<le> length (tr_buf s)"
    and "tr_ok s \<longrightarrow> tr_rem s \<le> bs"
  shows "\<exists>s'. read_tail rd s = Inr s' \<and> stays s s'"
proof (cases "tr_rem s > 0 \<and> tr_ok s")
  case False
  then show ?thesis using stays_refl by (auto simp: read_tail_def)
next
  case True
  obtain t tmp d where r: "rd (tr_block s) 1 (tr_tmp s) (tr_dev s) = Inr (t, tmp, d)"
    and tmp: "length tmp = unat bs"
    using rd_block [OF assms(1)] by blast
  have "unat (tr_rem s) \<le> length tmp" using assms(3) True tmp by (simp add: word_le_nat_alt)
  then show ?thesis using True r tmp assms(1,2) by (auto simp: read_tail_def memcpy_def stays_def)
qed

text \<open>A read returns, writes only the bytes asked for, and says how it ended.\<close>

lemma bd_read_stays:
  assumes "progress (unat n div unat bs)" and "length tmp = unat bs" and "unat n \<le> length buf"
  shows "\<exists>t buf' d'. bd_read rd bs (Some tmp) base n buf d = Some (Inr (t, buf', d'))
    \<and> (t = n \<or> t = - 1) \<and> length buf' = length buf \<and> drop (unat n) buf' = drop (unat n) buf"
proof -
  let ?s0 = "transfer_start bs base n tmp buf d" and ?skip = "base mod ucast bs"
  have skip: "?skip < ucast bs"
    using bs_pos by (simp add: word_less_nat_alt unat_mod unat_ucast64 unat_gt_0)
  have s0: "tr_tmp ?s0 = tmp" "tr_buf ?s0 = buf" "tr_pos ?s0 = 0" "tr_rem ?s0 = n"
    by (simp_all add: transfer_start_def)
  obtain s1 where s1: "read_head rd bs ?skip ?s0 = Inr s1" "stays ?s0 s1" "unat (tr_rem s1) \<le> unat n"
    using read_head_stays [OF skip, of ?s0] assms(2,3) unat_lt32 [of n] s0 by auto
  have "unat (tr_rem s1) div unat bs \<le> unat n div unat bs" using s1(3) by (rule div_le_mono)
  moreover have "unat (tr_pos s1) + unat (tr_rem s1) = unat n" "length (tr_buf s1) = length buf"
    using s1(2) s0 by (simp_all add: stays_def)
  ultimately obtain s2 where s2: "read_main rd bs s1 = Some (Inr s2)" "stays s1 s2" "tr_ok s2 \<longrightarrow> tr_rem s2 \<le> bs"
    using read_main_stays [OF assms(1), of s1] assms(3) unat_lt32 [of n] by auto
  have s02: "stays ?s0 s2" using s1(2) s2(2) by (rule stays_trans)
  then have "length (tr_tmp s2) = unat bs" "unat (tr_pos s2) + unat (tr_rem s2) \<le> length (tr_buf s2)"
    using assms(2,3) s0 by (simp_all add: stays_def)
  then obtain s3 where s3: "read_tail rd s2 = Inr s3" "stays s2 s3"
    using read_tail_stays s2(3) by blast
  have "stays ?s0 s3" using s02 s3(2) by (rule stays_trans)
  then have "length (tr_buf s3) = length buf" "drop (unat n) (tr_buf s3) = drop (unat n) buf"
    using s0 by (simp_all add: stays_def)
  then show ?thesis using bs_pos s1(1) s2(1) s3(1) by (auto simp: bd_read_def)
qed

end

section \<open>Transferring the contents of a disk\<close>

text \<open>
  A device that keeps \<open>cap\<close> blocks of bytes: \<open>contents d\<close> are the bytes by their address.
  Each transfer moves at least one of the blocks it was asked for.
\<close>

definition disk_laws ::
  "u32 \<Rightarrow> 'd block_read \<Rightarrow> 'd block_write \<Rightarrow> ('d \<Rightarrow> nat \<Rightarrow> u8) \<Rightarrow> nat \<Rightarrow> bool" where
  "disk_laws bs rd wr contents cap \<longleftrightarrow> 0 < unat bs
    \<and> (\<forall>b n data d. 0 < n \<and> unat n * unat bs \<le> length data \<and> unat b + unat n \<le> cap \<longrightarrow>
        (\<exists>t data' d'. rd b n data d = Inr (t, data', d') \<and> 0 <s t \<and> t \<le> n \<and> length data' = length data
          \<and> take (unat t * unat bs) data' = chunk (contents d) (unat b * unat bs) (unat t * unat bs)
          \<and> drop (unat n * unat bs) data' = drop (unat n * unat bs) data
          \<and> contents d' = contents d))
    \<and> (\<forall>b n data d. 0 < n \<and> unat n * unat bs \<le> length data \<and> unat b + unat n \<le> cap \<longrightarrow>
        (\<exists>t d'. wr b n data d = Inr (t, d') \<and> 0 <s t \<and> t \<le> n
          \<and> contents d' = patch (unat b * unat bs) (take (unat t * unat bs) data) (contents d)))"

lemma disk_rd:
  assumes "disk_laws bs rd wr contents cap" and "0 < n" and "unat n * unat bs \<le> length data"
    and "unat b + unat n \<le> cap"
  obtains t data' d' where "rd b n data d = Inr (t, data', d')" and "0 <s t" and "t \<le> n"
    and "length data' = length data"
    and "take (unat t * unat bs) data' = chunk (contents d) (unat b * unat bs) (unat t * unat bs)"
    and "drop (unat n * unat bs) data' = drop (unat n * unat bs) data" and "contents d' = contents d"
  using assms(1) [unfolded disk_laws_def, THEN conjunct2, THEN conjunct1, rule_format, of n data b d]
    assms(2-4) that by blast

lemma disk_wr:
  assumes "disk_laws bs rd wr contents cap" and "0 < n" and "unat n * unat bs \<le> length data"
    and "unat b + unat n \<le> cap"
  obtains t d' where "wr b n data d = Inr (t, d')" and "0 <s t" and "t \<le> n"
    and "contents d' = patch (unat b * unat bs) (take (unat t * unat bs) data) (contents d)"
  using assms(1) [unfolded disk_laws_def, THEN conjunct2, THEN conjunct2, rule_format, of n data b d]
    assms(2-4) that by blast

lemma positive_word:
  fixes t :: u32
  assumes "0 <s t"
  shows "0 < unat t" and "t \<noteq> - 1" and "unat (scast t :: u64) = unat t"
proof -
  have s: "0 < sint t" using assms by (simp add: word_sless_alt)
  then show "0 < unat t" by (metis gr0I less_irrefl signed_0 unat_0 word_unat_eq_iff)
  show "t \<noteq> - 1" using s by auto
  have "sint t < 2 ^ 31" using sint_lt [of t] by simp
  with s have "sint t = uint t" unfolding uint_sint by (simp add: take_bit_int_eq_self)
  then have "(scast t :: u64) = ucast t" by (metis scast_eq ucast_eq)
  then show "unat (scast t :: u64) = unat t" by (simp add: unat_ucast64)
qed

lemma blocks_fit:
  fixes b r cap k :: nat
  assumes "b * k + r \<le> cap * k" and "0 < k"
  shows "b + r div k \<le> cap"
proof -
  have "(b + r div k) * k \<le> b * k + r" by (simp add: add_mult_distrib)
  from this assms(1) have "(b + r div k) * k \<le> cap * k" by (rule order_trans)
  then show ?thesis using assms(2) by simp
qed

text \<open>In the middle of a read the bytes before the position are those of the disk.\<close>

definition reading ::
  "u32 \<Rightarrow> nat \<Rightarrow> ('d \<Rightarrow> nat \<Rightarrow> u8) \<Rightarrow> (nat \<Rightarrow> u8) \<Rightarrow> nat \<Rightarrow> nat \<Rightarrow> u8 list \<Rightarrow> 'd transfer \<Rightarrow> bool" where
  "reading bs cap contents c base n buf s \<longleftrightarrow>
     tr_ok s \<and> length (tr_tmp s) = unat bs \<and> length (tr_buf s) = length buf
     \<and> unat (tr_pos s) + unat (tr_rem s) = n \<and> n \<le> length buf \<and> n < 2 ^ 32
     \<and> base + n \<le> cap * unat bs \<and> cap < 2 ^ 64
     \<and> (0 < tr_rem s \<longrightarrow> unat (tr_block s) * unat bs = base + unat (tr_pos s))
     \<and> take (unat (tr_pos s)) (tr_buf s) = chunk c base (unat (tr_pos s))
     \<and> drop n (tr_buf s) = drop n buf \<and> contents (tr_dev s) = c"

lemma reading_fits:
  assumes "reading bs cap contents c base n buf s" and "0 < tr_rem s" and "0 < unat bs"
  shows "unat (tr_block s) + unat (tr_rem s) div unat bs \<le> cap"
proof -
  have "unat (tr_block s) * unat bs + unat (tr_rem s) \<le> cap * unat bs"
    using assms(1,2) unfolding reading_def by linarith
  then show ?thesis using assms(3) by (rule blocks_fit)
qed

lemma reading_round:
  assumes laws: "disk_laws bs rd wr contents cap" and R: "reading bs cap contents c base n buf s"
    and "tr_rem s > bs"
  shows "\<exists>s'. read_main rd bs s = read_main rd bs s' \<and> reading bs cap contents c base n buf s'
    \<and> unat (tr_rem s') < unat (tr_rem s)"
proof -
  let ?n = "tr_rem s div bs" and ?p = "unat (tr_pos s)"
  have bs: "0 < unat bs" using laws by (simp add: disk_laws_def)
  note R' = R [unfolded reading_def]
  have rem: "0 < tr_rem s" using assms(3) by (rule le_less_trans [rotated]) simp
  have n: "unat ?n * unat bs \<le> unat (tr_rem s)" using block_count(2) [of ?n "tr_rem s" bs] by simp
  have "0 < ?n" using assms(3) bs by (simp add: word_less_nat_alt unat_div div_greater_zero_iff)
  moreover have "unat ?n * unat bs \<le> length (drop ?p (tr_buf s))"
    using R' n unfolding length_drop by linarith
  moreover have cap: "unat (tr_block s) + unat ?n \<le> cap" using reading_fits [OF R rem bs] by (simp add: unat_div)
  ultimately obtain t data d' where r: "rd (tr_block s) ?n (drop ?p (tr_buf s)) (tr_dev s) = Inr (t, data, d')"
    and t: "0 <s t" "t \<le> ?n" and data: "length data = length (drop ?p (tr_buf s))"
      "take (unat t * unat bs) data = chunk c (unat (tr_block s) * unat bs) (unat t * unat bs)"
      "drop (unat ?n * unat bs) data = drop (unat ?n * unat bs) (drop ?p (tr_buf s))"
      "contents d' = c"
    using disk_rd [OF laws, of ?n "drop ?p (tr_buf s)" "tr_block s" "tr_dev s"] R' by metis
  note bc = block_count [OF t(2)]
  let ?k = "unat t * unat bs"
  let ?s2 = "s\<lparr>tr_buf := take ?p (tr_buf s) @ data, tr_dev := d', tr_pos := tr_pos s + t * bs,
      tr_rem := tr_rem s - t * bs, tr_block := tr_block s + scast t\<rparr>"
  have pos: "unat (tr_pos s + t * bs) = ?p + ?k" using bc R' by (simp add: unat_plus_nowrap)
  have "unat t \<le> unat ?n" using t(2) by (simp add: word_le_nat_alt)
  then have blk: "unat (tr_block s + scast t) = unat (tr_block s) + unat t"
    using cap R' positive_word(3) [OF t(1)] by (simp add: unat_plus_nowrap)
  have step: "read_main rd bs s = read_main rd bs ?s2"
    using assms(3) R' positive_word(2) [OF t(1)] by (subst read_main.simps) (simp add: r Let_def)
  have "take (?p + ?k) (take ?p (tr_buf s) @ data) = take ?p (tr_buf s) @ take ?k data"
    using R' by simp
  also have "\<dots> = chunk c base (?p + ?k)"
    using R' rem data(2) by (simp add: chunk_append)
  finally have got: "take (?p + ?k) (take ?p (tr_buf s) @ data) = chunk c base (?p + ?k)" .
  have "n - ?p = unat (tr_rem s)" "n \<le> length (tr_buf s)" using R' by linarith+
  then have "drop n (take ?p (tr_buf s) @ data) = drop (unat (tr_rem s) - unat ?n * unat bs) (drop (unat ?n * unat bs) data)"
    using n R' by simp
  also have "\<dots> = drop n buf" unfolding data(3) using n R' by (simp add: add.commute)
  finally have rest: "drop n (take ?p (tr_buf s) @ data) = drop n buf" .
  have "reading bs cap contents c base n buf ?s2"
    unfolding reading_def using R' rem data(1,4) got rest bc(2,3) pos blk by (simp add: add_mult_distrib)
  moreover have "unat (tr_rem ?s2) < unat (tr_rem s)"
    using block_less [OF t(2) positive_word(1) [OF t(1)] bs] by simp
  ultimately show ?thesis using step by blast
qed

lemma reading_main:
  assumes laws: "disk_laws bs rd wr contents cap" and "reading bs cap contents c base n buf s"
  shows "\<exists>s'. read_main rd bs s = Some (Inr s') \<and> reading bs cap contents c base n buf s' \<and> tr_rem s' \<le> bs"
  using assms(2)
proof (induction "unat (tr_rem s)" arbitrary: s rule: less_induct)
  case less
  show ?case
  proof (cases "tr_rem s > bs")
    case True
    then show ?thesis using reading_round [OF laws less.prems True] less.hyps by metis
  next
    case False
    then have "read_main rd bs s = Some (Inr s)" by (subst read_main.simps) simp
    then show ?thesis using less.prems False by (intro exI [of _ s]) simp
  qed
qed

lemma disk_rd_block:
  assumes "disk_laws bs rd wr contents cap" and "length tmp = unat bs" and "unat b < cap"
  obtains t tmp' d' where "rd b 1 tmp d = Inr (t, tmp', d')" and "t \<noteq> - 1"
    and "tmp' = chunk (contents d) (unat b * unat bs) (unat bs)" and "contents d' = contents d"
proof -
  have "unat (1 :: u32) * unat bs \<le> length tmp" "(0 :: u32) < 1" "unat b + unat (1 :: u32) \<le> cap"
    using assms(2,3) by simp_all
  then obtain t tmp' d' where r: "rd b 1 tmp d = Inr (t, tmp', d')" and t: "0 <s t" "t \<le> 1"
    and tmp': "length tmp' = length tmp"
      "take (unat t * unat bs) tmp' = chunk (contents d) (unat b * unat bs) (unat t * unat bs)"
      "contents d' = contents d"
    using disk_rd [OF assms(1), of 1 tmp b d] by metis
  have "unat t = 1" using positive_word(1) [OF t(1)] t(2) by (simp add: word_le_nat_alt)
  then have "tmp' = chunk (contents d) (unat b * unat bs) (unat bs)" using tmp'(1,2) assms(2) by simp
  then show ?thesis using that [OF r positive_word(2) [OF t(1)]] tmp'(3) by blast
qed

lemma reading_tail:
  assumes laws: "disk_laws bs rd wr contents cap" and R: "reading bs cap contents c base n buf s"
    and "tr_rem s \<le> bs"
  shows "\<exists>s'. read_tail rd s = Inr s' \<and> tr_ok s' \<and> tr_buf s' = chunk c base n @ drop n buf
    \<and> contents (tr_dev s') = c"
proof (cases "tr_rem s > 0")
  case False
  then have "unat (tr_rem s) = 0" by (simp add: word_gt_0)
  then have "unat (tr_pos s) = n" using R by (simp add: reading_def)
  then have "tr_buf s = chunk c base n @ drop n buf"
    using R append_take_drop_id [of n "tr_buf s"] by (simp add: reading_def)
  then show ?thesis using False R by (auto simp: read_tail_def reading_def)
next
  case True
  note R' = R [unfolded reading_def]
  let ?p = "unat (tr_pos s)" and ?r = "unat (tr_rem s)"
  have bs: "0 < unat bs" using laws by (simp add: disk_laws_def)
  have r0: "0 < ?r" using True by (simp add: word_less_nat_alt)
  have "unat (tr_block s) * unat bs < cap * unat bs" using R' True r0 by linarith
  then have "unat (tr_block s) < cap" using bs by simp
  then obtain t tmp d where r: "rd (tr_block s) 1 (tr_tmp s) (tr_dev s) = Inr (t, tmp, d)" "t \<noteq> - 1"
    and tmp: "tmp = chunk c (base + ?p) (unat bs)" "contents d = c"
    using disk_rd_block [OF laws, of "tr_tmp s" "tr_block s" "tr_dev s"] R' True by metis
  have le: "?r \<le> unat bs" using assms(3) by (simp add: word_le_nat_alt)
  have "take ?p (tr_buf s) @ take ?r tmp @ drop (?p + ?r) (tr_buf s) = chunk c base n @ drop n buf"
  proof -
    have "take ?r tmp = chunk c (base + ?p) ?r"
      using take_drop_chunk [of 0 ?r "unat bs"] le tmp(1) by simp
    moreover have "chunk c base ?p @ chunk c (base + ?p) ?r = chunk c base n"
      using R' chunk_append [of c base ?p ?r] by simp
    ultimately show ?thesis using R' by (metis append.assoc)
  qed
  moreover have "memcpy ?p 0 ?r tmp (tr_buf s) = Inr (take ?p (tr_buf s) @ take ?r tmp @ drop (?p + ?r) (tr_buf s))"
    using R' le tmp(1) by (simp add: memcpy_def)
  ultimately show ?thesis using True R' r tmp(2) by (simp add: read_tail_def)
qed

lemma reading_head:
  assumes laws: "disk_laws bs rd wr contents cap" and "length tmp = unat bs" and "unat n \<le> length buf"
    and range: "unat base + unat n \<le> cap * unat bs" and cap: "cap < 2 ^ 64" and n: "0 < n"
  shows "\<exists>s. read_head rd bs (base mod ucast bs) (transfer_start bs base n tmp buf d) = Inr s
    \<and> reading bs cap contents (contents d) (unat base) (unat n) buf s"
proof -
  let ?b = "base div ucast bs" and ?skip = "base mod ucast bs" and ?s0 = "transfer_start bs base n tmp buf d"
  have bs: "0 < unat bs" using laws by (simp add: disk_laws_def)
  have skip: "?skip < ucast bs" and sk: "unat ?skip = unat base mod unat bs" and blk: "unat ?b = unat base div unat bs"
    using bs by (simp_all add: word_less_nat_alt unat_mod unat_div unat_ucast64)
  have split: "unat ?b * unat bs + unat ?skip = unat base" unfolding sk blk by simp
  have n0: "0 < unat n" using n by (simp add: word_less_nat_alt)
  show ?thesis
  proof (cases "?skip > 0")
    case False
    then have "?skip = 0" by (simp add: word_gt_0)
    then have "unat ?b * unat bs = unat base" using split by simp
    then show ?thesis using False assms unat_lt32 [of n]
      by (simp add: read_head_def reading_def transfer_start_def)
  next
    case True
    let ?len = "head_len bs ?skip n"
    have "unat ?b * unat bs < cap * unat bs" using split range n0 by linarith
    then have lt: "unat ?b < cap" using bs by simp
    then obtain t tmp' d' where r: "rd ?b 1 tmp d = Inr (t, tmp', d')" "t \<noteq> - 1"
      and tmp': "tmp' = chunk (contents d) (unat ?b * unat bs) (unat bs)" "contents d' = contents d"
      using disk_rd_block [OF laws assms(2)] by metis
    have len: "unat ?len = min (unat bs - unat ?skip) (unat n)" by (rule head_len_nat [OF skip])
    have sb: "unat ?skip < unat bs" using sk bs by simp
    have le: "unat ?skip + unat ?len \<le> unat bs" "unat ?len \<le> unat n" using len sb by linarith+
    have "take (unat ?len) (drop (unat ?skip) tmp') = chunk (contents d) (unat base) (unat ?len)"
      unfolding tmp'(1) by (subst take_drop_chunk) (use le split in \<open>simp_all add: add.commute\<close>)
    then have cpy: "memcpy 0 (unat ?skip) (unat ?len) tmp' buf
        = Inr (chunk (contents d) (unat base) (unat ?len) @ drop (unat ?len) buf)"
      using le assms(3) tmp'(1) by (simp add: memcpy_def)
    have "unat (?b + 1) * unat bs = unat base + unat ?len" if "0 < n - ?len"
    proof -
      have "unat ?len < unat n" using that le by (simp add: word_less_nat_alt unat_sub word_le_nat_alt)
      then have "unat ?len = unat bs - unat ?skip" using len by (simp add: min_def split: if_splits)
      moreover have "unat (?b + 1) = unat ?b + 1" using lt cap by (simp add: unat_plus_nowrap)
      ultimately show ?thesis using split sb by simp
    qed
    moreover have "unat (n - ?len) = unat n - unat ?len" using le by (simp add: unat_sub word_le_nat_alt)
    ultimately show ?thesis
      using True r cpy assms(2,3) le range cap tmp' unat_lt32 [of n]
      by (simp add: read_head_def reading_def transfer_start_def Let_def)
  qed
qed

lemma bd_read_disk:
  assumes laws: "disk_laws bs rd wr contents cap" and "length tmp = unat bs" and "unat n \<le> length buf"
    and "unat base + unat n \<le> cap * unat bs" and "cap < 2 ^ 64" and "0 < n"
  shows "\<exists>d'. bd_read rd bs (Some tmp) base n buf d =
      Some (Inr (n, chunk (contents d) (unat base) (unat n) @ drop (unat n) buf, d'))
    \<and> contents d' = contents d"
proof -
  have bs: "bs \<noteq> 0" using laws by (auto simp: disk_laws_def)
  obtain s1 where s1: "read_head rd bs (base mod ucast bs) (transfer_start bs base n tmp buf d) = Inr s1"
    "reading bs cap contents (contents d) (unat base) (unat n) buf s1"
    using reading_head [OF assms] by blast
  obtain s2 where s2: "read_main rd bs s1 = Some (Inr s2)"
    "reading bs cap contents (contents d) (unat base) (unat n) buf s2" "tr_rem s2 \<le> bs"
    using reading_main [OF laws s1(2)] by blast
  obtain s3 where "read_tail rd s2 = Inr s3" "tr_ok s3"
    "tr_buf s3 = chunk (contents d) (unat base) (unat n) @ drop (unat n) buf" "contents (tr_dev s3) = contents d"
    using reading_tail [OF laws s2(2,3)] by blast
  then show ?thesis using bs s1(1) s2(1) by (simp add: bd_read_def)
qed

section \<open>Writing to a disk\<close>

text \<open>In the middle of a write the bytes before the position are on the disk, all others untouched.\<close>

definition writing ::
  "u32 \<Rightarrow> nat \<Rightarrow> ('d \<Rightarrow> nat \<Rightarrow> u8) \<Rightarrow> (nat \<Rightarrow> u8) \<Rightarrow> nat \<Rightarrow> nat \<Rightarrow> u8 list \<Rightarrow> 'd transfer \<Rightarrow> bool" where
  "writing bs cap contents c base n buf s \<longleftrightarrow>
     tr_ok s \<and> length (tr_tmp s) = unat bs \<and> tr_buf s = buf
     \<and> unat (tr_pos s) + unat (tr_rem s) = n \<and> n \<le> length buf \<and> n < 2 ^ 32
     \<and> base + n \<le> cap * unat bs \<and> cap < 2 ^ 64
     \<and> (0 < tr_rem s \<longrightarrow> unat (tr_block s) * unat bs = base + unat (tr_pos s))
     \<and> contents (tr_dev s) = patch base (take (unat (tr_pos s)) buf) c"

lemma patch_take:
  assumes "p + k \<le> length buf"
  shows "patch (a + p) (take k (drop p buf)) (patch a (take p buf) c) = patch a (take (p + k) buf) c"
  using patch_append [of a "take p buf" "take k (drop p buf)" c] assms by (simp add: take_add)

lemma writing_round:
  assumes laws: "disk_laws bs rd wr contents cap" and W: "writing bs cap contents c base n buf s"
    and "tr_rem s > bs"
  shows "\<exists>s'. write_main wr bs s = write_main wr bs s' \<and> writing bs cap contents c base n buf s'
    \<and> unat (tr_rem s') < unat (tr_rem s)"
proof -
  let ?n = "tr_rem s div bs" and ?p = "unat (tr_pos s)"
  have bs: "0 < unat bs" using laws by (simp add: disk_laws_def)
  note W' = W [unfolded writing_def]
  have rem: "0 < tr_rem s" using assms(3) by (rule le_less_trans [rotated]) simp
  have n: "unat ?n * unat bs \<le> unat (tr_rem s)" using block_count(2) [of ?n "tr_rem s" bs] by simp
  have "0 < ?n" using assms(3) bs by (simp add: word_less_nat_alt unat_div div_greater_zero_iff)
  moreover have "unat ?n * unat bs \<le> length (drop ?p (tr_buf s))"
    using W' n by auto
  moreover have cap: "unat (tr_block s) + unat ?n \<le> cap"
  proof -
    have "unat (tr_block s) * unat bs + unat (tr_rem s) \<le> cap * unat bs" using W' rem by linarith
    then show ?thesis using blocks_fit bs by (simp add: unat_div)
  qed
  ultimately obtain t d' where r: "wr (tr_block s) ?n (drop ?p (tr_buf s)) (tr_dev s) = Inr (t, d')"
    and t: "0 <s t" "t \<le> ?n"
    and d': "contents d' = patch (unat (tr_block s) * unat bs) (take (unat t * unat bs) (drop ?p (tr_buf s)))
      (contents (tr_dev s))"
    using disk_wr [OF laws, of ?n "drop ?p (tr_buf s)" "tr_block s" "tr_dev s"] by metis
  note bc = block_count [OF t(2)]
  let ?k = "unat t * unat bs"
  let ?s2 = "s\<lparr>tr_pos := tr_pos s + t * bs, tr_rem := tr_rem s - t * bs,
      tr_block := tr_block s + scast t, tr_dev := d'\<rparr>"
  have pos: "unat (tr_pos s + t * bs) = ?p + ?k" using bc W' by (simp add: unat_plus_nowrap)
  have "unat t \<le> unat ?n" using t(2) by (simp add: word_le_nat_alt)
  then have blk: "unat (tr_block s + scast t) = unat (tr_block s) + unat t"
    using cap W' positive_word(3) [OF t(1)] by (simp add: unat_plus_nowrap)
  have step: "write_main wr bs s = write_main wr bs ?s2"
  proof -
    have "tr_buf s = buf" using W' by simp
    note r' = r [unfolded this]
    show ?thesis
      using assms(3) W' positive_word(2) [OF t(1)] by (subst write_main.simps) (simp add: r')
  qed
  have "?p + ?k \<le> length buf" using W' bc(2) by linarith
  then have "contents d' = patch base (take (?p + ?k) buf) c"
    using W' rem d' patch_take by simp
  then have "writing bs cap contents c base n buf ?s2"
    unfolding writing_def using W' rem bc(2,3) pos blk by (simp add: add_mult_distrib)
  moreover have "unat (tr_rem ?s2) < unat (tr_rem s)"
    using block_less [OF t(2) positive_word(1) [OF t(1)] bs] by simp
  ultimately show ?thesis using step by blast
qed

lemma writing_main:
  assumes laws: "disk_laws bs rd wr contents cap" and "writing bs cap contents c base n buf s"
  shows "\<exists>s'. write_main wr bs s = Some (Inr s') \<and> writing bs cap contents c base n buf s' \<and> tr_rem s' \<le> bs"
  using assms(2)
proof (induction "unat (tr_rem s)" arbitrary: s rule: less_induct)
  case less
  show ?case
  proof (cases "tr_rem s > bs")
    case True
    then show ?thesis using writing_round [OF laws less.prems True] less.hyps by metis
  next
    case False
    then have "write_main wr bs s = Some (Inr s)" by (subst write_main.simps) simp
    then show ?thesis using less.prems False by (intro exI [of _ s]) simp
  qed
qed

text \<open>A block is read, changed from \<open>k\<close> on, and written back.\<close>

lemma disk_wr_block:
  assumes "disk_laws bs rd wr contents cap" and "length tmp = unat bs" and "unat b < cap"
  obtains t d' where "wr b 1 tmp d = Inr (t, d')" and "t \<noteq> - 1"
    and "contents d' = patch (unat b * unat bs) tmp (contents d)"
proof -
  have "unat (1 :: u32) * unat bs \<le> length tmp" "(0 :: u32) < 1" "unat b + unat (1 :: u32) \<le> cap"
    using assms(2,3) by simp_all
  then obtain t d' where r: "wr b 1 tmp d = Inr (t, d')" and t: "0 <s t" "t \<le> 1"
    and d': "contents d' = patch (unat b * unat bs) (take (unat t * unat bs) tmp) (contents d)"
    using disk_wr [OF assms(1), of 1 tmp b d] by metis
  have "unat t = 1" using positive_word(1) [OF t(1)] t(2) by (simp add: word_le_nat_alt)
  then show ?thesis using that [OF r positive_word(2) [OF t(1)]] d' assms(2) by simp
qed

lemma read_modify_write:
  assumes laws: "disk_laws bs rd wr contents cap" and "length tmp = unat bs" and "unat b < cap"
    and "k + m \<le> unat bs" and "p + m \<le> length buf"
  obtains t tmp1 d1 tmp2 t2 d2 where "rd b 1 tmp d = Inr (t, tmp1, d1)" and "t \<noteq> - 1"
    and "memcpy k p m buf tmp1 = Inr tmp2" and "length tmp2 = unat bs"
    and "wr b 1 tmp2 d1 = Inr (t2, d2)" and "t2 \<noteq> - 1"
    and "contents d2 = patch (unat b * unat bs + k) (take m (drop p buf)) (contents d)"
proof -
  obtain t tmp1 d1 where r: "rd b 1 tmp d = Inr (t, tmp1, d1)" "t \<noteq> - 1"
    and tmp1: "tmp1 = chunk (contents d) (unat b * unat bs) (unat bs)" "contents d1 = contents d"
    using disk_rd_block [OF laws assms(2,3)] by metis
  let ?xs = "take m (drop p buf)" and ?a = "unat b * unat bs"
  let ?tmp2 = "take k tmp1 @ ?xs @ drop (k + m) tmp1"
  have len: "length ?xs = m" using assms(5) by simp
  have cpy: "memcpy k p m buf tmp1 = Inr ?tmp2" using assms(4,5) tmp1(1) by (simp add: memcpy_def)
  have len2: "length ?tmp2 = unat bs" using assms(4) tmp1(1) len by simp
  obtain t2 d2 where w: "wr b 1 ?tmp2 d1 = Inr (t2, d2)" "t2 \<noteq> - 1"
    and d2: "contents d2 = patch ?a ?tmp2 (contents d1)"
    using disk_wr_block [OF laws len2 assms(3)] by metis
  have "patch ?a ?tmp2 (contents d) = patch (?a + k) ?xs (contents d)"
    using patch_within [of k ?xs "unat bs" ?a "contents d"] assms(4) unfolding len tmp1(1) by simp
  then show ?thesis using that [OF r cpy len2 w] d2 tmp1(2) by simp
qed

lemma writing_head:
  assumes laws: "disk_laws bs rd wr contents cap" and "length tmp = unat bs" and "unat n \<le> length buf"
    and range: "unat base + unat n \<le> cap * unat bs" and cap: "cap < 2 ^ 64" and n: "0 < n"
  shows "\<exists>s. write_head rd wr bs (base mod ucast bs) (transfer_start bs base n tmp buf d) = Inr s
    \<and> writing bs cap contents (contents d) (unat base) (unat n) buf s"
proof -
  let ?b = "base div ucast bs" and ?skip = "base mod ucast bs"
  have bs: "0 < unat bs" using laws by (simp add: disk_laws_def)
  have skip: "?skip < ucast bs" and sk: "unat ?skip = unat base mod unat bs" and blk: "unat ?b = unat base div unat bs"
    using bs by (simp_all add: word_less_nat_alt unat_mod unat_div unat_ucast64)
  have split: "unat ?b * unat bs + unat ?skip = unat base" unfolding sk blk by simp
  have n0: "0 < unat n" using n by (simp add: word_less_nat_alt)
  show ?thesis
  proof (cases "?skip > 0")
    case False
    then have "?skip = 0" by (simp add: word_gt_0)
    then have "unat ?b * unat bs = unat base" using split by simp
    then show ?thesis using False assms unat_lt32 [of n]
      by (simp add: write_head_def writing_def transfer_start_def)
  next
    case True
    let ?len = "head_len bs ?skip n"
    have "unat ?b * unat bs < cap * unat bs" using split range n0 by linarith
    then have lt: "unat ?b < cap" using bs by simp
    have len: "unat ?len = min (unat bs - unat ?skip) (unat n)" by (rule head_len_nat [OF skip])
    have sb: "unat ?skip < unat bs" using sk bs by simp
    have le: "unat ?skip + unat ?len \<le> unat bs" "unat ?len \<le> unat n" using len sb by linarith+
    have fit: "0 + unat ?len \<le> length buf" using le assms(3) by simp
    obtain t tmp1 d1 tmp2 t2 d2 where "rd ?b 1 tmp d = Inr (t, tmp1, d1)" "t \<noteq> - 1"
      "memcpy (unat ?skip) 0 (unat ?len) buf tmp1 = Inr tmp2" "length tmp2 = unat bs"
      "wr ?b 1 tmp2 d1 = Inr (t2, d2)" "t2 \<noteq> - 1"
      "contents d2 = patch (unat base) (take (unat ?len) buf) (contents d)"
      using read_modify_write [OF laws assms(2) lt le(1) fit, of d] split by (metis drop0)
    moreover have "unat (?b + 1) * unat bs = unat base + unat ?len" if "0 < n - ?len"
    proof -
      have "unat ?len < unat n" using that le by (simp add: word_less_nat_alt unat_sub word_le_nat_alt)
      then have "unat ?len = unat bs - unat ?skip" using len by (simp add: min_def split: if_splits)
      moreover have "unat (?b + 1) = unat ?b + 1" using lt cap by (simp add: unat_plus_nowrap)
      ultimately show ?thesis using split sb by simp
    qed
    moreover have "unat (n - ?len) = unat n - unat ?len" using le by (simp add: unat_sub word_le_nat_alt)
    ultimately show ?thesis
      using True assms(3) le range cap unat_lt32 [of n]
      by (simp add: write_head_def writing_def transfer_start_def Let_def)
  qed
qed

lemma writing_tail:
  assumes laws: "disk_laws bs rd wr contents cap" and W: "writing bs cap contents c base n buf s"
    and "tr_rem s \<le> bs"
  shows "\<exists>s'. write_tail rd wr s = Inr s' \<and> tr_ok s' \<and> contents (tr_dev s') = patch base (take n buf) c"
proof (cases "tr_rem s > 0")
  case False
  then have "unat (tr_rem s) = 0" by (simp add: word_gt_0)
  then show ?thesis using False W by (auto simp: write_tail_def writing_def)
next
  case True
  note W' = W [unfolded writing_def]
  let ?p = "unat (tr_pos s)" and ?r = "unat (tr_rem s)"
  have bs: "0 < unat bs" using laws by (simp add: disk_laws_def)
  have r0: "0 < ?r" using True by (simp add: word_less_nat_alt)
  have "unat (tr_block s) * unat bs < cap * unat bs" using W' True r0 by linarith
  then have lt: "unat (tr_block s) < cap" using bs by simp
  have le: "0 + ?r \<le> unat bs" using assms(3) by (simp add: word_le_nat_alt)
  have fit: "?p + ?r \<le> length (tr_buf s)" using W' by simp
  obtain t tmp1 d1 tmp2 t2 d2 where "rd (tr_block s) 1 (tr_tmp s) (tr_dev s) = Inr (t, tmp1, d1)" "t \<noteq> - 1"
    "memcpy 0 ?p ?r (tr_buf s) tmp1 = Inr tmp2" "wr (tr_block s) 1 tmp2 d1 = Inr (t2, d2)" "t2 \<noteq> - 1"
    and d2: "contents d2 = patch (unat (tr_block s) * unat bs) (take ?r (drop ?p buf)) (contents (tr_dev s))"
    using read_modify_write [OF laws _ lt le fit, of "tr_tmp s" "tr_dev s"] W' by (metis add.right_neutral)
  moreover have "contents d2 = patch base (take n buf) c"
    using d2 W' True patch_take [of ?p ?r buf base c] by simp
  ultimately show ?thesis using True W' by (simp add: write_tail_def)
qed

lemma bd_write_disk:
  assumes laws: "disk_laws bs rd wr contents cap" and "length tmp = unat bs" and "unat n \<le> length buf"
    and "unat base + unat n \<le> cap * unat bs" and "cap < 2 ^ 64" and "0 < n"
  shows "\<exists>d'. bd_write rd wr bs (Some tmp) base n buf d = Some (Inr (n, d'))
    \<and> contents d' = patch (unat base) (take (unat n) buf) (contents d)"
proof -
  have bs: "bs \<noteq> 0" using laws by (auto simp: disk_laws_def)
  obtain s1 where s1: "write_head rd wr bs (base mod ucast bs) (transfer_start bs base n tmp buf d) = Inr s1"
    "writing bs cap contents (contents d) (unat base) (unat n) buf s1"
    using writing_head [OF assms] by blast
  obtain s2 where s2: "write_main wr bs s1 = Some (Inr s2)"
    "writing bs cap contents (contents d) (unat base) (unat n) buf s2" "tr_rem s2 \<le> bs"
    using writing_main [OF laws s1(2)] by blast
  obtain s3 where "write_tail rd wr s2 = Inr s3" "tr_ok s3"
    "contents (tr_dev s3) = patch (unat base) (take (unat n) buf) (contents d)"
    using writing_tail [OF laws s2(2,3)] by blast
  then show ?thesis using bs s1(1) s2(1) by (simp add: bd_write_def Let_def)
qed

section \<open>Properties\<close>

text \<open>Reading bytes reads the disk. On a device that transfers the contents of a disk,
  read returns for every range on the disk, aligned or not, whatever number of blocks the
  device moves at a time: it reports the whole length, the first bytes of the buffer are
  those of the range, the rest of the buffer and the disk are unchanged.\<close>

theorem bd_read_contents:
  assumes "disk_laws bs rd wr contents cap" and "length tmp = unat bs" and "unat n \<le> length buf"
    and "unat base + unat n \<le> cap * unat bs" and "cap < 2 ^ 64" and "0 < n"
  shows "\<exists>d'. bd_read rd bs (Some tmp) base n buf d =
      Some (Inr (n, map (\<lambda>i. contents d (unat base + i)) [0..<unat n] @ drop (unat n) buf, d'))
    \<and> contents d' = contents d"
proof -
  have "chunk (contents d) (unat base) (unat n) = map (\<lambda>i. contents d (unat base + i)) [0..<unat n]"
    by (rule nth_equalityI) auto
  then show ?thesis using bd_read_disk [OF assms, of d] by simp
qed

text \<open>C29: writing bytes changes the range and nothing else. The range is what the buffer
  holds, although the first and the last block are rewritten as a whole; what a read of the
  range gets afterwards are these bytes.\<close>

theorem bd_write_contents:
  assumes "disk_laws bs rd wr contents cap" and "length tmp = unat bs" and "unat n \<le> length buf"
    and "unat base + unat n \<le> cap * unat bs" and "cap < 2 ^ 64" and "0 < n"
  shows "\<exists>d'. bd_write rd wr bs (Some tmp) base n buf d = Some (Inr (n, d'))
    \<and> (\<forall>i. contents d' i = (if unat base \<le> i \<and> i < unat base + unat n
                              then buf ! (i - unat base) else contents d i))
    \<and> (\<forall>buf'. length buf' = unat n \<longrightarrow>
         (\<exists>d''. bd_read rd bs (Some tmp) base n buf' d' = Some (Inr (n, take (unat n) buf, d''))))"
proof -
  obtain d' where w: "bd_write rd wr bs (Some tmp) base n buf d = Some (Inr (n, d'))"
    and c: "contents d' = patch (unat base) (take (unat n) buf) (contents d)"
    using bd_write_disk [OF assms] by blast
  have "\<exists>d''. bd_read rd bs (Some tmp) base n buf' d' = Some (Inr (n, take (unat n) buf, d''))"
    if "length buf' = unat n" for buf'
    using bd_read_disk [OF assms(1,2) _ assms(4-6), of buf' d'] that chunk_patch [of "take (unat n) buf" "unat n"]
      assms(3) by (auto simp: c)
  moreover have "contents d' i = (if unat base \<le> i \<and> i < unat base + unat n then buf ! (i - unat base) else contents d i)" for i
    using assms(3) by (auto simp: c patch_def)
  ultimately show ?thesis using w by blast
qed

text \<open>A failed read does not keep write from writing. When the block at the start of
  the range cannot be read, write puts the bytes into whatever the memory for the block
  holds and writes this to the disk before it reports the error.\<close>

theorem failed_read_is_written:
  assumes "bs \<noteq> 0" and "base mod ucast bs > 0" and "unat n \<le> length buf"
    and "rd (base div ucast bs) 1 tmp d = Inr (- 1, tmp', d1)" and "length tmp' = unat bs"
    and "k = unat (base mod ucast bs)" and "m = min (unat bs - k) (unat n)"
    and "wr (base div ucast bs) 1 (take k tmp' @ take m buf @ drop (k + m) tmp') d1 = Inr (t, d2)"
  shows "bd_write rd wr bs (Some tmp) base n buf d = Some (Inr (- 1, d2))"
proof -
  let ?skip = "base mod ucast bs" and ?s0 = "transfer_start bs base n tmp buf d"
  have skip: "?skip < ucast bs"
    using assms(1) by (simp add: word_less_nat_alt unat_mod unat_ucast64 unat_gt_0)
  have k: "k < unat bs" using skip unfolding assms(6) by (simp add: word_less_nat_alt unat_ucast64)
  have len: "unat (head_len bs ?skip n) = m"
    unfolding assms(7) assms(6) by (rule head_len_nat [OF skip])
  have "k + m \<le> unat bs" "m \<le> length buf" using k assms(3) unfolding assms(7) by linarith+
  then have "memcpy k 0 m buf tmp' = Inr (take k tmp' @ take m buf @ drop (k + m) tmp')"
    using assms(5) by (simp add: memcpy_def)
  then have "\<exists>s1. write_head rd wr bs ?skip ?s0 = Inr s1 \<and> \<not> tr_ok s1 \<and> tr_dev s1 = d2"
    using assms(2,4,6,8) len by (simp add: write_head_def transfer_start_def Let_def)
  then obtain s1 where s1: "write_head rd wr bs ?skip ?s0 = Inr s1" "\<not> tr_ok s1" "tr_dev s1 = d2" by blast
  have "write_main wr bs s1 = Some (Inr s1)" using s1(2) by (subst write_main.simps) simp
  then show ?thesis using assms(1) s1 by (simp add: bd_write_def write_tail_def Let_def)
qed

subsection \<open>Witnesses\<close>

text \<open>A disk of 16 blocks of 4 bytes that transfers one block at a time.\<close>

definition ram_read :: "(nat \<Rightarrow> u8) block_read" where
  "ram_read b n data d = Inr (1, chunk d (unat b * 4) 4 @ drop 4 data, d)"

definition ram_write :: "(nat \<Rightarrow> u8) block_write" where
  "ram_write b n data d = Inr (1, patch (unat b * 4) (take 4 data) d)"

lemma ram_laws: "disk_laws 4 ram_read ram_write (\<lambda>d. d) 16"
proof -
  have "4 \<le> length data" if "0 < n" "unat n * 4 \<le> length data" for n :: u32 and data :: "u8 list"
    using that by (simp add: word_less_nat_alt)
  moreover have "(1 :: u32) \<le> n" if "0 < n" for n :: u32
    using that by (simp add: word_less_nat_alt word_le_nat_alt)
  ultimately show ?thesis
    by (auto simp: disk_laws_def ram_read_def ram_write_def word_less_nat_alt word_sless_alt)
qed

theorem bd_read_contents_witness:
  "\<exists>d'. bd_read ram_read 4 (Some [0, 0, 0, 0]) 2 9 (replicate 10 7) (\<lambda>i. of_nat i) =
    Some (Inr (9, [2, 3, 4, 5, 6, 7, 8, 9, 10, 7], d')) \<and> d' = (\<lambda>i. of_nat i)"
proof -
  have list: "map (\<lambda>i. of_nat (2 + i) :: u8) [0..<9] @ drop 9 (replicate 10 7) = [2, 3, 4, 5, 6, 7, 8, 9, 10, 7]"
    by (simp add: upt_rec numeral_eq_Suc)
  show ?thesis
    using bd_read_contents [OF ram_laws, of "[0, 0, 0, 0]" 9 "replicate 10 7" 2 "\<lambda>i. of_nat i"]
    unfolding list [symmetric] by simp
qed

theorem bd_write_contents_witness:
  "\<exists>d'. bd_write ram_read ram_write 4 (Some [0, 0, 0, 0]) 2 3 [5, 6, 7] (\<lambda>i. 0) = Some (Inr (3, d'))
    \<and> d' 2 = 5 \<and> d' 4 = 7 \<and> d' 5 = 0"
proof -
  obtain d' where w: "bd_write ram_read ram_write 4 (Some [0, 0, 0, 0]) 2 3 [5, 6, 7] (\<lambda>i. 0) = Some (Inr (3, d'))"
    and c: "\<And>i. d' i = (if 2 \<le> i \<and> i < 5 then [5, 6, 7] ! (i - 2) else 0)"
    using bd_write_contents [OF ram_laws, of "[0, 0, 0, 0]" 3 "[5, 6, 7]" 2 "\<lambda>i. 0"] by auto
  have "d' 2 = 5" "d' 4 = 7" "d' 5 = 0" by (simp_all add: c)
  with w show ?thesis by blast
qed

definition broken_read :: "(nat \<Rightarrow> u8) block_read" where
  "broken_read b n data d = Inr (- 1, data, d)"

theorem failed_read_is_written_witness:
  "bd_write broken_read ram_write 4 (Some [9, 9, 9, 9]) 2 3 [5, 6, 7] (\<lambda>i. 0) =
    Some (Inr (- 1, patch 0 [9, 9, 5, 6] (\<lambda>i. 0)))"
proof -
  have "(2 :: u64) mod ucast (4 :: u32) = 2" "(2 :: u64) div ucast (4 :: u32) = 0" by simp_all
  then show ?thesis
    by (intro failed_read_is_written [of 4 2 3 "[5, 6, 7]" _ _ _ "[9, 9, 9, 9]" "\<lambda>i. 0" 2 2 _ 1])
      (simp_all add: broken_read_def ram_write_def)
qed

end
