(* ===== verification/Ata_Drive.thy ===== *)
theory Ata_Drive
  imports Block_Device
begin

text \<open>
  The driver of ATA disks (kern/arch/x86/ata/ata_controller.cpp, ata_drive.cpp and
  ata_data_structurs.h): the controller with its command protocol, the drive, and the
  drive as a block device. The machine behind the ports is a parameter: what an input
  from a port gives and what an output does to it.
\<close>

section \<open>Ports\<close>

record 'w port_io =
  in8 :: "u16 \<Rightarrow> 'w \<Rightarrow> u8 \<times> 'w"
  out8 :: "u16 \<Rightarrow> u8 \<Rightarrow> 'w \<Rightarrow> 'w"
  in16 :: "u16 \<Rightarrow> 'w \<Rightarrow> u16 \<times> 'w"
  out16 :: "u16 \<Rightarrow> u16 \<Rightarrow> 'w \<Rightarrow> 'w"
  io_delay :: "u32 \<Rightarrow> 'w \<Rightarrow> 'w"

text \<open>The string instructions move words between a port and memory, low byte first.\<close>

fun read_string16 :: "'w port_io \<Rightarrow> u16 \<Rightarrow> nat \<Rightarrow> 'w \<Rightarrow> u8 list \<times> 'w" where
  "read_string16 io port 0 w = ([], w)"
| "read_string16 io port (Suc n) w =
     (let (x, w1) = in16 io port w;
          (xs, w2) = read_string16 io port n w1
      in (ucast x # ucast (drop_bit 8 x) # xs, w2))"

fun write_string16 :: "'w port_io \<Rightarrow> u16 \<Rightarrow> nat \<Rightarrow> u8 list \<Rightarrow> 'w \<Rightarrow> 'w result" where
  "write_string16 io port 0 bs w = Inr w"
| "write_string16 io port (Suc n) (lo # hi # bs) w =
     write_string16 io port n bs (out16 io port (ucast lo OR push_bit 8 (ucast hi)) w)"
| "write_string16 io port (Suc n) bs w = Inl Out_of_bounds"

section \<open>The identification of a drive\<close>

text \<open>The 512 bytes a drive answers to the command identify.\<close>

type_synonym identify_information = "u8 list"

definition info_word :: "identify_information \<Rightarrow> nat \<Rightarrow> u16" where
  "info_word info i = ucast (info ! (2 * i)) OR push_bit 8 (ucast (info ! (2 * i + 1)))"

definition addresses_48bit :: "identify_information \<Rightarrow> bool" where
  "addresses_48bit info = bit (info_word info 83) 10"

definition number_of_acc_sector_lba48 :: "identify_information \<Rightarrow> u64" where
  "number_of_acc_sector_lba48 info =
     ucast (info_word info 100) OR push_bit 16 (ucast (info_word info 101))
     OR push_bit 32 (ucast (info_word info 102)) OR push_bit 48 (ucast (info_word info 103))"

definition number_of_acc_sector_lba28 :: "identify_information \<Rightarrow> u32" where
  "number_of_acc_sector_lba28 info = ucast (info_word info 60) OR push_bit 16 (ucast (info_word info 61))"

definition has_lba48 :: "identify_information \<Rightarrow> bool" where
  "has_lba48 info \<longleftrightarrow> addresses_48bit info \<and> number_of_acc_sector_lba48 info \<noteq> 0"

definition max_sectors :: "identify_information \<Rightarrow> u32" where
  "max_sectors info =
     (if number_of_acc_sector_lba48 info = 0 then number_of_acc_sector_lba28 info
      else ucast (number_of_acc_sector_lba48 info))"

definition is_atapi :: "identify_information \<Rightarrow> bool" where
  "is_atapi info \<longleftrightarrow> info_word info 2 = 0x14EB"

definition is_ata :: "identify_information \<Rightarrow> bool" where
  "is_ata info \<longleftrightarrow> info_word info 2 = 0"

text \<open>spin exchanges the bytes of the words that are text.\<close>

definition xchgb :: "nat \<Rightarrow> identify_information \<Rightarrow> identify_information" where
  "xchgb i info = info[2 * i := info ! (2 * i + 1), 2 * i + 1 := info ! (2 * i)]"

definition spin :: "identify_information \<Rightarrow> identify_information" where
  "spin info = fold xchgb [23..<47] (fold xchgb [10..<20] info)"

datatype ata_drive_number = Ata_none | Ata_master | Ata_slave

record ata_drive =
  drive_number :: ata_drive_number
  information :: identify_information
  base_port :: u16
  alt_port :: u16

text \<open>The bits of the status, the selector and the configuration port.\<close>

definition controller_status :: "bool \<Rightarrow> bool \<Rightarrow> bool \<Rightarrow> bool \<Rightarrow> bool \<Rightarrow> bool \<Rightarrow> u8" where
  "controller_status error data_request service device_fault ready busy =
     of_bool error OR push_bit 3 (of_bool data_request) OR push_bit 4 (of_bool service)
     OR push_bit 5 (of_bool device_fault) OR push_bit 6 (of_bool ready) OR push_bit 7 (of_bool busy)"

definition hd_selector :: "bool \<Rightarrow> bool \<Rightarrow> u8" where
  "hd_selector master lba_mode =
     push_bit 4 (if master then 0 else 1) OR push_bit 6 (if lba_mode then 1 else 0)"

definition controller_config :: "bool \<Rightarrow> bool \<Rightarrow> bool \<Rightarrow> u8" where
  "controller_config interrupts_disabled software_reset high_order_byte =
     push_bit 1 (of_bool interrupts_disabled) OR push_bit 2 (of_bool software_reset)
     OR push_bit 6 (of_bool high_order_byte)"

section \<open>The controller\<close>

record 'w ata_controller =
  current_drive :: ata_drive_number
  current_base_port :: u16
  current_alt_port :: u16
  machine :: 'w

definition ports_set :: "'w ata_controller \<Rightarrow> bool" where
  "ports_set c \<longleftrightarrow> current_base_port c \<noteq> 0 \<and> current_alt_port c \<noteq> 0"

definition write_reg :: "'w port_io \<Rightarrow> u16 \<Rightarrow> u8 \<Rightarrow> 'w ata_controller \<Rightarrow> 'w ata_controller" where
  "write_reg io offset v c =
     (if ports_set c then c\<lparr>machine := out8 io (current_base_port c + offset) v (machine c)\<rparr> else c)"

definition write_selector :: "'w port_io \<Rightarrow> u8 \<Rightarrow> 'w ata_controller \<Rightarrow> 'w ata_controller" where
  "write_selector io sel c = write_reg io 6 sel c"

definition write_sector_count :: "'w port_io \<Rightarrow> u8 \<Rightarrow> 'w ata_controller \<Rightarrow> 'w ata_controller" where
  "write_sector_count io n c = write_reg io 2 n c"

definition write_address :: "'w port_io \<Rightarrow> u8 \<times> u8 \<times> u8 \<Rightarrow> 'w ata_controller \<Rightarrow> 'w ata_controller" where
  "write_address io adr c =
     (case adr of (a0, a1, a2) \<Rightarrow> write_reg io 5 a2 (write_reg io 4 a1 (write_reg io 3 a0 c)))"

definition write_command :: "'w port_io \<Rightarrow> u8 \<Rightarrow> 'w ata_controller \<Rightarrow> 'w ata_controller" where
  "write_command io cmd c = write_reg io 7 cmd c"

definition write_config :: "'w port_io \<Rightarrow> u8 \<Rightarrow> 'w ata_controller \<Rightarrow> 'w ata_controller" where
  "write_config io config c =
     (if ports_set c then c\<lparr>machine := out8 io (current_alt_port c) config (machine c)\<rparr> else c)"

definition read_reg :: "'w port_io \<Rightarrow> u16 \<Rightarrow> 'w ata_controller \<Rightarrow> u8 \<times> 'w ata_controller" where
  "read_reg io port c =
     (if ports_set c then (let (v, w) = in8 io port (machine c) in (v, c\<lparr>machine := w\<rparr>)) else (0, c))"

definition read_status :: "'w port_io \<Rightarrow> 'w ata_controller \<Rightarrow> u8 \<times> 'w ata_controller" where
  "read_status io c = read_reg io (current_base_port c + 7) c"

definition read_alt_status :: "'w port_io \<Rightarrow> 'w ata_controller \<Rightarrow> u8 \<times> 'w ata_controller" where
  "read_alt_status io c = read_reg io (current_alt_port c) c"

text \<open>\<open>len\<close> bytes from the data port to a place in the buffer and back.\<close>

definition read_data ::
  "'w port_io \<Rightarrow> nat \<Rightarrow> nat \<Rightarrow> u8 list \<Rightarrow> 'w ata_controller \<Rightarrow> (u8 list \<times> 'w ata_controller) result" where
  "read_data io at len buf c =
     (if ports_set c
      then (let (bs, w) = read_string16 io (current_base_port c) (len div 2) (machine c)
            in bind_result (memcpy at 0 (2 * (len div 2)) bs buf) (\<lambda>buf'. Inr (buf', c\<lparr>machine := w\<rparr>)))
      else Inr (buf, c))"

definition write_data ::
  "'w port_io \<Rightarrow> nat \<Rightarrow> nat \<Rightarrow> u8 list \<Rightarrow> 'w ata_controller \<Rightarrow> 'w ata_controller result" where
  "write_data io at len buf c =
     (if ports_set c
      then bind_result (write_string16 io (current_base_port c) (len div 2) (drop at buf) (machine c))
             (\<lambda>w. Inr (c\<lparr>machine := w\<rparr>))
      else Inr c)"

text \<open>The constructor configures ports that are not set yet: it writes nothing.\<close>

definition ata_controller_new :: "'w port_io \<Rightarrow> 'w \<Rightarrow> 'w ata_controller" where
  "ata_controller_new io w =
     write_config io (controller_config True False False)
       \<lparr>current_drive = Ata_none, current_base_port = 0, current_alt_port = 0, machine = w\<rparr>"

text \<open>The member \<open>current_drive\<close> is never assigned, so every drive is selected anew.\<close>

definition select_drive :: "'w port_io \<Rightarrow> ata_drive \<Rightarrow> 'w ata_controller \<Rightarrow> bool \<times> 'w ata_controller" where
  "select_drive io drive c =
     (if drive_number drive \<noteq> current_drive c \<or> base_port drive \<noteq> current_base_port c
         \<or> alt_port drive \<noteq> current_alt_port c
      then if drive_number drive = Ata_none
           then (False, c\<lparr>current_base_port := 0, current_alt_port := 0\<rparr>)
           else (let c1 = c\<lparr>current_base_port := base_port drive, current_alt_port := alt_port drive\<rparr>;
                     c2 = write_selector io (hd_selector (drive_number drive = Ata_master) True) c1
                 in (True, c2\<lparr>machine := io_delay io 4 (machine c2)\<rparr>))
      else (True, c))"

fun wait_loop :: "'w port_io \<Rightarrow> u8 \<Rightarrow> nat \<Rightarrow> u8 \<Rightarrow> 'w ata_controller \<Rightarrow> 'w ata_controller" where
  "wait_loop io status 0 cur c = c"
| "wait_loop io status (Suc timeout) cur c =
     (if cur AND status \<noteq> 0
      then (let (cur', c') = read_alt_status io (c\<lparr>machine := io_delay io 1 (machine c)\<rparr>)
            in wait_loop io status timeout cur' c')
      else c)"

definition wait_status_timeout :: nat where
  "wait_status_timeout = 100000"

definition wait_while_status :: "'w port_io \<Rightarrow> u8 \<Rightarrow> 'w ata_controller \<Rightarrow> u8 \<times> 'w ata_controller" where
  "wait_while_status io status c =
     (let (cur, c1) = read_alt_status io c
      in read_status io (wait_loop io status wait_status_timeout cur c1))"

section \<open>Running a command\<close>

datatype ata_command = Identify | Write | Read

definition sector_size :: u32 where
  "sector_size = 512"

definition limit_sectors :: "ata_drive \<Rightarrow> u32 \<Rightarrow> u32" where
  "limit_sectors drive sectors =
     (if drop_bit 8 sectors \<noteq> 0 \<and> \<not> has_lba48 (information drive) then sectors AND 0xFF
      else sectors AND 0xFFFF)"

definition address_lo :: "u64 \<Rightarrow> u8 \<times> u8 \<times> u8" where
  "address_lo s = (ucast (s AND 0xFF), ucast (drop_bit 8 s AND 0xFF), ucast (drop_bit 16 s AND 0xFF))"

definition address_hi :: "u64 \<Rightarrow> u8 \<times> u8 \<times> u8" where
  "address_hi s =
     (ucast (drop_bit 24 s AND 0xFF), ucast (drop_bit 32 s AND 0xFF), ucast (drop_bit 40 s AND 0xFF))"

definition set_position ::
  "'w port_io \<Rightarrow> ata_command \<Rightarrow> bool \<Rightarrow> u64 \<Rightarrow> u32 \<Rightarrow> 'w ata_controller \<Rightarrow> 'w ata_controller" where
  "set_position io cmd lba48 base sectors c =
     (case cmd of
        Identify \<Rightarrow> c
      | _ \<Rightarrow>
          (let c1 = (if lba48
                     then write_address io (address_hi base)
                            (write_sector_count io (ucast (drop_bit 8 sectors AND 0xFF)) c)
                     else c)
           in write_address io (address_lo base)
                (write_sector_count io (ucast (sectors AND 0xFF)) c1)))"

definition command_code :: "ata_command \<Rightarrow> bool \<Rightarrow> u8" where
  "command_code cmd lba48 =
     (case cmd of
        Identify \<Rightarrow> 0xEC
      | Write \<Rightarrow> if lba48 then 0x34 else 0x30
      | Read \<Rightarrow> if lba48 then 0x24 else 0x20)"

definition busy_bit :: u8 where
  "busy_bit = controller_status False False False False False True"

definition busy_or_request :: u8 where
  "busy_or_request = controller_status False True False False False True"

definition sector_io ::
  "'w port_io \<Rightarrow> ata_command \<Rightarrow> u32 \<Rightarrow> u16 \<Rightarrow> u8 list \<Rightarrow> 'w ata_controller \<Rightarrow> (u8 list \<times> 'w ata_controller) result" where
  "sector_io io cmd sectors i buf c =
     bind_result
       (case cmd of
          Write \<Rightarrow> bind_result (write_data io (unat i * 512) (unat sector_size) buf c) (\<lambda>c1.
                     Inr (buf, write_command io 0xE7 c1))
        | _ \<Rightarrow> read_data io (unat i * 512) (unat sector_size) buf c)
       (\<lambda>(buf1, c1).
         Inr (buf1, snd (wait_while_status io (if ucast i < sectors then busy_bit else busy_or_request) c1)))"

text \<open>
  \<open>n\<close> sectors are left, the next one is \<open>i\<close>. The 16 bits of the counter are enough: at most
  65535 sectors pass \<open>limit_sectors\<close>.
\<close>

fun sectors_io ::
  "'w port_io \<Rightarrow> ata_command \<Rightarrow> u32 \<Rightarrow> nat \<Rightarrow> u16 \<Rightarrow> u8 list \<Rightarrow> 'w ata_controller
   \<Rightarrow> (u8 list \<times> 'w ata_controller) result" where
  "sectors_io io cmd sectors 0 i buf c = Inr (buf, c)"
| "sectors_io io cmd sectors (Suc n) i buf c =
     bind_result (sector_io io cmd sectors i buf c) (\<lambda>(buf1, c1).
       sectors_io io cmd sectors n (i + 1) buf1 c1)"

definition run_command ::
  "'w port_io \<Rightarrow> ata_drive \<Rightarrow> ata_command \<Rightarrow> u64 \<Rightarrow> u8 list \<Rightarrow> u32 \<Rightarrow> 'w ata_controller
   \<Rightarrow> (u32 \<times> u8 list \<times> 'w ata_controller) result" where
  "run_command io drive cmd base buf sectors c =
     (let n = limit_sectors drive sectors;
          lba48 = (drop_bit 8 n AND 0xFF \<noteq> 0 \<or> drop_bit 24 base \<noteq> 0)
      in if lba48 \<and> \<not> has_lba48 (information drive) then Inr (- 1, buf, c)
         else
           (let c1 = snd (wait_while_status io busy_or_request c);
                c2 = snd (select_drive io drive c1);
                c3 = snd (wait_while_status io busy_or_request c2);
                c4 = set_position io cmd lba48 base n c3;
                c5 = write_command io (command_code cmd lba48) c4;
                c6 = snd (wait_while_status io busy_bit c5)
            in bind_result (sectors_io io cmd n (unat n) 0 buf c6) (\<lambda>(buf', c7). Inr (n, buf', c7))))"

definition identify_drive ::
  "'w port_io \<Rightarrow> ata_drive \<Rightarrow> 'w ata_controller \<Rightarrow> (bool \<times> ata_drive \<times> 'w ata_controller) result" where
  "identify_drive io drive c =
     bind_result (run_command io drive Identify 0 (information drive) 1 c) (\<lambda>(t, info, c1).
       Inr (True, drive\<lparr>information := spin info\<rparr>, c1))"

section \<open>The drive\<close>

definition ata_read_block :: "'w port_io \<Rightarrow> ata_drive \<Rightarrow> 'w ata_controller block_read" where
  "ata_read_block io drive base n buf c =
     (if drive_number drive = Ata_none then Inr (- 1, buf, c)
      else run_command io drive Read base buf n c)"

definition ata_write_block :: "'w port_io \<Rightarrow> ata_drive \<Rightarrow> 'w ata_controller block_write" where
  "ata_write_block io drive base n buf c =
     (if drive_number drive = Ata_none then Inr (- 1, c)
      else bind_result (run_command io drive Write base buf n c) (\<lambda>(t, buf', c'). Inr (t, c')))"

definition ata_identify ::
  "'w port_io \<Rightarrow> ata_drive \<Rightarrow> 'w ata_controller \<Rightarrow> (bool \<times> ata_drive \<times> 'w ata_controller) result" where
  "ata_identify io drive c =
     (if drive_number drive = Ata_none then Inr (False, drive, c)
      else bind_result (identify_drive io drive c) (\<lambda>(b, drive', c'). Inr (True, drive', c')))"

definition ata_length :: "ata_drive \<Rightarrow> u64" where
  "ata_length drive = number_of_acc_sector_lba48 (information drive) * ucast sector_size"

section \<open>Transfers stay in the buffer\<close>

lemma read_string16_length: "length (fst (read_string16 io port n w)) = 2 * n"
  by (induction n arbitrary: w) (simp_all add: Let_def case_prod_beta)

lemma write_string16_total:
  "2 * n \<le> length bs \<Longrightarrow> \<exists>w'. write_string16 io port n bs w = Inr w'"
proof (induction n arbitrary: bs w)
  case 0
  then show ?case by simp
next
  case (Suc n)
  obtain lo hi bs' where bs: "bs = lo # hi # bs'"
    using Suc.prems by (cases bs; cases "tl bs") auto
  then show ?case using Suc by simp
qed

lemma read_data_fits:
  assumes "at + 512 \<le> length buf"
  shows "\<exists>buf' c'. read_data io at 512 buf c = Inr (buf', c') \<and> length buf' = length buf
    \<and> take at buf' = take at buf \<and> drop (at + 512) buf' = drop (at + 512) buf"
proof (cases "ports_set c")
  case True
  obtain bs w where r: "read_string16 io (current_base_port c) 256 (machine c) = (bs, w)" by (metis surj_pair)
  then have len: "length bs = 512" using read_string16_length [of io "current_base_port c" 256 "machine c"] by simp
  have "read_data io at 512 buf c = Inr (take at buf @ bs @ drop (at + 512) buf, c\<lparr>machine := w\<rparr>)"
    using True assms len by (simp add: read_data_def memcpy_def r)
  moreover have "length (take at buf @ bs @ drop (at + 512) buf) = length buf" using assms len by simp
  ultimately show ?thesis using assms len by simp
next
  case False
  then show ?thesis by (simp add: read_data_def)
qed

lemma write_data_fits:
  assumes "at + 512 \<le> length buf"
  shows "\<exists>c'. write_data io at 512 buf c = Inr c'"
proof (cases "ports_set c")
  case True
  have "2 * 256 \<le> length (drop at buf)" using assms by simp
  then obtain w where "write_string16 io (current_base_port c) 256 (drop at buf) (machine c) = Inr w"
    using write_string16_total by metis
  then show ?thesis using True by (simp add: write_data_def)
next
  case False
  then show ?thesis by (simp add: write_data_def)
qed

lemma sector_io_fits:
  assumes "unat i * 512 + 512 \<le> length buf"
  shows "\<exists>buf' c'. sector_io io cmd sectors i buf c = Inr (buf', c') \<and> length buf' = length buf
    \<and> drop (unat i * 512 + 512) buf' = drop (unat i * 512 + 512) buf"
proof (cases "cmd = Write")
  case True
  then show ?thesis
    using write_data_fits [OF assms, of io c] by (auto simp: sector_io_def sector_size_def)
next
  case False
  have "sector_io io cmd sectors i buf c = bind_result (read_data io (unat i * 512) 512 buf c)
      (\<lambda>(buf1, c1). Inr (buf1, snd (wait_while_status io (if ucast i < sectors then busy_bit else busy_or_request) c1)))"
    using False by (cases cmd) (simp_all add: sector_io_def sector_size_def)
  then show ?thesis using read_data_fits [OF assms, of io c] by auto
qed

lemma sectors_io_fits:
  assumes "unat i + n < 65536" and "(unat i + n) * 512 \<le> length buf"
  shows "\<exists>buf' c'. sectors_io io cmd sectors n i buf c = Inr (buf', c') \<and> length buf' = length buf
    \<and> drop ((unat i + n) * 512) buf' = drop ((unat i + n) * 512) buf"
  using assms
proof (induction n arbitrary: i buf c)
  case 0
  then show ?case by simp
next
  case (Suc n)
  have fit: "unat i * 512 + 512 \<le> length buf" using Suc.prems(2) by simp
  obtain buf1 c1 where s: "sector_io io cmd sectors i buf c = Inr (buf1, c1)" "length buf1 = length buf"
    "drop (unat i * 512 + 512) buf1 = drop (unat i * 512 + 512) buf"
    using sector_io_fits [OF fit] by blast
  have i: "unat (i + 1) = unat i + 1" using Suc.prems(1) by (simp add: unat_plus_nowrap)
  obtain buf2 c2 where r: "sectors_io io cmd sectors n (i + 1) buf1 c1 = Inr (buf2, c2)" "length buf2 = length buf1"
    "drop ((unat (i + 1) + n) * 512) buf2 = drop ((unat (i + 1) + n) * 512) buf1"
    using Suc.IH [of "i + 1" buf1 c1] Suc.prems s(2) unfolding i by auto
  have "(unat i + Suc n) * 512 = n * 512 + (unat i * 512 + 512)" by simp
  then have "drop ((unat i + Suc n) * 512) xs = drop (n * 512) (drop (unat i * 512 + 512) xs)" for xs :: "u8 list"
    by (simp only: drop_drop)
  then have "drop ((unat i + Suc n) * 512) buf1 = drop ((unat i + Suc n) * 512) buf"
    by (simp only: s(3))
  then have "drop ((unat i + Suc n) * 512) buf2 = drop ((unat i + Suc n) * 512) buf"
    using r(3) unfolding i by simp
  then show ?case using s(1,2) r(1,2) by simp
qed

text \<open>How many sectors a command moves.\<close>

lemma mask8: "(0xFF :: u32) = mask 8" and mask16: "(0xFFFF :: u32) = mask 16"
  by (simp_all add: mask_eq_exp_minus_1)

lemma limit_sectors_nat:
  "unat (limit_sectors drive n) =
    (if unat n \<ge> 256 \<and> \<not> has_lba48 (information drive) then unat n mod 256 else unat n mod 65536)"
proof -
  have "unat (drop_bit 8 n) = unat n div 256" by (simp add: drop_bit_eq_div unat_div)
  then have "drop_bit 8 n = 0 \<longleftrightarrow> unat n < 256"
    by (simp add: word_unat_eq_iff div_eq_0_iff)
  then show ?thesis unfolding limit_sectors_def mask8 mask16 by (auto simp: unat_and_mask)
qed

lemma limit_sectors_le: "unat (limit_sectors drive n) \<le> unat n" "unat (limit_sectors drive n) < 65536"
  unfolding limit_sectors_nat by (auto intro: less_trans [OF mod_less_divisor])

lemma run_command_fits:
  assumes "unat n * 512 \<le> length buf"
  shows "\<exists>t buf' c'. run_command io drive cmd base buf n c = Inr (t, buf', c') \<and> length buf' = length buf
    \<and> drop (unat n * 512) buf' = drop (unat n * 512) buf \<and> (t = - 1 \<or> t = limit_sectors drive n)"
proof (cases "(drop_bit 8 (limit_sectors drive n) AND 0xFF \<noteq> 0 \<or> drop_bit 24 base \<noteq> 0)
    \<and> \<not> has_lba48 (information drive)")
  case True
  then show ?thesis by (simp add: run_command_def Let_def)
next
  case False
  let ?n = "limit_sectors drive n"
  have "(unat (0 :: u16) + unat ?n) * 512 \<le> unat n * 512" using limit_sectors_le(1) [of drive n] by simp
  with assms have "(unat (0 :: u16) + unat ?n) * 512 \<le> length buf" by (rule le_trans [rotated])
  then have io: "\<exists>buf' c'. sectors_io io cmd ?n (unat ?n) 0 buf c1 = Inr (buf', c') \<and> length buf' = length buf
      \<and> drop (unat ?n * 512) buf' = drop (unat ?n * 512) buf" for c1
    using sectors_io_fits [of 0 "unat ?n" buf io cmd ?n c1] limit_sectors_le(2) [of drive n] by simp
  have "\<exists>c6. run_command io drive cmd base buf n c
      = bind_result (sectors_io io cmd ?n (unat ?n) 0 buf c6) (\<lambda>(buf', c7). Inr (?n, buf', c7))"
    unfolding run_command_def Let_def if_not_P [OF False] by (rule exI) (rule refl)
  then obtain c6 where c6: "run_command io drive cmd base buf n c
      = bind_result (sectors_io io cmd ?n (unat ?n) 0 buf c6) (\<lambda>(buf', c7). Inr (?n, buf', c7))" ..
  obtain buf' c' where r: "sectors_io io cmd ?n (unat ?n) 0 buf c6 = Inr (buf', c')" "length buf' = length buf"
    "drop (unat ?n * 512) buf' = drop (unat ?n * 512) buf"
    using io by blast
  have "unat n * 512 = (unat n - unat ?n) * 512 + unat ?n * 512"
    using limit_sectors_le(1) [of drive n] by (simp add: diff_mult_distrib)
  then have "drop (unat n * 512) buf' = drop (unat n * 512) buf" using r(3) by (metis drop_drop)
  then show ?thesis using c6 r(1,2) by simp
qed

lemma ata_laws:
  "block_device 512 (ata_read_block io drive) (ata_write_block io drive)"
proof
  show "(512 :: u32) \<noteq> 0" by simp
next
  fix n :: u32 and data :: "u8 list" and b :: u64 and d :: "'a ata_controller"
  assume "unat n * unat (512 :: u32) \<le> length data"
  then have fit: "unat n * 512 \<le> length data" by simp
  show "\<exists>t data' d'. ata_read_block io drive b n data d = Inr (t, data', d') \<and> length data' = length data
      \<and> drop (unat n * unat (512 :: u32)) data' = drop (unat n * unat (512 :: u32)) data \<and> (t = - 1 \<or> t \<le> n)"
    using run_command_fits [OF fit, of io drive Read b d] limit_sectors_le(1) [of drive n]
    by (fastforce simp: ata_read_block_def word_le_nat_alt)
next
  fix n :: u32 and data :: "u8 list" and b :: u64 and d :: "'a ata_controller"
  assume "unat n * unat (512 :: u32) \<le> length data"
  then have fit: "unat n * 512 \<le> length data" by simp
  show "\<exists>t d'. ata_write_block io drive b n data d = Inr (t, d') \<and> (t = - 1 \<or> t \<le> n)"
    using run_command_fits [OF fit, of io drive Write b d] limit_sectors_le(1) [of drive n]
    by (fastforce simp: ata_write_block_def word_le_nat_alt)
qed

interpretation ata: block_device 512 "ata_read_block io drive" "ata_write_block io drive"
  for io :: "'w port_io" and drive :: ata_drive
  by (rule ata_laws)

text \<open>A request that fits into the counter of a command is not cut to nothing.\<close>

definition max_blocks :: "ata_drive \<Rightarrow> nat" where
  "max_blocks drive = (if has_lba48 (information drive) then 65535 else 255)"

lemma ata_progress:
  "k \<le> max_blocks drive \<Longrightarrow> block_device.progress (ata_read_block io drive) k"
  unfolding ata.progress_def
proof (intro allI impI)
  fix b :: u64 and n :: u32 and data d t data' d'
  assume k: "k \<le> max_blocks drive"
    and r: "0 < n \<and> unat n \<le> k \<and> ata_read_block io drive b n data d = Inr (t, data', d')"
  then have "t = - 1 \<or> t = limit_sectors drive n"
    by (auto simp: ata_read_block_def run_command_def Let_def bind_result_Inr_iff split: if_splits)
  moreover have "unat (limit_sectors drive n) = unat n"
    using k r unfolding limit_sectors_nat max_blocks_def by (auto split: if_splits)
  moreover have "unat n \<noteq> 0" using r by (auto simp: word_less_nat_alt)
  ultimately show "t \<noteq> 0" by auto
qed

section \<open>Large transfers\<close>

lemma drop_bit24: "drop_bit 24 (b :: u64) = 0 \<longleftrightarrow> unat b < 16777216"
proof -
  have "unat (drop_bit 24 b) = unat b div 16777216" by (simp add: drop_bit_eq_div unat_div)
  then show ?thesis by (simp add: word_unat_eq_iff div_eq_0_iff)
qed

lemma small_command:
  assumes "drive_number drive \<noteq> Ata_none" and "\<not> has_lba48 (information drive)"
    and "256 \<le> unat n" and "unat b < 16777216" and "unat n * 512 \<le> length buf"
  shows "\<exists>buf' c'. ata_read_block io drive b n buf c = Inr (limit_sectors drive n, buf', c')
    \<and> length buf' = length buf \<and> unat (limit_sectors drive n) = unat n mod 256"
proof -
  have lim: "unat (limit_sectors drive n) = unat n mod 256"
    using assms(2,3) by (simp add: limit_sectors_nat)
  have "unat (drop_bit 8 (limit_sectors drive n)) = unat (limit_sectors drive n) div 256"
    by (simp add: drop_bit_eq_div unat_div)
  then have "drop_bit 8 (limit_sectors drive n) = 0" by (simp add: word_unat_eq_iff lim)
  moreover have "drop_bit 24 b = 0" using assms(4) by (simp add: drop_bit24)
  ultimately have "\<not> ((drop_bit 8 (limit_sectors drive n) AND 0xFF \<noteq> 0 \<or> drop_bit 24 b \<noteq> 0)
      \<and> \<not> has_lba48 (information drive))" by simp
  note cond = this
  obtain t buf' c' where r: "run_command io drive Read b buf n c = Inr (t, buf', c')" "length buf' = length buf"
    using run_command_fits [OF assms(5), of io drive Read b c] by blast
  then have "t = limit_sectors drive n"
    unfolding run_command_def Let_def if_not_P [OF cond] by (auto simp: bind_result_Inr_iff)
  then show ?thesis using r lim assms(1) by (simp add: ata_read_block_def)
qed

definition stuck :: "'w ata_controller transfer \<Rightarrow> bool" where
  "stuck s \<longleftrightarrow> tr_ok s \<and> 256 \<le> unat (tr_rem s) div 512 \<and> unat (tr_rem s) div 512 mod 256 = 0
    \<and> unat (tr_block s) < 16777216 \<and> unat (tr_pos s) + unat (tr_rem s) \<le> length (tr_buf s)"

lemma stuck_step:
  assumes "drive_number drive \<noteq> Ata_none" and "\<not> has_lba48 (information drive)" and "stuck s"
  shows "\<exists>buf' c'. ata_read_block io drive (tr_block s) (tr_rem s div 512) (drop (unat (tr_pos s)) (tr_buf s)) (tr_dev s)
      = Inr (0, buf', c') \<and> stuck (s\<lparr>tr_buf := take (unat (tr_pos s)) (tr_buf s) @ buf', tr_dev := c'\<rparr>)"
proof -
  let ?n = "tr_rem s div 512" and ?buf = "drop (unat (tr_pos s)) (tr_buf s)"
  have n: "unat ?n = unat (tr_rem s) div 512" by (simp add: unat_div)
  have "unat (tr_rem s) div 512 * 512 \<le> unat (tr_rem s)" by simp
  then have fit: "unat ?n * 512 \<le> length ?buf" using assms(3) n unfolding stuck_def length_drop by linarith
  obtain buf' c' where r: "ata_read_block io drive (tr_block s) ?n ?buf (tr_dev s)
      = Inr (limit_sectors drive ?n, buf', c')" "length buf' = length ?buf"
    and "unat (limit_sectors drive ?n) = unat ?n mod 256"
    using small_command [OF assms(1,2) _ _ fit, of "tr_block s" io "tr_dev s"] assms(3) n
    unfolding stuck_def by metis
  then have "limit_sectors drive ?n = 0" using assms(3) n by (simp add: stuck_def word_unat_eq_iff)
  moreover have "stuck (s\<lparr>tr_buf := take (unat (tr_pos s)) (tr_buf s) @ buf', tr_dev := c'\<rparr>)"
    using assms(3) r(2) by (simp add: stuck_def)
  ultimately show ?thesis using r(1) by auto
qed

lemma stuck_more: "stuck s \<Longrightarrow> tr_rem s > 512"
  by (auto simp: stuck_def word_less_nat_alt)

lemma read_main_stuck:
  assumes "drive_number drive \<noteq> Ata_none" and "\<not> has_lba48 (information drive)"
    and "read_main (ata_read_block io drive) 512 s = Some y"
  shows "\<not> stuck s"
proof -
  define P where "P = (\<lambda>rd bs (s :: 'a ata_controller transfer) (y :: 'a ata_controller transfer result).
    rd = ata_read_block io drive \<and> bs = (512 :: u32) \<longrightarrow> \<not> stuck s)"
  have "P (ata_read_block io drive) 512 s y"
  proof (rule read_main.raw_induct [OF _ assms(3)])
    fix f rd and bs :: u32 and s y
    assume IH: "\<And>rd bs s y. f rd bs s = Some y \<Longrightarrow> P rd bs s y"
      and body: "(if bs < tr_rem s \<and> tr_ok s
        then case rd (tr_block s) (tr_rem s div bs) (drop (unat (tr_pos s)) (tr_buf s)) (tr_dev s) of
               Inl e \<Rightarrow> Some (Inl e)
             | Inr (t, data, d) \<Rightarrow>
                 f rd bs (let s1 = s\<lparr>tr_buf := take (unat (tr_pos s)) (tr_buf s) @ data, tr_dev := d\<rparr>
                   in if t \<noteq> - 1
                      then s1\<lparr>tr_pos := tr_pos s + t * bs, tr_rem := tr_rem s - t * bs, tr_block := tr_block s + scast t\<rparr>
                      else s1\<lparr>tr_ok := False\<rparr>)
        else Some (Inr s)) = Some y"
    show "P rd bs s y"
      unfolding P_def
    proof (intro impI notI, elim conjE)
      assume rd: "rd = ata_read_block io drive" "bs = 512" and st: "stuck s"
      obtain buf' c' where r: "ata_read_block io drive (tr_block s) (tr_rem s div 512)
          (drop (unat (tr_pos s)) (tr_buf s)) (tr_dev s) = Inr (0, buf', c')"
        and st': "stuck (s\<lparr>tr_buf := take (unat (tr_pos s)) (tr_buf s) @ buf', tr_dev := c'\<rparr>)"
        using stuck_step [OF assms(1,2) st, of io] by blast
      have "f rd bs (s\<lparr>tr_buf := take (unat (tr_pos s)) (tr_buf s) @ buf', tr_dev := c'\<rparr>) = Some y"
        using body st stuck_more [OF st] unfolding rd by (simp add: r stuck_def Let_def)
      from IH [OF this] st' show False unfolding P_def rd by simp
    qed
  qed
  then show ?thesis by (simp add: P_def)
qed

lemma scast_small:
  fixes t :: u32
  assumes "unat t < 2 ^ 31"
  shows "unat (scast t :: u64) = unat t"
proof -
  have "int (unat t) < int (2 ^ 31)" using assms by (simp only: of_nat_less_iff)
  then have "uint t < 2 ^ 31" by simp
  moreover have "- (2 ^ 31) \<le> uint t" by (rule order_trans [of _ 0]) simp_all
  ultimately have "signed_take_bit 31 (uint t) = uint t" by (intro signed_take_bit_int_eq_self)
  then have "sint t = uint t" by (simp add: sint_uint)
  then have "(scast t :: u64) = ucast t" by (metis scast_eq ucast_eq)
  then show ?thesis by (simp add: unat_ucast64)
qed

lemma div_minus_blocks:
  fixes r k d :: nat
  assumes "0 < d" and "k \<le> r div d"
  shows "(r - k * d) div d = r div d - k"
proof -
  have "r = r div d * d + r mod d" by simp
  then have "r - k * d = (r div d - k) * d + r mod d"
    using mult_le_mono1 [OF assms(2), of d] by (simp add: diff_mult_distrib)
  then show ?thesis using assms(1) by simp
qed

lemma stuck_start:
  assumes "drive_number drive \<noteq> Ata_none" and "\<not> has_lba48 (information drive)"
    and "tr_ok s" and "256 \<le> unat (tr_rem s) div 512" and "unat (tr_block s) + 255 < 16777216"
    and "unat (tr_pos s) + unat (tr_rem s) \<le> length (tr_buf s)"
    and "unat (tr_pos s) + unat (tr_rem s) < 2 ^ 32"
  shows "read_main (ata_read_block io drive) 512 s = None"
proof (rule ccontr)
  let ?n = "tr_rem s div 512" and ?buf = "drop (unat (tr_pos s)) (tr_buf s)"
  assume "read_main (ata_read_block io drive) 512 s \<noteq> None"
  then obtain y where y: "read_main (ata_read_block io drive) 512 s = Some y" by blast
  have n: "unat ?n = unat (tr_rem s) div 512" by (simp add: unat_div)
  have "unat (tr_rem s) div 512 * 512 \<le> unat (tr_rem s)" by simp
  then have fit: "unat ?n * 512 \<le> length ?buf" using assms(6) n unfolding length_drop by linarith
  let ?t = "limit_sectors drive ?n"
  obtain buf' c' where r: "ata_read_block io drive (tr_block s) ?n ?buf (tr_dev s) = Inr (?t, buf', c')"
      "length buf' = length ?buf" and t: "unat ?t = unat ?n mod 256"
    using small_command [OF assms(1,2) _ _ fit, of "tr_block s" io "tr_dev s"] assms(4,5) n by auto
  let ?s' = "s\<lparr>tr_buf := take (unat (tr_pos s)) (tr_buf s) @ buf', tr_dev := c',
      tr_pos := tr_pos s + ?t * 512, tr_rem := tr_rem s - ?t * 512, tr_block := tr_block s + scast ?t\<rparr>"
  have small: "unat ?t < 256" by (simp add: t)
  have le: "?t \<le> tr_rem s div 512" using limit_sectors_le(1) [of drive ?n] by (simp add: word_le_nat_alt)
  note bc = block_count [OF le]
  have "unat (scast ?t :: u64) = unat ?t" using small by (simp add: scast_small)
  then have blk: "unat (tr_block s + scast ?t) = unat (tr_block s) + unat ?t"
    using assms(5) small by (simp add: unat_plus_nowrap)
  have "?t \<noteq> - 1" using small by (auto simp: unsigned_minus_1_eq_mask mask_eq_exp_minus_1)
  moreover have "512 < tr_rem s" using assms(4) by (auto simp: word_less_nat_alt)
  ultimately have step: "read_main (ata_read_block io drive) 512 s = read_main (ata_read_block io drive) 512 ?s'"
    using assms(3) by (subst read_main.simps) (simp add: r Let_def)
  let ?q = "unat (tr_rem s) div 512"
  have t': "unat ?t = ?q mod 256" unfolding t n ..
  have kept: "unat (tr_rem s - ?t * 512) div 512 = ?q - ?q mod 256"
    using bc(3) div_minus_blocks [of 512 "unat ?t" "unat (tr_rem s)"] by (simp add: t')
  have "?q - ?q mod 256 = ?q div 256 * 256" by (rule minus_mod_eq_div_mult)
  moreover have "1 \<le> ?q div 256" using div_le_mono [OF assms(4), of 256] by simp
  ultimately have "256 \<le> ?q - ?q mod 256" "(?q - ?q mod 256) mod 256 = 0" by linarith simp
  moreover have "unat (tr_pos s + ?t * 512) + unat (tr_rem s - ?t * 512) = unat (tr_pos s) + unat (tr_rem s)"
    using bc assms(7) by (simp add: unat_plus_nowrap)
  ultimately have "stuck ?s'"
    using assms(3,5,6) r(2) blk small unfolding stuck_def by (simp add: kept)
  then show False using read_main_stuck [OF assms(1,2)] y step by metis
qed

section \<open>What the drive is asked for\<close>

text \<open>A machine that is never busy and keeps the list of all bytes put out.\<close>

definition log_io :: "(u16 \<times> u8) list port_io" where
  "log_io = \<lparr>in8 = \<lambda>p w. (0, w), out8 = \<lambda>p v w. (p, v) # w, in16 = \<lambda>p w. (0, w),
     out16 = \<lambda>p v w. w, io_delay = \<lambda>n w. w\<rparr>"

text \<open>
  How a drive reads its registers: a command with extended addresses takes the last two
  values of each register, the older one for the upper half; the others take the last one.
\<close>

definition reg_values :: "u16 \<Rightarrow> (u16 \<times> u8) list \<Rightarrow> u8 list" where
  "reg_values p w = map snd (filter (\<lambda>(q, v). q = p) w)"

definition asked_for :: "u16 \<Rightarrow> (u16 \<times> u8) list \<Rightarrow> nat \<times> nat \<times> u8" where
  "asked_for bp w =
     (let r = (\<lambda>off k. unat (reg_values (bp + off) w ! k));
          cmd = reg_values (bp + 7) w ! 0;
          addr = (\<lambda>k. r 3 k + 256 * r 4 k + 65536 * r 5 k)
      in if cmd = 0x24 \<or> cmd = 0x34
         then (addr 0 + 16777216 * addr 1, r 2 0 + 256 * r 2 1, cmd)
         else (addr 0, r 2 0, cmd))"

lemma log_wait: "snd (wait_while_status log_io st c) = c"
proof -
  have r: "read_alt_status log_io c' = (0, c')" "read_status log_io c' = (0, c')"
    for c' :: "(u16 \<times> u8) list ata_controller"
    by (simp_all add: read_alt_status_def read_status_def read_reg_def log_io_def)
  have "wait_loop log_io st n 0 c = c" for n by (cases n) simp_all
  then show ?thesis by (simp add: wait_while_status_def r)
qed

lemma log_string: "snd (read_string16 log_io p n w) = w"
  by (induction n) (simp_all add: log_io_def Let_def case_prod_beta)

lemma log_read_data:
  assumes "at + 512 \<le> length buf"
  shows "\<exists>buf'. read_data log_io at 512 buf c = Inr (buf', c)"
proof -
  obtain bs w where r: "read_string16 log_io (current_base_port c) 256 (machine c) = (bs, w)" by (metis surj_pair)
  then have "w = machine c" "length bs = 512"
    using log_string [of "current_base_port c" 256 "machine c"]
      read_string16_length [of log_io "current_base_port c" 256 "machine c"] by simp_all
  then show ?thesis using assms r by (auto simp: read_data_def memcpy_def)
qed

lemma log_sectors:
  assumes "unat i + n < 65536" and "(unat i + n) * 512 \<le> length buf"
  shows "\<exists>buf'. sectors_io log_io Read sectors n i buf c = Inr (buf', c)"
  using assms
proof (induction n arbitrary: i buf)
  case 0
  then show ?case by simp
next
  case (Suc n)
  have fit: "unat i * 512 + 512 \<le> length buf" using Suc.prems(2) by simp
  obtain buf1 where b: "read_data log_io (unat i * 512) 512 buf c = Inr (buf1, c)"
    using log_read_data [OF fit] by blast
  then have len: "length buf1 = length buf" using read_data_fits [OF fit, of log_io c] by auto
  have "unat (i + 1) = unat i + 1" using Suc.prems(1) by (simp add: unat_plus_nowrap)
  then obtain buf2 where "sectors_io log_io Read sectors n (i + 1) buf1 c = Inr (buf2, c)"
    using Suc.IH [of "i + 1" buf1] Suc.prems len by auto
  then show ?case using b by (simp add: sector_io_def sector_size_def log_wait)
qed

text \<open>The bytes of an address.\<close>

lemma byte_of:
  fixes s :: "'a::len word"
  assumes "8 \<le> LENGTH('a)"
  shows "unat (ucast (drop_bit k s AND mask 8) :: u8) = unat s div 2 ^ k mod 256"
proof -
  have "unat (drop_bit k s AND mask 8) = unat s div 2 ^ k mod 256"
    using take_bit_nat_eq_self [OF unsigned_less [of s]]
    unfolding unat_and_mask unsigned_drop_bit_eq by (simp add: drop_bit_eq_div [of _ "unat s"])
  then show ?thesis by (simp add: unsigned_ucast_eq take_bit_eq_mod)
qed

lemma next_byte: "n div k = n div k mod 256 + 256 * (n div (k * 256))" for n k :: nat
  by (simp add: div_mult2_eq)

lemma digits3:
  fixes n q1 q2 q3 a0 a1 a2 :: nat
  assumes "n = a0 + 256 * q1" and "q1 = a1 + 256 * q2" and "q2 = a2 + 256 * q3"
  shows "a0 + 256 * a1 + 65536 * a2 + 16777216 * q3 = n"
  using assms by simp

lemma bytes_low:
  "n mod 256 + 256 * (n div 256 mod 256) + 65536 * (n div 65536 mod 256) + 16777216 * (n div 16777216) = n"
  for n :: nat
  using next_byte [of n 256] next_byte [of n 65536] by (intro digits3) simp_all

lemma bytes3:
  fixes n :: nat
  assumes "n < 16777216"
  shows "n mod 256 + 256 * (n div 256 mod 256) + 65536 * (n div 65536 mod 256) = n"
proof -
  have "n div 16777216 = 0" using assms by simp
  then show ?thesis using bytes_low [of n] by (simp only: mult_0_right add_0_right)
qed

lemma bytes6:
  fixes n :: nat
  assumes "n < 281474976710656"
  shows "n mod 256 + 256 * (n div 256 mod 256) + 65536 * (n div 65536 mod 256)
    + 16777216 * (n div 16777216 mod 256 + 256 * (n div 4294967296 mod 256) + 65536 * (n div 1099511627776 mod 256)) = n"
proof -
  have "n div 16777216 < 16777216" using assms by (simp add: div_less_iff_less_mult)
  moreover have "n div 16777216 div 256 = n div 4294967296" "n div 16777216 div 65536 = n div 1099511627776"
    by (simp_all flip: div_mult2_eq)
  ultimately have "n div 16777216 mod 256 + 256 * (n div 4294967296 mod 256)
      + 65536 * (n div 1099511627776 mod 256) = n div 16777216"
    using bytes3 [of "n div 16777216"] by (simp only:)
  then show ?thesis using bytes_low [of n] by (simp only:)
qed

lemma mask8_64: "(0xFF :: u64) = mask 8"
  by (simp add: mask_eq_exp_minus_1)

definition fresh_machine :: "(u16 \<times> u8) list ata_controller \<Rightarrow> bool" where
  "fresh_machine c \<longleftrightarrow> current_drive c = Ata_none \<and> machine c = []"

lemma ports_set_machine [simp]: "ports_set (c\<lparr>machine := w\<rparr>) = ports_set c"
  by (simp add: ports_set_def)

lemma log_write_reg:
  "ports_set c \<Longrightarrow> write_reg log_io off v c = c\<lparr>machine := (current_base_port c + off, v) # machine c\<rparr>"
  by (simp add: write_reg_def log_io_def)

text \<open>The registers a read command writes, the last one first.\<close>

lemma log_of_read:
  assumes "drive_number drive \<noteq> Ata_none" and "base_port drive \<noteq> 0" and "alt_port drive \<noteq> 0"
    and "fresh_machine c" and "unat n * 512 \<le> length buf" and "limit_sectors drive n = n"
    and "lba48 = (drop_bit 8 n AND 0xFF \<noteq> 0 \<or> drop_bit 24 b \<noteq> 0)" and "lba48 \<longrightarrow> has_lba48 (information drive)"
  shows "\<exists>buf' c'. ata_read_block log_io drive b n buf c = Inr (n, buf', c')
    \<and> machine c' = (base_port drive + 7, if lba48 then 0x24 else 0x20)
        # (base_port drive + 5, ucast (drop_bit 16 b AND 0xFF)) # (base_port drive + 4, ucast (drop_bit 8 b AND 0xFF))
        # (base_port drive + 3, ucast (b AND 0xFF)) # (base_port drive + 2, ucast (n AND 0xFF))
        # (if lba48 then [(base_port drive + 5, ucast (drop_bit 40 b AND 0xFF)),
              (base_port drive + 4, ucast (drop_bit 32 b AND 0xFF)), (base_port drive + 3, ucast (drop_bit 24 b AND 0xFF)),
              (base_port drive + 2, ucast (drop_bit 8 n AND 0xFF))] else [])
        @ [(base_port drive + 6, hd_selector (drive_number drive = Ata_master) True)]"
proof -
  have sel: "snd (select_drive log_io drive c) = c\<lparr>current_base_port := base_port drive, current_alt_port := alt_port drive,
      machine := [(base_port drive + 6, hd_selector (drive_number drive = Ata_master) True)]\<rparr>"
    using assms(1-4) by (simp add: select_drive_def fresh_machine_def write_selector_def write_reg_def ports_set_def Let_def log_io_def)
  define c2 where "c2 = snd (select_drive log_io drive c)"
  define c5 where "c5 = write_command log_io (command_code Read lba48) (set_position log_io Read lba48 b n c2)"
  have "unat n < 65536" using limit_sectors_le(2) [of drive n] assms(6) by simp
  then obtain buf' where io: "sectors_io log_io Read n (unat n) 0 buf c5 = Inr (buf', c5)"
    using log_sectors [of 0 "unat n" buf n c5] assms(5) by auto
  have cond: "\<not> (lba48 \<and> \<not> has_lba48 (information drive))" using assms(8) by simp
  have "run_command log_io drive Read b buf n c = Inr (n, buf', c5)"
    unfolding run_command_def Let_def assms(6) assms(7) [symmetric] if_not_P [OF cond] log_wait
      c2_def [symmetric] c5_def [symmetric] io by simp
  then have "ata_read_block log_io drive b n buf c = Inr (n, buf', c5)"
    using assms(1) by (simp add: ata_read_block_def)
  moreover have "ports_set c2" using assms(2,3) unfolding c2_def sel by (simp add: ports_set_def)
  then have "machine c5 = (base_port drive + 7, if lba48 then 0x24 else 0x20)
        # (base_port drive + 5, ucast (drop_bit 16 b AND 0xFF)) # (base_port drive + 4, ucast (drop_bit 8 b AND 0xFF))
        # (base_port drive + 3, ucast (b AND 0xFF)) # (base_port drive + 2, ucast (n AND 0xFF))
        # (if lba48 then [(base_port drive + 5, ucast (drop_bit 40 b AND 0xFF)),
              (base_port drive + 4, ucast (drop_bit 32 b AND 0xFF)), (base_port drive + 3, ucast (drop_bit 24 b AND 0xFF)),
              (base_port drive + 2, ucast (drop_bit 8 n AND 0xFF))] else [])
        @ machine c2" and "current_base_port c2 = base_port drive"
    unfolding c5_def c2_def sel
    by (simp_all add: write_command_def set_position_def write_address_def write_sector_count_def log_write_reg
        command_code_def address_lo_def address_hi_def Let_def del: push_bit_eq_mult drop_bit_eq_div)
  ultimately show ?thesis unfolding c2_def sel by simp
qed

lemma asked_for_read:
  assumes "w = (bp + 7, if lba48 then 0x24 else 0x20)
        # (bp + 5, a2) # (bp + 4, a1) # (bp + 3, a0) # (bp + 2, n0)
        # (if lba48 then [(bp + 5, a5), (bp + 4, a4), (bp + 3, a3), (bp + 2, n1)] else []) @ [(bp + 6, sel)]"
  shows "asked_for bp w =
    (if lba48 then (unat a0 + 256 * unat a1 + 65536 * unat a2
         + 16777216 * (unat a3 + 256 * unat a4 + 65536 * unat a5), unat n0 + 256 * unat n1, 0x24)
     else (unat a0 + 256 * unat a1 + 65536 * unat a2, unat n0, 0x20))"
  unfolding assms by (cases lba48) (simp_all add: asked_for_def reg_values_def Let_def)

lemma log_position:
  fixes b :: u64 and n :: u32
  assumes w: "w = (port + 7, if lba48 then 0x24 else 0x20)
        # (port + 5, ucast (drop_bit 16 b AND 0xFF)) # (port + 4, ucast (drop_bit 8 b AND 0xFF))
        # (port + 3, ucast (b AND 0xFF)) # (port + 2, ucast (n AND 0xFF))
        # (if lba48 then [(port + 5, ucast (drop_bit 40 b AND 0xFF)),
              (port + 4, ucast (drop_bit 32 b AND 0xFF)), (port + 3, ucast (drop_bit 24 b AND 0xFF)),
              (port + 2, ucast (drop_bit 8 n AND 0xFF))] else [])
        @ [(port + 6, sel)]"
    and long: "lba48 \<Longrightarrow> unat b < 281474976710656 \<and> unat n < 65536"
    and short: "\<not> lba48 \<Longrightarrow> unat b < 16777216 \<and> unat n mod 256 = unat n"
  shows "asked_for port w = (unat b, unat n, if lba48 then 0x24 else 0x20)"
proof -
  have bytes: "unat (ucast (b AND 0xFF) :: u8) = unat b mod 256"
    "unat (ucast (drop_bit k b AND 0xFF) :: u8) = unat b div 2 ^ k mod 256"
    "unat (ucast (n AND 0xFF) :: u8) = unat n mod 256"
    "unat (ucast (drop_bit 8 n AND 0xFF) :: u8) = unat n div 256 mod 256" for k
    unfolding mask8_64 mask8 using byte_of [of 0 b] byte_of [of k b] byte_of [of 0 n] byte_of [of 8 n] by simp_all
  have b8: "unat (ucast (drop_bit 8 b AND 0xFF) :: u8) = unat b div 256 mod 256"
    and b16: "unat (ucast (drop_bit 16 b AND 0xFF) :: u8) = unat b div 65536 mod 256"
    using bytes(2) [of 8] bytes(2) [of 16] by simp_all
  note asked = asked_for_read [OF w] bytes(1,3,4) bytes(2) [of 8] bytes(2) [of 16] bytes(2) [of 24] bytes(2) [of 32] bytes(2) [of 40]
  show ?thesis
  proof (cases lba48)
    case True
    then have b: "unat b < 281474976710656" and n: "unat n < 65536" using long by simp_all
    have "unat n div 256 mod 256 = unat n div 256"
      using n by (intro mod_less) (simp add: div_less_iff_less_mult)
    then have cnt: "unat n mod 256 + 256 * (unat n div 256 mod 256) = unat n"
      by (simp only: mod_mult_div_eq)
    show ?thesis using True bytes6 [OF b] cnt by (simp add: asked)
  next
    case False
    then have b: "unat b < 16777216" and cnt: "unat n mod 256 = unat n" using short by simp_all
    show ?thesis using False by (simp only: asked_for_read [OF w] if_False bytes(1,3) b8 b16 bytes3 [OF b] cnt)
  qed
qed

section \<open>Properties\<close>

text \<open>An ATA drive is asked for what the caller wants. For a number of sectors below
  65536 at an address below \<open>2^48\<close>, or for a drive without 48 bit addresses below 256
  sectors at an address below \<open>2^24\<close>, read_block transfers all sectors, and what it put into
  the registers of the selected drive is read by the drive as a read of so many sectors at
  that address.\<close>

theorem ata_read_asks_for:
  assumes "drive_number drive \<noteq> Ata_none" and "base_port drive \<noteq> 0" and "alt_port drive \<noteq> 0"
    and "fresh_machine c" and "unat n * 512 \<le> length buf"
    and "if has_lba48 (information drive) then unat n < 65536 \<and> unat b < 2 ^ 48
         else unat n < 256 \<and> unat b < 2 ^ 24"
  shows "\<exists>buf' c' code. ata_read_block log_io drive b n buf c = Inr (n, buf', c')
    \<and> asked_for (base_port drive) (machine c') = (unat b, unat n, code) \<and> code \<in> {0x20, 0x24}"
proof -
  define lba48 where "lba48 = (drop_bit 8 n AND 0xFF \<noteq> 0 \<or> drop_bit 24 b \<noteq> 0)"
  have "unat (limit_sectors drive n) = unat n"
    using assms(6) by (auto simp: limit_sectors_nat split: if_splits)
  then have lim: "limit_sectors drive n = n" by (simp add: word_unat_eq_iff)
  have n8: "unat (drop_bit 8 n AND mask 8) = unat n div 256 mod 256"
    by (simp add: unat_and_mask drop_bit_eq_div unat_div)
  have b24: "drop_bit 24 b = 0 \<longleftrightarrow> unat b < 16777216" by (rule drop_bit24)
  have no: "\<not> has_lba48 (information drive) \<Longrightarrow> \<not> lba48"
    using assms(6) n8 b24 unfolding lba48_def mask8 by (auto simp: word_unat_eq_iff)
  have short: "\<not> lba48 \<Longrightarrow> unat b < 16777216 \<and> unat n mod 256 = unat n"
  proof
    assume not: "\<not> lba48"
    then show "unat b < 16777216" using b24 by (simp add: lba48_def)
    have "unat n div 256 mod 256 = 0" using not n8 unfolding lba48_def mask8 by (simp add: word_unat_eq_iff)
    moreover have "unat n < 65536" using assms(6) by (auto split: if_splits)
    ultimately have "unat n div 256 = 0" by simp
    then show "unat n mod 256 = unat n" by simp
  qed
  obtain buf' c' where r: "ata_read_block log_io drive b n buf c = Inr (n, buf', c')"
    and w: "machine c' = (base_port drive + 7, if lba48 then 0x24 else 0x20)
        # (base_port drive + 5, ucast (drop_bit 16 b AND 0xFF)) # (base_port drive + 4, ucast (drop_bit 8 b AND 0xFF))
        # (base_port drive + 3, ucast (b AND 0xFF)) # (base_port drive + 2, ucast (n AND 0xFF))
        # (if lba48 then [(base_port drive + 5, ucast (drop_bit 40 b AND 0xFF)),
              (base_port drive + 4, ucast (drop_bit 32 b AND 0xFF)), (base_port drive + 3, ucast (drop_bit 24 b AND 0xFF)),
              (base_port drive + 2, ucast (drop_bit 8 n AND 0xFF))] else [])
        @ [(base_port drive + 6, hd_selector (drive_number drive = Ata_master) True)]"
    using log_of_read [OF assms(1-5) lim lba48_def] no by blast
  have "asked_for (base_port drive) (machine c') = (unat b, unat n, if lba48 then 0x24 else 0x20)"
    using no assms(6) short by (intro log_position [OF w]) (auto split: if_splits)
  then show ?thesis using r by (cases lba48) auto
qed

text \<open>C39: a read of up to 255 blocks in the middle (65535 with 48 bit addresses) returns,
  whatever the machine behind the ports does. It writes only the bytes of the buffer that
  were asked for, and reports the whole length or an error.\<close>

theorem ata_read_returns:
  assumes "unat n div 512 \<le> max_blocks drive" and "length tmp = 512" and "unat n \<le> length buf"
  shows "\<exists>t buf' c'. bd_read (ata_read_block io drive) 512 (Some tmp) base n buf c = Some (Inr (t, buf', c'))
    \<and> (t = n \<or> t = - 1) \<and> length buf' = length buf \<and> drop (unat n) buf' = drop (unat n) buf"
  using ata.bd_read_stays [OF ata_progress, of n drive tmp buf io base c] assms by simp

text \<open>Larger reads never return. On a drive without 48 bit addresses, a read of 256
  blocks or more from a block boundary runs forever: the controller cuts the number of
  sectors to 8 bits, and the reader asks again for the 256 blocks that became none.\<close>

theorem ata_large_read_hangs:
  assumes "drive_number drive \<noteq> Ata_none" and "\<not> has_lba48 (information drive)"
    and "256 \<le> unat n div 512" and "unat base mod 512 = 0" and "unat base div 512 + 255 < 16777216"
    and "unat n \<le> length buf"
  shows "bd_read (ata_read_block io drive) 512 (Some tmp) base n buf c = None"
proof -
  let ?s = "transfer_start 512 base n tmp buf c"
  have "unat (base mod ucast (512 :: u32)) = unat base mod 512" by (simp add: unat_mod)
  then have "base mod ucast (512 :: u32) = 0" using assms(4) by (simp add: word_unat_eq_iff)
  then have "read_head (ata_read_block io drive) 512 (base mod ucast (512 :: u32)) ?s = Inr ?s"
    by (simp add: read_head_def)
  moreover have "unat (base div ucast (512 :: u32)) = unat base div 512" by (simp add: unat_div)
  then have "read_main (ata_read_block io drive) 512 ?s = None"
    using assms(3,5,6) unat_lt32 [of n] by (intro stuck_start [OF assms(1,2)]) (simp_all add: transfer_start_def)
  ultimately show ?thesis by (simp add: bd_read_def)
qed

subsection \<open>Witnesses\<close>

definition hda :: ata_drive where
  "hda = \<lparr>drive_number = Ata_master, information = replicate 512 0, base_port = 0x1F0, alt_port = 0x3F6\<rparr>"

lemma hda_small: "\<not> has_lba48 (information hda)"
  by (simp add: hda_def has_lba48_def addresses_48bit_def info_word_def)

definition log_controller :: "(u16 \<times> u8) list ata_controller" where
  "log_controller = ata_controller_new log_io []"

lemma log_controller_fresh: "fresh_machine log_controller"
  by (simp add: log_controller_def fresh_machine_def ata_controller_new_def write_config_def ports_set_def)

theorem ata_read_asks_for_witness:
  "\<exists>buf' c' code. ata_read_block log_io hda 70000 2 (replicate 1024 0) log_controller = Inr (2, buf', c')
    \<and> asked_for 0x1F0 (machine c') = (70000, 2, code)"
proof -
  have "\<exists>buf' c' code. ata_read_block log_io hda 70000 2 (replicate 1024 0) log_controller = Inr (2, buf', c')
      \<and> asked_for (base_port hda) (machine c') = (unat (70000 :: u64), unat (2 :: u32), code) \<and> code \<in> {0x20, 0x24}"
    by (rule ata_read_asks_for [OF _ _ _ log_controller_fresh]) (simp_all add: hda_small, simp_all add: hda_def)
  then show ?thesis by (auto simp: hda_def)
qed

theorem ata_read_returns_witness:
  "\<exists>t buf' c'. bd_read (ata_read_block log_io hda) 512 (Some (replicate 512 0)) 100 3 [1, 2, 3, 4] log_controller
      = Some (Inr (t, buf', c')) \<and> length buf' = 4 \<and> drop 3 buf' = [4]"
  using ata_read_returns [of 3 hda "replicate 512 0" "[1, 2, 3, 4]" log_io 100 log_controller] by auto

theorem ata_large_read_hangs_witness:
  "bd_read (ata_read_block log_io hda) 512 (Some []) 0 131072 (replicate 131072 0) log_controller = None"
  by (rule ata_large_read_hangs) (simp_all add: hda_small, simp_all add: hda_def)

end
