(* ===== verification/Fat_Table.thy ===== *)
theory Fat_Table
  imports Kern_Prelude
begin

text \<open>
  The cluster table of a FAT file system (kern/include/fs/fat_clustertable.h and the class
  clustertable_t in kern/fs/fat_fs.cpp): the table is an array of 12 byte units, a unit
  holds eight 12 bit, six 16 bit or three 32 bit entries; chains of clusters run through
  the entries.
\<close>

section \<open>The table and its entries\<close>

datatype fat_type = Fat12 | Fat16 | Fat32

record clustertable =
  ct_data :: "u8 list option"
  ct_size :: u32
  ct_add :: u32
  ct_type :: fat_type

definition clustertable_new :: "fat_type \<Rightarrow> clustertable" where
  "clustertable_new t = \<lparr>ct_data = None, ct_size = 0, ct_add = 0, ct_type = t\<rparr>"

text \<open>\<open>fresh\<close> is what the new memory of \<open>n\<close> bytes holds.\<close>

definition ct_set_size :: "u32 \<Rightarrow> u8 list \<Rightarrow> clustertable \<Rightarrow> clustertable" where
  "ct_set_size n fresh ct = ct\<lparr>ct_size := n, ct_data := Some fresh\<rparr>"

definition norm_node_add :: "u32 \<Rightarrow> clustertable \<Rightarrow> clustertable" where
  "norm_node_add add ct = ct\<lparr>ct_add := add\<rparr>"

definition byte_at :: "u8 list \<Rightarrow> nat \<Rightarrow> u32 result" where
  "byte_at bs i = (if i < length bs then Inr (ucast (bs ! i)) else Inl Out_of_bounds)"

text \<open>
  The bit fields of a unit follow each other from the lowest bit of the first byte: field
  \<open>k\<close> starts in the middle of a byte when \<open>k\<close> is odd.
\<close>

definition fat12_field :: "u8 list \<Rightarrow> nat \<Rightarrow> nat \<Rightarrow> u32 result" where
  "fat12_field bs unit k =
     (let i = 12 * unit + 12 * k div 8
      in bind_result (byte_at bs i) (\<lambda>lo. bind_result (byte_at bs (i + 1)) (\<lambda>hi.
           Inr (if even k then lo OR push_bit 8 (hi AND 0xF) else drop_bit 4 lo OR push_bit 4 hi))))"

definition fat16_field :: "u8 list \<Rightarrow> nat \<Rightarrow> nat \<Rightarrow> u32 result" where
  "fat16_field bs unit k =
     (let i = 12 * unit + 2 * k
      in bind_result (byte_at bs i) (\<lambda>lo. bind_result (byte_at bs (i + 1)) (\<lambda>hi.
           Inr (lo OR push_bit 8 hi))))"

definition fat32_field :: "u8 list \<Rightarrow> nat \<Rightarrow> nat \<Rightarrow> u32 result" where
  "fat32_field bs unit k =
     (let i = 12 * unit + 4 * k
      in bind_result (byte_at bs i) (\<lambda>b0. bind_result (byte_at bs (i + 1)) (\<lambda>b1.
         bind_result (byte_at bs (i + 2)) (\<lambda>b2. bind_result (byte_at bs (i + 3)) (\<lambda>b3.
           Inr (b0 OR push_bit 8 b1 OR push_bit 16 b2 OR push_bit 24 b3))))))"

definition ct_value :: "clustertable \<Rightarrow> u32 \<Rightarrow> u32 result" where
  "ct_value ct cluster =
     (case ct_data ct of
        None \<Rightarrow> Inr 0
      | Some bs \<Rightarrow>
          (case ct_type ct of
             Fat12 \<Rightarrow> fat12_field bs (unat (cluster div 8)) (unat (cluster mod 8))
           | Fat16 \<Rightarrow> fat16_field bs (unat (cluster div 6)) (unat (cluster mod 6))
           | Fat32 \<Rightarrow> fat32_field bs (unat (cluster div 3)) (unat (cluster mod 3))))"

section \<open>Chains\<close>

definition fat_free :: "fat_type \<Rightarrow> u32" where
  "fat_free t = 0"

definition fat_defect :: "fat_type \<Rightarrow> u32" where
  "fat_defect t = (case t of Fat12 \<Rightarrow> 0xFF7 | Fat16 \<Rightarrow> 0xFFF7 | Fat32 \<Rightarrow> 0x0FFFFFF7)"

definition fat_end :: "fat_type \<Rightarrow> u32" where
  "fat_end t = (case t of Fat12 \<Rightarrow> 0xFF8 | Fat16 \<Rightarrow> 0xFFF8 | Fat32 \<Rightarrow> 0x0FFFFFF8)"

definition is_free :: "clustertable \<Rightarrow> u32 \<Rightarrow> bool result" where
  "is_free ct cluster = bind_result (ct_value ct (cluster + 2)) (\<lambda>v. Inr (v = fat_free (ct_type ct)))"

definition is_defect :: "clustertable \<Rightarrow> u32 \<Rightarrow> bool result" where
  "is_defect ct cluster = bind_result (ct_value ct (cluster + 2)) (\<lambda>v. Inr (v = fat_defect (ct_type ct)))"

definition is_end :: "clustertable \<Rightarrow> u32 \<Rightarrow> bool result" where
  "is_end ct cluster = bind_result (ct_value ct (cluster + 2)) (\<lambda>v. Inr (fat_end (ct_type ct) \<le> v))"

definition has_successor :: "clustertable \<Rightarrow> u32 \<Rightarrow> bool result" where
  "has_successor ct cluster =
     bind_result (is_free ct cluster) (\<lambda>f.
       if f then Inr False
       else bind_result (is_defect ct cluster) (\<lambda>d.
         if d then Inr False else bind_result (is_end ct cluster) (\<lambda>e. Inr (\<not> e))))"

text \<open>The call of has_successor in successor has no effect but a possible fault.\<close>

definition successor :: "clustertable \<Rightarrow> u32 \<Rightarrow> u32 result" where
  "successor ct cluster =
     (let c = cluster - ct_add ct + 2
      in bind_result (ct_value ct c) (\<lambda>v.
           bind_result (has_successor ct c) (\<lambda>_. Inr (v + ct_add ct - 2))))"

partial_function (option) chain_loop :: "clustertable \<Rightarrow> u32 \<Rightarrow> u32 \<Rightarrow> u32 result option" where
  "chain_loop ct cluster len =
     (case has_successor ct cluster of
        Inl e \<Rightarrow> Some (Inl e)
      | Inr b \<Rightarrow>
          if b
          then (case successor ct cluster of
                  Inl e \<Rightarrow> Some (Inl e)
                | Inr c \<Rightarrow> chain_loop ct c (len + 1))
          else Some (Inr len))"

definition chain_length :: "clustertable \<Rightarrow> u32 \<Rightarrow> u32 result option" where
  "chain_length ct cluster =
     (case bind_result (is_free ct cluster) (\<lambda>f. if f then Inr True else is_defect ct cluster) of
        Inl e \<Rightarrow> Some (Inl e)
      | Inr b \<Rightarrow> chain_loop ct cluster (if b then 0 else 1))"

section \<open>Where an entry is\<close>

text \<open>The layout the FAT documents give: entry \<open>n\<close> of 12 bits starts at byte \<open>n + n div 2\<close>.\<close>

definition entry12 :: "u8 list \<Rightarrow> nat \<Rightarrow> nat" where
  "entry12 bs n =
     (let w = unat (bs ! (n + n div 2)) + 256 * unat (bs ! (n + n div 2 + 1))
      in if even n then w mod 4096 else w div 16)"

definition entry16 :: "u8 list \<Rightarrow> nat \<Rightarrow> nat" where
  "entry16 bs n = unat (bs ! (2 * n)) + 256 * unat (bs ! (2 * n + 1))"

lemma byte_lt: "unat (b :: u8) < 256"
  using unsigned_less [of b, where ?'a = nat] by simp

lemma unat_byte32: "unat (ucast (b :: u8) :: u32) = unat b"
  using byte_lt [of b] by (simp add: unsigned_ucast_eq take_bit_eq_mod)

lemma or_disjoint:
  fixes a b :: u32
  assumes "unat a < 2 ^ k" and "unat a + unat b * 2 ^ k < 2 ^ 32"
  shows "unat (a OR push_bit k b) = unat a + unat b * 2 ^ k"
proof -
  have "a AND push_bit k b = 0"
  proof (rule bit_word_eqI)
    fix n assume "n < LENGTH(32)"
    have "a = take_bit k a" using assms(1) by (simp add: word_unat_eq_iff unat_take_bit)
    then have "bit a n \<longrightarrow> n < k" by (metis bit_take_bit_iff)
    then show "bit (a AND push_bit k b) n = bit (0 :: u32) n" by (auto simp: bit_simps)
  qed
  then have "a OR push_bit k b = a + push_bit k b" by (rule disjunctive_add_eq_or [symmetric])
  moreover have "unat (push_bit k b) = unat b * 2 ^ k"
    using assms(2) unfolding unsigned_push_bit_eq by (simp add: push_bit_eq_mult [of k "unat b"] take_bit_eq_mod)
  ultimately show ?thesis using assms(2) by (simp add: unat_plus_nowrap)
qed

lemma unit12: "12 * (c div 8) + 12 * (c mod 8) div 8 = c + c div 2" for c :: nat
proof -
  let ?q = "c div 8" and ?r = "c mod 8"
  have c: "c = 8 * ?q + ?r" by simp
  have "c div 2 = (8 * ?q + ?r) div 2" using c by simp
  also have "\<dots> = 4 * ?q + ?r div 2" using div_mult_self2 [of 2 ?r "4 * ?q"] by (simp add: algebra_simps)
  finally have half: "c div 2 = 4 * ?q + ?r div 2" .
  have "?r < 8" by simp
  then have "?r \<in> {0, 1, 2, 3, 4, 5, 6, 7}" by auto
  then have "12 * ?r div 8 = ?r + ?r div 2" by (elim insertE emptyE) simp_all
  then show ?thesis using c half by linarith
qed

lemma unit16: "12 * (c div 6) + 2 * (c mod 6) = 2 * c" for c :: nat
  using div_mult_mod_eq [of c 6] by linarith

lemma unit32: "12 * (c div 3) + 4 * (c mod 3) = 4 * c" for c :: nat
  using div_mult_mod_eq [of c 3] by linarith

lemma even_field: "even (c mod 8) \<longleftrightarrow> even c" for c :: nat
  by (simp add: dvd_mod_iff)

lemma word_of_unat: "unat w = n \<Longrightarrow> w = of_nat n" for w :: "'a::len word"
  by auto

lemma low_nibble: "unat (x AND 0xF) = unat x mod 16" for x :: u32
proof -
  have "(0xF :: u32) = mask 4" by (simp add: mask_eq_exp_minus_1)
  then show ?thesis using unat_and_mask [of x 4] by simp
qed

lemma even_entry12:
  "ucast lo OR push_bit 8 (ucast hi AND 0xF) = (of_nat ((unat lo + 256 * unat hi) mod 4096) :: u32)"
  for lo hi :: u8
proof -
  have m: "unat (ucast hi AND 0xF :: u32) = unat hi mod 16" by (simp add: low_nibble unat_byte32)
  have "unat (ucast lo OR push_bit 8 (ucast hi AND 0xF) :: u32) = unat lo + unat hi mod 16 * 256"
    using or_disjoint [of "ucast lo" 8 "ucast hi AND 0xF"] byte_lt [of lo] by (simp add: unat_byte32 m)
  also have "\<dots> = (unat lo + 256 * unat hi) mod 4096"
    using mod_mult2_eq [of "unat lo + 256 * unat hi" 256 16] byte_lt [of lo] by simp
  finally show ?thesis by (rule word_of_unat)
qed

lemma odd_entry12:
  "drop_bit 4 (ucast lo) OR push_bit 4 (ucast hi) = (of_nat ((unat lo + 256 * unat hi) div 16) :: u32)"
  for lo hi :: u8
proof -
  have d: "unat (drop_bit 4 (ucast lo) :: u32) = unat lo div 16"
    by (simp add: drop_bit_eq_div unat_div unat_byte32)
  have "unat (drop_bit 4 (ucast lo) OR push_bit 4 (ucast hi) :: u32) = unat lo div 16 + unat hi * 16"
    using or_disjoint [of "drop_bit 4 (ucast lo)" 4 "ucast hi"] byte_lt [of lo] byte_lt [of hi]
    by (simp add: unat_byte32 d)
  also have "\<dots> = (unat lo + 256 * unat hi) div 16"
    using div_mult_self1 [of 16 "unat lo" "16 * unat hi"] by simp
  finally show ?thesis by (rule word_of_unat)
qed

lemma ct_value12:
  assumes "ct_data ct = Some bs" and "ct_type ct = Fat12"
  shows "ct_value ct c =
    (if unat c + unat c div 2 + 1 < length bs then Inr (of_nat (entry12 bs (unat c))) else Inl Out_of_bounds)"
proof -
  have u: "unat (c div 8) = unat c div 8" "unat (c mod 8) = unat c mod 8" by (simp_all add: unat_div unat_mod)
  show ?thesis
    unfolding ct_value_def assms fat12_field_def u Let_def unit12 even_field
    by (auto simp: byte_at_def entry12_def even_entry12 odd_entry12 assms simp del: push_bit_and)
qed

lemma entry16_word: "ucast lo OR push_bit 8 (ucast hi) = (of_nat (unat lo + 256 * unat hi) :: u32)" for lo hi :: u8
proof (rule word_of_unat)
  show "unat (ucast lo OR push_bit 8 (ucast hi) :: u32) = unat lo + 256 * unat hi"
    using or_disjoint [of "ucast lo" 8 "ucast hi"] byte_lt [of lo] byte_lt [of hi] by (simp add: unat_byte32)
qed

lemma ct_value16:
  assumes "ct_data ct = Some bs" and "ct_type ct = Fat16"
  shows "ct_value ct c =
    (if 2 * unat c + 1 < length bs then Inr (of_nat (entry16 bs (unat c))) else Inl Out_of_bounds)"
proof -
  have u: "unat (c div 6) = unat c div 6" "unat (c mod 6) = unat c mod 6" by (simp_all add: unat_div unat_mod)
  show ?thesis
    unfolding ct_value_def assms fat16_field_def u Let_def unit16
    by (auto simp: byte_at_def entry16_def entry16_word assms)
qed

section \<open>Chains that end\<close>

text \<open>The clusters of a file: each has a successor but the last.\<close>

fun linked :: "clustertable \<Rightarrow> u32 list \<Rightarrow> bool" where
  "linked ct [] \<longleftrightarrow> False"
| "linked ct [c] \<longleftrightarrow> has_successor ct c = Inr False"
| "linked ct (c # d # cs) \<longleftrightarrow> has_successor ct c = Inr True \<and> successor ct c = Inr d \<and> linked ct (d # cs)"

lemma linked_tail: "linked ct (c # cs) \<Longrightarrow> cs \<noteq> [] \<Longrightarrow> linked ct cs"
  by (cases cs) auto

lemma linked_drop: "linked ct cs \<Longrightarrow> n < length cs \<Longrightarrow> linked ct (drop n cs)"
proof (induction n arbitrary: cs)
  case 0
  then show ?case by simp
next
  case (Suc n)
  then obtain c cs' where cs: "cs = c # cs'" by (cases cs) auto
  moreover have "cs' \<noteq> []" using Suc.prems(2) cs by auto
  ultimately show ?case using Suc.IH [of cs'] Suc.prems linked_tail by simp
qed

lemma chain_loop_linked:
  "linked ct (c # cs) \<Longrightarrow> chain_loop ct c len = Some (Inr (len + of_nat (length cs)))"
proof (induction cs arbitrary: c len)
  case Nil
  then show ?case by (subst chain_loop.simps) simp
next
  case (Cons d cs)
  then show ?case by (subst chain_loop.simps) (simp add: algebra_simps)
qed

lemma chain_length_linked:
  assumes "linked ct (c # cs)" and "is_free ct c = Inr False" and "is_defect ct c = Inr False"
    and "length cs + 1 < 2 ^ 32"
  shows "\<exists>n. chain_length ct c = Some (Inr n) \<and> unat n = length (c # cs)"
proof -
  have "chain_length ct c = Some (Inr (1 + of_nat (length cs)))"
    using assms(1-3) by (simp add: chain_length_def chain_loop_linked)
  moreover have "unat (1 + of_nat (length cs) :: u32) = length (c # cs)"
    using assms(4) unat_plus_nowrap [of "1 :: u32" "of_nat (length cs)"] by (simp add: unat_of_nat_lt)
  ultimately show ?thesis by blast
qed

text \<open>For a chain that ends, chain_length returns the number of its clusters.\<close>

theorem chain_length_counts:
  assumes "linked ct (c # cs)" and "is_free ct c = Inr False" and "is_defect ct c = Inr False"
    and "length cs + 1 < 2 ^ 32"
  shows "\<exists>n. chain_length ct c = Some (Inr n) \<and> unat n = length (c # cs)"
  using chain_length_linked [OF assms] .

text \<open>A chain that runs into a circle makes chain_length run forever: when every cluster
  of a set has a successor in the set, no length is returned for any of them.\<close>

theorem cyclic_chain_hangs:
  assumes "\<forall>c \<in> S. has_successor ct c = Inr True \<and> (\<exists>d \<in> S. successor ct c = Inr d)" and "c \<in> S"
  shows "chain_length ct c = None"
proof -
  have never: "c \<notin> S" if "chain_loop ct c len = Some y" for c len y
  proof -
    define P where "P = (\<lambda>ct' c (len :: u32) (y :: u32 result). ct' = ct \<longrightarrow> c \<notin> S)"
    have "P ct c len y"
    proof (rule chain_loop.raw_induct [OF _ that])
      fix f ct' c len y
      assume IH: "\<And>ct' c len y. f ct' c len = Some y \<Longrightarrow> P ct' c len y"
        and body: "(case has_successor ct' c of Inl e \<Rightarrow> Some (Inl e)
          | Inr b \<Rightarrow> if b then (case successor ct' c of Inl e \<Rightarrow> Some (Inl e) | Inr c \<Rightarrow> f ct' c (len + 1))
                     else Some (Inr len)) = Some y"
      show "P ct' c len y"
        unfolding P_def
      proof (intro impI notI)
        assume "ct' = ct" and "c \<in> S"
        then obtain d where "d \<in> S" "f ct d (len + 1) = Some y" using assms(1) body by auto
        then show False using IH unfolding P_def by blast
      qed
    qed
    then show ?thesis by (simp add: P_def)
  qed
  have "chain_loop ct c len = None" for len using never [of c len] assms(2) by fastforce
  moreover have "is_free ct c = Inr False"
    using assms by (auto simp: has_successor_def bind_result_Inr_iff split: if_splits)
  moreover have "is_defect ct c = Inr False"
    using assms \<open>is_free ct c = Inr False\<close> by (auto simp: has_successor_def bind_result_Inr_iff split: if_splits)
  ultimately show ?thesis by (simp add: chain_length_def)
qed

text \<open>With an offset for the nodes, as FAT12 and FAT16 have, the tests look at the wrong
  entry. The node cluster \<open>f - 2 + add\<close> stands for the entry \<open>f\<close> of the table; whatever chain
  starts at \<open>f\<close>, it has no successor and no length when the unrelated entry \<open>f + add\<close> is free.\<close>

theorem node_offset_loses_chain:
  assumes "node = f - 2 + ct_add ct" and "ct_value ct (f + ct_add ct) = Inr 0"
  shows "has_successor ct node = Inr False \<and> chain_length ct node = Some (Inr 0)
    \<and> (ct_value ct f = Inr v \<longrightarrow> (\<exists>b. has_successor ct f = Inr b) \<longrightarrow>
        successor ct node = Inr (v - 2 + ct_add ct))"
proof -
  have idx: "node + 2 = f + ct_add ct" "node - ct_add ct + 2 = f" using assms(1) by simp_all
  have free: "is_free ct node = Inr True" using assms(2) by (simp add: is_free_def idx fat_free_def)
  then have no: "has_successor ct node = Inr False" by (simp add: has_successor_def)
  moreover have "chain_loop ct node 0 = Some (Inr 0)" using no by (subst chain_loop.simps) simp
  then have "chain_length ct node = Some (Inr 0)" using free by (simp add: chain_length_def)
  moreover have "successor ct node = Inr (v - 2 + ct_add ct)"
    if "ct_value ct f = Inr v" "has_successor ct f = Inr b" for b
    using that by (simp add: successor_def idx)
  ultimately show ?thesis by blast
qed

text \<open>The entries are where the FAT documents have them. For a table in memory, the entry
  of 12 bits is taken from the two bytes from \<open>n + n div 2\<close> on, the one of 16 bits from the
  bytes from \<open>2 n\<close> on; an entry that is not wholly in the table is read out of bounds.\<close>

theorem ct_value_layout:
  assumes "ct_data ct = Some bs"
  shows "(ct_type ct = Fat12 \<longrightarrow> ct_value ct c =
      (if unat c + unat c div 2 + 1 < length bs then Inr (of_nat (entry12 bs (unat c))) else Inl Out_of_bounds))
    \<and> (ct_type ct = Fat16 \<longrightarrow> ct_value ct c =
      (if 2 * unat c + 1 < length bs then Inr (of_nat (entry16 bs (unat c))) else Inl Out_of_bounds))"
  using ct_value12 [OF assms] ct_value16 [OF assms] by simp

subsection \<open>Witnesses\<close>

definition ct_sample :: clustertable where
  "ct_sample = \<lparr>ct_data = Some [0xF8, 0xFF, 0xFF, 0xFF, 3, 0, 0xFF, 0xFF, 4, 0, 0, 0,
       0, 0, 0, 0, 0, 0, 0, 0, 0, 0, 0, 0], ct_size = 24, ct_add = 0, ct_type = Fat16\<rparr>"

lemma ct_sample_values:
  "ct_value ct_sample 2 = Inr 3" "ct_value ct_sample 3 = Inr 0xFFFF" "ct_value ct_sample 4 = Inr 4"
  "ct_value ct_sample 5 = Inr 0" "ct_value ct_sample 6 = Inr 0"
proof -
  have "ct_data ct_sample = Some [0xF8, 0xFF, 0xFF, 0xFF, 3, 0, 0xFF, 0xFF, 4, 0, 0, 0,
       0, 0, 0, 0, 0, 0, 0, 0, 0, 0, 0, 0]" "ct_type ct_sample = Fat16"
    by (simp_all add: ct_sample_def)
  note v = ct_value16 [OF this]
  show "ct_value ct_sample 2 = Inr 3" "ct_value ct_sample 3 = Inr 0xFFFF" "ct_value ct_sample 4 = Inr 4"
    "ct_value ct_sample 5 = Inr 0" "ct_value ct_sample 6 = Inr 0"
    by (simp_all add: v entry16_def)
qed

lemma ct_sample_tests:
  "has_successor ct_sample 0 = Inr True" "has_successor ct_sample 1 = Inr False" "has_successor ct_sample 2 = Inr True"
  "is_free ct_sample 0 = Inr False" "is_defect ct_sample 0 = Inr False" "has_successor ct_sample 4 = Inr False"
  and ct_sample_succ: "successor ct_sample 0 = Inr 1" "successor ct_sample 2 = Inr 2"
proof -
  have t: "ct_type ct_sample = Fat16" "ct_add ct_sample = 0" by (simp_all add: ct_sample_def)
  show s: "has_successor ct_sample 0 = Inr True" "has_successor ct_sample 1 = Inr False"
    "has_successor ct_sample 2 = Inr True" "has_successor ct_sample 4 = Inr False"
    "is_free ct_sample 0 = Inr False" "is_defect ct_sample 0 = Inr False"
    by (simp_all add: has_successor_def is_free_def is_defect_def is_end_def fat_free_def fat_defect_def fat_end_def
        ct_sample_values t)
  show "successor ct_sample 0 = Inr 1" "successor ct_sample 2 = Inr 2"
    by (simp_all add: successor_def ct_sample_values t s)
qed

theorem chain_length_counts_witness: "\<exists>n. chain_length ct_sample 0 = Some (Inr n) \<and> unat n = 2"
proof -
  have "length [0 :: u32, 1] = 2" by simp
  moreover have "\<exists>n. chain_length ct_sample 0 = Some (Inr n) \<and> unat n = length [0 :: u32, 1]"
    by (rule chain_length_counts) (simp_all add: ct_sample_tests ct_sample_succ)
  ultimately show ?thesis by (simp only:)
qed

theorem cyclic_chain_hangs_witness: "chain_length ct_sample 2 = None"
  by (rule cyclic_chain_hangs [of "{2}"]) (simp_all add: ct_sample_tests ct_sample_succ)

definition ct_offset :: clustertable where
  "ct_offset = ct_sample\<lparr>ct_add := 3\<rparr>"

theorem node_offset_loses_chain_witness:
  "chain_length ct_offset 3 = Some (Inr 0) \<and> ct_value ct_offset 2 = Inr 3 \<and> ct_value ct_offset 3 = Inr 0xFFFF"
proof -
  have v: "ct_value ct_offset c = ct_value ct_sample c" for c
    by (cases "ct_data ct_sample") (simp_all add: ct_value_def ct_offset_def)
  then have "ct_value ct_offset (2 + ct_add ct_offset) = Inr 0"
    by (simp add: ct_offset_def v [unfolded ct_offset_def] ct_sample_values)
  then show ?thesis
    using node_offset_loses_chain [of 3 2 ct_offset] by (simp add: v ct_sample_values) (simp add: ct_offset_def)
qed

theorem ct_value_layout_witness: "ct_value ct_sample 2 = Inr 3 \<and> ct_value ct_sample 12 = Inl Out_of_bounds"
  using ct_value_layout [of ct_sample "the (ct_data ct_sample)" 2] ct_value_layout [of ct_sample "the (ct_data ct_sample)" 12]
  by (simp add: ct_sample_def entry16_def)

end
