(* ===== verification/Byte_Fields.thy ===== *)
theory Byte_Fields
  imports Kern_Prelude
begin

text \<open>
  Fields of packed structures: little-endian numbers at an offset of a list of bytes, the
  bytes of a number, and the bits of a bit field. The layouts of the on-disk and in-memory
  formats (boot sector, directory entry, partition table, ELF headers) are stated with them.
\<close>

definition le16 :: "u8 list \<Rightarrow> nat \<Rightarrow> u16" where
  "le16 bs i = ucast (bs ! i) OR push_bit 8 (ucast (bs ! (i + 1)))"

definition le32 :: "u8 list \<Rightarrow> nat \<Rightarrow> u32" where
  "le32 bs i = ucast (bs ! i) OR push_bit 8 (ucast (bs ! (i + 1)))
     OR push_bit 16 (ucast (bs ! (i + 2))) OR push_bit 24 (ucast (bs ! (i + 3)))"

definition bits_at :: "nat \<Rightarrow> nat \<Rightarrow> 'a::len word \<Rightarrow> 'a word" where
  "bits_at lo n w = take_bit n (drop_bit lo w)"

definition chars_at :: "u8 list \<Rightarrow> nat \<Rightarrow> nat \<Rightarrow> string" where
  "chars_at bs i n = map (\<lambda>b. char_of (unat b)) (take n (drop i bs))"

definition bytes16 :: "u16 \<Rightarrow> u8 list" where
  "bytes16 w = [ucast w, ucast (drop_bit 8 w)]"

definition bytes32 :: "u32 \<Rightarrow> u8 list" where
  "bytes32 w = [ucast w, ucast (drop_bit 8 w), ucast (drop_bit 16 w), ucast (drop_bit 24 w)]"

lemma length_bytes [simp]: "length (bytes16 w) = 2" "length (bytes32 v) = 4"
  by (simp_all add: bytes16_def bytes32_def)

lemma le16_bytes16: "le16 (bytes16 w @ xs) 0 = w"
  by (rule bit_word_eqI) (auto simp: le16_def bytes16_def bit_simps)

lemma le32_bytes32: "le32 (bytes32 w @ xs) 0 = w"
proof (rule bit_word_eqI)
  fix n assume "n < LENGTH(32)"
  then show "bit (le32 (bytes32 w @ xs) 0) n = bit w n"
    by (cases "n < 16"; cases "n < 24") (auto simp: le32_def bytes32_def bit_simps)
qed

lemma le16_append: "i = length xs \<Longrightarrow> le16 (xs @ ys) i = le16 ys 0"
  by (simp add: le16_def nth_append)

lemma le32_append: "i = length xs \<Longrightarrow> le32 (xs @ ys) i = le32 ys 0"
  by (simp add: le32_def nth_append numeral_eq_Suc)

end
