(* ===== verification/Fat_Fs.thy ===== *)
theory Fat_Fs
  imports Fat_Table Byte_Fields Block_Device
begin

text \<open>
  The FAT file system over its container (kern/fs/fat_fs.cpp, fat_bootsector.h): the boot
  sector, the size and place of clusters, and the transfer of a range of bytes along a chain
  of clusters. What the container does with a read or a write is a parameter.
\<close>

section \<open>The boot sector\<close>

record fat_bootsector =
  bytes_per_sector :: u16
  sector_per_cluster :: u8
  reserved_sectors :: u16
  fat_copies :: u8
  max_dir_entrys_in_root :: u16
  sectors_per_fat :: u16
  rootdir_cluster :: u32

definition fat_bootsector_of :: "u8 list \<Rightarrow> fat_bootsector" where
  "fat_bootsector_of bs =
     \<lparr>bytes_per_sector = le16 bs 11, sector_per_cluster = bs ! 13, reserved_sectors = le16 bs 14,
      fat_copies = bs ! 16, max_dir_entrys_in_root = le16 bs 17, sectors_per_fat = le16 bs 22,
      rootdir_cluster = le32 bs 44\<rparr>"

text \<open>
  A read of the container gets the bytes of the buffer it is to fill and returns what they
  are afterwards.
\<close>

record 'd container =
  c_read :: "u64 \<Rightarrow> u8 list \<Rightarrow> 'd \<Rightarrow> u8 list \<times> 'd"
  c_write :: "u64 \<Rightarrow> u8 list \<Rightarrow> 'd \<Rightarrow> 'd"

record fat_fs =
  fs_table :: clustertable
  fs_type :: fat_type
  fs_boot :: fat_bootsector

definition fat_fs_new :: "fat_type \<Rightarrow> fat_bootsector \<Rightarrow> fat_fs" where
  "fat_fs_new t boot = \<lparr>fs_table = clustertable_new t, fs_type = t, fs_boot = boot\<rparr>"

definition cluster_size :: "fat_fs \<Rightarrow> u32" where
  "cluster_size fs = ucast (bytes_per_sector (fs_boot fs)) * ucast (sector_per_cluster (fs_boot fs))"

text \<open>A directory entry has 32 bytes.\<close>

definition norm_node_cluster_add :: "fat_fs \<Rightarrow> u32 result" where
  "norm_node_cluster_add fs =
     (case fs_type fs of
        Fat32 \<Rightarrow> Inr 0
      | _ \<Rightarrow>
          if cluster_size fs = 0 then Inl Div_zero
          else Inr (ucast (max_dir_entrys_in_root (fs_boot fs)) * 32 div cluster_size fs))"

definition read_bootsector :: "'d container \<Rightarrow> u8 list \<Rightarrow> fat_fs \<Rightarrow> 'd \<Rightarrow> fat_fs \<times> 'd" where
  "read_bootsector con old fs d =
     (let (bs, d1) = c_read con 0 old d in (fs\<lparr>fs_boot := fat_bootsector_of bs\<rparr>, d1))"

text \<open>\<open>fresh\<close> is the memory the table gets; the sizes are computed with 32 bits.\<close>

definition read_clustertable :: "'d container \<Rightarrow> u8 list \<Rightarrow> fat_fs \<Rightarrow> 'd \<Rightarrow> (fat_fs \<times> 'd) result" where
  "read_clustertable con fresh fs d =
     (let bps = ucast (bytes_per_sector (fs_boot fs)) :: u32;
          n = ucast (sectors_per_fat (fs_boot fs)) * bps;
          base = ucast (reserved_sectors (fs_boot fs)) * bps;
          ct = ct_set_size n fresh (fs_table fs);
          (bs, d1) = c_read con (ucast base) fresh d
      in bind_result (norm_node_cluster_add fs) (\<lambda>add.
           Inr (fs\<lparr>fs_table := norm_node_add add (ct\<lparr>ct_data := Some bs\<rparr>)\<rparr>, d1)))"

definition fat_init :: "'d container \<Rightarrow> u8 list \<Rightarrow> (u32 \<Rightarrow> u8 list) \<Rightarrow> fat_fs \<Rightarrow> 'd \<Rightarrow> (fat_fs \<times> 'd) result" where
  "fat_init con old fresh fs d =
     (let (fs1, d1) = read_bootsector con old fs d
      in read_clustertable con
           (fresh (ucast (sectors_per_fat (fs_boot fs1)) * ucast (bytes_per_sector (fs_boot fs1)))) fs1 d1)"

section \<open>Clusters\<close>

definition base_cluster :: "fat_fs \<Rightarrow> u32 result" where
  "base_cluster fs =
     (let b = fs_boot fs;
          base_sector = ucast (reserved_sectors b) + ucast (sectors_per_fat b) * ucast (fat_copies b) :: u32
      in if sector_per_cluster b = 0 then Inl Div_zero
         else Inr (base_sector div ucast (sector_per_cluster b)))"

text \<open>The address is computed with 32 bits before it is taken for one of 64.\<close>

definition cluster_address :: "fat_fs \<Rightarrow> u32 \<Rightarrow> u64 result" where
  "cluster_address fs cluster =
     bind_result (base_cluster fs) (\<lambda>b. Inr (ucast ((b + cluster) * cluster_size fs)))"

definition read_cluster :: "'d container \<Rightarrow> fat_fs \<Rightarrow> u32 \<Rightarrow> u8 list \<Rightarrow> 'd \<Rightarrow> (u8 list \<times> 'd) result" where
  "read_cluster con fs cluster buf d =
     bind_result (cluster_address fs cluster) (\<lambda>base.
       if unat (cluster_size fs) \<le> length buf
       then (let (area, d1) = c_read con base (take (unat (cluster_size fs)) buf) d
             in Inr (area @ drop (unat (cluster_size fs)) buf, d1))
       else Inl Out_of_bounds)"

datatype fat_io = Cluster_read | Cluster_write

definition single_cluster_io ::
  "'d container \<Rightarrow> fat_fs \<Rightarrow> fat_io \<Rightarrow> u32 \<Rightarrow> u32 \<Rightarrow> nat \<Rightarrow> u32 \<Rightarrow> u8 list \<Rightarrow> 'd \<Rightarrow> (u8 list \<times> 'd) result" where
  "single_cluster_io con fs io cluster offset at len buf d =
     (if offset + len > cluster_size fs then Inr (buf, d)
      else bind_result (cluster_address fs cluster) (\<lambda>base.
        if at + unat len > length buf then Inl Out_of_bounds
        else
          (let area = take (unat len) (drop at buf)
           in case io of
                Cluster_read \<Rightarrow>
                  (let (area', d1) = c_read con (base + ucast offset) area d
                   in Inr (take at buf @ area' @ drop (at + unat len) buf, d1))
              | Cluster_write \<Rightarrow> Inr (buf, c_write con (base + ucast offset) area d))))"

text \<open>\<open>None\<close>: the chain is too short, the transfer returns without a word.\<close>

fun skip_clusters :: "clustertable \<Rightarrow> nat \<Rightarrow> u32 \<Rightarrow> u32 option result" where
  "skip_clusters ct 0 cluster = Inr (Some cluster)"
| "skip_clusters ct (Suc n) cluster =
     bind_result (has_successor ct cluster) (\<lambda>b.
       if b then bind_result (successor ct cluster) (skip_clusters ct n) else Inr None)"

partial_function (option) cluster_loop ::
  "'d container \<Rightarrow> fat_fs \<Rightarrow> fat_io \<Rightarrow> u32 \<Rightarrow> u32 \<Rightarrow> u32 \<Rightarrow> u32 \<Rightarrow> u32 \<Rightarrow> u8 list \<Rightarrow> 'd
   \<Rightarrow> (u8 list \<times> 'd) result option" where
  "cluster_loop con fs io len cluster skip pos remain buf d =
     (if pos < len
      then
        (let max_len = cluster_size fs - skip;
             n = (if remain > max_len then max_len else remain)
         in case single_cluster_io con fs io cluster skip (unat pos) n buf d of
              Inl e \<Rightarrow> Some (Inl e)
            | Inr (buf1, d1) \<Rightarrow>
                if remain - n > 0
                then (case has_successor (fs_table fs) cluster of
                        Inl e \<Rightarrow> Some (Inl e)
                      | Inr b \<Rightarrow>
                          if b
                          then (case successor (fs_table fs) cluster of
                                  Inl e \<Rightarrow> Some (Inl e)
                                | Inr c \<Rightarrow> cluster_loop con fs io len c 0 (pos + n) (remain - n) buf1 d1)
                          else Some (Inr (buf1, d1)))
                else Some (Inr (buf1, d1)))
      else Some (Inr (buf, d)))"

definition cluster_io ::
  "'d container \<Rightarrow> fat_fs \<Rightarrow> fat_io \<Rightarrow> u32 \<Rightarrow> u64 \<Rightarrow> u32 \<Rightarrow> u8 list \<Rightarrow> 'd \<Rightarrow> (u8 list \<times> 'd) result option" where
  "cluster_io con fs io start offset len buf d =
     (if cluster_size fs = 0 then Some (Inl Div_zero)
      else
        (let skip_count = ucast (offset div ucast (cluster_size fs)) :: u32;
             skip_bytes = ucast (offset mod ucast (cluster_size fs)) :: u32
         in case skip_clusters (fs_table fs) (unat skip_count) start of
              Inl e \<Rightarrow> Some (Inl e)
            | Inr None \<Rightarrow> Some (Inr (buf, d))
            | Inr (Some c) \<Rightarrow> cluster_loop con fs io len c skip_bytes 0 len buf d))"

section \<open>The bytes of a file\<close>

text \<open>A container that keeps \<open>cap\<close> bytes.\<close>

definition container_laws :: "'d container \<Rightarrow> ('d \<Rightarrow> nat \<Rightarrow> u8) \<Rightarrow> nat \<Rightarrow> bool" where
  "container_laws con contents cap \<longleftrightarrow>
     (\<forall>a xs d. unat a + length xs \<le> cap \<longrightarrow>
        fst (c_read con a xs d) = chunk (contents d) (unat a) (length xs)
        \<and> contents (snd (c_read con a xs d)) = contents d
        \<and> contents (c_write con a xs d) = patch (unat a) xs (contents d))"

definition cluster_start :: "fat_fs \<Rightarrow> u32 \<Rightarrow> nat" where
  "cluster_start fs c = (case base_cluster fs of Inl e \<Rightarrow> 0 | Inr b \<Rightarrow> unat b + unat c) * unat (cluster_size fs)"

text \<open>The cluster lies in the container and its address fits into 32 bits.\<close>

definition cluster_ok :: "fat_fs \<Rightarrow> nat \<Rightarrow> u32 \<Rightarrow> bool" where
  "cluster_ok fs cap c \<longleftrightarrow> (\<exists>b. base_cluster fs = Inr b \<and> unat b + unat c < 2 ^ 32)
     \<and> cluster_start fs c + unat (cluster_size fs) \<le> cap
     \<and> cluster_start fs c + unat (cluster_size fs) < 2 ^ 32"

definition file_bytes :: "fat_fs \<Rightarrow> u32 list \<Rightarrow> (nat \<Rightarrow> u8) \<Rightarrow> u8 list" where
  "file_bytes fs cs f = concat (map (\<lambda>c. chunk f (cluster_start fs c) (unat (cluster_size fs))) cs)"

lemma cluster_address_ok:
  assumes "cluster_ok fs cap c"
  shows "\<exists>a. cluster_address fs c = Inr a \<and> unat a = cluster_start fs c"
proof -
  obtain b where b: "base_cluster fs = Inr b" "unat b + unat c < 2 ^ 32"
    using assms unfolding cluster_ok_def by blast
  then have "unat (b + c) = unat b + unat c" by (simp add: unat_plus_nowrap)
  moreover have "cluster_start fs c < 2 ^ 32" using assms unfolding cluster_ok_def by linarith
  ultimately have "unat ((b + c) * cluster_size fs) = cluster_start fs c"
    using b(1) by (simp add: unat_word_ariths cluster_start_def)
  then show ?thesis using b(1) by (simp add: cluster_address_def unat_ucast64)
qed

lemma container_read:
  assumes "container_laws con contents cap" and "unat a + length xs \<le> cap"
  shows "fst (c_read con a xs d) = chunk (contents d) (unat a) (length xs)"
    and "contents (snd (c_read con a xs d)) = contents d"
    and "contents (c_write con a xs d) = patch (unat a) xs (contents d)"
  using assms unfolding container_laws_def by blast+

lemma single_read:
  assumes "container_laws con contents cap" and "cluster_ok fs cap c"
    and "unat skip + unat n \<le> unat (cluster_size fs)" and "at + unat n \<le> length buf"
  shows "\<exists>d'. single_cluster_io con fs Cluster_read c skip at n buf d
      = Inr (take at buf @ chunk (contents d) (cluster_start fs c + unat skip) (unat n) @ drop (at + unat n) buf, d')
    \<and> contents d' = contents d"
proof -
  obtain a where a: "cluster_address fs c = Inr a" "unat a = cluster_start fs c"
    using cluster_address_ok [OF assms(2)] by blast
  have sum: "unat (skip + n) = unat skip + unat n"
    using assms(3) unat_lt32 [of "cluster_size fs"] by (simp add: unat_plus_nowrap)
  have "unat (a + ucast skip) = cluster_start fs c + unat skip"
    using a(2) assms(2,3) by (simp add: unat_plus_nowrap unat_ucast64 cluster_ok_def)
  moreover have "cluster_start fs c + unat skip + unat n \<le> cap"
    using assms(2,3) unfolding cluster_ok_def by linarith
  moreover have "length (take (unat n) (drop at buf)) = unat n" using assms(4) by simp
  ultimately have "fst (c_read con (a + ucast skip) (take (unat n) (drop at buf)) d)
      = chunk (contents d) (cluster_start fs c + unat skip) (unat n)"
    and "contents (snd (c_read con (a + ucast skip) (take (unat n) (drop at buf)) d)) = contents d"
    using container_read [OF assms(1), of "a + ucast skip" "take (unat n) (drop at buf)"] by simp_all
  moreover have "\<not> skip + n > cluster_size fs" using assms(3) sum by (simp add: word_less_nat_alt)
  ultimately show ?thesis
    using assms(4) by (simp add: single_cluster_io_def a(1) Let_def case_prod_beta)
qed

lemma length_file_bytes [simp]: "length (file_bytes fs cs f) = length cs * unat (cluster_size fs)"
  by (induction cs) (simp_all add: file_bytes_def)

lemma file_bytes_Cons:
  "file_bytes fs (c # cs) f = chunk f (cluster_start fs c) (unat (cluster_size fs)) @ file_bytes fs cs f"
  by (simp add: file_bytes_def)

text \<open>One round: the rest of this cluster, or what is left to transfer.\<close>

lemma cluster_round_io:
  assumes sum: "unat pos + unat remain = unat len" and "skip < cluster_size fs" and "0 < remain"
    and n: "n = min (unat remain) (unat (cluster_size fs) - unat skip)"
    and single: "\<And>m. unat m = n \<Longrightarrow> single_cluster_io con fs io c skip (unat pos) m buf d = Inr (buf1, d1)"
  shows "(unat remain = n \<longrightarrow> cluster_loop con fs io len c skip pos remain buf d = Some (Inr (buf1, d1)))
    \<and> (n < unat remain \<longrightarrow> has_successor (fs_table fs) c = Inr True \<longrightarrow> successor (fs_table fs) c = Inr c' \<longrightarrow>
        (\<exists>pos' remain'. unat pos' = unat pos + n \<and> unat remain' = unat remain - n
          \<and> cluster_loop con fs io len c skip pos remain buf d = cluster_loop con fs io len c' 0 pos' remain' buf1 d1))"
proof -
  let ?max = "cluster_size fs - skip" and ?n = "if remain > cluster_size fs - skip then cluster_size fs - skip else remain"
  have mx: "unat ?max = unat (cluster_size fs) - unat skip"
    using assms(2) by (simp add: unat_sub word_le_nat_alt word_less_nat_alt)
  then have n': "unat ?n = n" unfolding n by (auto simp: word_less_nat_alt min_def)
  note r = single [OF n']
  have le: "n \<le> unat remain" unfolding n by simp
  have "0 < unat remain" using assms(3) by (simp add: word_less_nat_alt)
  then have lt: "pos < len" using sum by (simp add: word_less_nat_alt)
  have rem: "unat (remain - ?n) = unat remain - n"
    using le n' by (simp add: unat_sub word_le_nat_alt)
  have pos': "unat (pos + ?n) = unat pos + n"
    using le n' sum unat_lt32 [of len] by (simp add: unat_plus_nowrap)
  have "cluster_loop con fs io len c skip pos remain buf d = Some (Inr (buf1, d1))" if "unat remain = n"
  proof -
    have "remain - ?n = 0" using rem that by (simp add: word_unat_eq_iff)
    then show ?thesis using lt by (subst cluster_loop.simps) (simp only: r Let_def, simp)
  qed
  moreover have "cluster_loop con fs io len c skip pos remain buf d
      = cluster_loop con fs io len c' 0 (pos + ?n) (remain - ?n) buf1 d1"
    if "n < unat remain" "has_successor (fs_table fs) c = Inr True" "successor (fs_table fs) c = Inr c'"
  proof -
    have "0 < remain - ?n" using rem that(1) by (simp add: word_less_nat_alt)
    then show ?thesis using lt that(2,3) by (subst cluster_loop.simps) (simp only: r Let_def, simp)
  qed
  ultimately show ?thesis using rem pos' by blast
qed

lemma round_word:
  "skip < cluster_size fs \<Longrightarrow> \<exists>m :: u32. unat m = min (unat remain) (unat (cluster_size fs) - unat skip)"
  for remain :: u32
  by (rule exI [of _ "min remain (cluster_size fs - skip)"])
    (auto simp: min_def word_le_nat_alt unat_sub word_less_nat_alt)

lemma round_fits:
  assumes "skip < cluster_size fs" and "n = min (unat remain) (unat (cluster_size fs) - unat skip)"
    and "unat pos + unat remain = unat len" and "unat len \<le> length buf"
  shows "unat skip + n \<le> unat (cluster_size fs)" and "unat pos + n \<le> length buf"
  using assms by (auto simp: word_less_nat_alt)

lemma cluster_round:
  assumes laws: "container_laws con contents cap" and ok: "cluster_ok fs cap c"
    and sum: "unat pos + unat remain = unat len" and "unat len \<le> length buf"
    and "skip < cluster_size fs" and "0 < remain"
    and n: "n = min (unat remain) (unat (cluster_size fs) - unat skip)"
    and buf1: "buf1 = take (unat pos) buf @ chunk (contents d) (cluster_start fs c + unat skip) n @ drop (unat pos + n) buf"
  shows "\<exists>d1. contents d1 = contents d
    \<and> (unat remain = n \<longrightarrow> cluster_loop con fs Cluster_read len c skip pos remain buf d = Some (Inr (buf1, d1)))
    \<and> (n < unat remain \<longrightarrow> has_successor (fs_table fs) c = Inr True \<longrightarrow> successor (fs_table fs) c = Inr c' \<longrightarrow>
        (\<exists>pos' remain'. unat pos' = unat pos + n \<and> unat remain' = unat remain - n
          \<and> cluster_loop con fs Cluster_read len c skip pos remain buf d
            = cluster_loop con fs Cluster_read len c' 0 pos' remain' buf1 d1))"
proof -
  have u: "\<exists>m :: u32. unat m = n" unfolding n by (rule round_word [OF assms(5)])
  have "\<exists>d1. \<forall>m. unat m = n \<longrightarrow> single_cluster_io con fs Cluster_read c skip (unat pos) m buf d = Inr (buf1, d1)
      \<and> contents d1 = contents d"
  proof -
    obtain m :: u32 where m: "unat m = n" using u by blast
    obtain d1 where "single_cluster_io con fs Cluster_read c skip (unat pos) m buf d = Inr (buf1, d1)" "contents d1 = contents d"
      using single_read [OF laws ok, of skip m "unat pos" buf d] round_fits [OF assms(5) n sum assms(4)] m buf1 by auto
    then show ?thesis using m by (metis word_unat_eq_iff)
  qed
  with u obtain d1 where "contents d1 = contents d"
    and "\<And>m. unat m = n \<Longrightarrow> single_cluster_io con fs Cluster_read c skip (unat pos) m buf d = Inr (buf1, d1)" by blast
  then show ?thesis using cluster_round_io [OF sum assms(5,6) n, of con Cluster_read c buf d buf1 d1 c'] by blast
qed

lemma cluster_loop_read:
  assumes laws: "container_laws con contents cap"
  shows "linked (fs_table fs) (c # cs) \<Longrightarrow> \<forall>x \<in> set (c # cs). cluster_ok fs cap x
    \<Longrightarrow> unat pos + unat remain = unat len \<Longrightarrow> unat len \<le> length buf \<Longrightarrow> skip < cluster_size fs
    \<Longrightarrow> 0 < remain \<Longrightarrow> unat skip + unat remain \<le> length (c # cs) * unat (cluster_size fs)
    \<Longrightarrow> \<exists>d'. cluster_loop con fs Cluster_read len c skip pos remain buf d
        = Some (Inr (take (unat pos) buf @ take (unat remain) (drop (unat skip) (file_bytes fs (c # cs) (contents d)))
                     @ drop (unat len) buf, d'))
      \<and> contents d' = contents d"
proof (induction cs arbitrary: c skip pos remain buf d)
  case Nil
  let ?k = "unat (cluster_size fs)"
  have n: "min (unat remain) (?k - unat skip) = unat remain" using Nil.prems(7) by simp
  have "take (unat remain) (drop (unat skip) (file_bytes fs [c] (contents d)))
      = chunk (contents d) (cluster_start fs c + unat skip) (unat remain)"
    using Nil.prems(7) by (simp add: file_bytes_def take_drop_chunk)
  then show ?case
    using cluster_round [OF laws _ Nil.prems(3-6) refl refl, of c d] n Nil.prems(2,3) by auto
next
  case (Cons c2 cs)
  let ?k = "unat (cluster_size fs)" and ?f = "contents d"
  let ?n = "min (unat remain) (?k - unat skip)"
  let ?buf1 = "take (unat pos) buf @ chunk ?f (cluster_start fs c + unat skip) ?n @ drop (unat pos + ?n) buf"
  have ok: "cluster_ok fs cap c" and succ: "has_successor (fs_table fs) c = Inr True"
      "successor (fs_table fs) c = Inr c2" and link: "linked (fs_table fs) (c2 # cs)"
    using Cons.prems(1,2) by simp_all
  have sk: "unat skip < ?k" using Cons.prems(5) by (simp add: word_less_nat_alt)
  obtain d1 where d1: "contents d1 = ?f"
    and last: "unat remain = ?n \<longrightarrow>
      cluster_loop con fs Cluster_read len c skip pos remain buf d = Some (Inr (?buf1, d1))"
    and more: "?n < unat remain \<longrightarrow> (\<exists>pos' remain'. unat pos' = unat pos + ?n \<and> unat remain' = unat remain - ?n
      \<and> cluster_loop con fs Cluster_read len c skip pos remain buf d
        = cluster_loop con fs Cluster_read len c2 0 pos' remain' ?buf1 d1)"
    using cluster_round [OF laws ok Cons.prems(3-6) refl refl, where d = d and c' = c2] succ by blast
  have head: "drop (unat skip) (file_bytes fs (c # c2 # cs) ?f)
      = chunk ?f (cluster_start fs c + unat skip) (?k - unat skip) @ file_bytes fs (c2 # cs) ?f"
    using sk take_drop_chunk [of "unat skip" "?k - unat skip" ?k ?f "cluster_start fs c"]
    by (simp add: file_bytes_Cons [of fs c])
  show ?case
  proof (cases "unat remain \<le> ?k - unat skip")
    case True
    then have "take (unat remain) (drop (unat skip) (file_bytes fs (c # c2 # cs) ?f))
        = chunk ?f (cluster_start fs c + unat skip) (unat remain)"
      unfolding head using take_drop_chunk [of 0 "unat remain" "?k - unat skip" ?f "cluster_start fs c + unat skip"] by simp
    then show ?thesis using last d1 True Cons.prems(3) by (auto simp: min_def)
  next
    case False
    then have n: "?n = ?k - unat skip" and lt: "?n < unat remain" by simp_all
    obtain pos' remain' where p: "unat pos' = unat pos + ?n" "unat remain' = unat remain - ?n"
      and loop: "cluster_loop con fs Cluster_read len c skip pos remain buf d
        = cluster_loop con fs Cluster_read len c2 0 pos' remain' ?buf1 d1"
      using more lt by blast
    have len1: "length ?buf1 = length buf" using Cons.prems(3,4) lt by simp
    have IH: "\<exists>d'. cluster_loop con fs Cluster_read len c2 0 pos' remain' ?buf1 d1
        = Some (Inr (take (unat pos') ?buf1 @ take (unat remain') (drop (unat (0 :: u32)) (file_bytes fs (c2 # cs) (contents d1)))
            @ drop (unat len) ?buf1, d')) \<and> contents d' = contents d1"
    proof (rule Cons.IH [OF link])
      show "\<forall>x \<in> set (c2 # cs). cluster_ok fs cap x" using Cons.prems(2) by simp
      show "unat pos' + unat remain' = unat len" using p lt Cons.prems(3) by simp
      show "unat len \<le> length ?buf1" using len1 Cons.prems(4) by simp
      show "0 < cluster_size fs" using sk by (simp add: word_less_nat_alt)
      show "0 < remain'" using p(2) lt by (simp add: word_less_nat_alt)
      show "unat (0 :: u32) + unat remain' \<le> length (c2 # cs) * ?k"
        using p(2) n Cons.prems(7) sk by simp
    qed
    have "take (unat pos') ?buf1 = take (unat pos) buf @ chunk ?f (cluster_start fs c + unat skip) ?n"
      using p(1) Cons.prems(3,4) lt by simp
    moreover have "drop (unat len) ?buf1 = drop (unat len) buf"
      using Cons.prems(3,4) lt by simp
    moreover have "take (unat remain) (drop (unat skip) (file_bytes fs (c # c2 # cs) ?f))
        = chunk ?f (cluster_start fs c + unat skip) ?n @ take (unat remain') (file_bytes fs (c2 # cs) ?f)"
      unfolding head using n lt p(2) by simp
    ultimately show ?thesis using IH loop d1 by simp
  qed
qed

lemma skip_linked:
  "linked ct (c # cs) \<Longrightarrow> n < length (c # cs) \<Longrightarrow> skip_clusters ct n c = Inr (Some ((c # cs) ! n))"
proof (induction n arbitrary: c cs)
  case 0
  then show ?case by simp
next
  case (Suc n)
  then obtain d cs' where "cs = d # cs'" by (cases cs) auto
  then show ?case using Suc by simp
qed

lemma drop_file_bytes: "n \<le> length cs \<Longrightarrow> drop (n * unat (cluster_size fs)) (file_bytes fs cs f) = file_bytes fs (drop n cs) f"
proof (induction n arbitrary: cs)
  case 0
  then show ?case by simp
next
  case (Suc n)
  then obtain c cs' where "cs = c # cs'" by (cases cs) auto
  then show ?case using Suc by (simp add: file_bytes_Cons add.commute)
qed

text \<open>Where a transfer starts: the cluster the offset lies in, and the rest of the chain.\<close>

lemma cluster_io_start:
  assumes link: "linked (fs_table fs) (start # cs)" and pos: "0 < cluster_size fs"
    and range: "unat offset < length (start # cs) * unat (cluster_size fs)"
    and "length (start # cs) \<le> 2 ^ 32"
  obtains n c rest skip where "drop n (start # cs) = c # rest" and "n < length (start # cs)"
    and "linked (fs_table fs) (c # rest)" and "set (c # rest) \<subseteq> set (start # cs)"
    and "unat offset = n * unat (cluster_size fs) + unat skip" and "skip < cluster_size fs"
    and "length (start # cs) * unat (cluster_size fs) = n * unat (cluster_size fs) + length (c # rest) * unat (cluster_size fs)"
    and "\<And>io len buf d. cluster_io con fs io start offset len buf d = cluster_loop con fs io len c skip 0 len buf d"
proof -
  let ?k = "unat (cluster_size fs)" and ?all = "start # cs"
  let ?n = "unat offset div ?k" and ?s = "unat offset mod ?k"
  let ?skip = "ucast (offset mod ucast (cluster_size fs)) :: u32"
  have k: "0 < ?k" using assms(2) by (simp add: word_less_nat_alt)
  have split: "?n * ?k + ?s = unat offset" by simp
  have "?n * ?k < length ?all * ?k" using range split by linarith
  then have n: "?n < length ?all" by (simp only: mult_less_cancel2)
  have sk: "unat ?skip = ?s"
  proof -
    have "?s < 2 ^ 32" using k mod_less_divisor [OF k, of "unat offset"] unat_lt32 [of "cluster_size fs"] by simp
    then show ?thesis by (simp add: unat_ucast32 unat_mod unat_ucast64)
  qed
  have skip_count: "unat (ucast (offset div ucast (cluster_size fs)) :: u32) = ?n"
    using n assms(4) by (simp add: unat_ucast32 unat_div unat_ucast64)
  obtain c rest where drop: "drop ?n ?all = c # rest"
    using n by (metis Cons_nth_drop_Suc)
  then have c: "?all ! ?n = c" using n by (metis nth_via_drop)
  have len': "length (c # rest) = length ?all - ?n" using drop by (metis length_drop)
  show thesis
  proof (rule that [OF drop n])
    show "linked (fs_table fs) (c # rest)" using linked_drop [OF link n] drop by simp
    show "set (c # rest) \<subseteq> set ?all" using set_drop_subset [of ?n ?all] drop by simp
    show "unat offset = ?n * ?k + unat ?skip" using sk by simp
    show "?skip < cluster_size fs" using sk mod_less_divisor [OF k, of "unat offset"] by (simp add: word_less_nat_alt)
    show "length ?all * ?k = ?n * ?k + length (c # rest) * ?k"
      unfolding len' add_mult_distrib [symmetric] using n by simp
    have "cluster_size fs \<noteq> 0" using pos by auto
    then show "cluster_io con fs io start offset len buf d = cluster_loop con fs io len c ?skip 0 len buf d" for io len buf d
      using skip_linked [OF link n] c by (simp add: cluster_io_def Let_def skip_count)
  qed
qed

lemma cluster_io_read:
  assumes laws: "container_laws con contents cap" and link: "linked (fs_table fs) (start # cs)"
    and ok: "\<forall>x \<in> set (start # cs). cluster_ok fs cap x" and "0 < cluster_size fs" and "0 < len"
    and range: "unat offset + unat len \<le> length (start # cs) * unat (cluster_size fs)"
    and "length (start # cs) \<le> 2 ^ 32" and "unat len \<le> length buf"
  shows "\<exists>d'. cluster_io con fs Cluster_read start offset len buf d
      = Some (Inr (take (unat len) (drop (unat offset) (file_bytes fs (start # cs) (contents d))) @ drop (unat len) buf, d'))
    \<and> contents d' = contents d"
proof -
  let ?all = "start # cs"
  have "0 < unat len" using assms(5) by (simp add: word_less_nat_alt)
  then have offset: "unat offset < length ?all * unat (cluster_size fs)" using range by linarith
  obtain n c rest skip where w: "drop n ?all = c # rest" "n < length ?all" "linked (fs_table fs) (c # rest)"
      "set (c # rest) \<subseteq> set ?all" "unat offset = n * unat (cluster_size fs) + unat skip" "skip < cluster_size fs"
      "length ?all * unat (cluster_size fs) = n * unat (cluster_size fs) + length (c # rest) * unat (cluster_size fs)"
    and io: "\<And>io len buf d. cluster_io con fs io start offset len buf d = cluster_loop con fs io len c skip 0 len buf d"
    using cluster_io_start [OF link assms(4) offset assms(7), of con] by blast
  have fits: "unat skip + unat len \<le> length (c # rest) * unat (cluster_size fs)"
    using range w(5,7) by linarith
  have "drop (unat offset) (file_bytes fs ?all (contents d))
      = drop (unat skip) (drop (n * unat (cluster_size fs)) (file_bytes fs ?all (contents d)))"
    by (simp add: w(5) add.commute)
  also have "\<dots> = drop (unat skip) (file_bytes fs (c # rest) (contents d))"
    using drop_file_bytes [of n ?all fs "contents d"] w(1,2) by simp
  finally have bytes: "drop (unat offset) (file_bytes fs ?all (contents d))
      = drop (unat skip) (file_bytes fs (c # rest) (contents d))" .
  have "\<forall>x \<in> set (c # rest). cluster_ok fs cap x" using ok w(4) by blast
  then show ?thesis
    unfolding io bytes
    using cluster_loop_read [OF laws w(3), of 0 len len buf skip d] w(6) fits assms(5,8) by simp
qed

text \<open>Reading a range of a file reads these bytes of its clusters. When the clusters of
  a file are linked in the table and lie in the container, cluster_io returns for every range
  within them; the buffer gets the bytes of the range in the concatenation of the clusters,
  whatever clusters the range starts and ends in, and nothing behind them is touched.\<close>

theorem cluster_io_reads_file:
  assumes "container_laws con contents cap" and "linked (fs_table fs) (start # cs)"
    and "\<forall>x \<in> set (start # cs). cluster_ok fs cap x" and "0 < cluster_size fs" and "0 < len"
    and "unat offset + unat len \<le> length (start # cs) * unat (cluster_size fs)"
    and "length (start # cs) \<le> 2 ^ 32" and "unat len \<le> length buf"
  shows "\<exists>d'. cluster_io con fs Cluster_read start offset len buf d
      = Some (Inr (take (unat len) (drop (unat offset)
            (concat (map (\<lambda>c. map (contents d) [cluster_start fs c ..< cluster_start fs c + unat (cluster_size fs)])
              (start # cs)))) @ drop (unat len) buf, d'))
    \<and> contents d' = contents d"
  using cluster_io_read [OF assms, of d] unfolding file_bytes_def chunk_def .

text \<open>A cluster behind 4 GiB is looked for in front of it. The address of a cluster is
  the product of its number and the size taken modulo \<open>2 ^ 32\<close>, although the container takes
  addresses of 64 bits.\<close>

theorem cluster_address_wraps:
  assumes "base_cluster fs = Inr b" and "unat b + unat c < 2 ^ 32"
  shows "\<exists>a. cluster_address fs c = Inr a \<and> unat a = (unat b + unat c) * unat (cluster_size fs) mod 2 ^ 32
    \<and> (2 ^ 32 \<le> (unat b + unat c) * unat (cluster_size fs) \<longrightarrow> unat a < (unat b + unat c) * unat (cluster_size fs))"
proof -
  have "unat (b + c) = unat b + unat c" using assms(2) by (simp add: unat_plus_nowrap)
  then have "unat ((b + c) * cluster_size fs) = (unat b + unat c) * unat (cluster_size fs) mod 2 ^ 32"
    by (simp add: unat_word_ariths)
  moreover have "x mod 2 ^ 32 < (2 ^ 32 :: nat)" for x by simp
  ultimately show ?thesis
    using assms(1) by (auto simp: cluster_address_def unat_ucast64 intro: less_le_trans)
qed

section \<open>A sample\<close>

text \<open>A container of bytes in memory, and a file of two clusters of two bytes in it.\<close>

definition ram_container :: "(nat \<Rightarrow> u8) container" where
  "ram_container = \<lparr>c_read = (\<lambda>a xs d. (chunk d (unat a) (length xs), d)), c_write = (\<lambda>a xs d. patch (unat a) xs d)\<rparr>"

definition fs_sample :: fat_fs where
  "fs_sample = \<lparr>fs_table = ct_sample, fs_type = Fat16,
     fs_boot = \<lparr>bytes_per_sector = 2, sector_per_cluster = 1, reserved_sectors = 1, fat_copies = 1,
                max_dir_entrys_in_root = 0, sectors_per_fat = 1, rootdir_cluster = 0\<rparr>\<rparr>"

lemma ram_container_laws: "container_laws ram_container (\<lambda>d. d) cap"
  by (simp add: container_laws_def ram_container_def)

lemma fs_sample_simps: "fs_table fs_sample = ct_sample" "cluster_size fs_sample = 2" "base_cluster fs_sample = Inr 2"
  "cluster_start fs_sample 0 = 4" "cluster_start fs_sample 1 = 6"
  by (simp_all add: fs_sample_def cluster_size_def base_cluster_def cluster_start_def Let_def)

theorem cluster_io_reads_file_witness:
  "\<exists>d'. cluster_io ram_container fs_sample Cluster_read 0 1 2 [9, 9, 9] (\<lambda>i. of_nat i) = Some (Inr ([5, 6, 9], d'))"
proof -
  have ok: "\<forall>x \<in> set [0 :: u32, 1]. cluster_ok fs_sample 8 x"
    by (simp add: cluster_ok_def fs_sample_simps)
  have "linked (fs_table fs_sample) [0, 1]" by (simp add: fs_sample_simps ct_sample_tests ct_sample_succ)
  then have "\<exists>d'. cluster_io ram_container fs_sample Cluster_read 0 1 2 [9, 9, 9] (\<lambda>i. of_nat i)
    = Some (Inr (take (unat (2 :: u32)) (drop (unat (1 :: u64))
          (concat (map (\<lambda>c. map (\<lambda>i. of_nat i) [cluster_start fs_sample c ..< cluster_start fs_sample c + unat (cluster_size fs_sample)])
            [0, 1]))) @ drop (unat (2 :: u32)) [9, 9, 9], d')) \<and> d' = (\<lambda>i. of_nat i)"
    by (rule cluster_io_reads_file [OF ram_container_laws _ ok]) (simp_all add: fs_sample_simps)
  then show ?thesis by (simp add: fs_sample_simps upt_rec)
qed

theorem cluster_address_wraps_witness:
  "cluster_address fs_sample 0x7FFFFFFE = Inr 0"
  using cluster_address_wraps [of fs_sample 2 "0x7FFFFFFE"] by (auto simp: fs_sample_simps word_unat_eq_iff)

end
