(* ===== verification/Fat_File.thy ===== *)
theory Fat_File
  imports Fat_Fs
begin

text \<open>
  The contents of a file as one sequence of bytes: reading and writing along a chain of
  clusters (cluster_io in kern/fs/fat_fs.cpp) are reading and updating that sequence, and
  the bytes outside of the clusters of the file stay as they are.
\<close>

section \<open>Patches and slices\<close>

text \<open>Replace \<open>length xs\<close> elements from position \<open>k\<close> on.\<close>

definition splice :: "nat \<Rightarrow> 'a list \<Rightarrow> 'a list \<Rightarrow> 'a list" where
  "splice k xs ys = take k ys @ xs @ drop (k + length xs) ys"

lemma length_splice [simp]: "k + length xs \<le> length ys \<Longrightarrow> length (splice k xs ys) = length ys"
  by (simp add: splice_def)

lemma chunk_patch_within:
  assumes "k + length xs \<le> n"
  shows "chunk (patch (a + k) xs f) a n = splice k xs (chunk f a n)"
proof (rule nth_equalityI)
  show "length (chunk (patch (a + k) xs f) a n) = length (splice k xs (chunk f a n))"
    using assms by simp
next
  fix i assume "i < length (chunk (patch (a + k) xs f) a n)"
  then show "chunk (patch (a + k) xs f) a n ! i = splice k xs (chunk f a n) ! i"
    using assms by (auto simp: splice_def patch_def nth_append)
qed

lemma chunk_cong: "(\<And>i. a \<le> i \<Longrightarrow> i < a + n \<Longrightarrow> f i = g i) \<Longrightarrow> chunk f a n = chunk g a n"
  by (rule nth_equalityI) simp_all

lemma splice_append:
  assumes "k < length as" and "length xs = length as - k" and "length ys \<le> length bs"
  shows "splice k (xs @ ys) (as @ bs) = splice k xs as @ splice 0 ys bs"
  using assms by (simp add: splice_def)

lemma splice_left: "k + length xs \<le> length as \<Longrightarrow> splice k xs (as @ bs) = splice k xs as @ bs"
  by (simp add: splice_def)

lemma splice_right: "length as = m \<Longrightarrow> splice (m + k) xs (as @ bs) = as @ splice k xs bs"
  by (simp add: splice_def add.assoc)

section \<open>Writing along a chain\<close>

text \<open>Different clusters have no byte in common.\<close>

lemma cluster_disjoint:
  assumes "cluster_ok fs cap c" and "cluster_ok fs cap c'" and "c \<noteq> c'"
    and "cluster_start fs c \<le> i" and "i < cluster_start fs c + unat (cluster_size fs)"
  shows "\<not> (cluster_start fs c' \<le> i \<and> i < cluster_start fs c' + unat (cluster_size fs))"
proof
  assume h: "cluster_start fs c' \<le> i \<and> i < cluster_start fs c' + unat (cluster_size fs)"
  let ?k = "unat (cluster_size fs)"
  obtain b where b: "base_cluster fs = Inr b" using assms(1) unfolding cluster_ok_def by blast
  have "0 < ?k" using assms(4,5) by linarith
  have *: "x = y" if "x * ?k \<le> i" "i < x * ?k + ?k" "y * ?k \<le> i" "i < y * ?k + ?k" for x y
  proof -
    have "i div ?k = x" "i div ?k = y" using that
      by (auto intro!: div_nat_eqI simp: algebra_simps)
    then show ?thesis by simp
  qed
  have "unat b + unat c = unat b + unat c'"
    using assms(4,5) h by (intro *) (simp_all add: cluster_start_def b)
  then show False using assms(3) by (simp add: word_unat_eq_iff)
qed

definition in_clusters :: "fat_fs \<Rightarrow> u32 list \<Rightarrow> nat \<Rightarrow> bool" where
  "in_clusters fs cs i \<longleftrightarrow> (\<exists>c \<in> set cs. cluster_start fs c \<le> i \<and> i < cluster_start fs c + unat (cluster_size fs))"

lemma file_bytes_cong:
  "(\<And>i. in_clusters fs cs i \<Longrightarrow> f i = g i) \<Longrightarrow> file_bytes fs cs f = file_bytes fs cs g"
  unfolding file_bytes_def by (intro arg_cong [where f = concat] map_cong refl chunk_cong) (auto simp: in_clusters_def)

lemma single_write:
  assumes "container_laws con contents cap" and "cluster_ok fs cap c"
    and "unat skip + unat n \<le> unat (cluster_size fs)" and "at + unat n \<le> length buf"
  shows "\<exists>d'. single_cluster_io con fs Cluster_write c skip at n buf d = Inr (buf, d')
    \<and> contents d' = patch (cluster_start fs c + unat skip) (take (unat n) (drop at buf)) (contents d)"
proof -
  obtain a where a: "cluster_address fs c = Inr a" "unat a = cluster_start fs c"
    using cluster_address_ok [OF assms(2)] by blast
  have sum: "unat (skip + n) = unat skip + unat n"
    using assms(3) unat_lt32 [of "cluster_size fs"] by (simp add: unat_plus_nowrap)
  have "unat (a + ucast skip) = cluster_start fs c + unat skip"
    using a(2) assms(2,3) by (simp add: unat_plus_nowrap unat_ucast64 cluster_ok_def)
  moreover have "cluster_start fs c + unat skip + unat n \<le> cap"
    using assms(2,3) unfolding cluster_ok_def by linarith
  moreover have "length (take (unat n) (drop at buf)) = unat n" using assms(4) by simp
  ultimately have "contents (c_write con (a + ucast skip) (take (unat n) (drop at buf)) d)
      = patch (cluster_start fs c + unat skip) (take (unat n) (drop at buf)) (contents d)"
    using container_read(3) [OF assms(1), of "a + ucast skip" "take (unat n) (drop at buf)"] by simp
  moreover have "\<not> skip + n > cluster_size fs" using assms(3) sum by (simp add: word_less_nat_alt)
  ultimately show ?thesis
    using assms(4) by (simp add: single_cluster_io_def a(1) Let_def)
qed

lemma write_round:
  assumes laws: "container_laws con contents cap" and ok: "cluster_ok fs cap c"
    and sum: "unat pos + unat remain = unat len" and buf: "unat len \<le> length buf"
    and "skip < cluster_size fs" and "0 < remain"
    and n: "n = min (unat remain) (unat (cluster_size fs) - unat skip)"
  shows "\<exists>d1. contents d1 = patch (cluster_start fs c + unat skip) (take n (drop (unat pos) buf)) (contents d)
    \<and> (unat remain = n \<longrightarrow> cluster_loop con fs Cluster_write len c skip pos remain buf d = Some (Inr (buf, d1)))
    \<and> (n < unat remain \<longrightarrow> has_successor (fs_table fs) c = Inr True \<longrightarrow> successor (fs_table fs) c = Inr c' \<longrightarrow>
        (\<exists>pos' remain'. unat pos' = unat pos + n \<and> unat remain' = unat remain - n
          \<and> cluster_loop con fs Cluster_write len c skip pos remain buf d
            = cluster_loop con fs Cluster_write len c' 0 pos' remain' buf d1))"
proof -
  obtain m :: u32 where m: "unat m = n" using round_word [OF assms(5), of remain] n by auto
  obtain d1 where d1: "contents d1 = patch (cluster_start fs c + unat skip) (take n (drop (unat pos) buf)) (contents d)"
    and "single_cluster_io con fs Cluster_write c skip (unat pos) m buf d = Inr (buf, d1)"
    using single_write [OF laws ok, of skip m "unat pos" buf d] round_fits [OF assms(5) n sum buf] m by auto
  then have "\<And>m. unat m = n \<Longrightarrow> single_cluster_io con fs Cluster_write c skip (unat pos) m buf d = Inr (buf, d1)"
    using m by (metis word_unat_eq_iff)
  then show ?thesis using cluster_round_io [OF sum assms(5,6) n, of con Cluster_write c buf d buf d1 c'] d1 by blast
qed

lemma cluster_loop_write:
  assumes laws: "container_laws con contents cap"
  shows "linked (fs_table fs) (c # cs) \<Longrightarrow> distinct (c # cs) \<Longrightarrow> \<forall>x \<in> set (c # cs). cluster_ok fs cap x
    \<Longrightarrow> unat pos + unat remain = unat len \<Longrightarrow> unat len \<le> length buf \<Longrightarrow> skip < cluster_size fs
    \<Longrightarrow> 0 < remain \<Longrightarrow> unat skip + unat remain \<le> length (c # cs) * unat (cluster_size fs)
    \<Longrightarrow> \<exists>d'. cluster_loop con fs Cluster_write len c skip pos remain buf d = Some (Inr (buf, d'))
      \<and> file_bytes fs (c # cs) (contents d')
        = splice (unat skip) (take (unat remain) (drop (unat pos) buf)) (file_bytes fs (c # cs) (contents d))
      \<and> (\<forall>i. \<not> in_clusters fs (c # cs) i \<longrightarrow> contents d' i = contents d i)"
proof (induction cs arbitrary: c skip pos remain d)
  case Nil
  let ?k = "unat (cluster_size fs)" and ?xs = "take (unat remain) (drop (unat pos) buf)"
  have n: "unat remain = min (unat remain) (?k - unat skip)" using Nil.prems(8) by simp
  have xs: "length ?xs = unat remain" using Nil.prems(4,5) by simp
  obtain d1 where d1: "contents d1 = patch (cluster_start fs c + unat skip) ?xs (contents d)"
    and loop: "cluster_loop con fs Cluster_write len c skip pos remain buf d = Some (Inr (buf, d1))"
    using write_round [OF laws _ Nil.prems(4-7) n, of c d] Nil.prems(3) by auto
  have "file_bytes fs [c] (contents d1) = splice (unat skip) ?xs (file_bytes fs [c] (contents d))"
    using Nil.prems(8) xs by (simp add: file_bytes_def d1 chunk_patch_within)
  moreover have "\<forall>i. \<not> in_clusters fs [c] i \<longrightarrow> contents d1 i = contents d i"
    using Nil.prems(8) xs by (auto simp: in_clusters_def d1 patch_def)
  ultimately show ?case using loop by blast
next
  case (Cons c2 cs)
  let ?k = "unat (cluster_size fs)" and ?f = "contents d"
  let ?n = "min (unat remain) (?k - unat skip)"
  let ?xs = "take ?n (drop (unat pos) buf)"
  have ok: "cluster_ok fs cap c" and succ: "has_successor (fs_table fs) c = Inr True"
      "successor (fs_table fs) c = Inr c2" and link: "linked (fs_table fs) (c2 # cs)"
    using Cons.prems(1,3) by simp_all
  have sk: "unat skip < ?k" using Cons.prems(6) by (simp add: word_less_nat_alt)
  have xs: "length ?xs = ?n" using Cons.prems(4,5) by simp
  obtain d1 where d1: "contents d1 = patch (cluster_start fs c + unat skip) ?xs ?f"
    and ends: "unat remain = ?n \<longrightarrow> cluster_loop con fs Cluster_write len c skip pos remain buf d = Some (Inr (buf, d1))"
    and more: "?n < unat remain \<longrightarrow> (\<exists>pos' remain'. unat pos' = unat pos + ?n \<and> unat remain' = unat remain - ?n
      \<and> cluster_loop con fs Cluster_write len c skip pos remain buf d
        = cluster_loop con fs Cluster_write len c2 0 pos' remain' buf d1)"
    using write_round [OF laws ok Cons.prems(4-7) refl, where d = d and c' = c2] succ by blast
  have head: "chunk (contents d1) (cluster_start fs c) ?k = splice (unat skip) ?xs (chunk ?f (cluster_start fs c) ?k)"
    unfolding d1 using sk xs by (intro chunk_patch_within) simp
  have same: "contents d1 i = ?f i" if "\<not> (cluster_start fs c \<le> i \<and> i < cluster_start fs c + ?k)" for i
    using that sk xs by (auto simp: d1 patch_def)
  have others: "file_bytes fs (c2 # cs) (contents d1) = file_bytes fs (c2 # cs) ?f"
  proof (rule file_bytes_cong)
    fix i assume "in_clusters fs (c2 # cs) i"
    then obtain x where "x \<in> set (c2 # cs)" "cluster_start fs x \<le> i" "i < cluster_start fs x + ?k"
      unfolding in_clusters_def by blast
    moreover from this have "x \<noteq> c" "cluster_ok fs cap x" using Cons.prems(2,3) by auto
    ultimately show "contents d1 i = ?f i" using same cluster_disjoint [OF _ ok] by blast
  qed
  show ?case
  proof (cases "unat remain = ?n")
    case True
    have "file_bytes fs (c # c2 # cs) (contents d1)
        = splice (unat skip) (take (unat remain) (drop (unat pos) buf)) (file_bytes fs (c # c2 # cs) ?f)"
      unfolding file_bytes_Cons [of fs c] head others using sk xs True [symmetric] by (simp add: splice_left)
    moreover have "\<forall>i. \<not> in_clusters fs (c # c2 # cs) i \<longrightarrow> contents d1 i = ?f i"
      using same by (auto simp: in_clusters_def)
    ultimately show ?thesis using ends True by blast
  next
    case False
    then have n: "?n = ?k - unat skip" and lt: "?n < unat remain" by simp_all
    obtain pos' remain' where p: "unat pos' = unat pos + ?n" "unat remain' = unat remain - ?n"
      and loop: "cluster_loop con fs Cluster_write len c skip pos remain buf d
        = cluster_loop con fs Cluster_write len c2 0 pos' remain' buf d1"
      using more lt by blast
    let ?ys = "take (unat remain') (drop (unat pos') buf)"
    have "\<exists>d'. cluster_loop con fs Cluster_write len c2 0 pos' remain' buf d1 = Some (Inr (buf, d'))
      \<and> file_bytes fs (c2 # cs) (contents d') = splice (unat (0 :: u32)) ?ys (file_bytes fs (c2 # cs) (contents d1))
      \<and> (\<forall>i. \<not> in_clusters fs (c2 # cs) i \<longrightarrow> contents d' i = contents d1 i)"
    proof (rule Cons.IH [OF link])
      show "distinct (c2 # cs)" using Cons.prems(2) by simp
      show "\<forall>x \<in> set (c2 # cs). cluster_ok fs cap x" using Cons.prems(3) by simp
      show "unat pos' + unat remain' = unat len" using p lt Cons.prems(4) by simp
      show "unat len \<le> length buf" using Cons.prems(5) .
      show "0 < cluster_size fs" using sk by (simp add: word_less_nat_alt)
      show "0 < remain'" using p(2) lt by (simp add: word_less_nat_alt)
      show "unat (0 :: u32) + unat remain' \<le> length (c2 # cs) * ?k"
        using p(2) n Cons.prems(8) sk by simp
    qed
    then obtain d' where r: "cluster_loop con fs Cluster_write len c2 0 pos' remain' buf d1 = Some (Inr (buf, d'))"
      and tl: "file_bytes fs (c2 # cs) (contents d') = splice 0 ?ys (file_bytes fs (c2 # cs) ?f)"
      and frame: "\<And>i. \<not> in_clusters fs (c2 # cs) i \<Longrightarrow> contents d' i = contents d1 i"
      unfolding others by auto
    have "contents d' i = contents d1 i" if "cluster_start fs c \<le> i" "i < cluster_start fs c + ?k" for i
    proof (rule frame)
      show "\<not> in_clusters fs (c2 # cs) i"
        using cluster_disjoint [OF ok _ _ that] Cons.prems(2,3) by (auto simp: in_clusters_def)
    qed
    then have "chunk (contents d') (cluster_start fs c) ?k = splice (unat skip) ?xs (chunk ?f (cluster_start fs c) ?k)"
      unfolding head [symmetric] by (rule chunk_cong)
    moreover have "?xs @ ?ys = take (unat remain) (drop (unat pos) buf)"
    proof -
      have eq: "?n + unat remain' = unat remain" using lt p(2) by linarith
      have "take (?n + unat remain') (drop (unat pos) buf) = ?xs @ ?ys"
        unfolding take_add drop_drop p(1) by (simp only: add.commute [of "unat pos"])
      then show ?thesis unfolding eq by (rule sym)
    qed
    moreover have "splice (unat skip) (?xs @ ?ys) (chunk ?f (cluster_start fs c) ?k @ file_bytes fs (c2 # cs) ?f)
        = splice (unat skip) ?xs (chunk ?f (cluster_start fs c) ?k) @ splice 0 ?ys (file_bytes fs (c2 # cs) ?f)"
    proof (rule splice_append)
      show "unat skip < length (chunk ?f (cluster_start fs c) ?k)" using sk by simp
      show "length ?xs = length (chunk ?f (cluster_start fs c) ?k) - unat skip" using xs n by simp
      have "length ?ys \<le> unat remain'" by simp
      also have "\<dots> \<le> length (c2 # cs) * ?k" using p(2) n Cons.prems(8) sk by simp
      finally show "length ?ys \<le> length (file_bytes fs (c2 # cs) ?f)" by simp
    qed
    ultimately have "file_bytes fs (c # c2 # cs) (contents d')
        = splice (unat skip) (take (unat remain) (drop (unat pos) buf)) (file_bytes fs (c # c2 # cs) ?f)"
      unfolding file_bytes_Cons [of fs c] tl by simp
    moreover have "\<forall>i. \<not> in_clusters fs (c # c2 # cs) i \<longrightarrow> contents d' i = ?f i"
      using frame same by (auto simp: in_clusters_def)
    ultimately show ?thesis using r loop by auto
  qed
qed

section \<open>Writing a range of a file\<close>

lemma file_bytes_append: "file_bytes fs (xs @ ys) f = file_bytes fs xs f @ file_bytes fs ys f"
  by (simp add: file_bytes_def)

lemma cluster_io_write:
  assumes laws: "container_laws con contents cap" and link: "linked (fs_table fs) (start # cs)"
    and dist: "distinct (start # cs)" and ok: "\<forall>x \<in> set (start # cs). cluster_ok fs cap x"
    and "0 < cluster_size fs" and "0 < len"
    and range: "unat offset + unat len \<le> length (start # cs) * unat (cluster_size fs)"
    and "length (start # cs) \<le> 2 ^ 32" and "unat len \<le> length buf"
  shows "\<exists>d'. cluster_io con fs Cluster_write start offset len buf d = Some (Inr (buf, d'))
    \<and> file_bytes fs (start # cs) (contents d')
      = splice (unat offset) (take (unat len) buf) (file_bytes fs (start # cs) (contents d))
    \<and> (\<forall>i. \<not> in_clusters fs (start # cs) i \<longrightarrow> contents d' i = contents d i)"
proof -
  let ?all = "start # cs" and ?k = "unat (cluster_size fs)"
  have "0 < unat len" using assms(6) by (simp add: word_less_nat_alt)
  then have offset: "unat offset < length ?all * ?k" using range by linarith
  obtain n c rest skip where w: "drop n ?all = c # rest" "n < length ?all" "linked (fs_table fs) (c # rest)"
      "set (c # rest) \<subseteq> set ?all" "unat offset = n * ?k + unat skip" "skip < cluster_size fs"
      "length ?all * unat (cluster_size fs) = n * unat (cluster_size fs) + length (c # rest) * unat (cluster_size fs)"
    and io: "\<And>io len buf d. cluster_io con fs io start offset len buf d = cluster_loop con fs io len c skip 0 len buf d"
    using cluster_io_start [OF link assms(5) offset assms(8), of con] by blast
  have fits: "unat skip + unat len \<le> length (c # rest) * unat (cluster_size fs)"
    using range w(5,7) by linarith
  have all: "?all = take n ?all @ (c # rest)" using w(1) append_take_drop_id [of n ?all] by simp
  then have dist': "distinct (c # rest)" and disj: "set (take n ?all) \<inter> set (c # rest) = {}"
    using dist by (metis distinct_append)+
  have okr: "\<forall>x \<in> set (c # rest). cluster_ok fs cap x" using ok w(4) by blast
  obtain d' where r: "cluster_loop con fs Cluster_write len c skip 0 len buf d = Some (Inr (buf, d'))"
    and tl: "file_bytes fs (c # rest) (contents d')
      = splice (unat skip) (take (unat len) buf) (file_bytes fs (c # rest) (contents d))"
    and frame: "\<And>i. \<not> in_clusters fs (c # rest) i \<Longrightarrow> contents d' i = contents d i"
    using cluster_loop_write [OF laws w(3) dist' okr, of 0 len len buf skip d] w(6) fits assms(6,9) by auto
  have "file_bytes fs (take n ?all) (contents d') = file_bytes fs (take n ?all) (contents d)"
  proof (rule file_bytes_cong)
    fix i assume "in_clusters fs (take n ?all) i"
    then obtain x where x: "x \<in> set (take n ?all)" "cluster_start fs x \<le> i" "i < cluster_start fs x + ?k"
      unfolding in_clusters_def by blast
    then have "cluster_ok fs cap x" using ok in_set_takeD by fast
    then have "\<not> in_clusters fs (c # rest) i"
      using cluster_disjoint [OF _ _ _ x(2,3)] okr disj x(1) unfolding in_clusters_def by blast
    then show "contents d' i = contents d i" by (rule frame)
  qed
  moreover have "file_bytes fs ?all f = file_bytes fs (take n ?all) f @ file_bytes fs (c # rest) f" for f
    by (subst all) (rule file_bytes_append)
  moreover have "length (file_bytes fs (take n ?all) (contents d)) = n * ?k" using w(2) by simp
  ultimately have "file_bytes fs ?all (contents d')
      = splice (unat offset) (take (unat len) buf) (file_bytes fs ?all (contents d))"
    by (simp only: w(5) splice_right tl)
  moreover have "\<forall>i. \<not> in_clusters fs ?all i \<longrightarrow> contents d' i = contents d i"
    using frame w(4) unfolding in_clusters_def by blast
  ultimately show ?thesis using r io by auto
qed

text \<open>C25: writing a range of a file replaces exactly these bytes of it. When the clusters of
  a file are linked in the table, all different and within the container, cluster_io returns;
  the concatenation of the clusters is the old one with the range replaced, every other byte of
  the container keeps its value, and reading the range again gives what was written.\<close>

theorem cluster_io_writes_file:
  assumes "container_laws con contents cap" and "linked (fs_table fs) (start # cs)"
    and "distinct (start # cs)" and "\<forall>x \<in> set (start # cs). cluster_ok fs cap x"
    and "0 < cluster_size fs" and "0 < len"
    and "unat offset + unat len \<le> length (start # cs) * unat (cluster_size fs)"
    and "length (start # cs) \<le> 2 ^ 32" and "length buf = unat len" and "length buf2 = unat len"
  shows "\<exists>d'. cluster_io con fs Cluster_write start offset len buf d = Some (Inr (buf, d'))
    \<and> file_bytes fs (start # cs) (contents d')
      = take (unat offset) (file_bytes fs (start # cs) (contents d)) @ buf
        @ drop (unat offset + unat len) (file_bytes fs (start # cs) (contents d))
    \<and> (\<forall>i. \<not> in_clusters fs (start # cs) i \<longrightarrow> contents d' i = contents d i)
    \<and> (\<exists>d''. cluster_io con fs Cluster_read start offset len buf2 d' = Some (Inr (buf, d'')))"
proof -
  obtain d' where d': "cluster_io con fs Cluster_write start offset len buf d = Some (Inr (buf, d'))"
      "file_bytes fs (start # cs) (contents d') = splice (unat offset) buf (file_bytes fs (start # cs) (contents d))"
      "\<forall>i. \<not> in_clusters fs (start # cs) i \<longrightarrow> contents d' i = contents d i"
    using cluster_io_write [OF assms(1-8), of buf d] assms(9) by auto
  moreover have "take (unat len) (drop (unat offset) (splice (unat offset) buf (file_bytes fs (start # cs) (contents d)))) = buf"
    using assms(7,9) by (simp add: splice_def)
  ultimately show ?thesis
    using cluster_io_read [OF assms(1,2,4-8), of buf2 d'] assms(9,10) by (auto simp: splice_def)
qed

theorem cluster_io_writes_file_witness:
  "\<exists>d'. cluster_io ram_container fs_sample Cluster_write 0 1 2 [7, 8] (\<lambda>i. of_nat i) = Some (Inr ([7, 8], d'))
     \<and> file_bytes fs_sample [0, 1] d' = [4, 7, 8, 7]"
proof -
  have ok: "\<forall>x \<in> set [0 :: u32, 1]. cluster_ok fs_sample 8 x"
    by (simp add: cluster_ok_def fs_sample_simps)
  have "linked (fs_table fs_sample) [0, 1]" by (simp add: fs_sample_simps ct_sample_tests ct_sample_succ)
  from cluster_io_writes_file [OF ram_container_laws this _ ok, of 2 1 "[7, 8]" "[0, 0]" "\<lambda>i. of_nat i"]
  show ?thesis by (auto simp: fs_sample_simps file_bytes_def chunk_def upt_rec)
qed

end
