(* ===== verification/Fat_Node.thy ===== *)
theory Fat_Node
  imports Fat_File
begin

text \<open>
  Files and directories of a FAT file system (kern/fs/fat_fs_node.cpp,
  kern/include/fs/fat_directory_entry.hpp and the class fat_directory_entry_t in
  kern/fs/fat_fs.cpp): the directory entry, reading and writing within the size of the file,
  the search of a directory, and the node the root of the file system gets.
\<close>

section \<open>Directory entries\<close>

record fat_dirent =
  de_name :: string
  de_extension :: string
  de_attributes :: u8
  create_time :: u16
  create_date :: u16
  last_access_date :: u16
  cluster_high :: u16
  last_modification_time :: u16
  last_modification_date :: u16
  cluster_low :: u16
  de_size :: u32

definition fat_dirent_of :: "u8 list \<Rightarrow> fat_dirent" where
  "fat_dirent_of bs =
     \<lparr>de_name = chars_at bs 0 8, de_extension = chars_at bs 8 3, de_attributes = bs ! 11,
      create_time = le16 bs 14, create_date = le16 bs 16, last_access_date = le16 bs 18,
      cluster_high = le16 bs 20, last_modification_time = le16 bs 22, last_modification_date = le16 bs 24,
      cluster_low = le16 bs 26, de_size = le32 bs 28\<rparr>"

definition volume_label :: "fat_dirent \<Rightarrow> bool" where
  "volume_label e \<longleftrightarrow> bit (de_attributes e) 3"

definition directory :: "fat_dirent \<Rightarrow> bool" where
  "directory e \<longleftrightarrow> bit (de_attributes e) 4"

definition dirent_cluster :: "fat_type \<Rightarrow> fat_dirent \<Rightarrow> u32" where
  "dirent_cluster t e =
     (case t of
        Fat32 \<Rightarrow> ucast (cluster_low e) OR push_bit 16 (ucast (cluster_high e))
      | _ \<Rightarrow> ucast (cluster_low e))"

text \<open>Time and date are bit fields, the first one in the lowest bits.\<close>

definition hour :: "u16 \<Rightarrow> int" where
  "hour t = uint (bits_at 0 5 t)"

definition minute :: "u16 \<Rightarrow> int" where
  "minute t = uint (bits_at 5 6 t)"

definition second :: "u16 \<Rightarrow> int" where
  "second t = 2 * uint (bits_at 11 5 t)"

definition time_unix :: "u16 \<Rightarrow> int" where
  "time_unix t = (hour t * 60 + minute t) * 60 + second t"

definition date_unix :: "u16 \<Rightarrow> int" where
  "date_unix dt = uint (bits_at 0 7 dt) * 365 + (uint (bits_at 7 4 dt) - 1) * 31 + (uint (bits_at 11 5 dt) - 1)"

definition create_time_unix :: "fat_dirent \<Rightarrow> int" where
  "create_time_unix e = time_unix (create_time e) + date_unix (create_date e)"

definition access_time_unix :: "fat_dirent \<Rightarrow> int" where
  "access_time_unix e = date_unix (last_access_date e)"

definition modify_time_unix :: "fat_dirent \<Rightarrow> int" where
  "modify_time_unix e = time_unix (last_modification_time e) + date_unix (last_modification_date e)"

definition char_ok :: "char \<Rightarrow> bool" where
  "char_ok c \<longleftrightarrow> c \<noteq> CHR 0x00 \<and> c \<noteq> CHR '' ''"

definition lower :: "char \<Rightarrow> char" where
  "lower c = (if 65 \<le> (of_char c :: nat) \<and> (of_char c :: nat) \<le> 90 then char_of ((of_char c :: nat) + 32) else c)"

definition dirent_filename :: "fat_dirent \<Rightarrow> string" where
  "dirent_filename e =
     (let base = takeWhile char_ok (take 8 (de_name e));
          ext = takeWhile char_ok (take 3 (de_extension e))
      in map lower (if ext \<noteq> [] then base @ ''.'' @ ext else base))"

section \<open>Nodes\<close>

record fat_fs_node =
  node_path :: string
  node_directory :: bool
  node_fs_root :: bool
  node_cluster :: u32
  node_entry :: fat_dirent

definition fs_root_node :: "fat_fs \<Rightarrow> string \<Rightarrow> fat_fs_node" where
  "fs_root_node fs path =
     (let cluster = (case fs_type fs of Fat32 \<Rightarrow> rootdir_cluster (fs_boot fs) | _ \<Rightarrow> 0)
      in \<lparr>node_path = path, node_directory = True, node_fs_root = True, node_cluster = cluster,
          node_entry =
            \<lparr>de_name = replicate 8 CHR '' '', de_extension = replicate 3 CHR '' '', de_attributes = 0x34,
             create_time = 0, create_date = 0, last_access_date = 0, cluster_high = ucast (drop_bit 16 cluster),
             last_modification_time = 0, last_modification_date = 0, cluster_low = ucast (cluster AND 0xFF),
             de_size = 0\<rparr>\<rparr>)"

definition read_pure ::
  "'d container \<Rightarrow> fat_fs \<Rightarrow> fat_fs_node \<Rightarrow> u64 \<Rightarrow> u32 \<Rightarrow> u8 list \<Rightarrow> 'd \<Rightarrow> (u8 list \<times> 'd) result option" where
  "read_pure con fs node offset len buf d = cluster_io con fs Cluster_read (node_cluster node) offset len buf d"

definition write_pure ::
  "'d container \<Rightarrow> fat_fs \<Rightarrow> fat_fs_node \<Rightarrow> u64 \<Rightarrow> u32 \<Rightarrow> u8 list \<Rightarrow> 'd \<Rightarrow> (u8 list \<times> 'd) result option" where
  "write_pure con fs node offset len buf d = cluster_io con fs Cluster_write (node_cluster node) offset len buf d"

text \<open>The length is cut at the size of the file, with 64 bits and then 32.\<close>

definition node_limit :: "fat_fs_node \<Rightarrow> u64 \<Rightarrow> u32 \<Rightarrow> u32" where
  "node_limit node offset len =
     (if offset + ucast len > ucast (de_size (node_entry node))
      then ucast (ucast (de_size (node_entry node)) - offset) else len)"

definition fat_node_read ::
  "'d container \<Rightarrow> fat_fs \<Rightarrow> fat_fs_node \<Rightarrow> u64 \<Rightarrow> u32 \<Rightarrow> u8 list \<Rightarrow> 'd \<Rightarrow> (u8 list \<times> 'd) result option" where
  "fat_node_read con fs node offset len buf d =
     (if node_directory node then Some (Inr (buf, d))
      else read_pure con fs node offset (node_limit node offset len) buf d)"

definition fat_node_write ::
  "'d container \<Rightarrow> fat_fs \<Rightarrow> fat_fs_node \<Rightarrow> u64 \<Rightarrow> u32 \<Rightarrow> u8 list \<Rightarrow> 'd \<Rightarrow> (u8 list \<times> 'd) result option" where
  "fat_node_write con fs node offset len buf d =
     (if node_directory node then Some (Inr (buf, d))
      else write_pure con fs node offset (node_limit node offset len) buf d)"

text \<open>What read_dir dumps: one entry; \<open>old\<close> is the entry before it is read.\<close>

definition fat_read_dir ::
  "'d container \<Rightarrow> fat_fs \<Rightarrow> fat_fs_node \<Rightarrow> u32 \<Rightarrow> u8 list \<Rightarrow> 'd \<Rightarrow> (fat_dirent option \<times> 'd) result option" where
  "fat_read_dir con fs node entry old d =
     (if \<not> node_directory node then Some (Inr (None, d))
      else case read_pure con fs node (ucast (entry * 32)) 32 old d of
             None \<Rightarrow> None
           | Some (Inl e) \<Rightarrow> Some (Inl e)
           | Some (Inr (bs, d1)) \<Rightarrow> Some (Inr (Some (fat_dirent_of bs), d1)))"

section \<open>The search of a directory\<close>

definition dirents :: "u8 list \<Rightarrow> nat \<Rightarrow> fat_dirent list" where
  "dirents bs n = map (\<lambda>j. fat_dirent_of (take 32 (drop (32 * j) bs))) [0..<n]"

datatype scan = Scan_found fat_dirent | Scan_abort | Scan_more

fun scan_entries :: "string \<Rightarrow> fat_dirent list \<Rightarrow> scan" where
  "scan_entries name [] = Scan_more"
| "scan_entries name (e # es) =
     (if volume_label e then scan_entries name es
      else if hd (de_name e) = CHR 0x00 then Scan_abort
      else if dirent_filename e = name then Scan_found e
      else scan_entries name es)"

fun dir_loop ::
  "'d container \<Rightarrow> fat_fs \<Rightarrow> fat_fs_node \<Rightarrow> string \<Rightarrow> nat \<Rightarrow> u64 \<Rightarrow> u8 list \<Rightarrow> 'd
   \<Rightarrow> (fat_dirent option \<times> 'd) result option" where
  "dir_loop con fs node name 0 offset entrys d = Some (Inr (None, d))"
| "dir_loop con fs node name (Suc n) offset entrys d =
     (case read_pure con fs node offset (cluster_size fs) entrys d of
        None \<Rightarrow> None
      | Some (Inl e) \<Rightarrow> Some (Inl e)
      | Some (Inr (bs, d1)) \<Rightarrow>
          (case scan_entries name (dirents bs (unat (cluster_size fs div 32))) of
             Scan_found e \<Rightarrow> Some (Inr (Some e, d1))
           | Scan_abort \<Rightarrow> Some (Inr (None, d1))
           | Scan_more \<Rightarrow> dir_loop con fs node name n (offset + ucast (cluster_size fs)) bs d1))"

definition entry_by_name ::
  "'d container \<Rightarrow> fat_fs \<Rightarrow> fat_fs_node \<Rightarrow> string \<Rightarrow> 'd \<Rightarrow> (fat_dirent option \<times> 'd) result option" where
  "entry_by_name con fs node name d =
     (if \<not> node_directory node then Some (Inr (None, d))
      else case chain_length (fs_table fs) (node_cluster node) of
             None \<Rightarrow> None
           | Some (Inl e) \<Rightarrow> Some (Inl e)
           | Some (Inr clusters) \<Rightarrow>
               dir_loop con fs node name (unat clusters) 0
                 (replicate (32 * unat (cluster_size fs div 32)) 0) d)"

definition subnode_of :: "fat_fs \<Rightarrow> string \<Rightarrow> fat_dirent \<Rightarrow> fat_fs_node result" where
  "subnode_of fs fullname e =
     (let cluster = dirent_cluster (fs_type fs) e;
          node = (\<lambda>c. \<lparr>node_path = fullname, node_directory = directory e, node_fs_root = (cluster = 0),
                       node_cluster = c, node_entry = e\<rparr>)
      in if cluster = 0 then Inr (node 0)
         else bind_result (norm_node_cluster_add fs) (\<lambda>add. Inr (node (cluster - 2 + add))))"

definition fat_open_subnode ::
  "'d container \<Rightarrow> fat_fs \<Rightarrow> fat_fs_node \<Rightarrow> string \<Rightarrow> string \<Rightarrow> 'd \<Rightarrow> (fat_fs_node option \<times> 'd) result option" where
  "fat_open_subnode con fs node fullname subname d =
     (if \<not> node_directory node then Some (Inr (None, d))
      else case entry_by_name con fs node subname d of
             None \<Rightarrow> None
           | Some (Inl e) \<Rightarrow> Some (Inl e)
           | Some (Inr (None, d1)) \<Rightarrow> Some (Inr (None, d1))
           | Some (Inr (Some e, d1)) \<Rightarrow>
               Some (bind_result (subnode_of fs fullname e) (\<lambda>sub. Inr (Some sub, d1))))"

definition fat_node_length :: "fat_fs_node \<Rightarrow> u64" where
  "fat_node_length node = ucast (de_size (node_entry node))"

record fat_stat =
  st_ino :: u32
  st_mode :: u32
  st_nlink :: nat
  st_size :: u32
  st_atime :: int
  st_mtime :: int
  st_ctime :: int
  st_blksize :: u32
  st_blocks :: u32

definition fat_node_stat :: "fat_fs \<Rightarrow> fat_fs_node \<Rightarrow> fat_stat result" where
  "fat_node_stat fs node =
     (let e = node_entry node
      in if cluster_size fs = 0 then Inl Div_zero
         else Inr \<lparr>st_ino = node_cluster node,
                   st_mode = 0x1FF OR (if directory e then 0x4000 else 0x8000),
                   st_nlink = 1, st_size = de_size e, st_atime = access_time_unix e,
                   st_mtime = modify_time_unix e, st_ctime = create_time_unix e,
                   st_blksize = cluster_size fs, st_blocks = de_size e div cluster_size fs\<rparr>)"

section \<open>The statistic of the cluster table\<close>

record ct_stat =
  free_clusters :: u32
  non_continous :: u32
  defect_clusters :: u32

definition ct_clusters :: "clustertable \<Rightarrow> u32" where
  "ct_clusters ct =
     (case ct_type ct of
        Fat12 \<Rightarrow> ct_size ct * 8 div 12 | Fat16 \<Rightarrow> drop_bit 1 (ct_size ct) | Fat32 \<Rightarrow> drop_bit 2 (ct_size ct))"

definition stat_step :: "clustertable \<Rightarrow> u32 \<Rightarrow> u32 \<Rightarrow> ct_stat \<Rightarrow> (ct_stat \<times> u32) result" where
  "stat_step ct i prev st =
     bind_result (ct_value ct i) (\<lambda>v. bind_result (is_free ct i) (\<lambda>f.
       if f then Inr (st\<lparr>free_clusters := free_clusters st + 1\<rparr>, v)
       else bind_result (is_defect ct i) (\<lambda>b.
         if b then Inr (st\<lparr>defect_clusters := defect_clusters st + 1\<rparr>, v)
         else if prev > v then Inr (st\<lparr>non_continous := non_continous st + 1\<rparr>, v)
         else Inr (st, v))))"

fun stat_loop :: "clustertable \<Rightarrow> nat \<Rightarrow> u32 \<Rightarrow> u32 \<Rightarrow> ct_stat \<Rightarrow> ct_stat result" where
  "stat_loop ct 0 i prev st = Inr st"
| "stat_loop ct (Suc n) i prev st =
     bind_result (stat_step ct i prev st) (\<lambda>(st', v). stat_loop ct n (i + 1) v st')"

definition ct_statistic :: "clustertable \<Rightarrow> ct_stat result" where
  "ct_statistic ct =
     (if ct_data ct = None then Inr \<lparr>free_clusters = 0, non_continous = 0, defect_clusters = 0\<rparr>
      else stat_loop ct (unat (ct_clusters ct)) 0 0 \<lparr>free_clusters = 0, non_continous = 0, defect_clusters = 0\<rparr>)"

section \<open>Reading within the size of the file\<close>

lemma skip_linked_all: "linked ct (c # cs) \<Longrightarrow> n \<le> length (c # cs) \<Longrightarrow> \<exists>r. skip_clusters ct n c = Inr r"
proof (induction n arbitrary: c cs)
  case 0
  then show ?case by simp
next
  case (Suc n)
  show ?case
  proof (cases cs)
    case Nil
    then show ?thesis using Suc.prems by simp
  next
    case (Cons c2 cs')
    then show ?thesis using Suc.IH [of c2 cs'] Suc.prems by simp
  qed
qed

text \<open>A transfer of no bytes does nothing, also at the end of the chain.\<close>

lemma cluster_io_nothing:
  assumes "linked (fs_table fs) (start # cs)" and "0 < cluster_size fs"
    and "unat offset \<le> length (start # cs) * unat (cluster_size fs)" and "unat offset < 2 ^ 32"
  shows "cluster_io con fs io start offset 0 buf d = Some (Inr (buf, d))"
proof -
  let ?k = "unat (cluster_size fs)" and ?n = "unat offset div unat (cluster_size fs)"
  have k: "0 < ?k" using assms(2) by (simp add: word_less_nat_alt)
  have "?n \<le> length (start # cs) * ?k div ?k" using assms(3) by (rule div_le_mono)
  then have n: "?n \<le> length (start # cs)" using k by simp
  have "?n \<le> unat offset" by (rule div_le_dividend)
  then have "?n < 2 ^ 32" using assms(4) by (rule le_less_trans)
  then have "unat (ucast (offset div ucast (cluster_size fs)) :: u32) = ?n"
    by (simp add: unat_ucast32 unat_div unat_ucast64)
  moreover obtain r where "skip_clusters (fs_table fs) ?n start = Inr r"
    using skip_linked_all [OF assms(1) n] by blast
  moreover have "cluster_loop con fs io 0 c s 0 0 buf d = Some (Inr (buf, d))" for c s
    by (subst cluster_loop.simps) simp
  moreover have "cluster_size fs \<noteq> 0" using assms(2) by auto
  ultimately show ?thesis by (simp add: cluster_io_def Let_def split: option.split)
qed

lemma node_limit_within:
  assumes "unat offset \<le> unat (de_size (node_entry node))"
  shows "unat (node_limit node offset len) = min (unat len) (unat (de_size (node_entry node)) - unat offset)"
proof -
  let ?s = "de_size (node_entry node)"
  have s: "unat ?s < 2 ^ 32" "unat len < 2 ^ 32" using unat_lt32 [of ?s] unat_lt32 [of len] by simp_all
  have "unat (offset + ucast len) = unat offset + unat len"
    using s assms by (simp add: unat_plus_nowrap unat_ucast64)
  moreover have "unat (ucast ?s - offset) = unat ?s - unat offset"
    using assms by (simp add: unat_sub word_le_nat_alt unat_ucast64)
  ultimately show ?thesis
    using s(1) by (auto simp: node_limit_def word_less_nat_alt unat_ucast64 unat_ucast32)
qed

lemma node_read_bytes:
  assumes laws: "container_laws con contents cap" and link: "linked (fs_table fs) (node_cluster node # cs)"
    and ok: "\<forall>x \<in> set (node_cluster node # cs). cluster_ok fs cap x" and "0 < cluster_size fs"
    and "length (node_cluster node # cs) \<le> 2 ^ 32" and "\<not> node_directory node"
    and size: "unat (de_size (node_entry node)) \<le> length (node_cluster node # cs) * unat (cluster_size fs)"
    and offset: "unat offset \<le> unat (de_size (node_entry node))" and "unat len \<le> length buf"
    and n: "n = min (unat len) (unat (de_size (node_entry node)) - unat offset)"
  shows "\<exists>d'. fat_node_read con fs node offset len buf d
      = Some (Inr (take n (drop (unat offset) (file_bytes fs (node_cluster node # cs) (contents d))) @ drop n buf, d'))
    \<and> contents d' = contents d"
proof -
  let ?all = "node_cluster node # cs" and ?lim = "node_limit node offset len"
  have l: "unat ?lim = n" using node_limit_within [OF offset] n by simp
  show ?thesis
  proof (cases "n = 0")
    case True
    then have "?lim = 0" using l by (simp add: word_unat_eq_iff)
    moreover have "unat offset \<le> length ?all * unat (cluster_size fs)" using size offset by linarith
    moreover have "unat offset < 2 ^ 32" using offset unat_lt32 [of "de_size (node_entry node)"] by simp
    ultimately show ?thesis
      using cluster_io_nothing [OF link assms(4), of offset con Cluster_read buf d] True assms(6)
      by (simp add: fat_node_read_def read_pure_def)
  next
    case False
    then have "0 < ?lim" using l by (simp add: word_less_nat_alt)
    moreover have "unat offset + unat ?lim \<le> length ?all * unat (cluster_size fs)"
      unfolding l n using size offset by linarith
    moreover have "unat ?lim \<le> length buf" unfolding l n using assms(9) by linarith
    ultimately show ?thesis
      using cluster_io_read [OF laws link ok assms(4) _ _ assms(5), of ?lim offset buf d] assms(6)
      unfolding l by (simp add: fat_node_read_def read_pure_def)
  qed
qed

text \<open>Reading a file never goes behind its end. For every offset up to the size of the
  file, read returns; the buffer gets the bytes of the file from the offset on, as many as were
  asked for or as are left before the end, and keeps the rest of what it held.\<close>

theorem fat_node_read_file:
  assumes "container_laws con contents cap" and "linked (fs_table fs) (node_cluster node # cs)"
    and "\<forall>x \<in> set (node_cluster node # cs). cluster_ok fs cap x" and "0 < cluster_size fs"
    and "length (node_cluster node # cs) \<le> 2 ^ 32" and "\<not> node_directory node"
    and "unat (de_size (node_entry node)) \<le> length (node_cluster node # cs) * unat (cluster_size fs)"
    and "unat offset \<le> unat (de_size (node_entry node))" and "unat len \<le> length buf"
    and data: "bytes = take (unat (de_size (node_entry node))) (file_bytes fs (node_cluster node # cs) (contents d))"
  shows "\<exists>d'. fat_node_read con fs node offset len buf d
      = Some (Inr (take (unat len) (drop (unat offset) bytes) @ drop (min (unat len) (length bytes - unat offset)) buf, d'))
    \<and> contents d' = contents d"
proof -
  have "length bytes = unat (de_size (node_entry node))" using assms(7) by (simp add: data)
  moreover have "take (unat len) (drop (unat offset) bytes)
      = take (min (unat len) (unat (de_size (node_entry node)) - unat offset))
          (drop (unat offset) (file_bytes fs (node_cluster node # cs) (contents d)))"
    by (simp add: data drop_take min.commute)
  ultimately show ?thesis using node_read_bytes [OF assms(1-9) refl, of d] by simp
qed

lemma node_limit_below_zero:
  assumes "unat (de_size (node_entry node)) < unat offset" and "unat offset + unat len < 2 ^ 64"
    and "unat offset - unat (de_size (node_entry node)) \<le> 2 ^ 32"
  shows "unat (node_limit node offset len) = (2 ^ 32 - (unat offset - unat (de_size (node_entry node)))) mod 2 ^ 32"
proof -
  let ?s = "de_size (node_entry node)"
  have "unat (offset + ucast len) = unat offset + unat len"
    using assms(2) by (simp add: unat_plus_nowrap unat_ucast64)
  then have "node_limit node offset len = ucast (ucast ?s - offset)"
    using assms(1) by (simp add: node_limit_def word_less_nat_alt unat_ucast64)
  then have u: "unat (node_limit node offset len) = unat (ucast ?s - offset) mod 2 ^ 32" by (simp add: unat_ucast32)
  have sub: "unat (ucast ?s - offset) = 2 ^ 64 - (unat offset - unat ?s)"
    using assms(1) by (simp add: unat_sub_if_size word_size unat_ucast64)
  have cut: "(2 ^ 64 - x) mod 2 ^ 32 = (2 ^ 32 - x) mod 2 ^ 32" if "x \<le> 2 ^ 32" for x :: nat
  proof -
    have "2 ^ 64 - x = (2 ^ 32 - x) + (2 ^ 32 - 1) * 2 ^ 32" using that by simp
    then show ?thesis by (simp only: mod_mult_self1)
  qed
  show ?thesis unfolding u sub by (rule cut [OF assms(3)])
qed

text \<open>Reading behind the end of a file writes behind the end of the buffer. When the offset
  lies between the end of the file and the end of its last cluster, the length that is left is
  computed below zero and becomes huge: the rest of the cluster is read, past a smaller buffer.\<close>

theorem read_past_end_overruns:
  assumes link: "linked (fs_table fs) (node_cluster node # cs)"
    and "length (node_cluster node # cs) \<le> 2 ^ 32" and "\<not> node_directory node"
    and "unat (de_size (node_entry node)) < unat offset" and "unat offset + unat len < 2 ^ 64"
    and "unat offset < length (node_cluster node # cs) * unat (cluster_size fs)"
    and "unat offset - unat (de_size (node_entry node)) + unat (cluster_size fs) \<le> 2 ^ 32"
    and "base_cluster fs = Inr b"
    and small: "length buf + unat offset mod unat (cluster_size fs) < unat (cluster_size fs)"
  shows "fat_node_read con fs node offset len buf d = Some (Inl Out_of_bounds)"
proof -
  let ?s = "de_size (node_entry node)" and ?k = "unat (cluster_size fs)"
  let ?lim = "node_limit node offset len"
  have k: "0 < cluster_size fs" using small by (simp add: word_less_nat_alt)
  have lim: "unat ?lim = 2 ^ 32 - (unat offset - unat ?s)"
    using node_limit_below_zero [OF assms(4,5)] assms(4,7) by simp
  obtain n c rest skip where w: "unat offset = n * ?k + unat skip" "skip < cluster_size fs"
    and io: "\<And>io len buf d. cluster_io con fs io (node_cluster node) offset len buf d
      = cluster_loop con fs io len c skip 0 len buf d"
    using cluster_io_start [OF link k assms(6,2), of con] by metis
  have sk: "unat skip < ?k" using w(2) by (simp add: word_less_nat_alt)
  then have "unat offset mod ?k = unat skip" by (simp add: w(1))
  then have few: "length buf < ?k - unat skip" using small by linarith
  have mx: "unat (cluster_size fs - skip) = ?k - unat skip"
    using sk by (simp add: unat_sub word_le_nat_alt)
  have "?k - unat skip \<le> unat ?lim" unfolding lim using assms(7) by linarith
  then have n: "unat (if ?lim > cluster_size fs - skip then cluster_size fs - skip else ?lim) = ?k - unat skip"
    using mx by (auto simp: word_less_nat_alt)
  have "single_cluster_io con fs Cluster_read c skip 0
      (if ?lim > cluster_size fs - skip then cluster_size fs - skip else ?lim) buf d = Inl Out_of_bounds"
  proof -
    let ?m = "if ?lim > cluster_size fs - skip then cluster_size fs - skip else ?lim"
    have "unat (skip + ?m) = ?k" using n sk unat_lt32 [of "cluster_size fs"]
      by (subst unat_plus_nowrap) (simp_all only: n, simp_all)
    then have "\<not> skip + ?m > cluster_size fs" by (simp add: word_less_nat_alt)
    moreover have "0 + unat ?m > length buf" unfolding n using few by simp
    ultimately show ?thesis by (simp add: single_cluster_io_def cluster_address_def assms(8) del: if_split)
  qed
  moreover have "0 < ?lim"
    unfolding word_less_nat_alt lim using assms(7) sk by simp
  ultimately have "cluster_loop con fs Cluster_read ?lim c skip 0 ?lim buf d = Some (Inl Out_of_bounds)"
    by (subst cluster_loop.simps) (simp add: Let_def)
  then show ?thesis using assms(3) by (simp add: fat_node_read_def read_pure_def io)
qed

section \<open>Looking a name up\<close>

text \<open>The specification: the first entry with the name, before the mark that no more follow.\<close>

definition dir_lookup :: "string \<Rightarrow> fat_dirent list \<Rightarrow> fat_dirent option" where
  "dir_lookup name es =
     find (\<lambda>e. dirent_filename e = name)
       (takeWhile (\<lambda>e. hd (de_name e) \<noteq> CHR 0x00) (filter (\<lambda>e. \<not> volume_label e) es))"

definition found :: "scan \<Rightarrow> fat_dirent option" where
  "found r = (case r of Scan_found e \<Rightarrow> Some e | _ \<Rightarrow> None)"

lemma scan_lookup: "found (scan_entries name es) = dir_lookup name es"
  by (induction es) (simp_all add: found_def dir_lookup_def)

lemma scan_entries_append:
  "scan_entries name (xs @ ys) = (case scan_entries name xs of Scan_more \<Rightarrow> scan_entries name ys | r \<Rightarrow> r)"
  by (induction xs) simp_all

lemma dirents_append:
  assumes "length xs = 32 * m"
  shows "dirents (xs @ ys) (m + n) = dirents xs m @ dirents ys n"
proof -
  have "map (\<lambda>j. fat_dirent_of (take 32 (drop (32 * j) (xs @ ys)))) [0..<m] = dirents xs m"
    unfolding dirents_def
  proof (rule map_cong [OF refl])
    fix j assume "j \<in> set [0..<m]"
    then have "32 * j + 32 \<le> length xs" using assms by simp
    then show "fat_dirent_of (take 32 (drop (32 * j) (xs @ ys))) = fat_dirent_of (take 32 (drop (32 * j) xs))" by simp
  qed
  moreover have "map (\<lambda>j. fat_dirent_of (take 32 (drop (32 * j) (xs @ ys)))) [m..<m + n] = dirents ys n"
    unfolding dirents_def using assms
    by (intro nth_equalityI) (simp_all add: algebra_simps)
  moreover have "[0..<m + n] = [0..<m] @ [m..<m + n]" by (rule upt_add_eq_append) simp
  ultimately show ?thesis by (simp only: dirents_def [of "xs @ ys"] map_append)
qed

lemma dir_loop_finds:
  assumes laws: "container_laws con contents cap" and link: "linked (fs_table fs) (node_cluster node # cs)"
    and ok: "\<forall>x \<in> set (node_cluster node # cs). cluster_ok fs cap x" and pos: "0 < cluster_size fs"
    and "length (node_cluster node # cs) \<le> 2 ^ 32" and k: "unat (cluster_size fs) = 32 * m"
  shows "j + n = length (node_cluster node # cs) \<Longrightarrow> n \<noteq> 0 \<longrightarrow> unat offset = j * unat (cluster_size fs)
    \<Longrightarrow> length buf = unat (cluster_size fs) \<Longrightarrow> contents d = f \<Longrightarrow>
    \<exists>d'. dir_loop con fs node name n offset buf d
      = Some (Inr (found (scan_entries name (dirents (file_bytes fs (drop j (node_cluster node # cs)) f) (n * m))), d'))
    \<and> contents d' = f"
proof (induction n arbitrary: j offset buf d)
  case 0
  then show ?case by (simp add: dirents_def found_def)
next
  case (Suc n)
  let ?all = "node_cluster node # cs" and ?k = "unat (cluster_size fs)"
  have j: "j < length ?all" using Suc.prems(1) by simp
  have off: "unat offset = j * ?k" using Suc.prems(2) by simp
  obtain c rest where drop: "drop j ?all = c # rest" using j by (metis Cons_nth_drop_Suc)
  then have rest: "drop (Suc j) ?all = rest" by (metis drop_Suc list.sel(3) tl_drop)
  have total: "j * ?k + ?k \<le> length ?all * ?k"
    using mult_le_mono1 [of "Suc j" "length ?all" ?k] j by simp
  have "drop (unat offset) (file_bytes fs ?all f) = file_bytes fs (c # rest) f"
    unfolding off drop [symmetric] using j by (intro drop_file_bytes) simp
  then have bytes: "take ?k (drop (unat offset) (file_bytes fs ?all f)) = chunk f (cluster_start fs c) ?k"
    by (simp add: file_bytes_Cons)
  obtain d1 where r: "read_pure con fs node offset (cluster_size fs) buf d
      = Some (Inr (chunk f (cluster_start fs c) ?k, d1))" and d1: "contents d1 = f"
    using cluster_io_read [OF laws link ok pos pos _ assms(5), of offset buf d] total off Suc.prems(3,4) bytes
    by (auto simp: read_pure_def)
  have m: "unat (cluster_size fs div 32) = m" by (simp add: unat_div k)
  have "file_bytes fs (drop j ?all) f = chunk f (cluster_start fs c) ?k @ file_bytes fs rest f"
    unfolding drop by (rule file_bytes_Cons)
  then have split: "dirents (file_bytes fs (drop j ?all) f) (Suc n * m)
      = dirents (chunk f (cluster_start fs c) ?k) m @ dirents (file_bytes fs rest f) (n * m)"
    using dirents_append [of "chunk f (cluster_start fs c) ?k" m "file_bytes fs rest f" "n * m"] k by simp
  have "\<exists>d'. dir_loop con fs node name n (offset + ucast (cluster_size fs)) (chunk f (cluster_start fs c) ?k) d1
      = Some (Inr (found (scan_entries name (dirents (file_bytes fs (drop (Suc j) ?all) f) (n * m))), d'))
    \<and> contents d' = f"
  proof (rule Suc.IH)
    show "Suc j + n = length ?all" using Suc.prems(1) by simp
    have "length ?all * ?k \<le> 2 ^ 32 * ?k" using assms(5) by (rule mult_le_mono1)
    moreover have "2 ^ 32 * ?k < 2 ^ 64" using unat_lt32 [of "cluster_size fs"] by simp
    ultimately have "unat offset + ?k < 2 ^ 64" unfolding off using total by linarith
    then show "n \<noteq> 0 \<longrightarrow> unat (offset + ucast (cluster_size fs)) = Suc j * ?k"
      by (simp add: unat_plus_nowrap unat_ucast64 off)
    show "length (chunk f (cluster_start fs c) ?k) = ?k" by simp
    show "contents d1 = f" by (rule d1)
  qed
  then show ?case
    unfolding split scan_entries_append using r d1 m rest
    by (auto simp: found_def split: scan.split)
qed


section \<open>Entries as bytes\<close>

text \<open>The 32 bytes the format gives an entry.\<close>

definition dirent_bytes :: "fat_dirent \<Rightarrow> u8 list" where
  "dirent_bytes e =
     map (\<lambda>c. of_nat (of_char c)) (de_name e) @ map (\<lambda>c. of_nat (of_char c)) (de_extension e)
     @ [de_attributes e, 0, 0] @ bytes16 (create_time e) @ bytes16 (create_date e) @ bytes16 (last_access_date e)
     @ bytes16 (cluster_high e) @ bytes16 (last_modification_time e) @ bytes16 (last_modification_date e)
     @ bytes16 (cluster_low e) @ bytes32 (de_size e)"

lemma chars_bytes: "map ((\<lambda>b. char_of (unat b)) \<circ> (\<lambda>c. of_nat (of_char c) :: u8)) xs = xs"
proof -
  have "char_of (unat (of_nat (of_char c) :: u8)) = c" for c :: char
  proof -
    have "(of_char c :: nat) < 256" by simp
    then show ?thesis by (simp add: unat_of_nat)
  qed
  then show ?thesis by (induction xs) simp_all
qed

lemma chars_at_append:
  "length xs = i \<Longrightarrow> length ys = n \<Longrightarrow> chars_at (xs @ map (\<lambda>c. of_nat (of_char c)) ys @ zs) i n = ys"
  by (simp add: chars_at_def chars_bytes)

lemma le16_field: "length xs = i \<Longrightarrow> le16 (xs @ bytes16 w @ zs) i = w"
  by (subst le16_append) (simp_all add: le16_bytes16)

lemma le32_field: "length xs = i \<Longrightarrow> le32 (xs @ bytes32 w) i = w"
  using le32_bytes32 [of w "[]"] by (subst le32_append) simp_all

lemma dirent_roundtrip:
  assumes "length (de_name e) = 8" and "length (de_extension e) = 3"
  shows "fat_dirent_of (dirent_bytes e) = e"
proof -
  let ?n = "map (\<lambda>c. of_nat (of_char c)) (de_name e) :: u8 list"
  let ?x = "map (\<lambda>c. of_nat (of_char c)) (de_extension e) :: u8 list"
  have len: "length ?n = 8" "length ?x = 3" using assms by simp_all
  note b = dirent_bytes_def [of e]
  have "chars_at (dirent_bytes e) 0 8 = de_name e"
    unfolding b using chars_at_append [of "[]" 0 "de_name e" 8] assms by simp
  moreover have "chars_at (dirent_bytes e) 8 3 = de_extension e"
    unfolding b using chars_at_append [of ?n 8 "de_extension e" 3] assms by simp
  moreover have "dirent_bytes e ! 11 = de_attributes e"
    unfolding b using len by (simp add: nth_append)
  moreover have "le16 (dirent_bytes e) 14 = create_time e" unfolding b
    using le16_field [of "?n @ ?x @ [de_attributes e, 0, 0]" 14 "create_time e"] len by simp
  moreover have "le16 (dirent_bytes e) 16 = create_date e" unfolding b
    using le16_field [of "?n @ ?x @ [de_attributes e, 0, 0] @ bytes16 (create_time e)" 16 "create_date e"] len by simp
  moreover have "le16 (dirent_bytes e) 18 = last_access_date e" unfolding b
    using le16_field [of "?n @ ?x @ [de_attributes e, 0, 0] @ bytes16 (create_time e) @ bytes16 (create_date e)" 18] len by simp
  moreover have "le16 (dirent_bytes e) 20 = cluster_high e" unfolding b
    using le16_field [of "?n @ ?x @ [de_attributes e, 0, 0] @ bytes16 (create_time e) @ bytes16 (create_date e)
      @ bytes16 (last_access_date e)" 20] len by simp
  moreover have "le16 (dirent_bytes e) 22 = last_modification_time e" unfolding b
    using le16_field [of "?n @ ?x @ [de_attributes e, 0, 0] @ bytes16 (create_time e) @ bytes16 (create_date e)
      @ bytes16 (last_access_date e) @ bytes16 (cluster_high e)" 22] len by simp
  moreover have "le16 (dirent_bytes e) 24 = last_modification_date e" unfolding b
    using le16_field [of "?n @ ?x @ [de_attributes e, 0, 0] @ bytes16 (create_time e) @ bytes16 (create_date e)
      @ bytes16 (last_access_date e) @ bytes16 (cluster_high e) @ bytes16 (last_modification_time e)" 24] len by simp
  moreover have "le16 (dirent_bytes e) 26 = cluster_low e" unfolding b
    using le16_field [of "?n @ ?x @ [de_attributes e, 0, 0] @ bytes16 (create_time e) @ bytes16 (create_date e)
      @ bytes16 (last_access_date e) @ bytes16 (cluster_high e) @ bytes16 (last_modification_time e)
      @ bytes16 (last_modification_date e)" 26] len by simp
  moreover have "le32 (dirent_bytes e) 28 = de_size e" unfolding b
    using le32_field [of "?n @ ?x @ [de_attributes e, 0, 0] @ bytes16 (create_time e) @ bytes16 (create_date e)
      @ bytes16 (last_access_date e) @ bytes16 (cluster_high e) @ bytes16 (last_modification_time e)
      @ bytes16 (last_modification_date e) @ bytes16 (cluster_low e)" 28] len by simp
  ultimately show ?thesis by (simp add: fat_dirent_of_def)
qed

definition upper :: "char \<Rightarrow> char" where
  "upper c = (if 97 \<le> (of_char c :: nat) \<and> (of_char c :: nat) \<le> 122 then char_of ((of_char c :: nat) - 32) else c)"

definition name_char :: "char \<Rightarrow> bool" where
  "name_char c \<longleftrightarrow> char_ok c \<and> lower c = c"

definition pad :: "nat \<Rightarrow> string \<Rightarrow> string" where
  "pad n xs = xs @ replicate (n - length xs) CHR '' ''"

lemma lower_upper: "name_char c \<Longrightarrow> lower (upper c) = c \<and> char_ok (upper c)"
proof -
  assume c: "name_char c"
  show ?thesis
  proof (cases "97 \<le> (of_char c :: nat) \<and> (of_char c :: nat) \<le> 122")
    case True
    have "(of_char c :: nat) - 32 < 256" by (simp add: less_imp_diff_less)
    then have u: "of_char (upper c) = (of_char c :: nat) - 32" using True by (simp add: upper_def)
    have "upper c \<noteq> CHR 0x00" "upper c \<noteq> CHR '' ''" using u True by auto
    moreover have "65 \<le> (of_char c :: nat) - 32" "(of_char c :: nat) - 32 \<le> 90"
      "(of_char c :: nat) - 32 + 32 = of_char c" using True by linarith+
    ultimately show ?thesis using u by (simp add: lower_def char_ok_def)
  next
    case False
    then have "upper c = c" by (auto simp: upper_def)
    then show ?thesis using c by (simp add: name_char_def)
  qed
qed

lemma pad_taken:
  assumes "length xs \<le> n" and "\<forall>c \<in> set xs. name_char c"
  shows "map lower (takeWhile char_ok (take n (pad n (map upper xs)))) = xs"
proof -
  have "takeWhile char_ok (map upper xs @ replicate k CHR '' '') = map upper xs" for k
    using assms(2) by (induction xs) (auto simp: lower_upper char_ok_def [of "CHR '' ''"] takeWhile_replicate)
  moreover have "map (lower \<circ> upper) xs = xs"
    using assms(2) by (induction xs) (simp_all add: lower_upper)
  ultimately show ?thesis using assms(1) by (simp add: pad_def)
qed

text \<open>The name of a file survives the directory. A name of up to eight characters and an
  extension of up to three, in lower case, stored in capitals and padded with blanks in the 32
  bytes of an entry, is read back as the name, a dot and the extension, or the name alone; the
  other fields of the entry are read back too.\<close>

theorem dirent_name_roundtrip:
  assumes "length base \<le> 8" and "length ext \<le> 3" and "\<forall>c \<in> set (base @ ext). name_char c"
    and "de_name e = pad 8 (map upper base)" and "de_extension e = pad 3 (map upper ext)"
  shows "fat_dirent_of (dirent_bytes e) = e
    \<and> dirent_filename (fat_dirent_of (dirent_bytes e)) = (if ext = [] then base else base @ ''.'' @ ext)"
proof -
  have e: "fat_dirent_of (dirent_bytes e) = e"
    using assms(1,2,4,5) by (intro dirent_roundtrip) (simp_all add: pad_def)
  have b: "map lower (takeWhile char_ok (take 8 (de_name e))) = base"
    and x: "map lower (takeWhile char_ok (take 3 (de_extension e))) = ext"
    using pad_taken [OF assms(1)] pad_taken [OF assms(2)] assms(3-5) by simp_all
  have dot: "lower CHR ''.'' = CHR ''.''" by (simp add: lower_def)
  have "(takeWhile char_ok (take 3 (de_extension e)) = []) = (ext = [])"
    using x by (metis map_is_Nil_conv)
  then show ?thesis using b x by (simp add: e dirent_filename_def Let_def dot)
qed

definition sample_dirent :: fat_dirent where
  "sample_dirent =
     \<lparr>de_name = ''HELLO   '', de_extension = ''C  '', de_attributes = 0, create_time = 0, create_date = 0,
      last_access_date = 0, cluster_high = 0, last_modification_time = 0, last_modification_date = 0,
      cluster_low = 5, de_size = 7\<rparr>"

theorem dirent_name_roundtrip_witness:
  "fat_dirent_of (dirent_bytes sample_dirent) = sample_dirent \<and> dirent_filename sample_dirent = ''hello.c''"
proof -
  have "\<forall>c \<in> set (''hello'' @ ''c''). name_char c" by code_simp
  moreover have "de_name sample_dirent = pad 8 (map upper ''hello'')" by code_simp
  moreover have "de_extension sample_dirent = pad 3 (map upper ''c'')" by code_simp
  ultimately show ?thesis using dirent_name_roundtrip [of "''hello''" "''c''" sample_dirent] by auto
qed

section \<open>The root of a FAT32 file system\<close>

text \<open>On FAT32 the root directory is looked for two clusters behind its place. The number
  of a cluster counts from 2; open_subnode takes the 2 off, fs_root_node does not, so the same
  number names two places, and what is read at the root is what an entry with a number greater
  by 2 names.\<close>

theorem fat32_root_misplaced:
  assumes "fs_type fs = Fat32" and "dirent_cluster Fat32 e = rootdir_cluster (fs_boot fs)"
    and "rootdir_cluster (fs_boot fs) \<noteq> 0" and "dirent_cluster Fat32 e2 = rootdir_cluster (fs_boot fs) + 2"
    and "rootdir_cluster (fs_boot fs) + 2 \<noteq> 0"
  shows "\<exists>sub sub2. subnode_of fs p e = Inr sub \<and> subnode_of fs p e2 = Inr sub2
    \<and> node_cluster sub \<noteq> node_cluster (fs_root_node fs p)
    \<and> node_cluster sub2 = node_cluster (fs_root_node fs p)
    \<and> (\<forall>off len buf d. read_pure con fs (fs_root_node fs p) off len buf d = read_pure con fs sub2 off len buf d)"
  using assms by (simp add: subnode_of_def Let_def fs_root_node_def norm_node_cluster_add_def read_pure_def)

theorem fat32_root_misplaced_witness:
  "node_cluster (fs_root_node (fs_sample\<lparr>fs_type := Fat32, fs_boot := (fs_boot fs_sample)\<lparr>rootdir_cluster := 5\<rparr>\<rparr>) p) = 5"
  using fat32_root_misplaced [of "fs_sample\<lparr>fs_type := Fat32, fs_boot := (fs_boot fs_sample)\<lparr>rootdir_cluster := 5\<rparr>\<rparr>"
      sample_dirent "sample_dirent\<lparr>cluster_low := 7\<rparr>" p]
  by (simp add: dirent_cluster_def sample_dirent_def fs_root_node_def Let_def)

section \<open>The statistic looks behind the table\<close>

lemma stat_loop_overruns:
  assumes "ct_type ct = Fat16" and "ct_data ct = Some bs" and "length bs = 2 * N" and "N < 2 ^ 31"
  shows "unat i < N \<Longrightarrow> unat i + n = N \<Longrightarrow> stat_loop ct n i prev st = Inl Out_of_bounds"
proof (induction n arbitrary: i prev st)
  case 0
  then show ?case by simp
next
  case (Suc n)
  have i2: "unat (i + 2) = unat i + 2" and i1: "unat (i + 1) = unat i + 1"
    using Suc.prems(1) assms(4) by (simp_all add: unat_plus_nowrap)
  have v: "ct_value ct i = Inr (of_nat (entry16 bs (unat i)))"
    using Suc.prems(1) assms(3) by (simp add: ct_value16 [OF assms(2,1)])
  show ?case
  proof (cases "unat i + 2 < N")
    case True
    then obtain w where "ct_value ct (i + 2) = Inr w" using assms(3) by (simp add: ct_value16 [OF assms(2,1)] i2)
    then have "\<exists>st' x. stat_step ct i prev st = Inr (st', x)"
      using v by (auto simp: stat_step_def is_free_def is_defect_def)
    then obtain st' x where "stat_step ct i prev st = Inr (st', x)" by blast
    moreover have "stat_loop ct n (i + 1) x st' = Inl Out_of_bounds"
      using True Suc.prems(2) i1 by (intro Suc.IH) simp_all
    ultimately show ?thesis by simp
  next
    case False
    then have "ct_value ct (i + 2) = Inl Out_of_bounds" using assms(3) by (simp add: ct_value16 [OF assms(2,1)] i2)
    then show ?thesis using v by (simp add: stat_step_def is_free_def)
  qed
qed

text \<open>The statistic that is logged when a file system is mounted reads behind the table: the
  tests of the entry \<open>i\<close> look at the entry \<open>i + 2\<close>, for the last two there is none.\<close>

theorem statistic_overruns:
  assumes "ct_type ct = Fat16" and "ct_data ct = Some bs" and "length bs = unat (ct_size ct)"
    and "even (length bs)" and "bs \<noteq> []"
  shows "ct_statistic ct = Inl Out_of_bounds"
proof -
  obtain N where N: "length bs = 2 * N" using assms(4) by (elim evenE)
  have c: "unat (ct_clusters ct) = N"
    using assms(1,3) N by (simp add: ct_clusters_def drop_bit_eq_div unat_div)
  have "N < 2 ^ 31" using unat_lt32 [of "ct_size ct"] assms(3) N by simp
  moreover have "0 < N" using assms(5) N by (cases N) auto
  ultimately have "stat_loop ct N 0 0 st = Inl Out_of_bounds" for st
    by (intro stat_loop_overruns [OF assms(1,2) N]) simp_all
  then show ?thesis using c assms(2) by (simp add: ct_statistic_def)
qed

section \<open>Samples\<close>

definition sample_node :: fat_fs_node where
  "sample_node = \<lparr>node_path = ''/f'', node_directory = False, node_fs_root = False, node_cluster = 0,
     node_entry = sample_dirent\<lparr>de_size := 3\<rparr>\<rparr>"

lemma sample_linked: "linked ct_sample [0, 1]"
  by (simp add: ct_sample_tests ct_sample_succ)

theorem fat_node_read_file_witness:
  "\<exists>d'. fat_node_read ram_container fs_sample sample_node 1 5 [9, 9, 9, 9, 9] (\<lambda>i. of_nat i)
      = Some (Inr ([5, 6, 9, 9, 9], d'))"
proof -
  have ok: "\<forall>x \<in> set (node_cluster sample_node # [1]). cluster_ok fs_sample 8 x"
    by (simp add: cluster_ok_def fs_sample_simps sample_node_def)
  have lk: "linked (fs_table fs_sample) (node_cluster sample_node # [1])"
    using sample_linked by (simp add: fs_sample_simps sample_node_def)
  have fb: "file_bytes fs_sample [0, 1] (\<lambda>i. of_nat i) = [4, 5, 6, 7]"
    by (simp add: file_bytes_def chunk_def fs_sample_simps upt_rec)
  have n: "node_cluster sample_node = 0" "de_size (node_entry sample_node) = 3" "\<not> node_directory sample_node"
    by (simp_all add: sample_node_def)
  show ?thesis
    using fat_node_read_file [OF ram_container_laws lk ok, of 1 5 "[9, 9, 9, 9, 9]" "[4, 5, 6]" "\<lambda>i. of_nat i"]
    by (simp add: n fs_sample_simps fb)
qed

definition fs_dir :: fat_fs where
  "fs_dir = fs_sample\<lparr>fs_boot := (fs_boot fs_sample)\<lparr>bytes_per_sector := 32\<rparr>\<rparr>"

lemma fs_dir_simps: "fs_table fs_dir = ct_sample" "cluster_size fs_dir = 32" "base_cluster fs_dir = Inr 2"
  "cluster_start fs_dir 0 = 64" "cluster_start fs_dir 1 = 96"
  by (simp_all add: fs_dir_def fs_sample_def cluster_size_def base_cluster_def cluster_start_def Let_def)

theorem read_past_end_overruns_witness:
  "fat_node_read ram_container fs_dir sample_node 5 1 [9] (\<lambda>i. of_nat i) = Some (Inl Out_of_bounds)"
  by (rule read_past_end_overruns [where cs = "[1]" and b = 2])
    (use sample_linked in \<open>simp_all add: fs_dir_simps sample_node_def\<close>)

definition label_dirent :: fat_dirent where
  "label_dirent = sample_dirent\<lparr>de_attributes := 8\<rparr>"

definition dir_disk :: "nat \<Rightarrow> u8" where
  "dir_disk i = (if i < 96 then dirent_bytes label_dirent ! (i - 64) else dirent_bytes sample_dirent ! (i - 96))"


end
