(* ===== verification/Dev_Fs.thy ===== *)
theory Dev_Fs
  imports Fat_Fs "HOL-Library.AList" "HOL-Library.Signed_Division"
begin

text \<open>
  The nodes of the device file system (kern/fs/dev_fs_node.cpp, dev_fs.cpp): directories,
  slices of block devices (whole drives and partitions) and character devices. What reading
  and writing a drive or a console does is a parameter; a block device of Block_Device is one
  instance of it.
\<close>

section \<open>Nodes\<close>

datatype dev_fs_node_type = Pseudo_node | Block_node | Char_node

datatype ('drv, 'con) dev_fs_node =
  Dev_node (dn_path: string) (dn_fs_root: bool) (dn_directory: bool) (dn_tty: bool)
    (dn_subnodes: "(string \<times> ('drv, 'con) dev_fs_node) list") (dn_type: dev_fs_node_type)
    (dn_drive: "'drv option") (dn_first: u64) (dn_last: u64) (dn_console: "'con option")

definition dev_node_directory :: "string \<Rightarrow> bool \<Rightarrow> ('drv, 'con) dev_fs_node" where
  "dev_node_directory name fs_root = Dev_node name fs_root True False [] Pseudo_node None 0 0 None"

definition dev_node_drive :: "string \<Rightarrow> 'drv \<Rightarrow> u64 \<Rightarrow> u64 \<Rightarrow> ('drv, 'con) dev_fs_node" where
  "dev_node_drive name drv first_address last_address =
     Dev_node name False False False [] Block_node (Some drv) first_address last_address None"

definition dev_node_console :: "string \<Rightarrow> 'con \<Rightarrow> ('drv, 'con) dev_fs_node" where
  "dev_node_console name con = Dev_node name False False True [] Char_node None 0 0 (Some con)"

definition dev_node_copy :: "string \<Rightarrow> ('drv, 'con) dev_fs_node \<Rightarrow> ('drv, 'con) dev_fs_node" where
  "dev_node_copy path n =
     Dev_node path (dn_fs_root n) (dn_directory n) (dn_tty n) (dn_subnodes n) (dn_type n)
       (dn_drive n) (dn_first n) (dn_last n) (dn_console n)"

fun add_subnode :: "('drv, 'con) dev_fs_node option \<Rightarrow> ('drv, 'con) dev_fs_node \<Rightarrow> ('drv, 'con) dev_fs_node" where
  "add_subnode sub (Dev_node p r dir tty subs t drv a b con) =
     (if \<not> dir then Dev_node p r dir tty subs t drv a b con
      else case sub of
             None \<Rightarrow> Dev_node p r dir tty subs t drv a b con
           | Some s \<Rightarrow> Dev_node p r dir tty (AList.update (dn_path s) s subs) t drv a b con)"

text \<open>
  What is read through the iterator behind the last entry of a map is the parameter \<open>past\<close>:
  by the rules of the language a fault, and what the code relies on is the null pointer.
\<close>

definition find_second :: "'v option result \<Rightarrow> ('k \<Rightarrow> 'v option) \<Rightarrow> 'k \<Rightarrow> 'v option result" where
  "find_second past m k = (case m k of Some v \<Rightarrow> Inr (Some v) | None \<Rightarrow> past)"

definition dev_open_subnode ::
  "('drv, 'con) dev_fs_node option result \<Rightarrow> ('drv, 'con) dev_fs_node \<Rightarrow> string \<Rightarrow> string
   \<Rightarrow> ('drv, 'con) dev_fs_node option result" where
  "dev_open_subnode past n fullname subname =
     (if dn_directory n
      then bind_result (find_second past (map_of (dn_subnodes n)) subname)
             (\<lambda>r. Inr (map_option (dev_node_copy fullname) r))
      else Inr None)"

record ('drv, 'con, 'w) dev_io =
  drive_read :: "'drv \<Rightarrow> u64 \<Rightarrow> u32 \<Rightarrow> u8 list \<Rightarrow> 'w \<Rightarrow> (u8 list \<times> 'w) result option"
  drive_write :: "'drv \<Rightarrow> u64 \<Rightarrow> u32 \<Rightarrow> u8 list \<Rightarrow> 'w \<Rightarrow> 'w result option"
  console_read :: "'con \<Rightarrow> u32 \<Rightarrow> u8 list \<Rightarrow> 'w \<Rightarrow> (u8 list \<times> 'w) result"
  console_write :: "'con \<Rightarrow> u32 \<Rightarrow> u8 list \<Rightarrow> 'w \<Rightarrow> 'w result"

definition dev_node_read ::
  "('drv, 'con, 'w) dev_io \<Rightarrow> ('drv, 'con) dev_fs_node \<Rightarrow> u64 \<Rightarrow> u32 \<Rightarrow> u8 list \<Rightarrow> 'w \<Rightarrow> (u8 list \<times> 'w) result option" where
  "dev_node_read io n offset len buf w =
     (if dn_directory n then Some (Inr (buf, w))
      else case dn_type n of
             Pseudo_node \<Rightarrow> Some (Inr (buf, w))
           | Block_node \<Rightarrow>
               (let base = dn_first n + offset; up = dn_first n + offset + ucast len
                in if base < up \<and> up \<le> dn_last n
                   then (case dn_drive n of
                           None \<Rightarrow> Some (Inl Null_deref)
                         | Some d \<Rightarrow> drive_read io d base len buf w)
                   else Some (Inr (buf, w)))
           | Char_node \<Rightarrow>
               (case dn_console n of
                  None \<Rightarrow> Some (Inl Null_deref)
                | Some c \<Rightarrow> Some (console_read io c len buf w)))"

definition dev_node_write ::
  "('drv, 'con, 'w) dev_io \<Rightarrow> ('drv, 'con) dev_fs_node \<Rightarrow> u64 \<Rightarrow> u32 \<Rightarrow> u8 list \<Rightarrow> 'w \<Rightarrow> 'w result option" where
  "dev_node_write io n offset len buf w =
     (if dn_directory n then Some (Inr w)
      else case dn_type n of
             Pseudo_node \<Rightarrow> Some (Inr w)
           | Block_node \<Rightarrow>
               (let base = dn_first n + offset; up = dn_first n + offset + ucast len
                in if base < up \<and> up \<le> dn_last n
                   then (case dn_drive n of
                           None \<Rightarrow> Some (Inl Null_deref)
                         | Some d \<Rightarrow> drive_write io d base len buf w)
                   else Some (Inr w))
           | Char_node \<Rightarrow>
               (case dn_console n of
                  None \<Rightarrow> Some (Inl Null_deref)
                | Some c \<Rightarrow> Some (console_write io c len buf w)))"

definition dev_node_length :: "('drv, 'con) dev_fs_node \<Rightarrow> u64" where
  "dev_node_length n =
     (case dn_type n of Pseudo_node \<Rightarrow> 0 | Block_node \<Rightarrow> dn_last n - dn_first n | Char_node \<Rightarrow> 0)"

text \<open>The size of a node is a signed number of 32 bits.\<close>

record dev_stat =
  dst_mode :: u32
  dst_nlink :: nat
  dst_size :: int
  dst_blksize :: int
  dst_blocks :: int

definition dev_node_stat :: "('drv, 'con) dev_fs_node \<Rightarrow> dev_stat" where
  "dev_node_stat n =
     (let size = sint (ucast (dn_last n - dn_first n) :: u32)
      in \<lparr>dst_mode = 0x1FF OR (if dn_directory n then 0x4000 else 0x8000), dst_nlink = 1,
          dst_size = size, dst_blksize = 512, dst_blocks = size sdiv 512\<rparr>)"

text \<open>The file system is its root node; the root handed out is a copy.\<close>

definition dev_fs_new :: "('drv, 'con) dev_fs_node" where
  "dev_fs_new = dev_node_directory ''dev_root'' True"

definition dev_fs_root_node :: "('drv, 'con) dev_fs_node \<Rightarrow> string \<Rightarrow> ('drv, 'con) dev_fs_node" where
  "dev_fs_root_node root path = dev_node_copy path root"

section \<open>A slice of a drive\<close>

text \<open>A drive whose bytes are \<open>contents\<close>, \<open>cap\<close> of them.\<close>

definition drive_laws :: "('drv, 'con, 'w) dev_io \<Rightarrow> 'drv \<Rightarrow> ('w \<Rightarrow> nat \<Rightarrow> u8) \<Rightarrow> nat \<Rightarrow> bool" where
  "drive_laws io drv contents cap \<longleftrightarrow>
     (\<forall>a n buf w. 0 < n \<and> unat a + unat n \<le> cap \<and> unat n \<le> length buf \<longrightarrow>
        (\<exists>w'. drive_read io drv a n buf w
            = Some (Inr (chunk (contents w) (unat a) (unat n) @ drop (unat n) buf, w')) \<and> contents w' = contents w)
      \<and> (\<exists>w'. drive_write io drv a n buf w = Some (Inr w')
            \<and> contents w' = patch (unat a) (take (unat n) buf) (contents w)))"

text \<open>A block device is such a drive.\<close>

definition block_io ::
  "'d block_read \<Rightarrow> 'd block_write \<Rightarrow> u32 \<Rightarrow> u8 list \<Rightarrow> ('drv, 'con, 'd) dev_io \<Rightarrow> ('drv, 'con, 'd) dev_io" where
  "block_io rd wr bs tmp io =
     io\<lparr>drive_read := (\<lambda>_ a n buf d. map_option (\<lambda>r. bind_result r (\<lambda>(k, b, d'). Inr (b, d'))) (bd_read rd bs (Some tmp) a n buf d)),
        drive_write := (\<lambda>_ a n buf d. map_option (\<lambda>r. bind_result r (\<lambda>(k, d'). Inr d')) (bd_write rd wr bs (Some tmp) a n buf d))\<rparr>"

lemma block_io_laws:
  assumes "disk_laws bs rd wr contents blocks" and "length tmp = unat bs" and "blocks < 2 ^ 64"
  shows "drive_laws (block_io rd wr bs tmp io) drv contents (blocks * unat bs)"
  unfolding drive_laws_def
proof (intro allI impI conjI)
  fix a :: u64 and n :: u32 and buf :: "u8 list" and w
  assume h: "0 < n \<and> unat a + unat n \<le> blocks * unat bs \<and> unat n \<le> length buf"
  show "\<exists>w'. drive_read (block_io rd wr bs tmp io) drv a n buf w
      = Some (Inr (chunk (contents w) (unat a) (unat n) @ drop (unat n) buf, w')) \<and> contents w' = contents w"
    using bd_read_disk [OF assms(1,2) _ _ assms(3), of n buf a w] h by (auto simp: block_io_def)
  show "\<exists>w'. drive_write (block_io rd wr bs tmp io) drv a n buf w = Some (Inr w')
      \<and> contents w' = patch (unat a) (take (unat n) buf) (contents w)"
    using bd_write_disk [OF assms(1,2) _ _ assms(3), of n buf a w] h by (auto simp: block_io_def)
qed

text \<open>The bytes between the first and the last address, when both are on the drive.\<close>

definition slice_ok :: "('drv, 'con) dev_fs_node \<Rightarrow> nat \<Rightarrow> bool" where
  "slice_ok n cap \<longleftrightarrow> \<not> dn_directory n \<and> dn_type n = Block_node \<and> dn_first n \<le> dn_last n \<and> unat (dn_last n) \<le> cap"

lemma slice_bounds:
  fixes offset :: u64 and len :: u32
  assumes "unat (dn_first n) + unat offset + unat len < 2 ^ 64"
  shows "(dn_first n + offset < dn_first n + offset + ucast len \<and> dn_first n + offset + ucast len \<le> dn_last n)
    \<longleftrightarrow> 0 < len \<and> unat (dn_first n) + unat offset + unat len \<le> unat (dn_last n)"
    and "unat (dn_first n + offset) = unat (dn_first n) + unat offset"
proof -
  show b: "unat (dn_first n + offset) = unat (dn_first n) + unat offset"
    using assms by (simp add: unat_plus_nowrap)
  then have "unat (dn_first n + offset + ucast len) = unat (dn_first n) + unat offset + unat len"
    using assms unat_plus_nowrap [of "dn_first n + offset" "ucast len"] by (simp add: unat_ucast64)
  then show "(dn_first n + offset < dn_first n + offset + ucast len \<and> dn_first n + offset + ucast len \<le> dn_last n)
    \<longleftrightarrow> 0 < len \<and> unat (dn_first n) + unat offset + unat len \<le> unat (dn_last n)"
    using b by (simp add: word_less_nat_alt word_le_nat_alt)
qed

text \<open>A device node shows exactly its slice of the drive. When offset and length do not
  run over the end of the address space, a read within the slice gets the bytes of the drive at
  the first address plus the offset, a write changes exactly these, and a request that is empty
  or reaches behind the last address touches neither the buffer nor the drive.\<close>

theorem dev_node_slice:
  assumes "drive_laws io drv contents cap" and "slice_ok n cap" and "dn_drive n = Some drv"
    and "unat (dn_first n) + unat offset + unat len < 2 ^ 64" and "length buf = unat len"
    and inside: "inside \<longleftrightarrow> 0 < len \<and> unat offset + unat len \<le> unat (dn_last n) - unat (dn_first n)"
  shows "(inside \<longrightarrow> (\<exists>w'. dev_node_read io n offset len buf w
          = Some (Inr (map (\<lambda>i. contents w (unat (dn_first n) + unat offset + i)) [0..<unat len], w'))
        \<and> contents w' = contents w))
    \<and> (inside \<longrightarrow> (\<exists>w'. dev_node_write io n offset len buf w = Some (Inr w')
        \<and> (\<forall>i. contents w' i = (if unat (dn_first n) + unat offset \<le> i \<and> i < unat (dn_first n) + unat offset + unat len
            then buf ! (i - (unat (dn_first n) + unat offset)) else contents w i))))
    \<and> (\<not> inside \<longrightarrow> dev_node_read io n offset len buf w = Some (Inr (buf, w))
        \<and> dev_node_write io n offset len buf w = Some (Inr w))"
proof -
  have n: "\<not> dn_directory n" "dn_type n = Block_node" "unat (dn_first n) \<le> unat (dn_last n)" "unat (dn_last n) \<le> cap"
    using assms(2) by (simp_all add: slice_ok_def word_le_nat_alt)
  note b = slice_bounds [OF assms(4)]
  have i: "inside \<longleftrightarrow> dn_first n + offset < dn_first n + offset + ucast len \<and> dn_first n + offset + ucast len \<le> dn_last n"
    unfolding inside b(1) using n(3) by auto
  have r: "dev_node_read io n offset len buf w = drive_read io drv (dn_first n + offset) len buf w"
    and wr: "dev_node_write io n offset len buf w = drive_write io drv (dn_first n + offset) len buf w" if inside
    using that [unfolded i] n(1,2) assms(3) by (simp_all add: dev_node_read_def dev_node_write_def Let_def)
  have fits: "0 < len \<and> unat (dn_first n + offset) + unat len \<le> cap \<and> unat len \<le> length buf" if inside
    using that [unfolded inside] b(2) n(3,4) assms(5) by auto
  have chunk: "chunk f (unat (dn_first n + offset)) (unat len)
      = map (\<lambda>i. f (unat (dn_first n) + unat offset + i)) [0..<unat len]" for f
    by (rule nth_equalityI) (auto simp: b(2))
  have "\<exists>w'. dev_node_read io n offset len buf w
          = Some (Inr (map (\<lambda>i. contents w (unat (dn_first n) + unat offset + i)) [0..<unat len], w'))
        \<and> contents w' = contents w" if inside
    using assms(1) [unfolded drive_laws_def, rule_format, OF fits [OF that], of w] assms(5)
    unfolding r [OF that] chunk by auto
  moreover have "\<exists>w'. dev_node_write io n offset len buf w = Some (Inr w')
        \<and> (\<forall>i. contents w' i = (if unat (dn_first n) + unat offset \<le> i \<and> i < unat (dn_first n) + unat offset + unat len
            then buf ! (i - (unat (dn_first n) + unat offset)) else contents w i))" if inside
    using assms(1) [unfolded drive_laws_def, rule_format, OF fits [OF that], of w] assms(5)
    unfolding wr [OF that] b(2) patch_def by auto
  moreover have "dev_node_read io n offset len buf w = Some (Inr (buf, w))
        \<and> dev_node_write io n offset len buf w = Some (Inr w)" if "\<not> inside"
    using that [unfolded i] n(1,2) by (auto simp: dev_node_read_def dev_node_write_def Let_def)
  ultimately show ?thesis by blast
qed

text \<open>An offset near the end of the address space leaves the partition. The first address
  plus the offset wraps around, both tests pass, and the bytes of the drive below the partition
  are read.\<close>

theorem partition_left:
  assumes "drive_laws io drv contents cap" and "slice_ok n cap" and "dn_drive n = Some drv"
    and "0 < len" and "unat len \<le> k" and "k \<le> unat (dn_first n)" and "0 < k" and "offset = - of_nat k"
    and "length buf = unat len"
  shows "\<exists>w'. dev_node_read io n offset len buf w
      = Some (Inr (map (\<lambda>i. contents w (unat (dn_first n) - k + i)) [0..<unat len], w'))"
proof -
  have n: "\<not> dn_directory n" "dn_type n = Block_node" "unat (dn_first n) \<le> unat (dn_last n)" "unat (dn_last n) \<le> cap"
    using assms(2) by (simp_all add: slice_ok_def word_le_nat_alt)
  have "k < 2 ^ 64" using assms(6) unsigned_less [of "dn_first n", where ?'a = nat] by simp
  then have uk: "unat (of_nat k :: u64) = k" by (simp add: unat_of_nat_lt)
  have b: "unat (dn_first n + offset) = unat (dn_first n) - k"
    using assms(6) uk by (simp add: assms(8) unat_sub word_le_nat_alt)
  have l: "0 < unat len" using assms(4) by (simp add: word_less_nat_alt)
  have "unat (dn_first n + offset) + unat len < 2 ^ 64"
    using b assms(5,6) unsigned_less [of "dn_first n", where ?'a = nat] by simp
  then have u: "unat (dn_first n + offset + ucast len) = unat (dn_first n) - k + unat len"
    using unat_plus_nowrap [of "dn_first n + offset" "ucast len"] b by (simp add: unat_ucast64)
  have "dn_first n + offset < dn_first n + offset + ucast len" "dn_first n + offset + ucast len \<le> dn_last n"
    using b u l assms(5,6) n(3) by (simp_all only: word_less_nat_alt word_le_nat_alt)
  then have r: "dev_node_read io n offset len buf w = drive_read io drv (dn_first n + offset) len buf w"
    using n(1,2) assms(3) by (simp add: dev_node_read_def Let_def)
  have fits: "0 < len \<and> unat (dn_first n + offset) + unat len \<le> cap \<and> unat len \<le> length buf"
    using b assms(4,5,6,9) n(3,4) by auto
  have "chunk f (unat (dn_first n + offset)) (unat len) = map (\<lambda>i. f (unat (dn_first n) - k + i)) [0..<unat len]" for f
    by (rule nth_equalityI) (auto simp: b)
  then show ?thesis
    using assms(1) [unfolded drive_laws_def, rule_format, OF fits, of w] assms(9) unfolding r by auto
qed

section \<open>A file system on a device node\<close>

text \<open>What the FAT file system reads and writes when its container is a device node.\<close>

definition node_container :: "('drv, 'con, 'w) dev_io \<Rightarrow> ('drv, 'con) dev_fs_node \<Rightarrow> 'w container" where
  "node_container io n =
     \<lparr>c_read = (\<lambda>a xs w. case dev_node_read io n a (of_nat (length xs)) xs w of Some (Inr r) \<Rightarrow> r | _ \<Rightarrow> (xs, w)),
      c_write = (\<lambda>a xs w. case dev_node_write io n a (of_nat (length xs)) xs w of Some (Inr w') \<Rightarrow> w' | _ \<Rightarrow> w)\<rparr>"

lemma node_io:
  assumes laws: "drive_laws io drv contents cap" and ok: "slice_ok n cap" and drv: "dn_drive n = Some drv"
    and range: "unat a + length xs \<le> unat (dn_last n) - unat (dn_first n)" and len: "length xs < 2 ^ 32" "xs \<noteq> []"
  shows "\<exists>w'. dev_node_read io n a (of_nat (length xs)) xs w
      = Some (Inr (chunk (contents w) (unat (dn_first n) + unat a) (length xs), w')) \<and> contents w' = contents w"
    and "\<exists>w'. dev_node_write io n a (of_nat (length xs)) xs w = Some (Inr w')
      \<and> contents w' = patch (unat (dn_first n) + unat a) xs (contents w)"
proof -
  let ?len = "of_nat (length xs) :: u32"
  have l: "unat ?len = length xs" using len(1) by (simp add: unat_of_nat_lt)
  have n: "\<not> dn_directory n" "dn_type n = Block_node" "unat (dn_first n) \<le> unat (dn_last n)" "unat (dn_last n) \<le> cap"
    using ok by (simp_all add: slice_ok_def word_le_nat_alt)
  have pos: "0 < ?len" using l len(2) by (simp add: word_less_nat_alt)
  have "unat (dn_first n) + unat a + length xs \<le> unat (dn_last n)" using range n(3) len(2) by linarith
  then have fit: "unat (dn_first n) + unat a + unat ?len \<le> unat (dn_last n)" by (simp add: l)
  then have "unat (dn_first n) + unat a + unat ?len < 2 ^ 64"
    using unsigned_less [of "dn_last n", where ?'a = nat] by simp
  note b = slice_bounds [OF this]
  have "0 < ?len \<and> unat (dn_first n + a) + unat ?len \<le> cap \<and> unat ?len \<le> length xs"
    using pos fit n(4) by (simp add: b(2) l)
  from laws [unfolded drive_laws_def, rule_format, OF this, of w]
  show "\<exists>w'. dev_node_read io n a ?len xs w
      = Some (Inr (chunk (contents w) (unat (dn_first n) + unat a) (length xs), w')) \<and> contents w' = contents w"
    and "\<exists>w'. dev_node_write io n a ?len xs w = Some (Inr w')
      \<and> contents w' = patch (unat (dn_first n) + unat a) xs (contents w)"
    using n(1,2) drv b(1) pos fit by (simp_all add: dev_node_read_def dev_node_write_def Let_def b(2) l)
qed

lemma node_container_laws:
  assumes laws: "drive_laws io drv contents cap" and ok: "slice_ok n cap" and drv: "dn_drive n = Some drv"
  shows "container_laws (node_container io n) (\<lambda>w i. contents w (unat (dn_first n) + i))
    (min (unat (dn_last n) - unat (dn_first n)) (2 ^ 32 - 1))"
  unfolding container_laws_def
proof (intro allI impI)
  fix a :: u64 and xs :: "u8 list" and w
  let ?f = "unat (dn_first n)"
  assume h: "unat a + length xs \<le> min (unat (dn_last n) - ?f) (2 ^ 32 - 1)"
  have n: "\<not> dn_directory n" "dn_type n = Block_node" using ok by (simp_all add: slice_ok_def)
  have chunk: "chunk f (?f + unat a) (length xs) = chunk (\<lambda>i. f (?f + i)) (unat a) (length xs)" for f
    by (rule nth_equalityI) (auto simp: add.assoc)
  have patch: "(\<lambda>i. patch (?f + unat a) xs f (?f + i)) = patch (unat a) xs (\<lambda>i. f (?f + i))" for f
    by (auto simp: patch_def fun_eq_iff)
  show "fst (c_read (node_container io n) a xs w) = chunk (\<lambda>i. contents w (?f + i)) (unat a) (length xs)
      \<and> (\<lambda>i. contents (snd (c_read (node_container io n) a xs w)) (?f + i)) = (\<lambda>i. contents w (?f + i))
      \<and> (\<lambda>i. contents (c_write (node_container io n) a xs w) (?f + i)) = patch (unat a) xs (\<lambda>i. contents w (?f + i))"
  proof (cases "xs = []")
    case True
    then show ?thesis using n by (simp add: node_container_def dev_node_read_def dev_node_write_def Let_def)
  next
    case False
    have "unat a + length xs \<le> unat (dn_last n) - ?f" "length xs < 2 ^ 32" using h by simp_all
    note io = node_io [OF laws ok drv this False, of w]
    show ?thesis using io by (auto simp: node_container_def chunk patch)
  qed
qed

section \<open>Samples\<close>

definition ram_dev_io :: "(unit, unit, nat \<Rightarrow> u8) dev_io" where
  "ram_dev_io = \<lparr>drive_read = (\<lambda>_ a n buf w. Some (Inr (chunk w (unat a) (unat n) @ drop (unat n) buf, w))),
     drive_write = (\<lambda>_ a n buf w. Some (Inr (patch (unat a) (take (unat n) buf) w))),
     console_read = (\<lambda>_ n buf w. Inr (buf, w)), console_write = (\<lambda>_ n buf w. Inr w)\<rparr>"

lemma ram_dev_laws: "drive_laws ram_dev_io drv (\<lambda>w. w) cap"
  by (simp add: drive_laws_def ram_dev_io_def)

definition ram_slice :: "(unit, unit) dev_fs_node" where
  "ram_slice = dev_node_drive ''ram1'' () 10 20"

lemma ram_slice_simps: "slice_ok ram_slice 20" "dn_drive ram_slice = Some ()" "dn_first ram_slice = 10"
  "dn_last ram_slice = 20"
  by (simp_all add: ram_slice_def dev_node_drive_def slice_ok_def)

theorem dev_node_slice_witness:
  "\<exists>w'. dev_node_read ram_dev_io ram_slice 3 2 [0, 0] (\<lambda>i. of_nat i) = Some (Inr ([13, 14], w'))"
  using dev_node_slice [OF ram_dev_laws ram_slice_simps(1,2), of 3 2 "[0, 0]" True "\<lambda>i. of_nat i"]
  by (simp add: ram_slice_simps upt_rec)

theorem partition_left_witness:
  "\<exists>w'. dev_node_read ram_dev_io ram_slice (- 4) 2 [0, 0] (\<lambda>i. of_nat i) = Some (Inr ([6, 7], w'))"
  using partition_left [OF ram_dev_laws ram_slice_simps(1,2), of 2 4 "- 4" "[0, 0]" "\<lambda>i. of_nat i"]
  by (simp add: ram_slice_simps upt_rec)

end
