(* ===== verification/Partition_Table.thy ===== *)
theory Partition_Table
  imports Dev_Fs Byte_Fields
begin

text \<open>
  The partition tables of a drive (kern/include/fs/pc_partitiontable.h,
  kern/fs/partitiontable_crawler.cpp): the four entries of a table, the primary partitions and
  the chain of extended ones, and the device nodes they become.
\<close>

section \<open>Entries\<close>

record pc_partitiontable_entry =
  pe_bootable :: u8
  first_chs :: "u8 list"
  partition_type_bits :: u8
  last_chs :: "u8 list"
  first_sector :: u32
  sector_count :: u32

definition pc_entry_of :: "u8 list \<Rightarrow> pc_partitiontable_entry" where
  "pc_entry_of bs =
     \<lparr>pe_bootable = bs ! 0, first_chs = take 3 (drop 1 bs), partition_type_bits = bs ! 4,
      last_chs = take 3 (drop 5 bs), first_sector = le32 bs 8, sector_count = le32 bs 12\<rparr>"

definition chs_head :: "u8 list \<Rightarrow> u8" where
  "chs_head chs = chs ! 0"

definition chs_sector :: "u8 list \<Rightarrow> u8" where
  "chs_sector chs = chs ! 1 AND 0x3F"

text \<open>The bytes are promoted to int before they are shifted.\<close>

definition chs_cylinder :: "u8 list \<Rightarrow> u16" where
  "chs_cylinder chs = push_bit 2 (ucast (chs ! 1) AND 0xC0) AND ucast (chs ! 2)"

definition is_extended :: "pc_partitiontable_entry \<Rightarrow> bool" where
  "is_extended e \<longleftrightarrow> partition_type_bits e = 0x05 \<or> partition_type_bits e = 0x0F"

section \<open>The crawler\<close>

record 'drv drive_info =
  drive_id :: 'drv
  drive_name :: string
  drive_block_size :: u32
  drive_length :: u64

text \<open>The number a stream writes, and the word it reads back.\<close>

fun dec :: "nat \<Rightarrow> string" where
  "dec n = (if n < 10 then [char_of (48 + n)] else dec (n div 10) @ [char_of (48 + n mod 10)])"

declare dec.simps [simp del]

definition is_space :: "char \<Rightarrow> bool" where
  "is_space c \<longleftrightarrow> of_char c = (32 :: nat) \<or> (9 \<le> (of_char c :: nat) \<and> (of_char c :: nat) \<le> 13)"

definition next_word :: "string \<Rightarrow> string" where
  "next_word s = takeWhile (\<lambda>c. \<not> is_space c) (dropWhile is_space s)"

type_synonym ('drv, 'con) crawl = "('drv, 'con) dev_fs_node \<times> u32"

definition add_device_node ::
  "'drv drive_info \<Rightarrow> string \<Rightarrow> u64 \<Rightarrow> u64 \<Rightarrow> ('drv, 'con) dev_fs_node \<Rightarrow> ('drv, 'con) dev_fs_node" where
  "add_device_node di name a b root = add_subnode (Some (dev_node_drive name (drive_id di) a b)) root"

definition add_filesystem ::
  "'drv drive_info \<Rightarrow> pc_partitiontable_entry \<Rightarrow> u64 \<Rightarrow> ('drv, 'con) crawl \<Rightarrow> ('drv, 'con) crawl" where
  "add_filesystem di e addition st =
     (let (root, counter) = st
      in if partition_type_bits e \<noteq> 0
         then (let size = ucast (drive_block_size di);
                   a = (ucast (first_sector e) + addition) * size;
                   b = (ucast (first_sector e) + addition + ucast (sector_count e)) * size
               in (add_device_node di (next_word (drive_name di @ dec (unat counter))) a b root, counter + 1))
         else (root, counter))"

definition table_entries :: "u8 list \<Rightarrow> pc_partitiontable_entry list" where
  "table_entries buf = map (\<lambda>i. pc_entry_of (take 16 (drop (446 + 16 * i) buf))) [0..<4]"

text \<open>\<open>junk\<close> is what the buffer of a sector holds before it is read.\<close>

definition get_table ::
  "('drv, 'con, 'w) dev_io \<Rightarrow> u8 list \<Rightarrow> 'drv drive_info \<Rightarrow> u64 \<Rightarrow> 'w
   \<Rightarrow> (pc_partitiontable_entry list \<times> 'w) result option" where
  "get_table io junk di sector w =
     map_option (\<lambda>r. bind_result r (\<lambda>(buf, w'). Inr (table_entries buf, w')))
       (drive_read io (drive_id di) sector 512 junk w)"

partial_function (option) probe_extfilesystems ::
  "('drv, 'con, 'w) dev_io \<Rightarrow> u8 list \<Rightarrow> 'drv drive_info \<Rightarrow> pc_partitiontable_entry \<Rightarrow> u64
   \<Rightarrow> ('drv, 'con) crawl \<Rightarrow> 'w \<Rightarrow> (('drv, 'con) crawl \<times> 'w) result option" where
  "probe_extfilesystems io junk di e relative st w =
     (case get_table io junk di (ucast (first_sector e) + relative) w of
        None \<Rightarrow> None
      | Some (Inl x) \<Rightarrow> Some (Inl x)
      | Some (Inr (es, w1)) \<Rightarrow>
          (let st1 = add_filesystem di (es ! 0) (ucast (first_sector e)) st
           in if is_extended (es ! 1)
              then probe_extfilesystems io junk di (es ! 1)
                     (if relative = 0 then ucast (first_sector e) else relative) st1 w1
              else Some (Inr (st1, w1))))"

fun probe_entries ::
  "('drv, 'con, 'w) dev_io \<Rightarrow> u8 list \<Rightarrow> 'drv drive_info \<Rightarrow> pc_partitiontable_entry list
   \<Rightarrow> ('drv, 'con) crawl \<Rightarrow> 'w \<Rightarrow> (('drv, 'con) crawl \<times> 'w) result option" where
  "probe_entries io junk di [] st w = Some (Inr (st, w))"
| "probe_entries io junk di (e # es) st w =
     (if is_extended e
      then (case probe_extfilesystems io junk di e 0 st w of
              None \<Rightarrow> None
            | Some (Inl x) \<Rightarrow> Some (Inl x)
            | Some (Inr (st1, w1)) \<Rightarrow> probe_entries io junk di es st1 w1)
      else probe_entries io junk di es (add_filesystem di e 0 st) w)"

definition probe_filesystems ::
  "('drv, 'con, 'w) dev_io \<Rightarrow> u8 list \<Rightarrow> 'drv drive_info \<Rightarrow> ('drv, 'con) dev_fs_node \<Rightarrow> 'w
   \<Rightarrow> (('drv, 'con) dev_fs_node \<times> 'w) result option" where
  "probe_filesystems io junk di root w =
     (let root1 = add_device_node di (drive_name di) 0 (drive_length di) root
      in case get_table io junk di 0 w of
           None \<Rightarrow> None
         | Some (Inl x) \<Rightarrow> Some (Inl x)
         | Some (Inr (es, w1)) \<Rightarrow>
             map_option (\<lambda>r. bind_result r (\<lambda>((root2, counter), w2). Inr (root2, w2)))
               (probe_entries io junk di es (root1, 1) w1))"

section \<open>Primary partitions\<close>

text \<open>The specification: a node for the drive and one for each used entry, numbered in order.\<close>

definition partition_nodes ::
  "'drv drive_info \<Rightarrow> nat \<Rightarrow> pc_partitiontable_entry list \<Rightarrow> ('drv, 'con) dev_fs_node list" where
  "partition_nodes di k es =
     map (\<lambda>(i, e). dev_node_drive (drive_name di @ dec i) (drive_id di)
            (of_nat (unat (first_sector e) * unat (drive_block_size di)))
            (of_nat ((unat (first_sector e) + unat (sector_count e)) * unat (drive_block_size di))))
       (enumerate k (filter (\<lambda>e. partition_type_bits e \<noteq> 0) es))"

lemma char_digit: "\<not> is_space (char_of (48 + n :: nat))" if "n < 10"
proof -
  have "(48 + n) mod 256 = 48 + n" using that by simp
  then show ?thesis using that by (simp add: is_space_def)
qed

lemma dec_word: "\<forall>c \<in> set (dec n). \<not> is_space c"
proof (induction n rule: dec.induct)
  case (1 n)
  show ?case using 1 by (cases "n < 10") (simp_all add: dec.simps [of n] char_digit)
qed

lemma next_word_plain: "\<forall>c \<in> set s. \<not> is_space c \<Longrightarrow> next_word s = s"
proof -
  assume h: "\<forall>c \<in> set s. \<not> is_space c"
  then have "dropWhile is_space s = s" by (cases s) simp_all
  then show ?thesis using h by (simp add: next_word_def)
qed

lemma probe_entries_primary:
  assumes name: "\<forall>c \<in> set (drive_name di). \<not> is_space c"
  shows "\<forall>e \<in> set es. \<not> is_extended e \<Longrightarrow> unat counter + length es < 2 ^ 32 \<Longrightarrow>
    \<exists>counter'. probe_entries io junk di es (root, counter) w
      = Some (Inr ((fold (\<lambda>n. add_subnode (Some n)) (partition_nodes di (unat counter) es) root, counter'), w))"
proof (induction es arbitrary: root counter)
  case Nil
  then show ?case by (simp add: partition_nodes_def)
next
  case (Cons e es)
  show ?case
  proof (cases "partition_type_bits e = 0")
    case True
    then show ?thesis using Cons.IH [of counter root] Cons.prems
      by (simp add: add_filesystem_def partition_nodes_def)
  next
    case False
    have w: "next_word (drive_name di @ dec (unat counter)) = drive_name di @ dec (unat counter)"
      using name dec_word [of "unat counter"] by (intro next_word_plain) auto
    have c: "unat (counter + 1) = Suc (unat counter)" using Cons.prems(2) by (simp add: unat_plus_nowrap)
    have a: "(ucast x + 0) * ucast y = (of_nat (unat x * unat y) :: u64)" for x y :: u32
      by simp
    have b: "(ucast x + 0 + ucast z) * ucast y = (of_nat ((unat x + unat z) * unat y) :: u64)" for x y z :: u32
      by simp
    show ?thesis
      using Cons.IH [of "counter + 1" "add_device_node di (drive_name di @ dec (unat counter))
        (of_nat (unat (first_sector e) * unat (drive_block_size di)))
        (of_nat ((unat (first_sector e) + unat (sector_count e)) * unat (drive_block_size di))) root"] Cons.prems False
      by (simp add: add_filesystem_def partition_nodes_def w c a b Let_def add_device_node_def)
  qed
qed

lemma table_entries_chunk:
  "table_entries (chunk f a 512) = map (\<lambda>i. pc_entry_of (chunk f (a + 446 + 16 * i) 16)) [0..<4]"
  unfolding table_entries_def
proof (rule map_cong [OF refl])
  fix i :: nat assume "i \<in> set [0..<4]"
  then have "446 + 16 * i + 16 \<le> 512" by simp
  then show "pc_entry_of (take 16 (drop (446 + 16 * i) (chunk f a 512))) = pc_entry_of (chunk f (a + 446 + 16 * i) 16)"
    by (subst take_drop_chunk) (simp_all add: add.assoc)
qed

text \<open>The table is read at the number of the sector, taken for the address of a byte.\<close>

lemma get_table_reads:
  assumes "drive_laws io (drive_id di) contents cap" and "length junk = 512" and "unat sector + 512 \<le> cap"
  shows "\<exists>w'. get_table io junk di sector w
      = Some (Inr (map (\<lambda>i. pc_entry_of (chunk (contents w) (unat sector + 446 + 16 * i) 16)) [0..<4], w'))
    \<and> contents w' = contents w"
proof -
  have "(0 :: u32) < 512 \<and> unat sector + unat (512 :: u32) \<le> cap \<and> unat (512 :: u32) \<le> length junk" using assms(2,3) by simp
  from assms(1) [unfolded drive_laws_def, rule_format, OF this, of w]
  show ?thesis using assms(2) by (auto simp: get_table_def table_entries_chunk simp del: upt_rec_numeral)
qed

text \<open>The crawler makes a node for the drive and one for each primary partition. For a
  table without extended partitions the device file system gets, beside what it has, the whole
  drive under its name and for each entry that is used, in order, a node with the name of the
  drive and the next number, from 1 on, that shows the bytes from the first sector of the
  partition up to the sector behind its last one.\<close>

theorem probe_primary_partitions:
  assumes "drive_laws io (drive_id di) contents cap" and "length junk = 512" and "512 \<le> cap"
    and "\<forall>c \<in> set (drive_name di). \<not> is_space c"
    and es: "es = map (\<lambda>i. pc_entry_of (map (contents w) [446 + 16 * i ..< 446 + 16 * i + 16])) [0..<4]"
    and "\<forall>e \<in> set es. \<not> is_extended e"
  shows "\<exists>w'. probe_filesystems io junk di root w
      = Some (Inr (fold (\<lambda>n. add_subnode (Some n))
          (dev_node_drive (drive_name di) (drive_id di) 0 (drive_length di) # partition_nodes di 1 es) root, w'))
    \<and> contents w' = contents w"
proof -
  have es': "es = map (\<lambda>i. pc_entry_of (chunk (contents w) (unat (0 :: u64) + 446 + 16 * i) 16)) [0..<4]"
    by (simp add: es chunk_def)
  obtain w' where t: "get_table io junk di 0 w = Some (Inr (es, w'))" "contents w' = contents w"
    using get_table_reads [OF assms(1,2), of 0 w] assms(3) unfolding es' by auto
  have "length es = 4" by (simp add: es)
  then show ?thesis
    using probe_entries_primary [OF assms(4,6), of 1 io junk "add_device_node di (drive_name di) 0 (drive_length di) root" w'] t
    by (auto simp: probe_filesystems_def add_device_node_def Let_def)
qed

section \<open>Extended partitions\<close>

text \<open>The table of an extended partition is read from the wrong place. What is found for
  it depends only on the 512 bytes of the drive from the byte on whose address is the number of
  its first sector: two drives with the same bytes there give the same nodes, whatever the
  sector itself holds, which lies elsewhere for every sector but the first.\<close>

theorem extended_sector_ignored:
  assumes "drive_laws io (drive_id di) contents cap" and "length junk = 512"
    and "unat (first_sector e) + 512 \<le> cap"
    and agree: "\<forall>i. unat (first_sector e) \<le> i \<and> i < unat (first_sector e) + 512 \<longrightarrow> contents w1 i = contents w2 i"
    and "\<not> is_extended (pc_entry_of (chunk (contents w1) (unat (first_sector e) + 462) 16))"
  shows "\<exists>st' w1' w2'. probe_extfilesystems io junk di e 0 st w1 = Some (Inr (st', w1'))
    \<and> probe_extfilesystems io junk di e 0 st w2 = Some (Inr (st', w2'))"
proof -
  let ?a = "unat (first_sector e)"
  let ?es = "\<lambda>f. map (\<lambda>i. pc_entry_of (chunk f (?a + 446 + 16 * i) 16)) [0..<4]"
  have a: "unat (ucast (first_sector e) + 0 :: u64) = ?a" by (simp add: unat_ucast64)
  have same: "?es (contents w1) = ?es (contents w2)"
  proof (rule map_cong [OF refl])
    fix i :: nat assume "i \<in> set [0..<4]"
    then have i: "i < 4" by simp
    have "chunk (contents w1) (?a + 446 + 16 * i) 16 = chunk (contents w2) (?a + 446 + 16 * i) 16"
      by (rule nth_equalityI) (use i agree in simp_all)
    then show "pc_entry_of (chunk (contents w1) (?a + 446 + 16 * i) 16) = pc_entry_of (chunk (contents w2) (?a + 446 + 16 * i) 16)"
      by simp
  qed
  have r: "\<exists>w'. get_table io junk di (ucast (first_sector e) + 0) w = Some (Inr (?es (contents w), w'))" for w
    using get_table_reads [OF assms(1,2), of "ucast (first_sector e) + 0" w] assms(3) unfolding a by blast
  obtain w1' w2' where t: "get_table io junk di (ucast (first_sector e) + 0) w1 = Some (Inr (?es (contents w1), w1'))"
      "get_table io junk di (ucast (first_sector e) + 0) w2 = Some (Inr (?es (contents w1), w2'))"
    using r [of w1] r [of w2] unfolding same by blast
  have one: "?es (contents w1) ! 1 = pc_entry_of (chunk (contents w1) (?a + 462) 16)"
    by (simp add: nth_map add.commute del: upt_rec_numeral)
  have step: "probe_extfilesystems io junk di e 0 st w = Some (Inr (add_filesystem di (es ! 0) (ucast (first_sector e)) st, w'))"
    if "get_table io junk di (ucast (first_sector e) + 0) w = Some (Inr (es, w'))" "\<not> is_extended (es ! 1)" for es w w'
    using that by (subst probe_extfilesystems.simps) simp
  show ?thesis using step [OF t(1)] step [OF t(2)] assms(5) unfolding one by blast
qed

text \<open>A table that names itself as the next one hangs the kernel. When the second entry of
  the table of an extended partition is extended itself and its first sector is 0, the same
  table is read again and again, and the crawler never returns.\<close>

theorem self_linked_table_hangs:
  assumes "drive_laws io (drive_id di) contents cap" and "length junk = 512"
    and "unat (first_sector e) + 512 \<le> cap" and "first_sector e \<noteq> 0"
    and nxt: "nxt = pc_entry_of (chunk (contents w) (unat (first_sector e) + 462) 16)"
    and "is_extended nxt" and "first_sector nxt = 0"
  shows "probe_extfilesystems io junk di e 0 st w = None"
proof -
  let ?E = "ucast (first_sector e) :: u64" and ?f = "contents w"
  have E: "unat ?E = unat (first_sector e)" by (simp add: unat_ucast64)
  have E0: "?E \<noteq> 0" using assms(4) E by (metis unat_0 word_unat_eq_iff)
  define here where "here = (\<lambda>x rel. (x = e \<and> rel = 0) \<or> (x = nxt \<and> rel = ?E))"
  define P where "P = (\<lambda>io' junk' di' x rel (st :: ('a, 'b) crawl) w' (y :: (('a, 'b) crawl \<times> 'c) result).
    io' = io \<and> junk' = junk \<and> di' = di \<and> contents w' = ?f \<longrightarrow> \<not> here x rel)"
  have addr: "ucast (first_sector x) + rel = ?E \<and> (if rel = 0 then ucast (first_sector x) else rel) = ?E" if "here x rel" for x rel
    using that assms(7) E0 by (auto simp: here_def)
  have "P io junk di x rel st w' y" if "probe_extfilesystems io junk di x rel st w' = Some y" for x rel st w' y
  proof (rule probe_extfilesystems.raw_induct [OF _ that])
    fix f io' junk' di' and x :: pc_partitiontable_entry and rel st w' y
    assume IH: "\<And>io' junk' di' x rel st w' y. f io' junk' di' x rel st w' = Some y \<Longrightarrow> P io' junk' di' x rel st w' y"
      and body: "(case get_table io' junk' di' (ucast (first_sector x) + rel) w' of
        None \<Rightarrow> None
      | Some (Inl x) \<Rightarrow> Some (Inl x)
      | Some (Inr (es, w1)) \<Rightarrow>
          (let st1 = add_filesystem di' (es ! 0) (ucast (first_sector x)) st
           in if is_extended (es ! 1)
              then f io' junk' di' (es ! 1) (if rel = 0 then ucast (first_sector x) else rel) st1 w1
              else Some (Inr (st1, w1)))) = Some y"
    show "P io' junk' di' x rel st w' y"
      unfolding P_def
    proof (intro impI notI)
      assume h: "io' = io \<and> junk' = junk \<and> di' = di \<and> contents w' = ?f" and x: "here x rel"
      let ?es = "map (\<lambda>i. pc_entry_of (chunk ?f (unat ?E + 446 + 16 * i) 16)) [0..<4]"
      obtain w1 where t: "get_table io junk di ?E w' = Some (Inr (?es, w1))" "contents w1 = ?f"
        using get_table_reads [OF assms(1,2), of ?E w'] assms(3) h unfolding E by auto
      have one: "?es ! 1 = nxt" by (simp add: nxt E nth_map add.commute del: upt_rec_numeral)
      have "f io junk di nxt ?E (add_filesystem di (?es ! 0) (ucast (first_sector x)) st) w1 = Some y"
        using body h addr [OF x] t(1) one assms(6) by (simp del: upt_rec_numeral)
      then have "P io junk di nxt ?E (add_filesystem di (?es ! 0) (ucast (first_sector x)) st) w1 y" by (rule IH)
      then show False using t(2) by (simp add: P_def here_def)
    qed
  qed
  then have "probe_extfilesystems io junk di e 0 st w \<noteq> Some y" for y unfolding P_def here_def by blast
  then show ?thesis by (cases "probe_extfilesystems io junk di e 0 st w") blast+
qed

text \<open>The cylinder of an entry is always 0: its high bits and its low bits are combined by and.\<close>

theorem chs_cylinder_zero: "chs_cylinder chs = 0"
proof (rule bit_word_eqI)
  fix n assume "n < LENGTH(16)"
  show "bit (chs_cylinder chs) n = bit (0 :: u16) n"
  proof (cases "n < 8")
    case True
    then have "n \<in> {0, 1, 2, 3, 4, 5, 6, 7}" by auto
    then show ?thesis by (auto simp: chs_cylinder_def bit_simps)
  next
    case False
    then show ?thesis by (auto simp: chs_cylinder_def bit_simps bit_ucast_iff dest: bit_imp_le_length)
  qed
qed

section \<open>Samples\<close>

definition ram_drive :: "unit drive_info" where
  "ram_drive = \<lparr>drive_id = (), drive_name = ''hda'', drive_block_size = 512, drive_length = 0x100000\<rparr>"

text \<open>One native partition of 7 sectors from sector 3 on.\<close>

definition one_partition :: "nat \<Rightarrow> u8" where
  "one_partition i = (if i = 450 then 0x83 else if i = 454 then 3 else if i = 458 then 7 else 0)"

definition root_nodes :: "(unit, unit) dev_fs_node \<Rightarrow> (string \<times> u64 \<times> u64) list" where
  "root_nodes root = map (\<lambda>(k, n). (k, dn_first n, dn_last n)) (dn_subnodes root)"

theorem probe_primary_partitions_witness:
  "\<exists>root w'. probe_filesystems ram_dev_io (replicate 512 0) ram_drive dev_fs_new one_partition = Some (Inr (root, w'))
    \<and> root_nodes root = [(''hda'', 0, 0x100000), (''hda1'', 1536, 5120)]"
proof -
  let ?es = "map (\<lambda>i. pc_entry_of (map one_partition [446 + 16 * i ..< 446 + 16 * i + 16])) [0..<4]"
  define es where "es = ?es"
  have four: "[0..<4] = [0 :: nat, 1, 2, 3]" by (simp add: upt_rec)
  have es: "es = [\<lparr>pe_bootable = 0, first_chs = [0, 0, 0], partition_type_bits = 0x83, last_chs = [0, 0, 0], first_sector = 3, sector_count = 7\<rparr>,
      \<lparr>pe_bootable = 0, first_chs = [0, 0, 0], partition_type_bits = 0, last_chs = [0, 0, 0], first_sector = 0, sector_count = 0\<rparr>,
      \<lparr>pe_bootable = 0, first_chs = [0, 0, 0], partition_type_bits = 0, last_chs = [0, 0, 0], first_sector = 0, sector_count = 0\<rparr>,
      \<lparr>pe_bootable = 0, first_chs = [0, 0, 0], partition_type_bits = 0, last_chs = [0, 0, 0], first_sector = 0, sector_count = 0\<rparr>]"
    unfolding es_def four list.map by (simp add: pc_entry_of_def one_partition_def le32_def)
  have pn: "partition_nodes ram_drive 1 es = [dev_node_drive ''hda1'' () 1536 5120]"
  proof -
    have "char_of (49 :: nat) = CHR ''1''" by code_simp
    then show ?thesis by (simp add: es partition_nodes_def ram_drive_def dec.simps)
  qed
  have "root_nodes (fold (\<lambda>n. add_subnode (Some n)) (dev_node_drive (drive_name ram_drive) (drive_id ram_drive) 0
        (drive_length ram_drive) # partition_nodes ram_drive 1 es) dev_fs_new)
      = [(''hda'', 0, 0x100000), (''hda1'', 1536, 5120)]"
    unfolding pn by (simp add: ram_drive_def dev_fs_new_def dev_node_directory_def dev_node_drive_def root_nodes_def)
  moreover have p: "\<forall>e \<in> set es. \<not> is_extended e" by (simp add: es is_extended_def)
  have n: "\<forall>c \<in> set (drive_name ram_drive). \<not> is_space c" by code_simp
  have "\<exists>w'. probe_filesystems ram_dev_io (replicate 512 0) ram_drive dev_fs_new one_partition
      = Some (Inr (fold (\<lambda>n. add_subnode (Some n)) (dev_node_drive (drive_name ram_drive) (drive_id ram_drive) 0
        (drive_length ram_drive) # partition_nodes ram_drive 1 es) dev_fs_new, w')) \<and> w' = one_partition"
    by (rule probe_primary_partitions [where contents = "\<lambda>w. w" and w = one_partition, OF ram_dev_laws [where cap = 512] _ _ n es_def p])
      simp_all
  ultimately show ?thesis by blast
qed

definition ext_entry :: pc_partitiontable_entry where
  "ext_entry = \<lparr>pe_bootable = 0, first_chs = [0, 0, 0], partition_type_bits = 5, last_chs = [0, 0, 0],
     first_sector = 4, sector_count = 9\<rparr>"

definition self_linked :: "nat \<Rightarrow> u8" where
  "self_linked i = (if i = 470 then 5 else 0)"

theorem self_linked_table_hangs_witness:
  "probe_extfilesystems ram_dev_io (replicate 512 0) ram_drive ext_entry 0 (dev_fs_new, 1) self_linked = None"
proof -
  have n: "pc_entry_of (chunk self_linked (unat (first_sector ext_entry) + 462) 16) = ext_entry\<lparr>first_sector := 0, sector_count := 0\<rparr>"
    by (simp add: chunk_def pc_entry_of_def self_linked_def le32_def ext_entry_def)
  show ?thesis
    by (rule self_linked_table_hangs [OF ram_dev_laws [where cap = 1000] _ _ _ refl])
      (simp_all only: n, simp_all add: ext_entry_def is_extended_def)
qed

theorem extended_sector_ignored_witness:
  "\<exists>st' w1' w2'. probe_extfilesystems ram_dev_io (replicate 512 0) ram_drive ext_entry 0 (dev_fs_new, 1) (\<lambda>i. 0) = Some (Inr (st', w1'))
    \<and> probe_extfilesystems ram_dev_io (replicate 512 0) ram_drive ext_entry 0 (dev_fs_new, 1) (\<lambda>i. if 2048 \<le> i then 0x83 else 0)
      = Some (Inr (st', w2'))"
proof -
  have n: "pc_entry_of (chunk (\<lambda>i. 0) (unat (first_sector ext_entry) + 462) 16) = ext_entry\<lparr>first_sector := 0, sector_count := 0, partition_type_bits := 0\<rparr>"
    by (simp add: chunk_def pc_entry_of_def le32_def ext_entry_def)
  show ?thesis
    by (rule extended_sector_ignored [OF ram_dev_laws [where cap = 1000]])
      (simp_all only: n, simp_all add: ext_entry_def is_extended_def)
qed

end
