(* ===== verification/Clean_Path.thy ===== *)
theory Clean_Path
  imports Kern_Prelude
begin

text \<open>
  The path parser i_fs::clean_path (kern/fs/i_fs_node_operations.cpp): a character
  loop that splits a path into tokens and resolves dots while it reads.
\<close>

section \<open>The parser\<close>

record cp_state =
  cp_tokens :: "string list"
  cp_token :: string
  deletable_tokens :: nat
  first_token :: bool

definition cp_init :: cp_state where
  "cp_init = \<lparr>cp_tokens = [], cp_token = [], deletable_tokens = 0, first_token = True\<rparr>"

definition cp_slash :: "cp_state \<Rightarrow> cp_state" where
  "cp_slash s =
     (let tok = (if first_token s \<and> cp_token s = [] then ''/'' else cp_token s)
      in if tok \<noteq> [] \<and> (first_token s \<or> tok \<noteq> ''.'')
         then s\<lparr>deletable_tokens := (if tok \<noteq> ''/'' then deletable_tokens s + 1 else deletable_tokens s),
                cp_tokens := cp_tokens s @ [tok], first_token := False, cp_token := []\<rparr>
         else s\<lparr>cp_token := []\<rparr>)"

definition cp_dot :: "cp_state \<Rightarrow> cp_state" where
  "cp_dot s =
     (let tok = cp_token s @ ''.''
      in if tok = ''..''
         then (if deletable_tokens s > 0
               then s\<lparr>cp_tokens := butlast (cp_tokens s), deletable_tokens := deletable_tokens s - 1,
                      cp_token := []\<rparr>
               else s\<lparr>cp_tokens := cp_tokens s @ [tok], first_token := False, cp_token := []\<rparr>)
         else s\<lparr>cp_token := tok\<rparr>)"

definition cp_step :: "cp_state \<Rightarrow> char \<Rightarrow> cp_state" where
  "cp_step s c =
     (if c = CHR ''/'' then cp_slash s
      else if c = CHR ''.'' then cp_dot s
      else s\<lparr>cp_token := cp_token s @ [c]\<rparr>)"

definition clean_path :: "string \<Rightarrow> string list" where
  "clean_path path =
     (let s = foldl cp_step cp_init path
      in if cp_token s \<noteq> [] then cp_tokens s @ [cp_token s] else cp_tokens s)"

section \<open>Reference: normalising a list of components\<close>

definition path_of :: "string list \<Rightarrow> string" where
  "path_of cs = concat (map (\<lambda>c. CHR ''/'' # c) cs)"

text \<open>
  \<open>k\<close> components ''..'' that lead above the root are kept, then come the names. A name
  has no slash and does not begin with two dots.
\<close>

fun norm_step :: "nat \<times> string list \<Rightarrow> string \<Rightarrow> nat \<times> string list" where
  "norm_step (k, ds) c =
     (if c = [] \<or> c = ''.'' then (k, ds)
      else if c = ''..'' then (if ds \<noteq> [] then (k, butlast ds) else (k + 1, ds))
      else (k, ds @ [c]))"

definition normalize :: "string list \<Rightarrow> string list" where
  "normalize cs = (case foldl norm_step (0, []) cs of (k, ds) \<Rightarrow> replicate k ''..'' @ ds)"

definition good_name :: "string \<Rightarrow> bool" where
  "good_name c \<longleftrightarrow> c \<noteq> [] \<and> CHR ''/'' \<notin> set c \<and> take 2 c \<noteq> ''..''"

definition component :: "string \<Rightarrow> bool" where
  "component c \<longleftrightarrow> c = [] \<or> c = ''..'' \<or> good_name c"

text \<open>The parser between two slashes: the last component may still be pending.\<close>

definition cp_rep :: "cp_state \<Rightarrow> nat \<Rightarrow> string list \<Rightarrow> string \<Rightarrow> bool" where
  "cp_rep s k ds pend \<longleftrightarrow> cp_tokens s = ''/'' # replicate k ''..'' @ ds
     \<and> deletable_tokens s = length ds \<and> \<not> first_token s \<and> cp_token s = pend
     \<and> (pend = [] \<or> good_name pend)"

lemma take2_prefix:
  "take 2 (xs @ ys) \<noteq> ''..'' \<Longrightarrow> xs \<noteq> ''..''"
  by auto

lemma cp_name:
  "CHR ''/'' \<notin> set c \<Longrightarrow> take 2 (cp_token s @ c) \<noteq> ''..'' \<Longrightarrow>
   foldl cp_step s c = s\<lparr>cp_token := cp_token s @ c\<rparr>"
proof (induction c arbitrary: s)
  case Nil
  then show ?case by simp
next
  case (Cons a c)
  have "cp_token s @ [a] \<noteq> ''..''"
    using take2_prefix [of "cp_token s @ [a]" c] Cons.prems(2) by simp
  then have "cp_step s a = s\<lparr>cp_token := cp_token s @ [a]\<rparr>"
    using Cons.prems(1) by (auto simp: cp_step_def cp_dot_def Let_def)
  then show ?case using Cons.IH [of "s\<lparr>cp_token := cp_token s @ [a]\<rparr>"] Cons.prems by simp
qed

text \<open>A component read with nothing pending.\<close>

lemma cp_component:
  assumes "cp_rep s k ds []" "component c"
  shows "\<exists>k' ds'. cp_rep (foldl cp_step s c) k' ds' (if c = ''..'' then [] else c)
    \<and> (k', ds') = (if c = ''..'' then norm_step (k, ds) c else (k, ds))"
proof -
  note S = assms(1) [unfolded cp_rep_def]
  show ?thesis
  proof (cases "c = ''..''")
    case True
    have d: "foldl cp_step s c = cp_dot (cp_dot s)"
      by (simp add: True cp_step_def)
    have "cp_dot s = s\<lparr>cp_token := ''.''\<rparr>" using S by (simp add: cp_dot_def)
    then have e: "foldl cp_step s c = (if length ds > 0
        then s\<lparr>cp_tokens := butlast (cp_tokens s), deletable_tokens := length ds - 1, cp_token := []\<rparr>
        else s\<lparr>cp_tokens := cp_tokens s @ [''..''], first_token := False, cp_token := []\<rparr>)"
      using S unfolding d by (simp add: cp_dot_def)
    show ?thesis
    proof (cases ds rule: rev_cases)
      case Nil
      then have "foldl cp_step s c = s\<lparr>cp_tokens := cp_tokens s @ [''..''], first_token := False, cp_token := []\<rparr>"
        using e by simp
      moreover have "replicate k x @ [x] = replicate (k + 1) x" for x :: string
        by (simp add: replicate_append_same)
      ultimately have "cp_rep (foldl cp_step s c) (k + 1) [] []"
        using S Nil by (simp add: cp_rep_def replicate_append_same)
      then show ?thesis using True Nil by auto
    next
      case (snoc ds' d)
      then have "foldl cp_step s c = s\<lparr>cp_tokens := butlast (cp_tokens s), deletable_tokens := length ds - 1, cp_token := []\<rparr>"
        using e by simp
      moreover have "butlast (cp_tokens s) = ''/'' # replicate k ''..'' @ ds'"
        using S snoc by (simp add: butlast_append)
      ultimately have "cp_rep (foldl cp_step s c) k ds' []"
        using S snoc by (simp add: cp_rep_def)
      then show ?thesis using True snoc by auto
    qed
  next
    case False
    show ?thesis
    proof (cases "c = []")
      case True
      then show ?thesis using assms(1) by (auto simp: cp_rep_def)
    next
      case ne: False
      then have g: "good_name c" using assms(2) False by (simp add: component_def)
      then have "foldl cp_step s c = s\<lparr>cp_token := c\<rparr>"
        using cp_name [of c s] S by (simp add: good_name_def)
      then have "cp_rep (foldl cp_step s c) k ds c" using S g by (simp add: cp_rep_def)
      then show ?thesis using False by auto
    qed
  qed
qed

text \<open>A slash takes the pending component in.\<close>

lemma cp_flush:
  assumes "cp_rep s k ds pend"
  shows "cp_rep (cp_step s (CHR ''/'')) k (if pend = [] \<or> pend = ''.'' then ds else ds @ [pend]) []"
proof -
  have "pend \<noteq> ''/''" using assms by (auto simp: cp_rep_def good_name_def)
  then show ?thesis
    using assms by (auto simp: cp_rep_def cp_step_def cp_slash_def Let_def)
qed

lemma path_of_snoc: "path_of (cs @ [c]) = path_of cs @ CHR ''/'' # c"
  by (simp add: path_of_def)

lemma cp_path:
  assumes "cs \<noteq> []" "list_all component cs"
  shows "\<exists>k ds pend. cp_rep (foldl cp_step cp_init (path_of cs)) k ds pend
    \<and> (pend = [] \<longrightarrow> foldl norm_step (0, []) cs = (k, ds))
    \<and> (pend \<noteq> [] \<longrightarrow> pend = last cs \<and> pend \<noteq> ''..''
         \<and> foldl norm_step (0, []) cs = (k, if pend = ''.'' then ds else ds @ [pend]))"
  using assms
proof (induction cs rule: rev_induct)
  case Nil
  then show ?case by simp
next
  case (snoc c cs)
  let ?s = "foldl cp_step cp_init (path_of cs)"
  have comp: "component c" using snoc.prems by simp
  have "\<exists>k ds. cp_rep (cp_step ?s (CHR ''/'')) k ds [] \<and> foldl norm_step (0, []) cs = (k, ds)"
  proof (cases "cs = []")
    case True
    then show ?thesis
      by (auto simp: path_of_def cp_rep_def cp_init_def cp_step_def cp_slash_def)
  next
    case False
    with snoc obtain k ds pend where rep: "cp_rep ?s k ds pend"
      and "pend = [] \<longrightarrow> foldl norm_step (0, []) cs = (k, ds)"
      and "pend \<noteq> [] \<longrightarrow> foldl norm_step (0, []) cs = (k, if pend = ''.'' then ds else ds @ [pend])"
      by auto
    with cp_flush [OF rep] show ?thesis by (cases "pend = []") auto
  qed
  then obtain k ds where rep: "cp_rep (cp_step ?s (CHR ''/'')) k ds []"
    and norm: "foldl norm_step (0, []) cs = (k, ds)" by blast
  have run: "foldl cp_step cp_init (path_of (cs @ [c])) = foldl cp_step (cp_step ?s (CHR ''/'')) c"
    by (simp add: path_of_snoc)
  obtain k' ds' where r: "cp_rep (foldl cp_step (cp_step ?s (CHR ''/'')) c) k' ds' (if c = ''..'' then [] else c)"
    and n: "(k', ds') = (if c = ''..'' then norm_step (k, ds) c else (k, ds))"
    using cp_component [OF rep comp] by blast
  show ?case
  proof (cases "c = ''..'' \<or> c = []")
    case True
    then have "cp_rep (foldl cp_step cp_init (path_of (cs @ [c]))) k' ds' []"
      using r unfolding run by (auto split: if_splits)
    moreover have "foldl norm_step (0, []) (cs @ [c]) = (k', ds')"
      using True n norm by auto
    ultimately show ?thesis by blast
  next
    case False
    then have "cp_rep (foldl cp_step cp_init (path_of (cs @ [c]))) k ds c"
      using r n unfolding run by auto
    moreover have "foldl norm_step (0, []) (cs @ [c]) = (k, if c = ''.'' then ds else ds @ [c])"
      using False norm by auto
    ultimately show ?thesis using False
      by (intro exI [of _ k] exI [of _ ds] exI [of _ c]) auto
  qed
qed

lemma clean_path_eq:
  assumes "cs \<noteq> []" and "list_all component cs"
  shows "clean_path (path_of cs) = ''/'' # normalize cs @ (if last cs = ''.'' then [''.''] else [])"
proof -
  obtain k ds pend where r: "cp_rep (foldl cp_step cp_init (path_of cs)) k ds pend"
    and p0: "pend = [] \<longrightarrow> foldl norm_step (0, []) cs = (k, ds)"
    and p1: "pend \<noteq> [] \<longrightarrow> pend = last cs \<and> pend \<noteq> ''..''
         \<and> foldl norm_step (0, []) cs = (k, if pend = ''.'' then ds else ds @ [pend])"
    using cp_path [OF assms] by blast
  have cl: "clean_path (path_of cs) = ''/'' # replicate k ''..'' @ ds @ (if pend = [] then [] else [pend])"
    using r by (simp add: clean_path_def cp_rep_def Let_def)
  show ?thesis
  proof (cases "pend = []")
    case True
    have "last cs \<noteq> ''.''"
    proof
      assume l: "last cs = ''.''"
      obtain ds0 where cs: "cs = ds0 @ [''.'']" using assms(1) l by (metis append_butlast_last_id)
      have "cp_token (foldl cp_step cp_init (path_of cs)) = ''.''"
        by (simp add: cs path_of_snoc cp_step_def cp_slash_def cp_dot_def Let_def)
      then show False using r True by (simp add: cp_rep_def)
    qed
    then show ?thesis using True cl p0 by (simp add: normalize_def)
  next
    case False
    then show ?thesis using cl p1 by (auto simp: normalize_def)
  qed
qed

text \<open>C24: clean_path agrees with the reference. For an absolute path of components
  that are empty, a dot, two dots or names, it returns the root and the normalised
  components: empty ones and single dots vanish, two dots take the name before them
  away and stay only where no name is left. The one exception is a single dot at the
  end, which is kept as a token.\<close>

theorem clean_path_normalizes:
  assumes "cs \<noteq> []" and "list_all component cs"
  shows "clean_path (path_of cs) = ''/'' # normalize cs @ (if last cs = ''.'' then [''.''] else [])"
  by (rule clean_path_eq [OF assms])

theorem clean_path_normalizes_witness:
  "clean_path ''//usr/./lib/../share/'' = [''/'', ''usr'', ''share'']"
proof -
  have "list_all component [[], ''usr'', ''.'', ''lib'', ''..'', ''share'', []]"
    by (simp add: component_def good_name_def)
  from clean_path_normalizes [OF _ this] show ?thesis
    by (simp add: path_of_def normalize_def)
qed

text \<open>Names survive the round trip: the path made of a list of names, each not empty
  and not dots, is split into exactly these names behind the root.\<close>

theorem clean_path_roundtrip:
  assumes "names \<noteq> []" and "list_all (\<lambda>c. good_name c \<and> c \<noteq> ''.'') names"
  shows "clean_path (path_of names) = ''/'' # names"
proof -
  have n: "foldl norm_step (k, ds) ns = (k, ds @ ns)"
    if "list_all (\<lambda>c. good_name c \<and> c \<noteq> ''.'') ns" for k ds ns
    using that by (induction ns arbitrary: ds) (auto simp: good_name_def)
  have "list_all component names" using assms(2) by (auto simp: list_all_iff component_def)
  moreover have "last names \<noteq> ''.''" using assms last_in_set [OF assms(1)] unfolding list_all_iff by blast
  ultimately show ?thesis
    using clean_path_eq [OF assms(1)] n [OF assms(2), of 0 "[]"] by (simp add: normalize_def)
qed

theorem clean_path_roundtrip_witness:
  "clean_path ''/dev/hda1/.profile'' = [''/'', ''dev'', ''hda1'', ''.profile'']"
  using clean_path_roundtrip [of "[''dev'', ''hda1'', ''.profile'']"]
  by (simp add: path_of_def good_name_def)

end
