(* ===== verification/Fs_Nodes.thy ===== *)
theory Fs_Nodes
  imports Fat_Node Partition_Table Clean_Path
begin

text \<open>
  The virtual file system (kern/fs/i_fs_node_operations.cpp, i_fs_mounting.cpp,
  i_fs_dummy_node.cpp, i_fs_node.cpp): the map of mounted file systems, the map of open
  nodes with their use counts, and the resolution of a path over both and over the nodes of
  the device and the FAT file systems.
\<close>

section \<open>Nodes\<close>

text \<open>A node is one of the classes derived from i_fs_node; a FAT node has its file system.\<close>

datatype ('drv, 'con, 'w) vnode =
    V_dummy string bool bool
  | V_dev "('drv, 'con) dev_fs_node"
  | V_fat "'w container" fat_fs fat_fs_node

fun v_path :: "('drv, 'con, 'w) vnode \<Rightarrow> string" where
  "v_path (V_dummy path fs_root dir) = path"
| "v_path (V_dev n) = dn_path n"
| "v_path (V_fat con fs n) = node_path n"

fun v_directory :: "('drv, 'con, 'w) vnode \<Rightarrow> bool" where
  "v_directory (V_dummy path fs_root dir) = dir"
| "v_directory (V_dev n) = dn_directory n"
| "v_directory (V_fat con fs n) = node_directory n"

text \<open>
  What the model does not fix: the drives and consoles, what is read behind the last entry
  of a map (of device nodes, of open or mounted nodes), and the bytes new memory holds.
\<close>

record ('drv, 'con, 'w) vfs_env =
  env_io :: "('drv, 'con, 'w) dev_io"
  past_subnodes :: "('drv, 'con) dev_fs_node option result"
  past_nodes :: "nat option result"
  boot_memory :: "u8 list"
  table_memory :: "u32 \<Rightarrow> u8 list"

fun v_open_subnode ::
  "('drv, 'con, 'w) vfs_env \<Rightarrow> ('drv, 'con, 'w) vnode \<Rightarrow> string \<Rightarrow> string \<Rightarrow> 'w
   \<Rightarrow> (('drv, 'con, 'w) vnode option \<times> 'w) result option" where
  "v_open_subnode env (V_dummy path fs_root dir) fullname subname w = Some (Inr (None, w))"
| "v_open_subnode env (V_dev n) fullname subname w =
     Some (bind_result (dev_open_subnode (past_subnodes env) n fullname subname)
             (\<lambda>r. Inr (map_option V_dev r, w)))"
| "v_open_subnode env (V_fat con fs n) fullname subname w =
     map_option (\<lambda>r. bind_result r (\<lambda>(sub, w'). Inr (map_option (V_fat con fs) sub, w')))
       (fat_open_subnode con fs n fullname subname w)"

fun v_read ::
  "('drv, 'con, 'w) vfs_env \<Rightarrow> ('drv, 'con, 'w) vnode \<Rightarrow> u64 \<Rightarrow> u32 \<Rightarrow> u8 list \<Rightarrow> 'w
   \<Rightarrow> (u8 list \<times> 'w) result option" where
  "v_read env (V_dummy path fs_root dir) offset len buf w = Some (Inr (buf, w))"
| "v_read env (V_dev n) offset len buf w = dev_node_read (env_io env) n offset len buf w"
| "v_read env (V_fat con fs n) offset len buf w = fat_node_read con fs n offset len buf w"

fun v_write ::
  "('drv, 'con, 'w) vfs_env \<Rightarrow> ('drv, 'con, 'w) vnode \<Rightarrow> u64 \<Rightarrow> u32 \<Rightarrow> u8 list \<Rightarrow> 'w \<Rightarrow> 'w result option" where
  "v_write env (V_dummy path fs_root dir) offset len buf w = Some (Inr w)"
| "v_write env (V_dev n) offset len buf w = dev_node_write (env_io env) n offset len buf w"
| "v_write env (V_fat con fs n) offset len buf w =
     map_option (\<lambda>r. bind_result r (\<lambda>(_, w'). Inr w')) (fat_node_write con fs n offset len buf w)"

fun v_length :: "('drv, 'con, 'w) vnode \<Rightarrow> u64" where
  "v_length (V_dummy path fs_root dir) = 0"
| "v_length (V_dev n) = dev_node_length n"
| "v_length (V_fat con fs n) = fat_node_length n"

text \<open>The container of a file system is any node.\<close>

definition v_container :: "('drv, 'con, 'w) vfs_env \<Rightarrow> ('drv, 'con, 'w) vnode \<Rightarrow> 'w container" where
  "v_container env n =
     \<lparr>c_read = (\<lambda>a xs w. case v_read env n a (of_nat (length xs)) xs w of Some (Inr r) \<Rightarrow> r | _ \<Rightarrow> (xs, w)),
      c_write = (\<lambda>a xs w. case v_write env n a (of_nat (length xs)) xs w of Some (Inr w') \<Rightarrow> w' | _ \<Rightarrow> w)\<rparr>"

section \<open>The state\<close>

text \<open>Nodes are shared: pointers are numbers, and a node carries the count of its uses.\<close>

record ('drv, 'con, 'w) vfs =
  node_heap :: "nat \<Rightarrow> (u32 \<times> ('drv, 'con, 'w) vnode) option"
  node_next :: nat
  open_nodes :: "string \<Rightarrow> nat option"
  mounted_filesystems :: "string \<Rightarrow> nat option"
  dev_root :: "('drv, 'con) dev_fs_node"
  world :: 'w

definition i_fs_init :: "('drv, 'con, 'w) vfs \<Rightarrow> ('drv, 'con, 'w) vfs" where
  "i_fs_init s = s\<lparr>mounted_filesystems := Map.empty, open_nodes := Map.empty\<rparr>"

definition new_node :: "('drv, 'con, 'w) vnode \<Rightarrow> ('drv, 'con, 'w) vfs \<Rightarrow> nat \<times> ('drv, 'con, 'w) vfs" where
  "new_node n s =
     (node_next s, s\<lparr>node_heap := (node_heap s)(node_next s \<mapsto> (0, n)), node_next := node_next s + 1\<rparr>)"

definition deref :: "nat \<Rightarrow> ('drv, 'con, 'w) vfs \<Rightarrow> (u32 \<times> ('drv, 'con, 'w) vnode) result" where
  "deref p s = (case node_heap s p of None \<Rightarrow> Inl Wild_access | Some c \<Rightarrow> Inr c)"

section \<open>Opening and closing nodes\<close>

definition mark_open :: "nat option \<Rightarrow> ('drv, 'con, 'w) vfs \<Rightarrow> ('drv, 'con, 'w) vfs result" where
  "mark_open node s =
     (case node of
        None \<Rightarrow> Inr s
      | Some p \<Rightarrow> bind_result (deref p s) (\<lambda>(u, n).
          if v_path n = [] then Inr s
          else Inr (s\<lparr>node_heap := (node_heap s)(p \<mapsto> (u + 1, n)), open_nodes := (open_nodes s)(v_path n \<mapsto> p)\<rparr>)))"

text \<open>The path of the node is logged before the pointer is tested.\<close>

definition close_node ::
  "('drv, 'con, 'w) vfs_env \<Rightarrow> nat option \<Rightarrow> ('drv, 'con, 'w) vfs \<Rightarrow> ('drv, 'con, 'w) vfs result" where
  "close_node env node s =
     (case node of
        None \<Rightarrow> Inl Null_deref
      | Some p \<Rightarrow> bind_result (deref p s) (\<lambda>(u, n).
          if u \<le> 1
          then bind_result (find_second (past_nodes env) (open_nodes s) (v_path n)) (\<lambda>r.
                 if r = None then Inr s
                 else if open_nodes s (v_path n) = None then Inl End_deref
                 else Inr (s\<lparr>open_nodes := (open_nodes s)(v_path n := None)\<rparr>))
          else Inr (s\<lparr>node_heap := (node_heap s)(p \<mapsto> (u - 1, n))\<rparr>)))"

definition vfs_open_subnode ::
  "('drv, 'con, 'w) vfs_env \<Rightarrow> nat option \<Rightarrow> string \<Rightarrow> string \<Rightarrow> ('drv, 'con, 'w) vfs
   \<Rightarrow> (nat option \<times> ('drv, 'con, 'w) vfs) result option" where
  "vfs_open_subnode env node fullname subname s =
     (case find_second (past_nodes env) (open_nodes s) fullname of
        Inl e \<Rightarrow> Some (Inl e)
      | Inr (Some p) \<Rightarrow> Some (Inr (Some p, s))
      | Inr None \<Rightarrow>
        (case find_second (past_nodes env) (mounted_filesystems s) fullname of
           Inl e \<Rightarrow> Some (Inl e)
         | Inr (Some p) \<Rightarrow> Some (Inr (Some p, s))
         | Inr None \<Rightarrow>
             if subname = [] then Some (Inr (node, s))
             else (case node of
                     None \<Rightarrow> Some (Inr (None, s))
                   | Some p \<Rightarrow>
                       (case deref p s of
                          Inl e \<Rightarrow> Some (Inl e)
                        | Inr (u, n) \<Rightarrow>
                            if \<not> v_directory n then Some (Inr (None, s))
                            else (case v_open_subnode env n fullname subname (world s) of
                                    None \<Rightarrow> None
                                  | Some (Inl e) \<Rightarrow> Some (Inl e)
                                  | Some (Inr (None, w)) \<Rightarrow> Some (Inr (None, s\<lparr>world := w\<rparr>))
                                  | Some (Inr (Some m, w)) \<Rightarrow>
                                      (let (q, s') = new_node m (s\<lparr>world := w\<rparr>) in Some (Inr (Some q, s'))))))))"

fun open_tokens ::
  "('drv, 'con, 'w) vfs_env \<Rightarrow> nat option \<Rightarrow> string \<Rightarrow> bool \<Rightarrow> string list \<Rightarrow> ('drv, 'con, 'w) vfs
   \<Rightarrow> (nat option \<times> ('drv, 'con, 'w) vfs) result option" where
  "open_tokens env base fullname separator [] s = Some (Inr (base, s))"
| "open_tokens env base fullname separator (t # ts) s =
     (if base = None then Some (Inr (base, s))
      else (let full = (if separator then fullname @ ''/'' else fullname) @ t
            in case vfs_open_subnode env base full t s of
                 None \<Rightarrow> None
               | Some (Inl e) \<Rightarrow> Some (Inl e)
               | Some (Inr (b, s')) \<Rightarrow> open_tokens env b full True ts s'))"

definition open_node ::
  "('drv, 'con, 'w) vfs_env \<Rightarrow> string \<Rightarrow> ('drv, 'con, 'w) vfs \<Rightarrow> (nat option \<times> ('drv, 'con, 'w) vfs) result option" where
  "open_node env name s =
     (case clean_path name of
        [] \<Rightarrow> Some (Inl Out_of_bounds)
      | t # ts \<Rightarrow>
          if t \<noteq> ''/'' then Some (Inr (None, s))
          else (case find_second (past_nodes env) (mounted_filesystems s) ''/'' of
                  Inl e \<Rightarrow> Some (Inl e)
                | Inr None \<Rightarrow> Some (Inr (None, s))
                | Inr (Some base) \<Rightarrow>
                    (case open_tokens env (Some base) ''/'' False ts s of
                       None \<Rightarrow> None
                     | Some (Inl e) \<Rightarrow> Some (Inl e)
                     | Some (Inr (b, s1)) \<Rightarrow> Some (bind_result (mark_open b s1) (\<lambda>s2. Inr (b, s2))))))"

section \<open>Mounting\<close>

datatype i_fs_type = Fs_dev_fs | Fs_fat12_fs | Fs_fat16_fs | Fs_fat32_fs

definition fat_type_of :: "i_fs_type \<Rightarrow> fat_type" where
  "fat_type_of t = (case t of Fs_fat16_fs \<Rightarrow> Fat16 | Fs_fat32_fs \<Rightarrow> Fat32 | _ \<Rightarrow> Fat12)"

definition new_fs_root ::
  "('drv, 'con, 'w) vfs_env \<Rightarrow> i_fs_type \<Rightarrow> string \<Rightarrow> nat option \<Rightarrow> ('drv, 'con, 'w) vfs
   \<Rightarrow> (('drv, 'con, 'w) vnode \<times> ('drv, 'con, 'w) vfs) result" where
  "new_fs_root env t mountpoint container s =
     (case t of
        Fs_dev_fs \<Rightarrow> Inr (V_dev (dev_fs_root_node (dev_root s) mountpoint), s)
      | _ \<Rightarrow>
          (case container of
             None \<Rightarrow> Inl Null_deref
           | Some p \<Rightarrow> bind_result (deref p s) (\<lambda>(u, c).
               bind_result (fat_init (v_container env c) (boot_memory env) (table_memory env)
                              (fat_fs_new (fat_type_of t) (fat_bootsector_of (boot_memory env))) (world s)) (\<lambda>(fs, w).
                 Inr (V_fat (v_container env c) fs (fs_root_node fs mountpoint), s\<lparr>world := w\<rparr>)))))"

definition mount_container ::
  "('drv, 'con, 'w) vfs_env \<Rightarrow> i_fs_type \<Rightarrow> string \<Rightarrow> nat option \<Rightarrow> ('drv, 'con, 'w) vfs \<Rightarrow> ('drv, 'con, 'w) vfs result" where
  "mount_container env t mountpoint container s =
     bind_result (new_fs_root env t mountpoint container s) (\<lambda>(n, s1).
       let (p, s2) = new_node n s1
       in Inr (s2\<lparr>mounted_filesystems := (mounted_filesystems s2)(v_path n \<mapsto> p)\<rparr>))"

definition mount ::
  "('drv, 'con, 'w) vfs_env \<Rightarrow> i_fs_type \<Rightarrow> string \<Rightarrow> string \<Rightarrow> ('drv, 'con, 'w) vfs \<Rightarrow> ('drv, 'con, 'w) vfs result option" where
  "mount env t mountpoint nodename s =
     (case (if nodename \<noteq> [] then open_node env nodename s else Some (Inr (None, s))) of
        None \<Rightarrow> None
      | Some (Inl e) \<Rightarrow> Some (Inl e)
      | Some (Inr (node, s1)) \<Rightarrow>
          if node \<noteq> None \<or> t = Fs_dev_fs then Some (mount_container env t mountpoint node s1) else Some (Inr s1))"

definition mount_root_dummy :: "('drv, 'con, 'w) vfs_env \<Rightarrow> ('drv, 'con, 'w) vfs \<Rightarrow> ('drv, 'con, 'w) vfs result" where
  "mount_root_dummy env s =
     bind_result (find_second (past_nodes env) (mounted_filesystems s) ''/'') (\<lambda>r.
       if r = None
       then (let (p, s1) = new_node (V_dummy ''/'' True True) s
             in Inr (s1\<lparr>mounted_filesystems := (mounted_filesystems s1)(''/'' \<mapsto> p)\<rparr>))
       else Inr s)"

definition umount :: "string \<Rightarrow> ('drv, 'con, 'w) vfs \<Rightarrow> ('drv, 'con, 'w) vfs" where
  "umount mountpoint s = s\<lparr>mounted_filesystems := (mounted_filesystems s)(mountpoint := None)\<rparr>"

section \<open>The invariant\<close>

lemma case_ran_iff:
  "(case x of None \<Rightarrow> None | Some (Inl e) \<Rightarrow> Some (Inl e) | Some (Inr (a, b)) \<Rightarrow> f a b) = Some (Inr y)
    \<longleftrightarrow> (\<exists>a b. x = Some (Inr (a, b)) \<and> f a b = Some (Inr y))"
  by (auto split: option.splits sum.splits prod.splits)

text \<open>
  Open and mounted nodes exist and have the path they are found under, an open one is used;
  fresh pointers are not in use.
\<close>

definition vfs_inv :: "('drv, 'con, 'w) vfs \<Rightarrow> bool" where
  "vfs_inv s \<longleftrightarrow>
     (\<forall>p \<ge> node_next s. node_heap s p = None)
     \<and> (\<forall>k p. open_nodes s k = Some p \<longrightarrow> (\<exists>u n. node_heap s p = Some (u, n) \<and> v_path n = k \<and> k \<noteq> [] \<and> 0 < u))
     \<and> (\<forall>k p. mounted_filesystems s k = Some p \<longrightarrow> (\<exists>u n. node_heap s p = Some (u, n) \<and> v_path n = k))"

lemma vfs_invI:
  assumes "\<And>p. node_next s \<le> p \<Longrightarrow> node_heap s p = None"
    and "\<And>k p. open_nodes s k = Some p \<Longrightarrow> \<exists>u n. node_heap s p = Some (u, n) \<and> v_path n = k \<and> k \<noteq> [] \<and> 0 < u"
    and "\<And>k p. mounted_filesystems s k = Some p \<Longrightarrow> \<exists>u n. node_heap s p = Some (u, n) \<and> v_path n = k"
  shows "vfs_inv s"
  using assms unfolding vfs_inv_def by blast

lemma vfs_invD:
  assumes "vfs_inv s"
  shows "node_next s \<le> p \<Longrightarrow> node_heap s p = None"
    and "open_nodes s k = Some p \<Longrightarrow> \<exists>u n. node_heap s p = Some (u, n) \<and> v_path n = k \<and> k \<noteq> [] \<and> 0 < u"
    and "mounted_filesystems s k = Some p \<Longrightarrow> \<exists>u n. node_heap s p = Some (u, n) \<and> v_path n = k"
  using assms unfolding vfs_inv_def by blast+

text \<open>A change of one cell that keeps its node, and of the count as long as it stays above 0.\<close>

lemma inv_cell:
  assumes "vfs_inv s" and "node_heap s p = Some (u, n)" and "0 < u'"
  shows "vfs_inv (s\<lparr>node_heap := (node_heap s)(p \<mapsto> (u', n))\<rparr>)"
proof (rule vfs_invI)
  fix q assume "node_next (s\<lparr>node_heap := (node_heap s)(p \<mapsto> (u', n))\<rparr>) \<le> q"
  then show "node_heap (s\<lparr>node_heap := (node_heap s)(p \<mapsto> (u', n))\<rparr>) q = None"
    using vfs_invD(1) [OF assms(1), of q] assms(2) by auto
next
  fix k q assume "open_nodes (s\<lparr>node_heap := (node_heap s)(p \<mapsto> (u', n))\<rparr>) k = Some q"
  then show "\<exists>u n'. node_heap (s\<lparr>node_heap := (node_heap s)(p \<mapsto> (u', n))\<rparr>) q = Some (u, n') \<and> v_path n' = k \<and> k \<noteq> [] \<and> 0 < u"
    using vfs_invD(2) [OF assms(1), of k q] assms(2,3) by auto
next
  fix k q assume "mounted_filesystems (s\<lparr>node_heap := (node_heap s)(p \<mapsto> (u', n))\<rparr>) k = Some q"
  then show "\<exists>u n'. node_heap (s\<lparr>node_heap := (node_heap s)(p \<mapsto> (u', n))\<rparr>) q = Some (u, n') \<and> v_path n' = k"
    using vfs_invD(3) [OF assms(1), of k q] assms(2) by auto
qed

lemma inv_add_open:
  assumes "vfs_inv s" and "node_heap s p = Some (u, n)" and "v_path n \<noteq> []" and "0 < u"
  shows "vfs_inv (s\<lparr>open_nodes := (open_nodes s)(v_path n \<mapsto> p)\<rparr>)"
  using vfs_invD [OF assms(1)] assms(2-4) by (intro vfs_invI) (auto split: if_splits)

lemma inv_mounted:
  assumes "vfs_inv s" and "node_heap s p = Some (u, n)" and "v_path n = k"
  shows "vfs_inv (s\<lparr>mounted_filesystems := (mounted_filesystems s)(k \<mapsto> p)\<rparr>)"
  using vfs_invD [OF assms(1)] assms(2,3) by (intro vfs_invI) (auto split: if_splits)

definition no_wrap :: "('drv, 'con, 'w) vfs \<Rightarrow> bool" where
  "no_wrap s \<longleftrightarrow> (\<forall>p u n. node_heap s p = Some (u, n) \<longrightarrow> u \<noteq> - 1)"

definition valid_node :: "('drv, 'con, 'w) vfs \<Rightarrow> nat option \<Rightarrow> bool" where
  "valid_node s b \<longleftrightarrow> (\<forall>p. b = Some p \<longrightarrow> node_heap s p \<noteq> None)"

definition sane_past :: "('drv, 'con, 'w) vfs_env \<Rightarrow> bool" where
  "sane_past env \<longleftrightarrow> (\<forall>p. past_nodes env \<noteq> Inr (Some p))"

lemma v_open_subnode_path:
  "v_open_subnode env n full sub w = Some (Inr (Some m, w')) \<Longrightarrow> v_path m = full"
  by (cases n)
    (auto simp: dev_open_subnode_def dev_node_copy_def fat_open_subnode_def subnode_of_def Let_def bind_result_Inr_iff
      split: if_splits option.splits sum.splits prod.splits)

lemma inv_world: "vfs_inv (s\<lparr>world := w\<rparr>) = vfs_inv s" and no_wrap_world: "no_wrap (s\<lparr>world := w\<rparr>) = no_wrap s"
  by (simp_all add: vfs_inv_def no_wrap_def)

lemma inv_new_node:
  assumes "vfs_inv s" and "new_node m s = (q, s')"
  shows "vfs_inv s'" and "no_wrap s \<Longrightarrow> no_wrap s'" and "node_heap s' q = Some (0, m)" and "open_nodes s' = open_nodes s"
    and "mounted_filesystems s' = mounted_filesystems s" and "valid_node s b \<Longrightarrow> valid_node s' b"
proof -
  have s': "s' = s\<lparr>node_heap := (node_heap s)(node_next s \<mapsto> (0, m)), node_next := node_next s + 1\<rparr>" and q: "q = node_next s"
    using assms(2) by (auto simp: new_node_def)
  have fresh: "node_heap s (node_next s) = None" using assms(1) by (simp add: vfs_inv_def)
  show "vfs_inv s'"
    using assms(1) fresh unfolding s' vfs_inv_def
    by (simp, intro conjI allI impI) (metis option.distinct(1))+
  show "no_wrap s \<Longrightarrow> no_wrap s'" unfolding s' no_wrap_def by auto
  show "node_heap s' q = Some (0, m)" "open_nodes s' = open_nodes s" "mounted_filesystems s' = mounted_filesystems s"
    by (simp_all add: s' q)
  show "valid_node s b \<Longrightarrow> valid_node s' b" by (auto simp: s' valid_node_def)
qed

lemma find_second_valid:
  assumes "sane_past env" and "find_second (past_nodes env) m k = Inr (Some p)"
  shows "m k = Some p"
  using assms by (auto simp: find_second_def sane_past_def split: option.splits)

lemma valid_found:
  assumes "vfs_inv s" and "open_nodes s k = Some p \<or> mounted_filesystems s k = Some p"
  shows "valid_node s (Some p)"
  using assms unfolding vfs_inv_def valid_node_def by blast

lemma vfs_open_subnode_cases:
  assumes r: "vfs_open_subnode env b full sub s = Some (Inr (b', s'))" and sane: "sane_past env"
  obtains (Same) "s' = s" and "b' = b \<or> b' = None"
  | (Found) p where "s' = s" and "b' = Some p" and "open_nodes s full = Some p \<or> mounted_filesystems s full = Some p"
  | (Gone) w where "b' = None" and "s' = s\<lparr>world := w\<rparr>"
  | (New) m w q where "new_node m (s\<lparr>world := w\<rparr>) = (q, s')" and "b' = Some q"
proof -
  obtain x where o: "find_second (past_nodes env) (open_nodes s) full = Inr x"
    using r by (cases "find_second (past_nodes env) (open_nodes s) full") (simp_all add: vfs_open_subnode_def)
  show thesis
  proof (cases x)
    case (Some p)
    then show ?thesis using r o find_second_valid [OF sane, of "open_nodes s" full p] Found [of p]
      by (simp add: vfs_open_subnode_def)
  next
    case none: None
    obtain y where m: "find_second (past_nodes env) (mounted_filesystems s) full = Inr y"
      using r o none by (cases "find_second (past_nodes env) (mounted_filesystems s) full") (simp_all add: vfs_open_subnode_def)
    show ?thesis
    proof (cases y)
      case (Some p)
      then show ?thesis using r o none m find_second_valid [OF sane, of "mounted_filesystems s" full p] Found [of p]
        by (simp add: vfs_open_subnode_def)
    next
      case None
      with r o none m show ?thesis
        by (auto simp: vfs_open_subnode_def split: if_splits option.splits sum.splits prod.splits intro: Same Gone New)
    qed
  qed
qed

lemma inv_open_subnode:
  assumes "vfs_inv s" and "no_wrap s" and "sane_past env" and "valid_node s b"
    and r: "vfs_open_subnode env b full sub s = Some (Inr (b', s'))"
  shows "vfs_inv s' \<and> no_wrap s' \<and> valid_node s' b' \<and> open_nodes s' = open_nodes s
    \<and> mounted_filesystems s' = mounted_filesystems s"
  using r assms(3)
proof (cases rule: vfs_open_subnode_cases)
  case Same
  then show ?thesis using assms(1,2,4) by (auto simp: valid_node_def)
next
  case (Found p)
  then show ?thesis using assms(1,2) valid_found [OF assms(1)] by blast
next
  case (Gone w)
  then show ?thesis using assms(1,2) by (simp add: inv_world no_wrap_world valid_node_def)
next
  case (New m w q)
  note new = inv_new_node [OF _ New(1), unfolded inv_world no_wrap_world, OF assms(1)]
  show ?thesis using new(1,3-5) new(2) [OF assms(2)] New(2) by (simp add: valid_node_def)
qed

lemma inv_open_tokens:
  assumes "sane_past env"
  shows "open_tokens env b acc sep ts s = Some (Inr (b', s')) \<Longrightarrow> vfs_inv s \<Longrightarrow> no_wrap s \<Longrightarrow> valid_node s b
    \<Longrightarrow> vfs_inv s' \<and> no_wrap s' \<and> valid_node s' b' \<and> open_nodes s' = open_nodes s
      \<and> mounted_filesystems s' = mounted_filesystems s"
proof (induction ts arbitrary: b acc sep s)
  case Nil
  then show ?case by simp
next
  case (Cons t ts)
  show ?case
  proof (cases "b = None")
    case True
    then show ?thesis using Cons.prems by simp
  next
    case False
    then obtain b1 s1 where r: "vfs_open_subnode env b ((if sep then acc @ ''/'' else acc) @ t) t s = Some (Inr (b1, s1))"
      and rest: "open_tokens env b1 ((if sep then acc @ ''/'' else acc) @ t) True ts s1 = Some (Inr (b', s'))"
      using Cons.prems(1) by (auto simp: Let_def split: option.splits sum.splits)
    from inv_open_subnode [OF Cons.prems(2,3) assms Cons.prems(4) r]
    show ?thesis using Cons.IH [OF rest] by auto
  qed
qed

lemma inv_mark_open:
  assumes "vfs_inv s" and "no_wrap s" and "valid_node s b"
  shows "\<exists>s'. mark_open b s = Inr s' \<and> vfs_inv s'"
proof (cases b)
  case None
  then show ?thesis using assms(1) by (simp add: mark_open_def)
next
  case (Some p)
  then obtain u n where p: "node_heap s p = Some (u, n)" using assms(3) by (auto simp: valid_node_def)
  then have "u \<noteq> - 1" using assms(2) by (auto simp: no_wrap_def)
  then have u: "0 < u + 1" by (metis add.inverse_unique add.commute word_gt_0 add_eq_0_iff2)
  let ?s = "s\<lparr>node_heap := (node_heap s)(p \<mapsto> (u + 1, n))\<rparr>"
  have "vfs_inv (?s\<lparr>open_nodes := (open_nodes ?s)(v_path n \<mapsto> p)\<rparr>)" if "v_path n \<noteq> []"
    by (rule inv_add_open [OF inv_cell [OF assms(1) p u] _ that u]) simp
  then show ?thesis using assms(1) Some p by (simp add: mark_open_def deref_def)
qed

lemma inv_open_node:
  assumes "vfs_inv s" and "no_wrap s" and "sane_past env" and r: "open_node env name s = Some (Inr (b, s'))"
  shows "vfs_inv s'"
proof -
  obtain t ts where c: "clean_path name = t # ts" using r by (auto simp: open_node_def split: list.splits)
  show ?thesis
  proof (cases "t = ''/''")
    case False
    then show ?thesis using r c assms(1) by (simp add: open_node_def)
  next
    case True
    obtain x where x: "find_second (past_nodes env) (mounted_filesystems s) ''/'' = Inr x"
      using r c True by (auto simp: open_node_def split: sum.splits)
    show ?thesis
    proof (cases x)
      case None
      then show ?thesis using r c True x assms(1) by (simp add: open_node_def)
    next
      case (Some base)
      have "(case open_tokens env (Some base) ''/'' False ts s of None \<Rightarrow> None | Some (Inl e) \<Rightarrow> Some (Inl e)
          | Some (Inr (b, s1)) \<Rightarrow> Some (bind_result (mark_open b s1) (\<lambda>s2. Inr (b, s2)))) = Some (Inr (b, s'))"
        using r c True x Some by (simp add: open_node_def)
      then obtain b1 s1 where w: "open_tokens env (Some base) ''/'' False ts s = Some (Inr (b1, s1))"
        and m: "mark_open b1 s1 = Inr s'"
        unfolding case_ran_iff by (auto simp: bind_result_Inr_iff)
      have "mounted_filesystems s ''/'' = Some base" using find_second_valid [OF assms(3)] x Some by simp
      then have "valid_node s (Some base)" using valid_found [OF assms(1)] by blast
      then have "vfs_inv s1 \<and> no_wrap s1 \<and> valid_node s1 b1" using inv_open_tokens [OF assms(3) w assms(1,2)] by blast
      then show ?thesis using inv_mark_open [of s1 b1] m by auto
    qed
  qed
qed

lemma inv_close_node:
  assumes "vfs_inv s" and r: "close_node env b s = Inr s'"
  shows "vfs_inv s'"
proof -
  obtain p u n where b: "b = Some p" and p: "node_heap s p = Some (u, n)"
    using r by (auto simp: close_node_def deref_def bind_result_Inr_iff split: option.splits)
  show ?thesis
  proof (cases "u \<le> 1")
    case True
    then have "s' = s \<or> s' = s\<lparr>open_nodes := (open_nodes s)(v_path n := None)\<rparr>"
      using r b p by (auto simp: close_node_def deref_def bind_result_Inr_iff split: if_splits)
    moreover have "vfs_inv (s\<lparr>open_nodes := (open_nodes s)(v_path n := None)\<rparr>)"
      using vfs_invD [OF assms(1)] by (intro vfs_invI) (auto split: if_splits)
    ultimately show ?thesis using assms(1) by auto
  next
    case False
    then have s': "s' = s\<lparr>node_heap := (node_heap s)(p \<mapsto> (u - 1, n))\<rparr>"
      using r b p by (simp add: close_node_def deref_def)
    have "0 < u - 1" using False by (metis linorder_not_le word_gt_0 right_minus_eq less_irrefl)
    then show ?thesis unfolding s' by (rule inv_cell [OF assms(1) p])
  qed
qed

lemma inv_mount_container:
  assumes "vfs_inv s" and r: "mount_container env t mp c s = Inr s'"
  shows "vfs_inv s'"
proof -
  obtain n s1 where root: "new_fs_root env t mp c s = Inr (n, s1)"
    and s'': "(case new_node n s1 of (p, s2) \<Rightarrow>
      s2\<lparr>mounted_filesystems := (mounted_filesystems s2)(v_path n \<mapsto> p)\<rparr>) = s'"
    using r unfolding mount_container_def bind_result_Inr_iff Let_def by (auto simp: new_node_def)
  have "s1 = s \<or> (\<exists>w. s1 = s\<lparr>world := w\<rparr>)"
    using root by (cases t) (auto simp: new_fs_root_def bind_result_Inr_iff split: option.splits)
  then have s1: "vfs_inv s1" using assms(1) by (auto simp: inv_world)
  obtain p s2 where q: "new_node n s1 = (p, s2)" by force
  show ?thesis using inv_mounted [OF inv_new_node(1,3) [OF s1 q]] using s'' by (simp add: q)
qed

text \<open>C31: the maps of open and mounted nodes stay sound. Opening a path, closing a node,
  mounting and unmounting keep the invariant: every node in the two maps exists and has the path
  it is filed under, an open one has a path and is in use, and pointers not yet given out are
  free; a node that exists can always be marked open.\<close>

theorem vfs_invariant:
  assumes "vfs_inv s" and "no_wrap s" and "sane_past env"
  shows "(open_node env name s = Some (Inr (b, s1)) \<longrightarrow> vfs_inv s1)
    \<and> (close_node env c s = Inr s2 \<longrightarrow> vfs_inv s2)
    \<and> (mount env t mp name s = Some (Inr s3) \<longrightarrow> vfs_inv s3)
    \<and> (mount_root_dummy env s = Inr s4 \<longrightarrow> vfs_inv s4)
    \<and> vfs_inv (umount mp s) \<and> vfs_inv (i_fs_init s)
    \<and> (valid_node s c \<longrightarrow> (\<exists>s5. mark_open c s = Inr s5))"
proof (intro conjI impI)
  show "open_node env name s = Some (Inr (b, s1)) \<Longrightarrow> vfs_inv s1" by (rule inv_open_node [OF assms])
  show "close_node env c s = Inr s2 \<Longrightarrow> vfs_inv s2" by (rule inv_close_node [OF assms(1)])
  show "vfs_inv s3" if h: "mount env t mp name s = Some (Inr s3)"
  proof -
    obtain node s0 where o: "(if name \<noteq> [] then open_node env name s else Some (Inr (None, s))) = Some (Inr (node, s0))"
      and m: "(if node \<noteq> None \<or> t = Fs_dev_fs then mount_container env t mp node s0 else Inr s0) = Inr s3"
      using h unfolding mount_def case_ran_iff by (auto simp del: split_paired_Ex split: if_splits)
    have "vfs_inv s0" using o assms(1) inv_open_node [OF assms] by (auto split: if_splits)
    then show ?thesis using m inv_mount_container by (auto split: if_splits)
  qed
  show "vfs_inv s4" if h: "mount_root_dummy env s = Inr s4"
  proof -
    obtain p s0 where q: "new_node (V_dummy ''/'' True True) s = (p, s0)" by force
    have "s4 = s \<or> s4 = s0\<lparr>mounted_filesystems := (mounted_filesystems s0)(''/'' \<mapsto> p)\<rparr>"
      using h q by (auto simp: mount_root_dummy_def bind_result_Inr_iff split: if_splits)
    then show ?thesis using assms(1) inv_mounted [OF inv_new_node(1,3) [OF assms(1) q], of "''/''"] by auto
  qed
  show "vfs_inv (umount mp s)" "vfs_inv (i_fs_init s)" 
    using vfs_invD [OF assms(1)] by (intro vfs_invI; auto simp: umount_def i_fs_init_def split: if_splits)+
  show "\<exists>s5. mark_open c s = Inr s5" if "valid_node s c" using inv_mark_open [OF assms(1,2) that] by blast
qed

end
