(* ===== verification/Filehandle.thy ===== *)
theory Filehandle
  imports Kern_Prelude
begin

text \<open>
  File handles (kern/fs/filehandle.cpp) and the table of them every process has
  (kern/include/fs/filehandle_holder.hpp). A handle is a shared object: the tables
  map descriptors to its address in a store of handles.
\<close>

section \<open>Handles\<close>

text \<open>The part of a node a handle looks at; nodes are shared objects too.\<close>

record node_info =
  ni_is_tty :: bool
  ni_length :: u64

record filehandle =
  fh_node :: "nat option"
  fh_mode :: char
  fh_flags :: char
  fh_fd :: u32
  fh_offset :: u64

definition filehandle_new :: "nat option \<Rightarrow> char \<Rightarrow> char \<Rightarrow> u32 \<Rightarrow> filehandle" where
  "filehandle_new node flags mode fd =
     \<lparr>fh_node = node, fh_mode = mode, fh_flags = flags, fh_fd = fd, fh_offset = 0\<rparr>"

text \<open>
  read and write hand the request to the node, \<open>io node offset length\<close>, and move the
  offset by the length; what they return is the new offset, cut to 32 bits.
\<close>

definition fh_transfer ::
  "(nat \<Rightarrow> u64 \<Rightarrow> u32 \<Rightarrow> 'st \<Rightarrow> 'st) \<Rightarrow> u32 \<Rightarrow> filehandle \<Rightarrow> 'st \<Rightarrow> u32 \<times> filehandle \<times> 'st" where
  "fh_transfer io n fh st =
     (case fh_node fh of
        None \<Rightarrow> (0, fh, st)
      | Some node \<Rightarrow>
          (let st' = io node (fh_offset fh) n st;
               off = fh_offset fh + ucast n
           in (ucast off, fh\<lparr>fh_offset := off\<rparr>, st')))"

definition fh_read ::
  "(nat \<Rightarrow> u64 \<Rightarrow> u32 \<Rightarrow> 'st \<Rightarrow> 'st) \<Rightarrow> u32 \<Rightarrow> filehandle \<Rightarrow> 'st \<Rightarrow> u32 \<times> filehandle \<times> 'st" where
  "fh_read node_read n fh st = fh_transfer node_read n fh st"

definition fh_write ::
  "(nat \<Rightarrow> u64 \<Rightarrow> u32 \<Rightarrow> 'st \<Rightarrow> 'st) \<Rightarrow> u32 \<Rightarrow> filehandle \<Rightarrow> 'st \<Rightarrow> u32 \<times> filehandle \<times> 'st" where
  "fh_write node_write n fh st = fh_transfer node_write n fh st"

text \<open>
  The offsets are signed. The results EBADF and ESPIPE are error numbers, turned into
  a bool by the return type.
\<close>

definition seek_to :: "u64 \<Rightarrow> u64 \<Rightarrow> filehandle \<Rightarrow> bool \<times> filehandle" where
  "seek_to len target fh =
     (if target <s len \<and> 0 \<le>s target then (False, fh\<lparr>fh_offset := target\<rparr>) else (True, fh))"

definition fh_seek :: "(nat \<Rightarrow> node_info) \<Rightarrow> u64 \<Rightarrow> int \<Rightarrow> filehandle \<Rightarrow> bool \<times> filehandle" where
  "fh_seek info offset direction fh =
     (case fh_node fh of
        None \<Rightarrow> (False, fh)
      | Some node \<Rightarrow>
          if ni_is_tty (info node) then (True, fh)
          else if direction = 0 then seek_to (ni_length (info node)) offset fh
          else if direction = 1 then seek_to (ni_length (info node)) (fh_offset fh + offset) fh
          else if direction = 2
          then seek_to (ni_length (info node)) (ni_length (info node) + offset) fh
          else (False, fh))"

definition fh_stat :: "(nat \<Rightarrow> 'stat) \<Rightarrow> filehandle \<Rightarrow> 'stat option" where
  "fh_stat node_stat fh = map_option node_stat (fh_node fh)"

section \<open>The table of a process\<close>

record filehandle_holder =
  filehandles :: "u32 \<Rightarrow> nat option"
  fd_counter :: u32

type_synonym handle_store = "nat \<Rightarrow> filehandle option"

definition holder_new :: filehandle_holder where
  "holder_new = \<lparr>filehandles = Map.empty, fd_counter = 0\<rparr>"

text \<open>\<open>find( fd )->second\<close> on a descriptor that is not there dereferences \<open>end()\<close>.\<close>

definition get_filehandle :: "u32 \<Rightarrow> filehandle_holder \<Rightarrow> nat result" where
  "get_filehandle fd h = (case filehandles h fd of None \<Rightarrow> Inl End_deref | Some i \<Rightarrow> Inr i)"

definition add_filehandle :: "handle_store \<Rightarrow> nat \<Rightarrow> filehandle_holder \<Rightarrow> filehandle_holder result" where
  "add_filehandle hs i h =
     (case hs i of
        None \<Rightarrow> Inl Wild_access
      | Some fh \<Rightarrow> Inr (h\<lparr>filehandles := (filehandles h)(fh_fd fh \<mapsto> i)\<rparr>))"

text \<open>\<open>i\<close> is the identity of the object \<open>new filehandle\<close> makes.\<close>

definition push_filehandle ::
  "nat \<Rightarrow> nat option \<Rightarrow> char \<Rightarrow> char \<Rightarrow> filehandle_holder \<Rightarrow> handle_store
   \<Rightarrow> (u32 \<times> filehandle_holder \<times> handle_store) result" where
  "push_filehandle i file flags mode h hs =
     (let fh = filehandle_new file flags mode (fd_counter h);
          hs' = hs(i \<mapsto> fh);
          h1 = h\<lparr>fd_counter := fd_counter h + 1\<rparr>
      in bind_result (add_filehandle hs' i h1) (\<lambda>h2. Inr (fh_fd fh, h2, hs')))"

text \<open>
  copy_filehandles walks the other map in the order of its keys and adds every handle
  under its own number.
\<close>

fun add_handles :: "handle_store \<Rightarrow> nat list \<Rightarrow> filehandle_holder \<Rightarrow> filehandle_holder result" where
  "add_handles hs [] h = Inr h"
| "add_handles hs (i # is) h = bind_result (add_filehandle hs i h) (add_handles hs is)"

definition copy_filehandles ::
  "handle_store \<Rightarrow> u32 list \<Rightarrow> filehandle_holder \<Rightarrow> filehandle_holder \<Rightarrow> filehandle_holder result" where
  "copy_filehandles hs keys other h =
     bind_result (add_handles hs (map (\<lambda>k. the (filehandles other k)) keys) h) (\<lambda>h1.
       Inr (h1\<lparr>fd_counter := fd_counter other\<rparr>))"

definition remove_filehandle ::
  "u32 \<Rightarrow> filehandle_holder \<Rightarrow> handle_store \<Rightarrow> (nat option \<times> filehandle_holder) result" where
  "remove_filehandle fd h hs =
     (case filehandles h fd of
        None \<Rightarrow> Inl End_deref
      | Some i \<Rightarrow>
          (case hs i of
             None \<Rightarrow> Inl Wild_access
           | Some fh \<Rightarrow> Inr (fh_node fh, h\<lparr>filehandles := (filehandles h)(fd := None)\<rparr>)))"

section \<open>The invariant of a table\<close>

text \<open>
  Descriptors are below the counter, and every entry is a live handle that carries the
  descriptor it is stored under.
\<close>

definition holder_inv :: "handle_store \<Rightarrow> filehandle_holder \<Rightarrow> bool" where
  "holder_inv hs h \<longleftrightarrow> (\<forall>fd i. filehandles h fd = Some i \<longrightarrow>
     fd < fd_counter h \<and> (\<exists>fh. hs i = Some fh \<and> fh_fd fh = fd))"

lemma holder_inv_new: "holder_inv hs holder_new"
  by (simp add: holder_inv_def holder_new_def)

lemma push_filehandle_eq:
  "push_filehandle i file flags mode h hs =
    Inr (fd_counter h, h\<lparr>filehandles := (filehandles h)(fd_counter h \<mapsto> i), fd_counter := fd_counter h + 1\<rparr>,
         hs(i \<mapsto> filehandle_new file flags mode (fd_counter h)))"
  by (simp add: push_filehandle_def add_filehandle_def filehandle_new_def Let_def)

lemma less_succ:
  fixes n :: u32
  assumes "n \<noteq> - 1"
  shows "n < n + 1"
proof -
  have "unat n \<noteq> 4294967295"
  proof
    assume "unat n = 4294967295"
    then have "n = - 1" by (simp add: word_unat_eq_iff unsigned_minus_1_eq_mask mask_eq_exp_minus_1)
    then show False using assms by simp
  qed
  then have "unat n + 1 < 4294967296" using unat_lt32 [of n] by simp
  then have "unat (n + 1) = unat n + 1" by (simp add: unat_plus_nowrap)
  then show ?thesis by (simp add: word_less_nat_alt)
qed

text \<open>Opening hands out a fresh descriptor. push_filehandle returns a number no open
  handle of the process has, under which exactly the new handle is found; every other
  descriptor keeps its handle, the invariant is kept, and removing the descriptor gives
  the node back and leaves the table as it was but for the counter.\<close>

theorem push_filehandle_fresh:
  assumes "holder_inv hs h" and "hs i = None" and "fd_counter h \<noteq> - 1"
  shows "\<exists>h' hs'. push_filehandle i file flags mode h hs = Inr (fd_counter h, h', hs')
    \<and> filehandles h (fd_counter h) = None \<and> get_filehandle (fd_counter h) h' = Inr i
    \<and> (\<forall>fd. fd \<noteq> fd_counter h \<longrightarrow> get_filehandle fd h' = get_filehandle fd h)
    \<and> holder_inv hs' h'
    \<and> remove_filehandle (fd_counter h) h' hs' = Inr (file, h\<lparr>fd_counter := fd_counter h + 1\<rparr>)"
proof -
  let ?n = "fd_counter h"
  let ?h = "h\<lparr>filehandles := (filehandles h)(?n \<mapsto> i), fd_counter := ?n + 1\<rparr>"
  let ?hs = "hs(i \<mapsto> filehandle_new file flags mode ?n)"
  have fresh: "filehandles h ?n = None"
    using assms(1) by (cases "filehandles h ?n") (auto simp: holder_inv_def)
  have lt: "?n < ?n + 1" using assms(3) by (rule less_succ)
  have "holder_inv ?hs ?h"
    unfolding holder_inv_def
  proof (intro allI impI)
    fix fd j
    assume get: "filehandles ?h fd = Some j"
    show "fd < fd_counter ?h \<and> (\<exists>fh. ?hs j = Some fh \<and> fh_fd fh = fd)"
    proof (cases "fd = ?n")
      case True
      with get lt show ?thesis by (auto simp: filehandle_new_def)
    next
      case False
      with get have old: "filehandles h fd = Some j" by simp
      then obtain fh where "fd < ?n" "hs j = Some fh" "fh_fd fh = fd"
        using assms(1) unfolding holder_inv_def by blast
      moreover from this have "j \<noteq> i" using assms(2) by auto
      ultimately show ?thesis using lt by auto
    qed
  qed
  moreover have "(filehandles h)(?n := None) = filehandles h" using fresh by (simp add: fun_upd_idem)
  ultimately show ?thesis
    using fresh by (auto simp: push_filehandle_eq get_filehandle_def remove_filehandle_def filehandle_new_def)
qed

definition holder_sample :: filehandle_holder where
  "holder_sample = \<lparr>filehandles = [0 \<mapsto> 4], fd_counter = 1\<rparr>"

definition store_sample :: handle_store where
  "store_sample = [4 \<mapsto> filehandle_new (Some 9) CHR 0x00 CHR 0x00 0]"

lemma holder_sample_inv: "holder_inv store_sample holder_sample"
  by (simp add: holder_inv_def holder_sample_def store_sample_def filehandle_new_def)

theorem push_filehandle_fresh_witness:
  "\<exists>h' hs'. push_filehandle 5 (Some 7) CHR ''r'' CHR ''w'' holder_sample store_sample = Inr (1, h', hs')
    \<and> get_filehandle 1 h' = Inr 5 \<and> get_filehandle 0 h' = Inr 4 \<and> holder_inv hs' h'"
proof -
  have fd: "fd_counter holder_sample = 1" by (simp add: holder_sample_def)
  have old: "get_filehandle 0 holder_sample = Inr 4" by (simp add: holder_sample_def get_filehandle_def)
  have "store_sample 5 = None" by (simp add: store_sample_def)
  from push_filehandle_fresh [OF holder_sample_inv this, of "Some 7" "CHR ''r''" "CHR ''w''"] show ?thesis
    unfolding fd by (auto simp: old)
qed

section \<open>Seeking\<close>

text \<open>The number a direction counts from.\<close>

definition seek_base :: "u64 \<Rightarrow> int \<Rightarrow> filehandle \<Rightarrow> u64" where
  "seek_base len direction fh =
     (if direction = 0 then 0 else if direction = 1 then fh_offset fh else len)"

lemma sint_plus_nowrap:
  fixes a b :: u64
  assumes "- (2 ^ 63) \<le> sint a + sint b" and "sint a + sint b < 2 ^ 63"
  shows "sint (a + b) = sint a + sint b"
  using assms by (simp add: sint_word_ariths signed_take_bit_int_eq_self)

lemma seek_to_eq:
  "seek_to len t fh = (if 0 \<le> sint t \<and> sint t < sint len
     then (False, fh\<lparr>fh_offset := t\<rparr>) else (True, fh))"
  by (simp add: seek_to_def word_sless_alt word_sle_eq conj_commute)

text \<open>Seek reports failure, and fails exactly outside the file. On a handle of a
  file that is no terminal, with a known direction and a sum that does not overflow 64
  bits, seek returns True exactly when the position asked for is before the start or not
  before the end of the file; the offset is then left alone, otherwise it is the position
  asked for. (The comment in filehandle.h says the opposite: true on success.)\<close>

theorem seek_fails_outside:
  assumes "fh_node fh = Some node" and "\<not> ni_is_tty (info node)" and "direction \<in> {0, 1, 2}"
    and "p = sint (seek_base (ni_length (info node)) direction fh) + sint offset"
    and "- (2 ^ 63) \<le> p" and "p < 2 ^ 63"
  shows "(fst (fh_seek info offset direction fh) \<longleftrightarrow> p < 0 \<or> sint (ni_length (info node)) \<le> p)
    \<and> (fst (fh_seek info offset direction fh) \<longrightarrow> snd (fh_seek info offset direction fh) = fh)
    \<and> (\<not> fst (fh_seek info offset direction fh) \<longrightarrow>
        (\<exists>t. snd (fh_seek info offset direction fh) = fh\<lparr>fh_offset := t\<rparr> \<and> sint t = p))"
proof -
  let ?len = "ni_length (info node)"
  have seek: "fh_seek info offset direction fh = seek_to ?len (seek_base ?len direction fh + offset) fh"
    using assms(1,2,3) by (auto simp: fh_seek_def seek_base_def)
  have "sint (seek_base ?len direction fh + offset) = p"
    using assms(4,5,6) by (simp add: sint_plus_nowrap)
  then show ?thesis unfolding seek seek_to_eq by auto
qed

definition info_sample :: "nat \<Rightarrow> node_info" where
  "info_sample n = \<lparr>ni_is_tty = False, ni_length = 100\<rparr>"

theorem seek_fails_outside_witness:
  "fst (fh_seek info_sample 8 2 (filehandle_new (Some 9) CHR 0x00 CHR 0x00 0))
   \<and> \<not> fst (fh_seek info_sample (- 8) 2 (filehandle_new (Some 9) CHR 0x00 CHR 0x00 0))"
proof -
  let ?fh = "filehandle_new (Some 9) CHR 0x00 CHR 0x00 0"
  have node: "fh_node ?fh = Some 9" by (simp add: filehandle_new_def)
  have "fst (fh_seek info_sample 8 2 ?fh)"
    using seek_fails_outside [OF node, of info_sample 2 108 8] by (simp add: info_sample_def seek_base_def)
  moreover have "\<not> fst (fh_seek info_sample (- 8) 2 ?fh)"
    using seek_fails_outside [OF node, of info_sample 2 92 "- 8"] by (simp add: info_sample_def seek_base_def)
  ultimately show ?thesis ..
qed

section \<open>Handing the table to a child\<close>

lemma add_handles_eq:
  assumes "\<forall>k \<in> set ks. \<exists>i fh. m k = Some i \<and> hs i = Some fh \<and> fh_fd fh = k"
  shows "add_handles hs (map (\<lambda>k. the (m k)) ks) h =
    Inr (h\<lparr>filehandles := \<lambda>k. if k \<in> set ks then m k else filehandles h k\<rparr>)"
  using assms
proof (induction ks arbitrary: h)
  case Nil
  then show ?case by simp
next
  case (Cons k ks)
  from Cons.prems obtain i fh where i: "m k = Some i" "hs i = Some fh" "fh_fd fh = k" by auto
  have "(\<lambda>j. if j \<in> set ks then m j else ((filehandles h)(k \<mapsto> i)) j)
      = (\<lambda>j. if j \<in> set (k # ks) then m j else filehandles h j)"
    using i by (auto simp: fun_eq_iff)
  then have upd: "h\<lparr>filehandles := \<lambda>j. if j \<in> set ks then m j else ((filehandles h)(k \<mapsto> i)) j\<rparr>
      = h\<lparr>filehandles := \<lambda>j. if j \<in> set (k # ks) then m j else filehandles h j\<rparr>"
    by (rule arg_cong)
  have "add_handles hs (map (\<lambda>k. the (m k)) (k # ks)) h
      = add_handles hs (map (\<lambda>k. the (m k)) ks) (h\<lparr>filehandles := (filehandles h)(k \<mapsto> i)\<rparr>)"
    using i by (simp add: add_filehandle_def)
  also have "\<dots> = Inr (h\<lparr>filehandles := \<lambda>j. if j \<in> set ks then m j else ((filehandles h)(k \<mapsto> i)) j\<rparr>)"
    using Cons.IH [of "h\<lparr>filehandles := (filehandles h)(k \<mapsto> i)\<rparr>"] Cons.prems
    by (simp cong: if_cong del: fun_upd_apply)
  finally show ?case unfolding upd .
qed

lemma copy_filehandles_eq:
  assumes "holder_inv hs parent" and "set keys = dom (filehandles parent)"
  shows "copy_filehandles hs keys parent holder_new = Inr parent"
proof -
  have "\<forall>k \<in> set keys. \<exists>i fh. filehandles parent k = Some i \<and> hs i = Some fh \<and> fh_fd fh = k"
    using assms by (force simp: holder_inv_def)
  note add = add_handles_eq [OF this, of holder_new]
  have "(\<lambda>k. if k \<in> set keys then filehandles parent k else filehandles holder_new k) = filehandles parent"
    using assms(2) by (auto simp: fun_eq_iff holder_new_def)
  then show ?thesis unfolding copy_filehandles_def add by (simp add: holder_new_def)
qed

text \<open>Fork gives the child the same handles. Copying the table of a process whose
  invariant holds into a new table makes it equal to the original: the same descriptors
  lead to the same shared handle objects, so what the child reads through a descriptor
  moves the parent's offset as well.\<close>

theorem copy_filehandles_shares:
  assumes "holder_inv hs parent" and "set keys = dom (filehandles parent)"
    and "get_filehandle fd parent = Inr i" and "hs i = Some fh" and "fh_node fh = Some node"
  shows "\<exists>child. copy_filehandles hs keys parent holder_new = Inr child \<and> child = parent
    \<and> holder_inv hs child \<and> get_filehandle fd child = Inr i
    \<and> (let (got, fh', st') = fh_read io n fh st in
         fh_offset fh' = fh_offset fh + ucast n
         \<and> holder_inv (hs(i \<mapsto> fh')) parent \<and> (hs(i \<mapsto> fh')) i = Some fh')"
proof -
  note copy = copy_filehandles_eq [OF assms(1,2)]
  obtain got fh' st' where r: "fh_read io n fh st = (got, fh', st')" by (metis prod_cases3)
  then have fh': "fh_offset fh' = fh_offset fh + ucast n" "fh_fd fh' = fh_fd fh"
    using assms(5) by (auto simp: fh_read_def fh_transfer_def Let_def)
  have "holder_inv (hs(i \<mapsto> fh')) parent"
    using assms(1,4) fh'(2) unfolding holder_inv_def by fastforce
  then show ?thesis using copy assms(1,3) r fh'(1) by simp
qed

theorem copy_filehandles_shares_witness:
  "\<exists>child. copy_filehandles store_sample [0] holder_sample holder_new = Inr child
    \<and> child = holder_sample \<and> get_filehandle 0 child = Inr 4"
proof -
  have "set [0] = dom (filehandles holder_sample)" by (simp add: holder_sample_def)
  moreover have "get_filehandle 0 holder_sample = Inr 4"
    by (simp add: holder_sample_def get_filehandle_def)
  moreover have "store_sample 4 = Some (filehandle_new (Some 9) CHR 0x00 CHR 0x00 0)"
    by (simp add: store_sample_def)
  ultimately show ?thesis
    using copy_filehandles_shares [OF holder_sample_inv, of "[0]" 0 4 _ 9 "\<lambda>_ _ _ s. s" 0 "()"]
    by (auto simp: filehandle_new_def)
qed

end
