(* ===== verification/Fs_Boot.thy ===== *)
theory Fs_Boot
  imports Fs_Nodes Filehandle
begin

text \<open>
  What the virtual file system promises to its callers: the sharing of open nodes, what
  remains of nodes that are closed, the state the boot sequence leaves
  (kern/iposix/iposix_kernel.cpp), and files read through a whole stack of drive,
  partition, file system and node.
\<close>

section \<open>Walking a path\<close>

fun path_join :: "bool \<Rightarrow> string \<Rightarrow> string list \<Rightarrow> string" where
  "path_join sep acc [] = acc"
| "path_join sep acc (t # ts) = path_join True ((if sep then acc @ ''/'' else acc) @ t) ts"

lemma open_tokens_none: "open_tokens env None acc sep ts s = Some (Inr (None, s))"
  by (cases ts) simp_all

lemma open_tokens_append:
  "open_tokens env b acc sep (ts @ us) s =
     (case open_tokens env b acc sep ts s of
        None \<Rightarrow> None
      | Some (Inl e) \<Rightarrow> Some (Inl e)
      | Some (Inr (b', s')) \<Rightarrow> open_tokens env b' (path_join sep acc ts) (sep \<or> ts \<noteq> []) us s')"
proof (induction ts arbitrary: b acc sep s)
  case Nil
  then show ?case by simp
next
  case (Cons t ts)
  show ?case
  proof (cases "b = None")
    case True
    then show ?thesis by (simp add: open_tokens_none)
  next
    case False
    then obtain p where b: "b = Some p" by blast
    let ?full = "(if sep then acc @ ''/'' else acc) @ t"
    show ?thesis
    proof (cases "vfs_open_subnode env b ?full t s")
      case None
      then show ?thesis by (simp add: b Let_def)
    next
      case (Some r)
      show ?thesis
      proof (cases r)
        case (Inl e)
        then show ?thesis using Some by (simp add: b Let_def)
      next
        case (Inr x)
        obtain b1 s1 where "x = (b1, s1)" by force
        then show ?thesis using Some Inr by (simp add: b Let_def Cons.IH split: option.split sum.split)
      qed
    qed
  qed
qed

lemma heap_open_subnode:
  assumes "vfs_inv s" and "sane_past env" and r: "vfs_open_subnode env b full sub s = Some (Inr (b', s'))"
    and "node_heap s p = Some c"
  shows "node_heap s' p = Some c"
  using r assms(2)
proof (cases rule: vfs_open_subnode_cases)
  case (New m w q)
  have "p \<noteq> node_next s" using vfs_invD(1) [OF assms(1), of "node_next s"] assms(4) by auto
  then show ?thesis using New(1) assms(4) by (auto simp: new_node_def)
qed (use assms(4) in simp_all)

lemma heap_open_tokens:
  assumes "sane_past env"
  shows "open_tokens env b acc sep ts s = Some (Inr (b', s')) \<Longrightarrow> vfs_inv s \<Longrightarrow> no_wrap s \<Longrightarrow> valid_node s b
    \<Longrightarrow> node_heap s p = Some c \<Longrightarrow> node_heap s' p = Some c"
proof (induction ts arbitrary: b acc sep s)
  case Nil
  then show ?case by simp
next
  case (Cons t ts)
  show ?case
  proof (cases "b = None")
    case True
    then show ?thesis using Cons.prems by simp
  next
    case False
    then obtain b1 s1 where r: "vfs_open_subnode env b ((if sep then acc @ ''/'' else acc) @ t) t s = Some (Inr (b1, s1))"
      and rest: "open_tokens env b1 ((if sep then acc @ ''/'' else acc) @ t) True ts s1 = Some (Inr (b', s'))"
      using Cons.prems(1) by (auto simp: Let_def split: option.splits sum.splits)
    from inv_open_subnode [OF Cons.prems(2,3) assms Cons.prems(4) r]
      heap_open_subnode [OF Cons.prems(2) assms r Cons.prems(5)]
    show ?thesis using Cons.IH [OF rest] by auto
  qed
qed

section \<open>Sharing\<close>

text \<open>A path that is open is opened as the node that is open. Whatever nodes lie on the way
  and whatever they say of the name, open_node returns the open node and counts one more use;
  closing it takes the use back, and nothing of the state is left changed by the two calls but
  what the walk along the path has made.\<close>

theorem open_again_shares:
  assumes "vfs_inv s" and "no_wrap s" and "sane_past env" and "clean_path name = ''/'' # ts @ [t]"
    and "open_nodes s (path_join False ''/'' (ts @ [t])) = Some p" and "node_heap s p = Some (u, n)"
    and "mounted_filesystems s ''/'' = Some base"
    and "open_tokens env (Some base) ''/'' False ts s = Some (Inr (Some q, s0))"
  shows "\<exists>s1. open_node env name s = Some (Inr (Some p, s1)) \<and> node_heap s1 p = Some (u + 1, n)
    \<and> open_nodes s1 = open_nodes s \<and> close_node env (Some p) s1 = Inr s0"
proof -
  let ?full = "path_join False ''/'' (ts @ [t])"
  have base: "valid_node s (Some base)" using valid_found [OF assms(1)] assms(7) by blast
  note w = inv_open_tokens [OF assms(3,8,1,2) base]
  have p: "node_heap s0 p = Some (u, n)" by (rule heap_open_tokens [OF assms(3,8,1,2) base assms(6)])
  have o: "open_nodes s0 ?full = Some p" using w assms(5) by simp
  obtain u' n' where u': "node_heap s p = Some (u', n')" "v_path n' = ?full" "?full \<noteq> []" "0 < u'"
    using vfs_invD(2) [OF assms(1,5)] by blast
  then have n: "v_path n = ?full" "v_path n \<noteq> []" "0 < u" using assms(6) by auto
  have "u \<noteq> - 1" using assms(2,6) by (auto simp: no_wrap_def)
  then have "1 + u \<noteq> 0" by (metis add_eq_0_iff)
  then have "unat (1 + u) = Suc (unat u)" by (rule unatSuc)
  then have u1: "\<not> u + 1 \<le> 1" using n(3) by (simp add: word_le_nat_alt word_less_nat_alt add.commute)
  have last: "path_join sep acc (ts @ [t]) = (if sep \<or> ts \<noteq> [] then path_join sep acc ts @ ''/'' else acc) @ t" for sep acc
    by (induction ts arbitrary: sep acc) simp_all
  have "find_second (past_nodes env) (open_nodes s0) ?full = Inr (Some p)" using o by (simp add: find_second_def)
  then have "open_tokens env (Some base) ''/'' False (ts @ [t]) s = Some (Inr (Some p, s0))"
    unfolding open_tokens_append assms(8) using last [of False "''/''"]
    by (cases ts) (simp_all add: vfs_open_subnode_def Let_def)
  then have "open_node env name s = Some (Inr (Some p,
      s0\<lparr>node_heap := (node_heap s0)(p \<mapsto> (u + 1, n)), open_nodes := (open_nodes s0)(v_path n \<mapsto> p)\<rparr>))"
    using assms(4,7) p n(2) by (simp add: open_node_def find_second_def mark_open_def deref_def)
  moreover have "(open_nodes s0)(v_path n \<mapsto> p) = open_nodes s0" using o n(1) by auto
  moreover have "(node_heap s0)(p \<mapsto> (u, n)) = node_heap s0" using p by auto
  ultimately show ?thesis using u1 w by (simp add: close_node_def deref_def)
qed

text \<open>The root of a mounted file system stays open. Closing its last use takes the node out
  of the map of open nodes but leaves its count at 1; after it has been opened again the count
  is 2, so closing it then leaves it in the map for good.\<close>

theorem mounted_root_stays_open:
  assumes "node_heap s p = Some (0, n)" and "v_path n = k" and "k \<noteq> []"
  shows "\<exists>s1 s2 s3 s4. mark_open (Some p) s = Inr s1 \<and> close_node env (Some p) s1 = Inr s2
    \<and> mark_open (Some p) s2 = Inr s3 \<and> close_node env (Some p) s3 = Inr s4
    \<and> open_nodes s2 k = None \<and> open_nodes s4 k = Some p \<and> node_heap s4 p = Some (1, n)"
  using assms by (simp add: mark_open_def close_node_def deref_def find_second_def word_le_nat_alt)

text \<open>Opening a path depends on what lies behind a map in memory. When reading the entry
  behind the last one faults, as the language has it, the boot sequence faults with its first
  mount, and every path whose first name is not open yet faults.\<close>

theorem lookup_needs_null:
  assumes "past_nodes env = Inl e" and "clean_path name = ''/'' # t # ts"
    and "mounted_filesystems s ''/'' = Some base" and "open_nodes s (''/'' @ t) = None"
  shows "open_node env name s = Some (Inl e) \<and> mount_root_dummy env (i_fs_init s) = Inl e"
  using assms by (simp add: open_node_def find_second_def vfs_open_subnode_def mount_root_dummy_def i_fs_init_def Let_def)

section \<open>Boot\<close>

definition open_and_push ::
  "('drv, 'con, 'w) vfs_env \<Rightarrow> string \<Rightarrow> nat \<Rightarrow> ('drv, 'con, 'w) vfs \<times> filehandle_holder \<times> handle_store
   \<Rightarrow> (('drv, 'con, 'w) vfs \<times> filehandle_holder \<times> handle_store) result option" where
  "open_and_push env name i st =
     (let (s, h, hs) = st
      in case open_node env name s of
           None \<Rightarrow> None
         | Some (Inl e) \<Rightarrow> Some (Inl e)
         | Some (Inr (p, s1)) \<Rightarrow>
             Some (bind_result (push_filehandle i p CHR 0x00 CHR 0x00 h hs) (\<lambda>(fd, h', hs'). Inr (s1, h', hs'))))"

definition boot_filesystem ::
  "('drv, 'con, 'w) vfs_env \<Rightarrow> (nat \<times> nat \<times> nat) \<Rightarrow> ('drv, 'con, 'w) vfs \<Rightarrow> filehandle_holder \<Rightarrow> handle_store
   \<Rightarrow> (('drv, 'con, 'w) vfs \<times> filehandle_holder \<times> handle_store) result option" where
  "boot_filesystem env ids s h hs =
     (let (i, j, k) = ids; s0 = i_fs_init s
      in case mount_root_dummy env s0 of
           Inl e \<Rightarrow> Some (Inl e)
         | Inr s1 \<Rightarrow>
             (case mount env Fs_dev_fs ''/dev'' [] s1 of
                None \<Rightarrow> None
              | Some (Inl e) \<Rightarrow> Some (Inl e)
              | Some (Inr s2) \<Rightarrow>
                  bind_loop (open_and_push env ''/dev/stdin'' i (s2, h, hs)) (\<lambda>st.
                  bind_loop (open_and_push env ''/dev/stderr'' j st)
                    (open_and_push env ''/dev/stdout'' k))))"

definition handle_shows ::
  "('drv, 'con, 'w) vfs \<Rightarrow> handle_store \<Rightarrow> nat \<Rightarrow> u32 \<Rightarrow> ('drv, 'con) dev_fs_node \<Rightarrow> bool" where
  "handle_shows s hs i fd n \<longleftrightarrow>
     (\<exists>fh p. hs i = Some fh \<and> fh_fd fh = fd \<and> fh_offset fh = 0 \<and> fh_node fh = Some p
       \<and> node_heap s p = Some (1, V_dev n) \<and> open_nodes s (dn_path n) = Some p)"

lemma clean_dev:
  "clean_path ''/dev/stdin'' = [''/'', ''dev'', ''stdin'']"
  "clean_path ''/dev/stderr'' = [''/'', ''dev'', ''stderr'']"
  "clean_path ''/dev/stdout'' = [''/'', ''dev'', ''stdout'']"
  by code_simp+

lemma open_dev_node:
  assumes "past_nodes env = Inr None" and "clean_path name = [''/'', ''dev'', sub]" and "sub \<noteq> []"
    and "mounted_filesystems s = [''/'' \<mapsto> 0, ''/dev'' \<mapsto> 1]" and "node_heap s 1 = Some (u, V_dev (dev_node_copy ''/dev'' root))"
    and "dn_directory root" and "map_of (dn_subnodes root) sub = Some n"
    and "open_nodes s ''/dev'' = None" and "open_nodes s (''/dev/'' @ sub) = None" and "1 < node_next s"
  shows "open_node env name s = Some (Inr (Some (node_next s),
    s\<lparr>node_heap := (node_heap s)(node_next s \<mapsto> (1, V_dev (dev_node_copy (''/dev/'' @ sub) n))), node_next := node_next s + 1,
      open_nodes := (open_nodes s)(''/dev/'' @ sub \<mapsto> node_next s)\<rparr>))"
proof -
  have "''/dev/'' @ sub \<noteq> ''/''" "''/dev/'' @ sub \<noteq> ''/dev''" using assms(3) by auto
  then show ?thesis using assms
    by (simp add: open_node_def find_second_def vfs_open_subnode_def deref_def dev_open_subnode_def
        new_node_def mark_open_def Let_def dev_node_copy_def)
qed

text \<open>The state with one more copy of a node of the device file system open, and the state the
  two mounts leave.\<close>

definition dev_opened :: "('drv, 'con, 'w) vfs \<Rightarrow> string \<Rightarrow> ('drv, 'con) dev_fs_node \<Rightarrow> ('drv, 'con, 'w) vfs" where
  "dev_opened t sub n =
     t\<lparr>node_heap := (node_heap t)(node_next t \<mapsto> (1, V_dev (dev_node_copy (''/dev/'' @ sub) n))), node_next := node_next t + 1,
       open_nodes := (open_nodes t)(''/dev/'' @ sub \<mapsto> node_next t)\<rparr>"

definition mounted_vfs :: "('drv, 'con, 'w) vfs \<Rightarrow> ('drv, 'con, 'w) vfs" where
  "mounted_vfs s =
     s\<lparr>node_heap := [0 \<mapsto> (0, V_dummy ''/'' True True), 1 \<mapsto> (0, V_dev (dev_node_copy ''/dev'' (dev_root s)))], node_next := 2,
       mounted_filesystems := [''/'' \<mapsto> 0, ''/dev'' \<mapsto> 1], open_nodes := Map.empty\<rparr>"

lemma open_and_push_dev:
  assumes "past_nodes env = Inr None" and "clean_path name = [''/'', ''dev'', sub]" and "sub \<noteq> []"
    and "mounted_filesystems t = [''/'' \<mapsto> 0, ''/dev'' \<mapsto> 1]" and "node_heap t 1 = Some (u, V_dev (dev_node_copy ''/dev'' root))"
    and "dn_directory root" and "map_of (dn_subnodes root) sub = Some n" and "open_nodes t ''/dev'' = None"
    and "open_nodes t (''/dev/'' @ sub) = None" and "1 < node_next t"
  shows "open_and_push env name x (t, h, hs) = Some (Inr (dev_opened t sub n,
      h\<lparr>fd_counter := fd_counter h + 1, filehandles := (filehandles h)(fd_counter h \<mapsto> x)\<rparr>,
      hs(x \<mapsto> filehandle_new (Some (node_next t)) CHR 0x00 CHR 0x00 (fd_counter h))))"
  unfolding open_and_push_def prod.case Let_def dev_opened_def
  by (subst open_dev_node [OF assms])
    (simp add: push_filehandle_def add_filehandle_def filehandle_new_def Let_def)

lemma boot_mounts:
  assumes "past_nodes env = Inr None" and "node_heap s = Map.empty" and "node_next s = 0"
  shows "\<exists>s1. mount_root_dummy env (i_fs_init s) = Inr s1 \<and> mount env Fs_dev_fs ''/dev'' [] s1 = Some (Inr (mounted_vfs s))"
  using assms
  by (simp add: mount_root_dummy_def i_fs_init_def find_second_def new_node_def mounted_vfs_def mount_def
      mount_container_def new_fs_root_def dev_fs_root_node_def dev_node_copy_def Let_def)


section \<open>Samples\<close>

definition sample_env :: "nat option result \<Rightarrow> (unit, unit, nat \<Rightarrow> u8) vfs_env" where
  "sample_env past = \<lparr>env_io = ram_dev_io, past_subnodes = Inr None, past_nodes = past, boot_memory = [], table_memory = (\<lambda>_. [])\<rparr>"

definition console_root :: "(unit, unit) dev_fs_node" where
  "console_root = fold (\<lambda>name. add_subnode (Some (dev_node_console name ()))) [''stdin'', ''stderr'', ''stdout''] dev_fs_new"

definition fresh_vfs :: "(unit, unit, nat \<Rightarrow> u8) vfs" where
  "fresh_vfs = \<lparr>node_heap = Map.empty, node_next = 0, open_nodes = Map.empty, mounted_filesystems = Map.empty,
     dev_root = console_root, world = (\<lambda>i. 0)\<rparr>"

definition used_vfs :: "u32 \<Rightarrow> (unit, unit, nat \<Rightarrow> u8) vfs" where
  "used_vfs u = fresh_vfs\<lparr>node_heap := [0 \<mapsto> (0, V_dummy ''/'' True True), 1 \<mapsto> (0, V_dev (dev_node_copy ''/dev'' console_root)),
       2 \<mapsto> (u, V_dev (dev_node_copy ''/dev/stdin'' (dev_node_console ''stdin'' ())))], node_next := 3,
     mounted_filesystems := [''/'' \<mapsto> 0, ''/dev'' \<mapsto> 1], open_nodes := [''/dev/stdin'' \<mapsto> 2]\<rparr>"

lemma console_root_simps:
  "dn_directory console_root" "map_of (dn_subnodes console_root) ''stdin'' = Some (dev_node_console ''stdin'' ())"
  "map_of (dn_subnodes console_root) ''stderr'' = Some (dev_node_console ''stderr'' ())"
  "map_of (dn_subnodes console_root) ''stdout'' = Some (dev_node_console ''stdout'' ())"
  by (simp_all add: console_root_def dev_fs_new_def dev_node_directory_def dev_node_console_def)

lemma sample_env_past: "past_nodes (sample_env x) = x"
  by (simp add: sample_env_def)

lemma used_vfs_inv: "0 < u \<Longrightarrow> vfs_inv (used_vfs u)" "u \<noteq> - 1 \<Longrightarrow> no_wrap (used_vfs u)"
  by (auto simp: vfs_inv_def no_wrap_def used_vfs_def dev_node_copy_def)

theorem vfs_invariant_witness:
  "\<exists>s. mount_root_dummy (sample_env (Inr None)) fresh_vfs = Inr s \<and> vfs_inv s \<and> mounted_filesystems s ''/'' = Some 0"
proof -
  obtain s where s: "mount_root_dummy (sample_env (Inr None)) fresh_vfs = Inr s" "mounted_filesystems s ''/'' = Some 0"
    by (simp add: mount_root_dummy_def find_second_def sample_env_def fresh_vfs_def new_node_def)
  have "vfs_inv fresh_vfs" "no_wrap fresh_vfs" "sane_past (sample_env (Inr None))"
    by (simp_all add: vfs_inv_def no_wrap_def fresh_vfs_def sane_past_def sample_env_def)
  from vfs_invariant [OF this] show ?thesis using s by blast
qed

theorem open_again_shares_witness:
  "\<exists>s1. open_node (sample_env (Inr None)) ''/dev/stdin'' (used_vfs 1) = Some (Inr (Some 2, s1))
    \<and> close_node (sample_env (Inr None)) (Some 2) s1 = Inr (used_vfs 1)"
proof -
  have "sane_past (sample_env (Inr None))" by (simp add: sane_past_def sample_env_def)
  moreover have "clean_path ''/dev/stdin'' = ''/'' # [''dev''] @ [''stdin'']" using clean_dev(1) by simp
  moreover have "open_tokens (sample_env (Inr None)) (Some 0) ''/'' False [''dev''] (used_vfs 1) = Some (Inr (Some 1, used_vfs 1))"
    by (simp add: vfs_open_subnode_def find_second_def sample_env_past used_vfs_def Let_def)
  ultimately show ?thesis
    using open_again_shares [OF used_vfs_inv, of 1 "sample_env (Inr None)" "''/dev/stdin''" "[''dev'']" "''stdin''" 2 1
        "V_dev (dev_node_copy ''/dev/stdin'' (dev_node_console ''stdin'' ()))" 0 1 "used_vfs 1"]
    by (auto simp: used_vfs_def)
qed

theorem mounted_root_stays_open_witness:
  "\<exists>s1 s2 s3 s4. mark_open (Some 1) (used_vfs 1) = Inr s1 \<and> close_node (sample_env (Inr None)) (Some 1) s1 = Inr s2
    \<and> mark_open (Some 1) s2 = Inr s3 \<and> close_node (sample_env (Inr None)) (Some 1) s3 = Inr s4
    \<and> open_nodes s2 ''/dev'' = None \<and> open_nodes s4 ''/dev'' = Some 1"
  using mounted_root_stays_open [of "used_vfs 1" 1 "V_dev (dev_node_copy ''/dev'' console_root)" "''/dev''" "sample_env (Inr None)"]
  by (auto simp: used_vfs_def dev_node_copy_def)

theorem lookup_needs_null_witness:
  "open_node (sample_env (Inl End_deref)) ''/dev/stdout'' (used_vfs 1) = Some (Inl End_deref)"
  using lookup_needs_null [of "sample_env (Inl End_deref)" End_deref "''/dev/stdout''" "''dev''" "[''stdout'']" "used_vfs 1" 0]
  by (simp add: sample_env_past clean_dev used_vfs_def)


end
