(* ===== verification/Page_Bitmap.thy ===== *)
theory Page_Bitmap
  imports Kern_Prelude
begin

text \<open>
  The page bitmap of the memory policy splitted (class bitmap in
  kern/include/mm/policies/splitted.hpp): two bits per page, one saying whether the
  page is in use and one whether the kernel uses it. The bytes live in raw memory
  at the pointer \<open>data\<close>; the model keeps them as a function of the offset.
\<close>

section \<open>Data\<close>

record bitmap =
  bm_data :: "nat \<Rightarrow> u8"
  bm_mem_size :: u64
  bm_entrys :: u64

definition bitmap_new :: bitmap where
  "bitmap_new = \<lparr>bm_data = (\<lambda>_. 0), bm_mem_size = 0, bm_entrys = 0\<rparr>"

text \<open>The page size is the template parameter \<open>PageSize\<close>.\<close>

definition set_to :: "u64 \<Rightarrow> u64 \<Rightarrow> bitmap \<Rightarrow> bitmap" where
  "set_to page_size entrys bm =
     (let ms = drop_bit 2 entrys
      in \<lparr>bm_data = (\<lambda>i. if i < unat entrys then 0 else bm_data bm i),
          bm_mem_size = ms,
          bm_entrys = entrys - (ms div page_size + 1)\<rparr>)"

section \<open>Bit access\<close>

definition bm_index :: "u32 \<Rightarrow> nat" where
  "bm_index entry = unat (drop_bit 2 entry)"

definition bm_shift :: "u32 \<Rightarrow> nat" where
  "bm_shift entry = unat (push_bit 1 entry AND 0x7)"

definition free_mask :: "u32 \<Rightarrow> u8" where
  "free_mask entry = push_bit (bm_shift entry) 1"

definition kernel_mask :: "u32 \<Rightarrow> u8" where
  "kernel_mask entry = push_bit (bm_shift entry) 2"

definition bm_free :: "bitmap \<Rightarrow> u32 \<Rightarrow> bool" where
  "bm_free bm entry \<longleftrightarrow> bm_data bm (bm_index entry) AND free_mask entry \<noteq> free_mask entry"

definition bm_set_free :: "bool \<Rightarrow> u32 \<Rightarrow> bitmap \<Rightarrow> bitmap" where
  "bm_set_free is_free entry bm =
     (let d = bm_data bm (bm_index entry);
          d' = (if is_free then d AND NOT (free_mask entry) else d OR free_mask entry)
      in bm\<lparr>bm_data := (bm_data bm)(bm_index entry := d')\<rparr>)"

definition bm_kernel :: "bitmap \<Rightarrow> u32 \<Rightarrow> bool" where
  "bm_kernel bm entry \<longleftrightarrow> bm_data bm (bm_index entry) AND kernel_mask entry = kernel_mask entry"

definition bm_set_kernel :: "bool \<Rightarrow> u32 \<Rightarrow> bitmap \<Rightarrow> bitmap" where
  "bm_set_kernel is_kernel entry bm =
     (let d = bm_data bm (bm_index entry);
          d' = (if is_kernel then d OR kernel_mask entry else d AND NOT (kernel_mask entry))
      in bm\<lparr>bm_data := (bm_data bm)(bm_index entry := d')\<rparr>)"

section \<open>The bits behind the masks\<close>

lemma bm_shift_eq: "bm_shift entry = 2 * (unat entry mod 4)"
proof -
  have "(0x7 :: u32) = mask 3" by (simp add: mask_eq_exp_minus_1)
  then have "bm_shift entry = unat (push_bit 1 entry) mod 8"
    using unat_and_mask [of "push_bit 1 entry" 3] by (simp add: bm_shift_def)
  also have "unat (push_bit 1 entry) = (2 * unat entry) mod 2 ^ 32"
    by (simp add: push_bit_eq_mult unat_word_ariths mult.commute)
  also have "(2 * unat entry) mod 2 ^ 32 mod 8 = (2 * unat entry) mod 8"
    by (rule mod_mod_cancel) simp
  also have "(2 * unat entry) mod 8 = 2 * (unat entry mod 4)"
    using mult_mod_right [of 2 "unat entry" 4] by simp
  finally show ?thesis .
qed

lemma bm_index_eq: "bm_index entry = unat entry div 4"
  unfolding bm_index_def unat_drop_bit_eq by (simp add: drop_bit_eq_div)

lemma bm_shift_lt: "bm_shift entry < 7"
  by (simp add: bm_shift_eq)

lemma bm_position_eq:
  "bm_index e = bm_index e' \<and> bm_shift e = bm_shift e' \<longleftrightarrow> e = e'"
proof
  assume "bm_index e = bm_index e' \<and> bm_shift e = bm_shift e'"
  then have "unat e div 4 = unat e' div 4" "unat e mod 4 = unat e' mod 4"
    by (simp_all add: bm_index_eq bm_shift_eq)
  then have "unat e = unat e'"
    by (metis div_mult_mod_eq)
  then show "e = e'" by (rule word_unat_eq_iff [THEN iffD2])
qed simp

lemma shift_distinct: "bm_shift e \<noteq> Suc (bm_shift e')"
proof -
  have "2 * a \<noteq> Suc (2 * b)" for a b :: nat by presburger
  then show ?thesis unfolding bm_shift_eq by blast
qed

lemma and_push_bit_1:
  "d AND push_bit k 1 = push_bit k 1 \<longleftrightarrow> bit d k" if "k < 8" for d :: u8
proof
  assume "d AND push_bit k 1 = push_bit k 1"
  moreover have "bit (push_bit k 1 :: u8) k" using that by (simp add: bit_simps)
  ultimately have "bit (d AND push_bit k 1) k" by simp
  then show "bit d k" by (simp add: bit_simps)
next
  assume "bit d k"
  then show "d AND push_bit k 1 = push_bit k 1"
    by (intro bit_word_eqI) (auto simp: bit_simps)
qed

lemma kernel_mask_alt: "kernel_mask entry = push_bit (Suc (bm_shift entry)) 1"
  by (simp add: kernel_mask_def push_bit_eq_mult)

lemma bm_free_bit: "bm_free bm e \<longleftrightarrow> \<not> bit (bm_data bm (bm_index e)) (bm_shift e)"
  using and_push_bit_1 [of "bm_shift e"] bm_shift_lt [of e] unfolding bm_free_def free_mask_def by auto

lemma bm_kernel_bit: "bm_kernel bm e \<longleftrightarrow> bit (bm_data bm (bm_index e)) (Suc (bm_shift e))"
  using and_push_bit_1 [of "Suc (bm_shift e)"] bm_shift_lt [of e]
  unfolding bm_kernel_def kernel_mask_alt by auto

lemma bit_set_free:
  "bit (bm_data (bm_set_free b e bm) i) k \<longleftrightarrow>
    (if i = bm_index e \<and> k = bm_shift e then \<not> b else bit (bm_data bm i) k)"
  using bm_shift_lt [of e]
  by (auto simp: bm_set_free_def free_mask_def Let_def bit_simps dest: bit_imp_le_length)

lemma bit_set_kernel:
  "bit (bm_data (bm_set_kernel b e bm) i) k \<longleftrightarrow>
    (if i = bm_index e \<and> k = Suc (bm_shift e) then b else bit (bm_data bm i) k)"
  using bm_shift_lt [of e]
  by (auto simp: bm_set_kernel_def kernel_mask_alt Let_def bit_simps dest: bit_imp_le_length)

section \<open>The contract of the bitmap\<close>

lemma bm_free_set_free: "bm_free (bm_set_free b e bm) e' \<longleftrightarrow> (if e' = e then b else bm_free bm e')"
  using bm_position_eq [of e' e] by (auto simp: bm_free_bit bit_set_free)

lemma bm_free_set_kernel: "bm_free (bm_set_kernel b e bm) e' = bm_free bm e'"
  using shift_distinct [of e' e] by (simp add: bm_free_bit bit_set_kernel)

lemma bm_kernel_set_kernel:
  "bm_kernel (bm_set_kernel b e bm) e' \<longleftrightarrow> (if e' = e then b else bm_kernel bm e')"
  using bm_position_eq [of e' e] by (auto simp: bm_kernel_bit bit_set_kernel)

lemma bm_kernel_set_free: "bm_kernel (bm_set_free b e bm) e' = bm_kernel bm e'"
  using shift_distinct [of e e'] by (auto simp: bm_kernel_bit bit_set_free)

lemma bm_length_set [simp]:
  "bm_entrys (bm_set_free b e bm) = bm_entrys bm"
  "bm_entrys (bm_set_kernel b e bm) = bm_entrys bm"
  by (simp_all add: bm_set_free_def bm_set_kernel_def Let_def)

lemma bm_free_set_to:
  assumes "unat e < unat entrys"
  shows "bm_free (set_to page_size entrys bm) e \<and> \<not> bm_kernel (set_to page_size entrys bm) e"
proof -
  have "bm_index e < unat entrys" using assms by (simp add: bm_index_eq)
  then show ?thesis by (simp add: bm_free_bit bm_kernel_bit set_to_def Let_def)
qed

text \<open>
  The interface the page allocator uses: a map from page numbers to the two bits.
  A write of one bit of one page changes nothing else.
\<close>

locale page_map =
  fixes is_free :: "'b \<Rightarrow> u32 \<Rightarrow> bool"
    and is_kernel :: "'b \<Rightarrow> u32 \<Rightarrow> bool"
    and set_free :: "bool \<Rightarrow> u32 \<Rightarrow> 'b \<Rightarrow> 'b"
    and set_kernel :: "bool \<Rightarrow> u32 \<Rightarrow> 'b \<Rightarrow> 'b"
  assumes free_set_free: "is_free (set_free b e m) e' \<longleftrightarrow> (if e' = e then b else is_free m e')"
    and free_set_kernel: "is_free (set_kernel b e m) e' = is_free m e'"
    and kernel_set_kernel: "is_kernel (set_kernel b e m) e' \<longleftrightarrow> (if e' = e then b else is_kernel m e')"
    and kernel_set_free: "is_kernel (set_free b e m) e' = is_kernel m e'"
begin

definition used :: "'b \<Rightarrow> u32 set" where
  "used m = {e. \<not> is_free m e}"

definition take_page :: "bool \<Rightarrow> u32 \<Rightarrow> 'b \<Rightarrow> 'b" where
  "take_page k e m = set_kernel k e (set_free False e m)"

lemma used_set_free: "used (set_free b e m) = (if b then used m - {e} else insert e (used m))"
  by (auto simp: used_def free_set_free)

lemma used_set_kernel [simp]: "used (set_kernel b e m) = used m"
  by (simp add: used_def free_set_kernel)

lemma used_take_page: "used (take_page k e m) = insert e (used m)"
  by (simp add: take_page_def used_set_free)

lemma take_then_release:
  assumes "is_free m e"
  shows "used (set_free True e (take_page k e m)) = used m"
proof -
  have "e \<notin> used m" using assms by (simp add: used_def)
  then show ?thesis by (simp add: used_set_free used_take_page)
qed

end

interpretation pm: page_map bm_free bm_kernel bm_set_free bm_set_kernel
  by unfold_locales
    (simp_all add: bm_free_set_free bm_free_set_kernel bm_kernel_set_kernel bm_kernel_set_free)

end
