(* ===== verification/Kernel_Heap.thy ===== *)
theory Kernel_Heap
  imports Page_Bitmap
begin

text \<open>
  The kernel heap of the memory policy splitted (kern/include/mm/policies/splitted.hpp):
  a doubly linked list of free/used structures, each in front of the memory it
  describes. This theory holds the state of the policy, kernel_malloc and
  kernel_free, and the proof that they implement a first fit allocator on a list
  of blocks that tiles the heap.
\<close>

section \<open>State\<close>

text \<open>A structure lives in memory; the store maps addresses to the structures there.\<close>

record fu_structure =
  fu_free :: bool
  fu_previous :: ptr
  fu_next :: ptr
  allocated_memory :: ptr
  fu_size :: u64

type_synonym fu_store = "ptr \<Rightarrow> fu_structure option"

text \<open>
  \<open>sizeof( fu_structure )\<close> on 32-bit x86: a padded bool, three pointers and a
  64-bit size aligned to four bytes.
\<close>

abbreviation sizeof_fu :: "'a::numeral" where
  "sizeof_fu \<equiv> 24"

record splitted =
  is_initialized :: bool
  first_address :: ptr
  cur_kernel_bound :: ptr
  max_kernel_bound :: ptr
  cur_user_bound :: ptr
  last_address :: ptr
  page_bm :: bitmap
  first_structure :: ptr
  fu_mem :: fu_store

definition splitted_new :: splitted where
  "splitted_new = \<lparr>is_initialized = False, first_address = 0, cur_kernel_bound = 0,
     max_kernel_bound = 0, cur_user_bound = 0, last_address = 0, page_bm = bitmap_new,
     first_structure = 0, fu_mem = Map.empty\<rparr>"

section \<open>kernel_malloc\<close>

text \<open>
  The walk along the chain to the first free structure that is large enough; it
  returns the structure (null at the end) and its predecessor. On a cyclic chain
  without a fit it does not return.
\<close>

partial_function (option) find_fit ::
  "fu_store \<Rightarrow> u64 \<Rightarrow> ptr \<Rightarrow> ptr \<Rightarrow> (ptr \<times> ptr) result option" where
  "find_fit st n cur prev =
     (if cur = 0 then Some (Inr (0, prev))
      else case st cur of
        None \<Rightarrow> Some (Inl Wild_access)
      | Some f \<Rightarrow>
          if fu_free f \<and> fu_size f \<ge> n then Some (Inr (cur, prev))
          else find_fit st n (fu_next f) cur)"

definition append_structure :: "u64 \<Rightarrow> ptr \<Rightarrow> splitted \<Rightarrow> ptr \<times> splitted" where
  "append_structure n prev s =
     (let new_kernel_bound = cur_kernel_bound s + sizeof_fu + ucast n
      in if new_kernel_bound > cur_user_bound s then (0, s)
         else
           (let mx = (if new_kernel_bound > max_kernel_bound s then new_kernel_bound
                      else max_kernel_bound s);
                cur = cur_kernel_bound s;
                new = \<lparr>fu_free = False, fu_previous = prev, fu_next = 0,
                       allocated_memory = cur_kernel_bound s + sizeof_fu, fu_size = n\<rparr>;
                st = (fu_mem s)(cur \<mapsto> new);
                st' = (if first_structure s = 0 then st
                       else if prev \<noteq> 0 then st(prev := map_option (fu_next_update (\<lambda>_. cur)) (st prev))
                       else st);
                first = (if first_structure s = 0 then cur else first_structure s)
            in (allocated_memory new,
                s\<lparr>max_kernel_bound := mx, cur_kernel_bound := new_kernel_bound,
                  first_structure := first, fu_mem := st'\<rparr>)))"

text \<open>
  A free structure is reused. When enough is left over, a new free structure is
  put behind it; the code then writes the predecessor field of the structure that
  follows without a test for null.
\<close>

definition reuse_structure :: "u64 \<Rightarrow> ptr \<Rightarrow> fu_structure \<Rightarrow> splitted \<Rightarrow> (ptr \<times> splitted) result" where
  "reuse_structure n cur f s =
     (let f1 = f\<lparr>fu_free := False\<rparr>;
          st1 = (fu_mem s)(cur \<mapsto> f1)
      in if fu_size f > n \<and> fu_size f - n > sizeof_fu
         then
           (let remain = fu_size f - n - sizeof_fu;
                pos = allocated_memory f + ucast n;
                new_fu = \<lparr>fu_free = True, fu_previous = cur, fu_next = fu_next f,
                          allocated_memory = pos + sizeof_fu, fu_size = remain\<rparr>;
                st2 = st1(cur \<mapsto> f1\<lparr>fu_size := n\<rparr>, pos \<mapsto> new_fu)
            in if fu_next f = 0 then Inl Null_deref
               else
                 (case st2 (fu_next f) of
                    None \<Rightarrow> Inl Wild_access
                  | Some nx \<Rightarrow>
                      (let st3 = st2(fu_next f \<mapsto> nx\<lparr>fu_previous := pos\<rparr>);
                           st4 = st3(cur := map_option (fu_next_update (\<lambda>_. pos)) (st3 cur))
                       in Inr (allocated_memory f, s\<lparr>fu_mem := st4\<rparr>))))
         else Inr (allocated_memory f, s\<lparr>fu_mem := st1\<rparr>))"

definition kernel_malloc :: "u64 \<Rightarrow> splitted \<Rightarrow> (ptr \<times> splitted) result option" where
  "kernel_malloc n s =
     (case find_fit (fu_mem s) n (first_structure s) 0 of
        None \<Rightarrow> None
      | Some (Inl e) \<Rightarrow> Some (Inl e)
      | Some (Inr (cur, prev)) \<Rightarrow>
          Some
            (if cur = 0 then Inr (append_structure n prev s)
             else case fu_mem s cur of
               None \<Rightarrow> Inl Wild_access
             | Some f \<Rightarrow> reuse_structure n cur f s))"

section \<open>kernel_free\<close>

text \<open>Writing one field of the structure at an address, if the address is not null.\<close>

definition set_previous :: "ptr \<Rightarrow> ptr \<Rightarrow> fu_store \<Rightarrow> fu_store result" where
  "set_previous p v st =
     (if p = 0 then Inr st
      else case st p of None \<Rightarrow> Inl Wild_access | Some f \<Rightarrow> Inr (st(p \<mapsto> f\<lparr>fu_previous := v\<rparr>)))"

text \<open>The structure \<open>prev\<close> takes over its successor \<open>cur\<close>.\<close>

definition absorb :: "ptr \<Rightarrow> ptr \<Rightarrow> fu_store \<Rightarrow> fu_store result" where
  "absorb prev cur st =
     (case (st prev, st cur) of
        (Some p, Some c) \<Rightarrow>
          set_previous (fu_next c) prev
            (st(prev \<mapsto> p\<lparr>fu_size := fu_size p + sizeof_fu + fu_size c, fu_next := fu_next c\<rparr>))
      | _ \<Rightarrow> Inl Wild_access)"

definition is_free_at :: "ptr \<Rightarrow> fu_store \<Rightarrow> bool result" where
  "is_free_at p st =
     (if p = 0 then Inr False
      else case st p of None \<Rightarrow> Inl Wild_access | Some f \<Rightarrow> Inr (fu_free f))"

text \<open>Merge with the predecessor if it is free; the structure that is left is returned.\<close>

definition merge_previous :: "ptr \<Rightarrow> fu_structure \<Rightarrow> fu_store \<Rightarrow> (ptr \<times> fu_store) result" where
  "merge_previous cur f st =
     bind_result (is_free_at (fu_previous f) st) (\<lambda>b.
       if b then bind_result (absorb (fu_previous f) cur st) (\<lambda>st'. Inr (fu_previous f, st'))
       else Inr (cur, st))"

definition merge_next :: "ptr \<Rightarrow> fu_store \<Rightarrow> fu_store result" where
  "merge_next cur st =
     (case st cur of
        None \<Rightarrow> Inl Wild_access
      | Some f \<Rightarrow>
          bind_result (is_free_at (fu_next f) st) (\<lambda>b.
            if b then absorb cur (fu_next f) st else Inr st))"

definition mark_free :: "ptr \<Rightarrow> fu_store \<Rightarrow> fu_store result" where
  "mark_free cur st =
     (case st cur of
        None \<Rightarrow> Inl Wild_access
      | Some f \<Rightarrow> Inr (st(cur \<mapsto> f\<lparr>fu_free := True\<rparr>)))"

definition kernel_free :: "ptr \<Rightarrow> splitted \<Rightarrow> (bool \<times> splitted) result" where
  "kernel_free addr s =
     (let cur = addr - sizeof_fu
      in if cur = 0 then Inr (False, s)
         else case fu_mem s cur of
           None \<Rightarrow> Inl Wild_access
         | Some f \<Rightarrow>
             if addr = allocated_memory f
             then
               bind_result (merge_previous cur f (fu_mem s)) (\<lambda>(cur', st1).
                 bind_result (merge_next cur' st1) (\<lambda>st2.
                   bind_result (mark_free cur' st2) (\<lambda>st3.
                     Inr (True, s\<lparr>fu_mem := st3\<rparr>))))
             else Inr (False, s))"

section \<open>The chain of structures\<close>

text \<open>
  The abstract heap is the list of its blocks, each with its size and whether it is
  free, in the order of their addresses. \<open>fu_seg st q p a bs q' p' a'\<close> says that from
  the pointer \<open>p\<close>, at the address \<open>a\<close>, the store holds one structure per block of
  \<open>bs\<close>, each directly behind the memory of the one before and with the right
  predecessor (\<open>q\<close> for the first), and that the successor \<open>p'\<close> of the last one
  \<open>q'\<close> is expected at \<open>a'\<close>.
\<close>

type_synonym blocks = "(nat \<times> bool) list"

fun fu_seg :: "fu_store \<Rightarrow> ptr \<Rightarrow> ptr \<Rightarrow> nat \<Rightarrow> blocks \<Rightarrow> ptr \<Rightarrow> ptr \<Rightarrow> nat \<Rightarrow> bool" where
  "fu_seg st q p a [] q' p' a' \<longleftrightarrow> q' = q \<and> p' = p \<and> a' = a"
| "fu_seg st q p a ((sz, fr) # bs) q' p' a' \<longleftrightarrow>
     p \<noteq> 0 \<and> unat p = a \<and> a + sizeof_fu + sz < 2 ^ 32 \<and>
     (\<exists>f. st p = Some f \<and> fu_free f = fr \<and> unat (fu_size f) = sz \<and> fu_previous f = q
        \<and> allocated_memory f = p + sizeof_fu
        \<and> fu_seg st p (fu_next f) (a + sizeof_fu + sz) bs q' p' a')"

definition blocks_size :: "blocks \<Rightarrow> nat" where
  "blocks_size bs = sum_list (map (\<lambda>b. sizeof_fu + fst b) bs)"

lemma blocks_size_simps [simp]:
  "blocks_size [] = 0" "blocks_size (b # bs) = sizeof_fu + fst b + blocks_size bs"
  "blocks_size (bs @ cs) = blocks_size bs + blocks_size cs"
  by (simp_all add: blocks_size_def)

lemma fu_seg_ConsI:
  "p \<noteq> 0 \<Longrightarrow> unat p = a \<Longrightarrow> a + sizeof_fu + sz < 2 ^ 32 \<Longrightarrow> st p = Some f \<Longrightarrow> fu_free f = fr
   \<Longrightarrow> unat (fu_size f) = sz \<Longrightarrow> fu_previous f = q \<Longrightarrow> allocated_memory f = p + sizeof_fu
   \<Longrightarrow> fu_seg st p nx a2 bs q' p' a' \<Longrightarrow> fu_next f = nx \<Longrightarrow> a2 = a + sizeof_fu + sz
   \<Longrightarrow> fu_seg st q p a ((sz, fr) # bs) q' p' a'"
  by auto

lemma fu_seg_end: "fu_seg st q p a bs q' p' a' \<Longrightarrow> a' = a + blocks_size bs"
proof (induction bs arbitrary: q p a)
  case Nil
  then show ?case by simp
next
  case (Cons b bs)
  obtain sz fr where b: "b = (sz, fr)" by (cases b)
  from Cons.prems obtain n where "fu_seg st p n (a + sizeof_fu + sz) bs q' p' a'"
    by (auto simp: b)
  from Cons.IH [OF this] show ?case by (simp add: b)
qed

lemma fu_seg_append_ex:
  "fu_seg st q p a (bs @ cs) q' p' a' \<longleftrightarrow>
    (\<exists>q1 p1 a1. fu_seg st q p a bs q1 p1 a1 \<and> fu_seg st q1 p1 a1 cs q' p' a')"
proof (induction bs arbitrary: q p a)
  case Nil
  then show ?case by simp
next
  case (Cons b bs)
  then show ?case by (cases b) (simp, blast)
qed

lemma fu_seg_append:
  "fu_seg st q p a (bs @ cs) q' p' a' \<longleftrightarrow>
    (\<exists>q1 p1. fu_seg st q p a bs q1 p1 (a + blocks_size bs)
       \<and> fu_seg st q1 p1 (a + blocks_size bs) cs q' p' a')"
proof
  assume "fu_seg st q p a (bs @ cs) q' p' a'"
  then obtain q1 p1 a1 where "fu_seg st q p a bs q1 p1 a1" "fu_seg st q1 p1 a1 cs q' p' a'"
    unfolding fu_seg_append_ex by blast
  then show "\<exists>q1 p1. fu_seg st q p a bs q1 p1 (a + blocks_size bs)
       \<and> fu_seg st q1 p1 (a + blocks_size bs) cs q' p' a'"
    using fu_seg_end by blast
qed (auto simp: fu_seg_append_ex)

text \<open>Only the structures inside the addresses of the segment matter.\<close>

lemma fu_seg_cong:
  "fu_seg st q p a bs q' p' a' \<Longrightarrow> (\<And>x. a \<le> unat x \<Longrightarrow> unat x < a' \<Longrightarrow> st' x = st x)
   \<Longrightarrow> fu_seg st' q p a bs q' p' a'"
proof (induction bs arbitrary: q p a)
  case Nil
  then show ?case by simp
next
  case (Cons b bs)
  obtain sz fr where b: "b = (sz, fr)" by (cases b)
  from Cons.prems(1) obtain f where f: "st p = Some f" "unat p = a"
    "fu_seg st p (fu_next f) (a + sizeof_fu + sz) bs q' p' a'"
    by (auto simp: b)
  have "a' = a + sizeof_fu + sz + blocks_size bs" using fu_seg_end [OF f(3)] .
  then have "st' p = st p" using Cons.prems(2) [of p] f(2) by simp
  moreover have "fu_seg st' p (fu_next f) (a + sizeof_fu + sz) bs q' p' a'"
    by (rule Cons.IH [OF f(3)]) (use Cons.prems(2) in simp)
  ultimately show ?case using Cons.prems(1) f b by auto
qed

lemma fu_seg_upd_outside:
  "fu_seg st q p a bs q' p' a' \<Longrightarrow> \<not> (a \<le> unat x \<and> unat x < a')
   \<Longrightarrow> fu_seg (st(x := v)) q p a bs q' p' a'"
  by (erule fu_seg_cong) auto

text \<open>The last structure is a member of the segment.\<close>

lemma fu_seg_snoc:
  "fu_seg st q p a (bs @ [(sz, fr)]) q' p' a' \<longleftrightarrow>
    (\<exists>q1 f. fu_seg st q p a bs q1 q' (a + blocks_size bs) \<and> q' \<noteq> 0
       \<and> unat q' = a + blocks_size bs \<and> a' = a + blocks_size bs + sizeof_fu + sz \<and> a' < 2 ^ 32
       \<and> st q' = Some f \<and> fu_free f = fr \<and> unat (fu_size f) = sz \<and> fu_previous f = q1
       \<and> allocated_memory f = q' + sizeof_fu \<and> fu_next f = p')"
  (is "?L \<longleftrightarrow> ?R")
proof
  assume ?L
  then obtain q1 p1 where 1: "fu_seg st q p a bs q1 p1 (a + blocks_size bs)"
    and 2: "fu_seg st q1 p1 (a + blocks_size bs) [(sz, fr)] q' p' a'"
    unfolding fu_seg_append by blast
  from 2 have "q' = p1" by auto
  with 1 2 show ?R by auto
next
  assume ?R
  then obtain q1 f where 1: "fu_seg st q p a bs q1 q' (a + blocks_size bs)"
    and f: "q' \<noteq> 0" "unat q' = a + blocks_size bs" "a' = a + blocks_size bs + sizeof_fu + sz"
      "a' < 2 ^ 32" "st q' = Some f" "fu_free f = fr" "unat (fu_size f) = sz"
      "fu_previous f = q1" "allocated_memory f = q' + sizeof_fu" "fu_next f = p'"
    by blast
  have "fu_seg st q1 q' (a + blocks_size bs) [(sz, fr)] q' p' a'" using f by simp
  with 1 show ?L unfolding fu_seg_append by blast
qed

section \<open>The specification: first fit on a list of blocks\<close>

definition fits :: "nat \<Rightarrow> nat \<times> bool \<Rightarrow> bool" where
  "fits n b \<longleftrightarrow> snd b \<and> n \<le> fst b"

text \<open>What an allocation from a free block leaves: the used block, and a free rest
  where there is room for one more structure.\<close>

definition carve :: "nat \<Rightarrow> nat \<Rightarrow> blocks" where
  "carve n sz =
     (if sz > n \<and> sz - n > sizeof_fu then [(n, False), (sz - n - sizeof_fu, True)]
      else [(sz, False)])"

lemma blocks_size_carve: "n \<le> sz \<Longrightarrow> blocks_size (carve n sz) = sizeof_fu + sz"
  by (auto simp: carve_def)

lemma find_fit_skip:
  "fu_seg st q p a bs q' p' a' \<Longrightarrow> list_all (\<lambda>b. \<not> fits (unat n) b) bs
   \<Longrightarrow> find_fit st n p q = find_fit st n p' q'"
proof (induction bs arbitrary: q p a)
  case Nil
  then show ?case by simp
next
  case (Cons b bs)
  obtain sz fr where b: "b = (sz, fr)" by (cases b)
  from Cons.prems obtain f where f: "p \<noteq> 0" "st p = Some f" "fu_free f = fr"
    "unat (fu_size f) = sz" "fu_seg st p (fu_next f) (a + sizeof_fu + sz) bs q' p' a'"
    by (auto simp: b)
  have "\<not> (fu_free f \<and> n \<le> fu_size f)"
    using Cons.prems(2) f by (simp add: b fits_def word_le_nat_alt)
  then have "find_fit st n p q = find_fit st n (fu_next f) p"
    using f by (subst find_fit.simps) auto
  also have "\<dots> = find_fit st n p' q'"
    using Cons.IH [OF f(5)] Cons.prems(2) by simp
  finally show ?case .
qed

lemma find_fit_end:
  "fu_seg st q p a bs q' 0 a' \<Longrightarrow> list_all (\<lambda>b. \<not> fits (unat n) b) bs
   \<Longrightarrow> find_fit st n p q = Some (Inr (0, q'))"
  using find_fit_skip [of st q p a bs q' 0 a' n] by (simp add: find_fit.simps [of st n 0])

lemma fu_seg_relink:
  assumes "fu_seg st q p a (b # bs) q' p' a'" and "st p = Some g"
    and "st' p = Some (g\<lparr>fu_previous := r\<rparr>)"
    and "\<And>x. a < unat x \<Longrightarrow> unat x < a' \<Longrightarrow> st' x = st x"
  shows "fu_seg st' r p a (b # bs) q' p' a'"
proof -
  obtain sz fr where b: "b = (sz, fr)" by (cases b)
  have tl: "fu_seg st p (fu_next g) (a + sizeof_fu + sz) bs q' p' a'"
    using assms(1,2) by (auto simp: b)
  have "fu_seg st' p (fu_next g) (a + sizeof_fu + sz) bs q' p' a'"
    by (rule fu_seg_cong [OF tl]) (rule assms(4), simp_all)
  then show ?thesis using assms(1-3) by (auto simp: b)
qed

fun split_fit :: "nat \<Rightarrow> blocks \<Rightarrow> (blocks \<times> nat \<times> blocks) option" where
  "split_fit n [] = None"
| "split_fit n (b # bs) =
     (if fits n b then Some ([], fst b, bs)
      else map_option (\<lambda>(pre, sz, post). (b # pre, sz, post)) (split_fit n bs))"

lemma split_fit_Some:
  "split_fit n bs = Some (pre, sz, post)
   \<Longrightarrow> bs = pre @ (sz, True) # post \<and> list_all (\<lambda>b. \<not> fits n b) pre \<and> n \<le> sz"
  by (induction bs arbitrary: pre) (auto simp: fits_def split: if_splits)

lemma split_fit_None: "split_fit n bs = None \<longleftrightarrow> list_all (\<lambda>b. \<not> fits n b) bs"
  by (induction bs) auto

text \<open>
  The specification of an allocation of \<open>n\<close> bytes from the blocks \<open>bs\<close> that
  start at \<open>base\<close> and may grow up to \<open>limit\<close>: the address handed out (0 when there
  is no room) and the blocks afterwards. It is undefined when the last block
  would have to be carved.
\<close>

definition spec_malloc :: "nat \<Rightarrow> nat \<Rightarrow> nat \<Rightarrow> blocks \<Rightarrow> (nat \<times> blocks) option" where
  "spec_malloc base limit n bs =
     (case split_fit n bs of
        Some (pre, sz, post) \<Rightarrow>
          (if post = [] \<and> length (carve n sz) = 2 then None
           else Some (base + blocks_size pre + sizeof_fu, pre @ carve n sz @ post))
      | None \<Rightarrow>
          (if base + blocks_size bs + sizeof_fu + n \<le> limit
           then Some (base + blocks_size bs + sizeof_fu, bs @ [(n, False)])
           else Some (0, bs)))"

text \<open>The invariant of the kernel heap, with its abstract value.\<close>

definition heap_blocks :: "splitted \<Rightarrow> blocks \<Rightarrow> bool" where
  "heap_blocks s bs \<longleftrightarrow> first_address s \<noteq> 0 \<and> cur_kernel_bound s \<le> cur_user_bound s
     \<and> (\<exists>q. fu_seg (fu_mem s) 0 (first_structure s) (unat (first_address s)) bs q 0
              (unat (cur_kernel_bound s)))"

text \<open>What kernel_malloc and kernel_free leave alone.\<close>

definition same_pages :: "splitted \<Rightarrow> splitted \<Rightarrow> bool" where
  "same_pages s s' \<longleftrightarrow> is_initialized s' = is_initialized s \<and> first_address s' = first_address s
     \<and> cur_user_bound s' = cur_user_bound s \<and> last_address s' = last_address s
     \<and> page_bm s' = page_bm s"

section \<open>kernel_malloc implements the specification\<close>

lemma append_structure_refines:
  assumes hb: "heap_blocks s bs"
    and seg: "fu_seg (fu_mem s) 0 (first_structure s) (unat (first_address s)) bs q 0
              (unat (cur_kernel_bound s))"
    and nw: "unat (cur_kernel_bound s) + sizeof_fu + unat n < 2 ^ 32"
    and room: "unat (cur_kernel_bound s) + sizeof_fu + unat n \<le> unat (cur_user_bound s)"
  shows "\<exists>s'. append_structure n q s = (cur_kernel_bound s + sizeof_fu, s')
     \<and> unat (cur_kernel_bound s + sizeof_fu) = unat (cur_kernel_bound s) + sizeof_fu
     \<and> heap_blocks s' (bs @ [(unat n, False)]) \<and> same_pages s s'"
proof -
  let ?k = "cur_kernel_bound s"
  let ?nb = "?k + sizeof_fu + ucast n"
  have n32: "unat (ucast n :: u32) = unat n" using nw by (simp add: unat_ucast32)
  have k24: "unat (?k + sizeof_fu) = unat ?k + sizeof_fu"
    using nw by (intro unat_plus_nowrap [THEN trans]) simp_all
  have unb: "unat ?nb = unat ?k + sizeof_fu + unat n"
    using nw n32 k24 by (subst unat_plus_nowrap) simp_all
  have nroom: "\<not> ?nb > cur_user_bound s"
    using room unb by (simp add: word_less_nat_alt)
  have "0 < unat (first_address s)" using hb by (simp add: heap_blocks_def unat_gt_0)
  then have k0: "?k \<noteq> 0" using fu_seg_end [OF seg] by (auto simp: unat_eq_0)
  obtain s' where s': "append_structure n q s = (?k + sizeof_fu, s')"
    "cur_kernel_bound s' = ?nb" "same_pages s s'"
    "first_structure s' = (if first_structure s = 0 then ?k else first_structure s)"
    "fu_mem s' = (let new = \<lparr>fu_free = False, fu_previous = q, fu_next = 0,
                       allocated_memory = ?k + sizeof_fu, fu_size = n\<rparr>;
                st = (fu_mem s)(?k \<mapsto> new)
            in if first_structure s = 0 then st
               else if q \<noteq> 0 then st(q := map_option (fu_next_update (\<lambda>_. ?k)) (st q)) else st)"
    using nroom by (simp add: append_structure_def same_pages_def Let_def)
  have "fu_seg (fu_mem s') 0 (first_structure s') (unat (first_address s)) (bs @ [(unat n, False)])
      ?k 0 (unat ?nb)"
  proof (cases bs rule: rev_cases)
    case Nil
    then show ?thesis using seg s' k0 unb nw by (simp add: Let_def)
  next
    case (snoc cs b)
    obtain sz fr where b: "b = (sz, fr)" by (cases b)
    from seg obtain q1 f where pre: "fu_seg (fu_mem s) 0 (first_structure s)
          (unat (first_address s)) cs q1 q (unat (first_address s) + blocks_size cs)"
      and f: "q \<noteq> 0" "unat q = unat (first_address s) + blocks_size cs"
        "unat ?k = unat (first_address s) + blocks_size cs + sizeof_fu + sz"
        "fu_mem s q = Some f" "fu_free f = fr" "unat (fu_size f) = sz" "fu_previous f = q1"
        "allocated_memory f = q + sizeof_fu"
      unfolding snoc b fu_seg_snoc by blast
    have fs: "first_structure s \<noteq> 0" using seg snoc by (cases cs) (auto simp: b)
    have qk: "q \<noteq> ?k" using f(2,3) by auto
    have mem: "fu_mem s' = (fu_mem s)(?k \<mapsto> \<lparr>fu_free = False, fu_previous = q, fu_next = 0,
                       allocated_memory = ?k + sizeof_fu, fu_size = n\<rparr>, q \<mapsto> f\<lparr>fu_next := ?k\<rparr>)"
      using s'(5) fs f(1,4) qk by (simp add: Let_def)
    have "fu_seg (fu_mem s') 0 (first_structure s) (unat (first_address s)) cs q1 q
        (unat (first_address s) + blocks_size cs)"
      by (rule fu_seg_cong [OF pre]) (use mem f(2,3) in auto)
    then have "fu_seg (fu_mem s') 0 (first_structure s) (unat (first_address s)) bs q ?k (unat ?k)"
      unfolding snoc b fu_seg_snoc using f mem qk unat_lt32 [of ?k] by auto
    then show ?thesis
      unfolding fu_seg_snoc [of _ _ _ _ bs] using fu_seg_end [OF seg] mem qk k0 unb nw s'(4) fs by auto
  qed
  then have "heap_blocks s' (bs @ [(unat n, False)])"
    using hb s' nroom by (auto simp: heap_blocks_def same_pages_def)
  then show ?thesis using s'(1,3) k24 by blast
qed

lemma carve_whole: "\<not> (sz > n \<and> sz - n > sizeof_fu) \<Longrightarrow> carve n sz = [(sz, False)]"
  by (auto simp: carve_def)

lemma carve_split: "n + sizeof_fu < sz \<Longrightarrow> carve n sz = [(n, False), (sz - n - sizeof_fu, True)]"
  by (auto simp: carve_def)

text \<open>The structure \<open>f\<close> at \<open>cur\<close> describes a free block between two segments.\<close>

definition fit_at ::
  "fu_store \<Rightarrow> ptr \<Rightarrow> nat \<Rightarrow> blocks \<Rightarrow> nat \<Rightarrow> blocks \<Rightarrow> ptr \<Rightarrow> nat \<Rightarrow> ptr \<Rightarrow> ptr \<Rightarrow> fu_structure \<Rightarrow> bool"
where
  "fit_at st p a pre sz post q e q1 cur f \<longleftrightarrow>
     fu_seg st 0 p a pre q1 cur (a + blocks_size pre)
   \<and> cur \<noteq> 0 \<and> unat cur = a + blocks_size pre \<and> st cur = Some f
   \<and> unat (fu_size f) = sz \<and> fu_previous f = q1 \<and> allocated_memory f = cur + sizeof_fu
   \<and> fu_seg st cur (fu_next f) (a + blocks_size pre + sizeof_fu + sz) post q 0 e
   \<and> a + blocks_size pre + sizeof_fu + sz < 2 ^ 32"

lemma fit_at_exists:
  assumes "fu_seg st 0 p a (pre @ (sz, fr) # post) q 0 e"
  obtains q1 cur f where "fit_at st p a pre sz post q e q1 cur f" "fu_free f = fr"
proof -
  from assms obtain q1 cur where "fu_seg st 0 p a pre q1 cur (a + blocks_size pre)"
    and "fu_seg st q1 cur (a + blocks_size pre) ((sz, fr) # post) q 0 e"
    unfolding fu_seg_append by blast
  then show ?thesis by (auto simp: fit_at_def intro: that)
qed

lemma fit_at_mem:
  "fit_at st p a pre sz post q e q1 cur f
   \<Longrightarrow> unat (allocated_memory f) = a + blocks_size pre + sizeof_fu"
  by (subst (asm) fit_at_def) (simp add: unat_plus_nowrap)

lemma reuse_whole:
  assumes fit: "fit_at (fu_mem s) p a pre sz post q e q1 cur f"
    and whole: "\<not> (sz > unat n \<and> sz - unat n > sizeof_fu)" "unat n \<le> sz"
  shows "\<exists>st'. reuse_structure n cur f s = Inr (allocated_memory f, s\<lparr>fu_mem := st'\<rparr>)
     \<and> fu_seg st' 0 p a (pre @ (sz, False) # post) q 0 e"
proof -
  let ?st = "(fu_mem s)(cur \<mapsto> f\<lparr>fu_free := False\<rparr>)"
  note at = fit [unfolded fit_at_def]
  have "n \<le> fu_size f" using whole at by (simp add: word_le_nat_alt)
  then have "unat (fu_size f - n) = sz - unat n" using at by (simp add: unat_minus_le)
  then have "\<not> (fu_size f > n \<and> fu_size f - n > sizeof_fu)"
    using whole at by (simp add: word_less_nat_alt)
  then have r: "reuse_structure n cur f s = Inr (allocated_memory f, s\<lparr>fu_mem := ?st\<rparr>)"
    by (auto simp: reuse_structure_def Let_def)
  have "fu_seg ?st 0 p a pre q1 cur (a + blocks_size pre)"
    using at by (intro fu_seg_upd_outside) simp_all
  moreover have "fu_seg ?st cur (fu_next f) (a + blocks_size pre + sizeof_fu + sz) post q 0 e"
    using at by (intro fu_seg_upd_outside) simp_all
  then have "fu_seg ?st q1 cur (a + blocks_size pre) ((sz, False) # post) q 0 e"
    using at by simp
  ultimately have "fu_seg ?st 0 p a (pre @ (sz, False) # post) q 0 e"
    unfolding fu_seg_append by blast
  with r show ?thesis by blast
qed

lemma reuse_split_null:
  assumes fit: "fit_at (fu_mem s) p a pre sz [] q e q1 cur f"
    and split: "unat n + sizeof_fu < sz"
  shows "reuse_structure n cur f s = Inl Null_deref"
proof -
  note at = fit [unfolded fit_at_def]
  have "n \<le> fu_size f" using split at by (simp add: word_le_nat_alt)
  then have "unat (fu_size f - n) = sz - unat n" using at by (simp add: unat_minus_le)
  then have "fu_size f > n \<and> fu_size f - n > sizeof_fu"
    using split at by (simp add: word_less_nat_alt)
  moreover have "fu_next f = 0" using at by simp
  ultimately show ?thesis by (simp add: reuse_structure_def Let_def)
qed

lemma reuse_split:
  assumes fit: "fit_at (fu_mem s) p a pre sz (b # post) q e q1 cur f"
    and split: "unat n + sizeof_fu < sz"
  shows "\<exists>st'. reuse_structure n cur f s = Inr (allocated_memory f, s\<lparr>fu_mem := st'\<rparr>)
     \<and> fu_seg st' 0 p a (pre @ (unat n, False) # (sz - unat n - sizeof_fu, True) # b # post) q 0 e"
proof -
  note at = fit [unfolded fit_at_def]
  have le: "n \<le> fu_size f" using split at by (simp add: word_le_nat_alt)
  then have d: "unat (fu_size f - n) = sz - unat n" using at by (simp add: unat_minus_le)
  then have c: "fu_size f > n" "fu_size f - n > sizeof_fu"
    using split at by (simp_all add: word_less_nat_alt)
  have rem: "unat (fu_size f - n - sizeof_fu) = sz - unat n - sizeof_fu"
    using c(2) d by (subst unat_minus_le) (simp_all add: order_less_imp_le)
  define pos where "pos = allocated_memory f + ucast n"
  have n32: "unat (ucast n :: u32) = unat n"
    using split at by (simp add: unat_ucast32)
  have upos: "unat pos = a + blocks_size pre + sizeof_fu + unat n"
    using split at fit_at_mem [OF fit] n32 unfolding pos_def by (subst unat_plus_nowrap) simp_all
  have pos0: "pos \<noteq> 0" using upos by auto
  have umem: "unat (pos + sizeof_fu) = unat pos + sizeof_fu"
    using upos split at by (subst unat_plus_nowrap) simp_all
  obtain g where g: "fu_mem s (fu_next f) = Some g" "fu_next f \<noteq> 0"
      "unat (fu_next f) = a + blocks_size pre + sizeof_fu + sz"
    using at by (cases b) auto
  have ne: "cur \<noteq> pos" "cur \<noteq> fu_next f" "pos \<noteq> fu_next f"
    using upos g at split by auto
  define st' where "st' = (fu_mem s)(cur \<mapsto> f\<lparr>fu_free := False, fu_size := n, fu_next := pos\<rparr>,
      pos \<mapsto> \<lparr>fu_free = True, fu_previous = cur, fu_next = fu_next f,
        allocated_memory = pos + sizeof_fu, fu_size = fu_size f - n - sizeof_fu\<rparr>,
      fu_next f \<mapsto> g\<lparr>fu_previous := pos\<rparr>)"
  have r: "reuse_structure n cur f s = Inr (allocated_memory f, s\<lparr>fu_mem := st'\<rparr>)"
    using c g ne by (simp add: reuse_structure_def st'_def pos_def [symmetric] Let_def fun_upd_twist)
  have "fu_seg st' 0 p a pre q1 cur (a + blocks_size pre)"
    by (rule fu_seg_cong [of "fu_mem s"]) (use at upos g in \<open>auto simp: st'_def\<close>)
  moreover
  have s1: "fu_seg st' pos (fu_next f) (a + blocks_size pre + sizeof_fu + sz) (b # post) q 0 e"
    by (rule fu_seg_relink [of "fu_mem s" cur]) (use at g ne upos split in \<open>auto simp: st'_def\<close>)
  have at2: "st' pos = Some \<lparr>fu_free = True, fu_previous = cur, fu_next = fu_next f,
        allocated_memory = pos + sizeof_fu, fu_size = fu_size f - n - sizeof_fu\<rparr>"
    "st' cur = Some (f\<lparr>fu_free := False, fu_size := n, fu_next := pos\<rparr>)"
    using ne by (simp_all add: st'_def)
  have s2: "fu_seg st' cur pos (unat pos) ((sz - unat n - sizeof_fu, True) # b # post) q 0 e"
    using ne pos0 upos split rem at
    by (intro fu_seg_ConsI [OF _ _ _ at2(1) _ _ _ _ s1]) simp_all
  have "fu_seg st' q1 cur (a + blocks_size pre)
      ((unat n, False) # (sz - unat n - sizeof_fu, True) # b # post) q 0 e"
    using upos split at
    by (intro fu_seg_ConsI [OF _ _ _ at2(2) _ _ _ _ s2]) simp_all
  ultimately have "fu_seg st' 0 p a (pre @ (unat n, False) # (sz - unat n - sizeof_fu, True) # b # post) q 0 e"
    unfolding fu_seg_append by blast
  with r show ?thesis by blast
qed

lemma kernel_malloc_spec:
  assumes hb: "heap_blocks s bs"
    and nw: "unat (cur_kernel_bound s) + sizeof_fu + unat n < 2 ^ 32"
  shows "\<exists>r. kernel_malloc n s = Some r \<and>
    (case spec_malloc (unat (first_address s)) (unat (cur_user_bound s)) (unat n) bs of
       None \<Rightarrow> r = Inl Null_deref
     | Some (addr, bs') \<Rightarrow>
         (\<exists>p s'. r = Inr (p, s') \<and> unat p = addr \<and> heap_blocks s' bs' \<and> same_pages s s'))"
proof -
  let ?a = "unat (first_address s)" and ?e = "unat (cur_kernel_bound s)"
  obtain q where seg: "fu_seg (fu_mem s) 0 (first_structure s) ?a bs q 0 ?e"
    using hb by (auto simp: heap_blocks_def)
  show ?thesis
  proof (cases "split_fit (unat n) bs")
    case None
    have ff: "find_fit (fu_mem s) n (first_structure s) 0 = Some (Inr (0, q))"
      using find_fit_end [OF seg] None by (simp add: split_fit_None)
    have e: "?e = ?a + blocks_size bs" by (rule fu_seg_end [OF seg])
    show ?thesis
    proof (cases "?e + sizeof_fu + unat n \<le> unat (cur_user_bound s)")
      case True
      from append_structure_refines [OF hb seg nw True] show ?thesis
        using ff None e True by (auto simp: kernel_malloc_def spec_malloc_def)
    next
      case False
      have n32: "unat (ucast n :: u32) = unat n" using nw by (simp add: unat_ucast32)
      have "unat (cur_kernel_bound s + sizeof_fu) = ?e + sizeof_fu"
        using nw by (subst unat_plus_nowrap) simp_all
      then have "unat (cur_kernel_bound s + sizeof_fu + ucast n) = ?e + sizeof_fu + unat n"
        using nw n32 by (subst unat_plus_nowrap) simp_all
      then have "append_structure n q s = (0, s)"
        using False by (simp add: append_structure_def word_less_nat_alt Let_def)
      then show ?thesis
        using ff None e False hb by (auto simp: kernel_malloc_def spec_malloc_def same_pages_def)
    qed
  next
    case (Some r)
    then obtain pre sz post where sf: "split_fit (unat n) bs = Some (pre, sz, post)"
      by (cases r) auto
    note sp = split_fit_Some [OF sf]
    obtain q1 cur f where fit: "fit_at (fu_mem s) (first_structure s) ?a pre sz post q ?e q1 cur f"
      and fr: "fu_free f"
      using fit_at_exists seg sp by metis
    note at = fit [unfolded fit_at_def]
    have "find_fit (fu_mem s) n (first_structure s) 0 = find_fit (fu_mem s) n cur q1"
      using find_fit_skip at sp by blast
    also have "\<dots> = Some (Inr (cur, q1))"
      using at fr sp by (subst find_fit.simps) (simp add: word_le_nat_alt)
    finally have km: "kernel_malloc n s = Some (reuse_structure n cur f s)"
      using at by (simp add: kernel_malloc_def)
    have spec: "spec_malloc ?a (unat (cur_user_bound s)) (unat n) bs =
        (if post = [] \<and> length (carve (unat n) sz) = 2 then None
         else Some (unat (allocated_memory f), pre @ carve (unat n) sz @ post))"
      using sf fit_at_mem [OF fit] by (simp add: spec_malloc_def)
    have keep: "heap_blocks (s\<lparr>fu_mem := st'\<rparr>) bs' \<and> same_pages s (s\<lparr>fu_mem := st'\<rparr>)"
      if "fu_seg st' 0 (first_structure s) ?a bs' q 0 ?e" for st' bs'
      using hb that by (auto simp: heap_blocks_def same_pages_def)
    show ?thesis
    proof (cases "unat n + sizeof_fu < sz")
      case False
      then have "\<not> (sz > unat n \<and> sz - unat n > sizeof_fu)" by auto
      with reuse_whole [OF fit this] sp show ?thesis
        using km spec keep by (auto simp: carve_whole)
    next
      case True
      show ?thesis
      proof (cases post)
        case Nil
        with reuse_split_null [of s] fit True show ?thesis
          using km spec by (auto simp: carve_split)
      next
        case (Cons b post')
        from reuse_split [OF fit [unfolded Cons] True] obtain st' where
          st': "reuse_structure n cur f s = Inr (allocated_memory f, s\<lparr>fu_mem := st'\<rparr>)"
          "fu_seg st' 0 (first_structure s) ?a (pre @ carve (unat n) sz @ post) q 0 ?e"
          using True Cons by (auto simp: carve_split)
        have "spec_malloc ?a (unat (cur_user_bound s)) (unat n) bs
            = Some (unat (allocated_memory f), pre @ carve (unat n) sz @ post)"
          using spec Cons by simp
        then show ?thesis using km st'(1) keep [OF st'(2)] by auto
      qed
    qed
  qed
qed


definition heap_sample :: splitted where
  "heap_sample = splitted_new
     \<lparr>is_initialized := True, first_address := 0x1000, cur_kernel_bound := 0x10BC,
      max_kernel_bound := 0x10BC, cur_user_bound := 0x2000, last_address := 0x3000,
      first_structure := 0x1000,
      fu_mem := [0x1000 \<mapsto> \<lparr>fu_free = True, fu_previous = 0, fu_next = 0x107C,
                     allocated_memory = 0x1018, fu_size = 100\<rparr>,
                 0x107C \<mapsto> \<lparr>fu_free = False, fu_previous = 0x1000, fu_next = 0,
                     allocated_memory = 0x1094, fu_size = 40\<rparr>]\<rparr>"

lemma heap_sample_blocks: "heap_blocks heap_sample [(100, True), (40, False)]"
  by (simp add: heap_blocks_def heap_sample_def splitted_new_def)

text \<open>C1: kernel_malloc is a first fit allocator. On a heap that represents the
  blocks \<open>bs\<close> it returns, hands out the address the specification names, and
  leaves a heap that represents the blocks of the specification; in the one case
  the specification leaves undefined, a fit in the last block with enough left
  for another structure, it writes through a null pointer. The request must not
  push the heap past the end of the address space.\<close>

theorem kernel_malloc_refines:
  assumes hb: "heap_blocks s bs"
    and nw: "unat (cur_kernel_bound s) + sizeof_fu + unat n < 2 ^ 32"
  shows "\<exists>r. kernel_malloc n s = Some r \<and>
    (case spec_malloc (unat (first_address s)) (unat (cur_user_bound s)) (unat n) bs of
       None \<Rightarrow> r = Inl Null_deref
     | Some (addr, bs') \<Rightarrow>
         (\<exists>p s'. r = Inr (p, s') \<and> unat p = addr \<and> heap_blocks s' bs' \<and> same_pages s s'))"
  using assms by (rule kernel_malloc_spec)

theorem kernel_malloc_refines_witness:
  "\<exists>p s'. kernel_malloc 10 heap_sample = Some (Inr (p, s')) \<and> unat p = 0x1018
     \<and> heap_blocks s' [(10, False), (66, True), (40, False)]"
  using kernel_malloc_refines [OF heap_sample_blocks, of 10]
  by (auto simp: heap_sample_def splitted_new_def spec_malloc_def fits_def carve_def)

section \<open>kernel_free implements the specification\<close>

text \<open>The neighbours of a block that are free are merged with it.\<close>

definition join_prev :: "blocks \<Rightarrow> nat \<Rightarrow> blocks \<times> nat" where
  "join_prev pre sz =
     (if pre \<noteq> [] \<and> snd (last pre) then (butlast pre, fst (last pre) + sizeof_fu + sz)
      else (pre, sz))"

definition join_next :: "nat \<Rightarrow> blocks \<Rightarrow> nat \<times> blocks" where
  "join_next sz post =
     (if post \<noteq> [] \<and> snd (hd post) then (sz + sizeof_fu + fst (hd post), tl post)
      else (sz, post))"

definition spec_free :: "blocks \<Rightarrow> nat \<Rightarrow> blocks \<Rightarrow> blocks" where
  "spec_free pre sz post =
     (let (pre', sz1) = join_prev pre sz; (sz2, post') = join_next sz1 post
      in pre' @ (sz2, True) # post')"

lemma fit_at_seg:
  "fit_at st p a pre sz post q e q1 cur f
   \<Longrightarrow> fu_seg st 0 p a (pre @ (sz, fu_free f) # post) q 0 e"
  unfolding fit_at_def fu_seg_append by auto

lemma fit_at_prev:
  assumes "fit_at st p a (pre @ [(ps, pf)]) sz post q e q1 cur f"
  shows "\<exists>q0 g. fit_at st p a pre ps ((sz, fu_free f) # post) q e q0 q1 g
     \<and> fu_free g = pf \<and> fu_next g = cur"
proof -
  note at = assms [unfolded fit_at_def]
  from at obtain q0 g where "fu_seg st 0 p a pre q0 q1 (a + blocks_size pre)"
    and "q1 \<noteq> 0" "unat q1 = a + blocks_size pre" "st q1 = Some g" "fu_free g = pf"
      "unat (fu_size g) = ps" "fu_previous g = q0" "allocated_memory g = q1 + sizeof_fu" "fu_next g = cur"
    unfolding fu_seg_snoc by blast
  with at show ?thesis by (auto simp: fit_at_def ac_simps)
qed

lemma fit_at_first: "fit_at st p a [] sz post q e q1 cur f \<Longrightarrow> q1 = 0"
  by (simp add: fit_at_def)

lemma fit_at_absorb:
  assumes fit: "fit_at st p a pre sz ((ns, nf) # post) q e q1 cur f"
  shows "\<exists>st' q' f'. absorb cur (fu_next f) st = Inr st'
     \<and> fit_at st' p a pre (sz + sizeof_fu + ns) post q' e q1 cur f'"
proof -
  note at = fit [unfolded fit_at_def]
  let ?a2 = "a + blocks_size pre + sizeof_fu + sz" and ?nx = "fu_next f"
  from at obtain g where g: "?nx \<noteq> 0" "unat ?nx = ?a2" "st ?nx = Some g"
      "unat (fu_size g) = ns" "?a2 + sizeof_fu + ns < 2 ^ 32"
    and rest: "fu_seg st ?nx (fu_next g) (?a2 + sizeof_fu + ns) post q 0 e"
    by auto
  let ?f' = "f\<lparr>fu_size := fu_size f + sizeof_fu + fu_size g, fu_next := fu_next g\<rparr>"
  have "unat (fu_size f + sizeof_fu) = sz + sizeof_fu"
    using at g by (subst unat_plus_nowrap) simp_all
  then have sz': "unat (fu_size f + sizeof_fu + fu_size g) = sz + sizeof_fu + ns"
    using at g by (subst unat_plus_nowrap) simp_all
  show ?thesis
  proof (cases post)
    case Nil
    have ab: "absorb cur ?nx st = Inr (st(cur \<mapsto> ?f'))"
      using at g rest Nil by (simp add: absorb_def set_previous_def)
    have "fu_seg (st(cur \<mapsto> ?f')) 0 p a pre q1 cur (a + blocks_size pre)"
      by (rule fu_seg_upd_outside) (use at in auto)
    then have "fit_at (st(cur \<mapsto> ?f')) p a pre (sz + sizeof_fu + ns) post cur e q1 cur ?f'"
      using at g rest Nil sz' by (simp add: fit_at_def)
    with ab show ?thesis by blast
  next
    case (Cons b post')
    obtain bs bf where b: "b = (bs, bf)" by (cases b)
    from rest obtain h where h: "fu_next g \<noteq> 0" "unat (fu_next g) = ?a2 + sizeof_fu + ns"
        "st (fu_next g) = Some h"
      by (auto simp: Cons b)
    have ne: "cur \<noteq> fu_next g" using at h by auto
    let ?st = "st(cur \<mapsto> ?f', fu_next g \<mapsto> h\<lparr>fu_previous := cur\<rparr>)"
    have ab: "absorb cur ?nx st = Inr ?st"
      using at g h ne by (simp add: absorb_def set_previous_def)
    have 1: "fu_seg ?st 0 p a pre q1 cur (a + blocks_size pre)"
      by (rule fu_seg_cong [of st]) (use at h in auto)
    have 2: "fu_seg ?st cur (fu_next g) (?a2 + sizeof_fu + ns) post q 0 e"
      unfolding Cons by (rule fu_seg_relink [OF rest [unfolded Cons] h(3)]) (use at h in auto)
    have "fit_at ?st p a pre (sz + sizeof_fu + ns) post q e q1 cur ?f'"
      using at g ne sz' 1 2 by (simp add: fit_at_def ac_simps)
    with ab show ?thesis by blast
  qed
qed

lemma merge_previous_refines:
  assumes fit: "fit_at st p a pre sz post q e q1 cur f"
    and jp: "join_prev pre sz = (pre', sz')"
  shows "\<exists>cur' st' q' q1' f'. merge_previous cur f st = Inr (cur', st')
     \<and> fit_at st' p a pre' sz' post q' e q1' cur' f'"
proof (cases pre rule: rev_cases)
  case Nil
  with fit have "q1 = 0" using fit_at_first by blast
  moreover have "fu_previous f = q1" using fit by (simp only: fit_at_def)
  ultimately have "fu_previous f = 0" by simp
  then have "merge_previous cur f st = Inr (cur, st)"
    by (simp add: merge_previous_def is_free_at_def)
  moreover have "pre' = pre" "sz' = sz" using jp Nil by (simp_all add: join_prev_def)
  ultimately show ?thesis using fit by blast
next
  case (snoc pre0 b)
  obtain ps pf where b: "b = (ps, pf)" by (cases b)
  from fit_at_prev [OF fit [unfolded snoc b]] obtain q0 g where
    g: "fit_at st p a pre0 ps ((sz, fu_free f) # post) q e q0 q1 g" "fu_free g = pf" "fu_next g = cur"
    by blast
  have q1: "fu_previous f = q1" "q1 \<noteq> 0" "st q1 = Some g"
    using fit g(1) by (simp_all add: fit_at_def)
  show ?thesis
  proof (cases pf)
    case True
    with jp snoc b have "pre' = pre0" "sz' = ps + sizeof_fu + sz" by (auto simp: join_prev_def)
    moreover obtain st' q' g' where "absorb q1 (fu_next g) st = Inr st'"
      "fit_at st' p a pre0 (ps + sizeof_fu + sz) post q' e q0 q1 g'"
      using fit_at_absorb [OF g(1)] by blast
    moreover have "merge_previous cur f st = bind_result (absorb q1 cur st) (\<lambda>st'. Inr (q1, st'))"
      using q1 g True by (simp add: merge_previous_def is_free_at_def)
    ultimately show ?thesis using g(3) by auto
  next
    case False
    with jp snoc b have "pre' = pre" "sz' = sz" by (auto simp: join_prev_def)
    moreover have "merge_previous cur f st = Inr (cur, st)"
      using q1 g False by (simp add: merge_previous_def is_free_at_def)
    ultimately show ?thesis using fit by blast
  qed
qed

lemma merge_next_refines:
  assumes fit: "fit_at st p a pre sz post q e q1 cur f"
    and jn: "join_next sz post = (sz', post')"
  shows "\<exists>st' q' f'. merge_next cur st = Inr st' \<and> fit_at st' p a pre sz' post' q' e q1 cur f'"
proof -
  have cur: "st cur = Some f" using fit by (simp add: fit_at_def)
  show ?thesis
  proof (cases post)
    case Nil
    then have "fu_next f = 0" using fit by (simp add: fit_at_def)
    then have "merge_next cur st = Inr st"
      using cur by (simp add: merge_next_def is_free_at_def)
    moreover have "sz' = sz" "post' = post" using jn Nil by (simp_all add: join_next_def)
    ultimately show ?thesis using fit by blast
  next
    case (Cons b post0)
    obtain ns nf where b: "b = (ns, nf)" by (cases b)
    have g: "is_free_at (fu_next f) st = Inr nf"
      using fit by (auto simp: fit_at_def Cons b is_free_at_def)
    show ?thesis
    proof (cases nf)
      case True
      with jn Cons b have "post' = post0" "sz' = sz + sizeof_fu + ns" by (auto simp: join_next_def)
      moreover obtain st' q' f' where "absorb cur (fu_next f) st = Inr st'"
        "fit_at st' p a pre (sz + sizeof_fu + ns) post0 q' e q1 cur f'"
        using fit_at_absorb [OF fit [unfolded Cons b]] by blast
      moreover have "merge_next cur st = absorb cur (fu_next f) st"
        using g cur True by (simp add: merge_next_def)
      ultimately show ?thesis by auto
    next
      case False
      with jn Cons b have "post' = post" "sz' = sz" by (auto simp: join_next_def)
      moreover have "merge_next cur st = Inr st" using g cur False by (simp add: merge_next_def)
      ultimately show ?thesis using fit by blast
    qed
  qed
qed

lemma mark_free_refines:
  assumes fit: "fit_at st p a pre sz post q e q1 cur f"
  shows "\<exists>st'. mark_free cur st = Inr st' \<and> fu_seg st' 0 p a (pre @ (sz, True) # post) q 0 e"
proof -
  note at = fit [unfolded fit_at_def]
  let ?st = "st(cur \<mapsto> f\<lparr>fu_free := True\<rparr>)"
  have 1: "fu_seg ?st 0 p a pre q1 cur (a + blocks_size pre)"
    using at by (intro fu_seg_upd_outside) simp_all
  have 2: "fu_seg ?st cur (fu_next f) (a + blocks_size pre + sizeof_fu + sz) post q 0 e"
    using at by (intro fu_seg_upd_outside) simp_all
  have "fit_at ?st p a pre sz post q e q1 cur (f\<lparr>fu_free := True\<rparr>)"
    unfolding fit_at_def using at 1 2 by simp
  from fit_at_seg [OF this] show ?thesis using at by (simp add: mark_free_def)
qed

lemma kernel_free_spec:
  assumes hb: "heap_blocks s (pre @ (sz, fr) # post)"
    and addr: "unat addr = unat (first_address s) + blocks_size pre + sizeof_fu"
  shows "\<exists>s'. kernel_free addr s = Inr (True, s') \<and> heap_blocks s' (spec_free pre sz post)
     \<and> same_pages s s' \<and> cur_kernel_bound s' = cur_kernel_bound s"
proof -
  let ?a = "unat (first_address s)" and ?e = "unat (cur_kernel_bound s)"
  obtain q where "fu_seg (fu_mem s) 0 (first_structure s) ?a (pre @ (sz, fr) # post) q 0 ?e"
    using hb by (auto simp: heap_blocks_def)
  then obtain q1 cur f where
    fit: "fit_at (fu_mem s) (first_structure s) ?a pre sz post q ?e q1 cur f"
    by (rule fit_at_exists)
  have am: "allocated_memory f = addr"
    using fit_at_mem [OF fit] addr by (simp add: word_unat_eq_iff)
  have cur: "addr - sizeof_fu = cur" "cur \<noteq> 0" "fu_mem s cur = Some f"
    using fit am by (auto simp: fit_at_def)
  obtain pre' sz1 sz2 post' where jp: "join_prev pre sz = (pre', sz1)"
    and jn: "join_next sz1 post = (sz2, post')"
    by (metis surj_pair)
  obtain cur' st1 q' q1' f1 where m1: "merge_previous cur f (fu_mem s) = Inr (cur', st1)"
    and fit1: "fit_at st1 (first_structure s) ?a pre' sz1 post q' ?e q1' cur' f1"
    using merge_previous_refines [OF fit jp] by blast
  obtain st2 q'' f2 where m2: "merge_next cur' st1 = Inr st2"
    and fit2: "fit_at st2 (first_structure s) ?a pre' sz2 post' q'' ?e q1' cur' f2"
    using merge_next_refines [OF fit1 jn] by blast
  obtain st3 where m3: "mark_free cur' st2 = Inr st3"
    and seg: "fu_seg st3 0 (first_structure s) ?a (pre' @ (sz2, True) # post') q'' 0 ?e"
    using mark_free_refines [OF fit2] by blast
  have "kernel_free addr s = Inr (True, s\<lparr>fu_mem := st3\<rparr>)"
    using cur am m1 m2 m3 by (simp add: kernel_free_def)
  moreover have "heap_blocks (s\<lparr>fu_mem := st3\<rparr>) (spec_free pre sz post)"
    using hb seg jp jn by (auto simp: heap_blocks_def spec_free_def)
  ultimately show ?thesis by (auto simp: same_pages_def)
qed

text \<open>C2: kernel_free releases the block that holds the address and merges it with
  the free blocks beside it; it answers true, faults nowhere and leaves a heap that
  represents the blocks of the specification. This holds for any block of the heap,
  a block that is already free included.\<close>

theorem kernel_free_refines:
  assumes hb: "heap_blocks s (pre @ (sz, fr) # post)"
    and addr: "unat addr = unat (first_address s) + blocks_size pre + sizeof_fu"
  shows "\<exists>s'. kernel_free addr s = Inr (True, s') \<and> heap_blocks s' (spec_free pre sz post)
     \<and> same_pages s s' \<and> cur_kernel_bound s' = cur_kernel_bound s"
  using assms by (rule kernel_free_spec)

theorem kernel_free_refines_witness:
  "\<exists>s'. kernel_free 0x1094 heap_sample = Inr (True, s') \<and> heap_blocks s' [(164, True)]"
proof -
  have "heap_blocks heap_sample ([(100, True)] @ (40, False) # [])"
    using heap_sample_blocks by simp
  from kernel_free_refines [OF this, of "0x1094"] show ?thesis
    by (auto simp: heap_sample_def splitted_new_def spec_free_def join_prev_def join_next_def)
qed

text \<open>The gap in the specification is reached. When the last block of the heap has
  been freed and no other block fits, a smaller request that leaves room for another
  structure writes through a null pointer.\<close>

theorem malloc_after_free_faults:
  assumes hb: "heap_blocks s (pre @ [(sz, False)])"
    and addr: "unat addr = unat (first_address s) + blocks_size pre + sizeof_fu"
    and used: "list_all (\<lambda>b. \<not> snd b) pre"
    and small: "unat n + sizeof_fu < sz"
    and nw: "unat (cur_kernel_bound s) + sizeof_fu + unat n < 2 ^ 32"
  shows "\<exists>s'. kernel_free addr s = Inr (True, s') \<and> kernel_malloc n s' = Some (Inl Null_deref)"
proof -
  have nf: "join_prev pre sz = (pre, sz)"
    using used by (cases pre rule: rev_cases) (auto simp: join_prev_def)
  have "split_fit k (pre @ [(sz, True)]) = Some (pre, sz, [])" if "k \<le> sz" for k
    using used that by (induction pre) (auto simp: fits_def)
  then have gap: "spec_malloc b l (unat n) (pre @ [(sz, True)]) = None" for b l
    using small by (simp add: spec_malloc_def carve_split)
  from kernel_free_spec [of s pre sz False "[]" addr] hb addr obtain s' where
    s': "kernel_free addr s = Inr (True, s')" "heap_blocks s' (spec_free pre sz [])"
      "cur_kernel_bound s' = cur_kernel_bound s"
    by auto
  have "heap_blocks s' (pre @ [(sz, True)])"
    using s'(2) nf by (simp add: spec_free_def join_next_def)
  from kernel_malloc_spec [OF this, of n] nw s' gap show ?thesis by auto
qed

theorem malloc_after_free_faults_witness:
  "\<exists>s s'. heap_blocks s [(100, False)] \<and> kernel_free 0x1018 s = Inr (True, s')
     \<and> kernel_malloc 10 s' = Some (Inl Null_deref)"
proof -
  let ?s = "heap_sample \<lparr>cur_kernel_bound := 0x107C,
      fu_mem := [0x1000 \<mapsto> \<lparr>fu_free = False, fu_previous = 0, fu_next = 0,
                     allocated_memory = 0x1018, fu_size = 100\<rparr>]\<rparr>"
  have hb: "heap_blocks ?s ([] @ [(100, False)])"
    by (simp add: heap_blocks_def heap_sample_def splitted_new_def)
  have "\<exists>s'. kernel_free 0x1018 ?s = Inr (True, s') \<and> kernel_malloc 10 s' = Some (Inl Null_deref)"
    by (rule malloc_after_free_faults [OF hb]) (simp_all add: heap_sample_def splitted_new_def)
  with hb show ?thesis by auto
qed

end
