(* ===== verification/Splitted_Pages.thy ===== *)
theory Splitted_Pages
  imports Kernel_Heap Memory_Area
begin

text \<open>
  The page side of the memory policy splitted (kern/include/mm/policies/splitted.hpp)
  and its public operations: set_memory_areas, malloc, free, page_alloc and
  page_free. The kernel heap grows from the first address upwards, pages are taken
  from the last address downwards, and the two bounds keep them apart.
  The template parameter PageSize is the argument \<open>ps\<close>.
\<close>

section \<open>Operations\<close>

text \<open>
  set_memory_areas asks the machine for one area; with an empty list the default
  constructed area (null, null) is used.
\<close>

definition first_area :: "memory_area list \<Rightarrow> memory_area" where
  "first_area mem =
     (case get_memory_areas mem 1 of [] \<Rightarrow> \<lparr>low = 0, high = 0\<rparr> | a # _ \<Rightarrow> a)"

definition splitted_set_memory_areas :: "u32 \<Rightarrow> memory_area list \<Rightarrow> splitted \<Rightarrow> splitted" where
  "splitted_set_memory_areas ps mem s =
     (if is_initialized s then s
      else
        (let area = first_area mem;
             bm = set_to (ucast ps) (ucast ((high area - low area) div ps)) (page_bm s);
             l1 = low area + ucast (bm_mem_size bm);
             l2 = (if l1 mod ps \<noteq> 0 then l1 + (ps - l1 mod ps) else l1)
         in s\<lparr>page_bm := bm, first_address := l2, cur_kernel_bound := l2, max_kernel_bound := l2,
              cur_user_bound := high area, last_address := high area, is_initialized := True\<rparr>))"

text \<open>The scan for a free page, from the last page down; page 0 is not looked at.\<close>

function page_scan :: "u32 \<Rightarrow> bool \<Rightarrow> u64 \<Rightarrow> ptr \<Rightarrow> bitmap \<Rightarrow> u64 \<times> ptr \<times> bitmap" where
  "page_scan ps is_krn i ret bm =
     (if i > 0
      then (if bm_free bm (ucast i)
            then (i, ret, bm_set_kernel is_krn (ucast i) (bm_set_free False (ucast i) bm))
            else page_scan ps is_krn (i - 1) (ret - ps) bm)
      else (i, ret, bm))"
  by auto
termination
  by (relation "measure (\<lambda>(ps, is_krn, i, ret, bm). unat i)")
    (simp_all add: unat_minus_one unat_gt_0)

declare page_scan.simps [simp del]

text \<open>
  Memory between the page and the old kernel bound is cleared; the structures that
  were there are gone.
\<close>

definition clear_kernel_space :: "ptr \<Rightarrow> ptr \<Rightarrow> fu_store \<Rightarrow> fu_store" where
  "clear_kernel_space from to st = (\<lambda>x. if from \<le> x \<and> x < to then None else st x)"

definition page_alloc :: "u32 \<Rightarrow> bool \<Rightarrow> splitted \<Rightarrow> ptr \<times> splitted" where
  "page_alloc ps is_krn s =
     (let (i, ret, bm) =
            page_scan ps is_krn (bm_entrys (page_bm s) - 1) (last_address s - ps) (page_bm s);
          s1 = s\<lparr>page_bm := bm\<rparr>
      in if ret = 0 then (0, s1)
         else if cur_kernel_bound s1 > ret
         then (0, s1\<lparr>page_bm := bm_set_kernel False (ucast i) (bm_set_free True (ucast i) bm)\<rparr>)
         else
           (let s2 = (if max_kernel_bound s1 > ret
                      then s1\<lparr>fu_mem := clear_kernel_space ret (max_kernel_bound s1) (fu_mem s1),
                              max_kernel_bound := ret\<rparr>
                      else s1);
                s3 = (if cur_user_bound s2 > ret then s2\<lparr>cur_user_bound := ret\<rparr> else s2)
            in (ret, s3)))"

text \<open>
  The loop that moves the user bound after the page at the border was freed. The
  code tests the freed page \<open>i\<close> in every round, not the page \<open>j\<close>.
\<close>

function advance_bound :: "u32 \<Rightarrow> bitmap \<Rightarrow> u64 \<Rightarrow> u64 \<Rightarrow> ptr \<Rightarrow> ptr" where
  "advance_bound ps bm i j bound =
     (if j < bm_entrys bm
      then (if bm_free bm (ucast i) then advance_bound ps bm i (j + 1) (bound + ps) else bound)
      else bound)"
  by auto
termination
proof (relation "measure (\<lambda>(ps, bm, i, j, bound). unat (bm_entrys bm) - unat j)", goal_cases)
  case (2 ps bm i j bound)
  then have "unat j < unat (bm_entrys bm)" by (simp add: word_less_nat_alt)
  moreover from this have "unat (j + 1) = unat j + 1"
    using unat_lt64 [of "bm_entrys bm"] by (subst unat_plus_nowrap) simp_all
  ultimately show ?case by simp
qed simp

declare advance_bound.simps [simp del]

definition page_free :: "u32 \<Rightarrow> ptr \<Rightarrow> splitted \<Rightarrow> bool \<times> splitted" where
  "page_free ps addr s =
     (let i = ucast ((addr - first_address s) div ps) :: u64
      in if bm_free (page_bm s) (ucast i) then (False, s)
         else
           (let bm = bm_set_free True (ucast i) (page_bm s);
                s1 = s\<lparr>page_bm := bm\<rparr>
            in if addr = cur_user_bound s1
               then (True, s1\<lparr>cur_user_bound := advance_bound ps bm i i (cur_user_bound s1)\<rparr>)
               else (True, s1)))"

text \<open>malloc for everything but unaligned kernel memory: one page, or nothing.\<close>

definition page_malloc :: "u32 \<Rightarrow> u64 \<Rightarrow> bool \<Rightarrow> splitted \<Rightarrow> ptr \<times> splitted" where
  "page_malloc ps n is_krn s =
     (let n' = (if n > ucast ps then n else ucast ps)
      in if n' = ucast ps then page_alloc ps is_krn s else (0, s))"

definition splitted_malloc ::
  "u32 \<Rightarrow> u64 \<Rightarrow> bool \<Rightarrow> bool \<Rightarrow> splitted \<Rightarrow> (ptr \<times> splitted) result option" where
  "splitted_malloc ps n is_krn aligned s =
     (if is_initialized s
      then if is_krn \<and> \<not> aligned then kernel_malloc n s
           else Some (Inr (page_malloc ps n is_krn s))
      else Some (Inr (0, s)))"

definition splitted_free :: "u32 \<Rightarrow> ptr \<Rightarrow> bool \<Rightarrow> splitted \<Rightarrow> (bool \<times> splitted) result" where
  "splitted_free ps addr is_krn s =
     (if is_initialized s
      then if is_krn \<and> addr \<ge> first_address s \<and> addr \<le> cur_kernel_bound s then kernel_free addr s
           else if \<not> is_krn \<and> addr \<ge> cur_user_bound s \<and> addr \<le> last_address s
           then Inr (page_free ps addr s)
           else Inr (False, s)
      else Inr (False, s))"

text \<open>The two operations as they are used for pages; they cannot fail.\<close>

definition malloc_page :: "u32 \<Rightarrow> u64 \<Rightarrow> bool \<Rightarrow> splitted \<Rightarrow> ptr \<times> splitted" where
  "malloc_page ps n is_krn s = (if is_initialized s then page_malloc ps n is_krn s else (0, s))"

definition free_page :: "u32 \<Rightarrow> ptr \<Rightarrow> splitted \<Rightarrow> bool \<times> splitted" where
  "free_page ps addr s =
     (if is_initialized s \<and> addr \<ge> cur_user_bound s \<and> addr \<le> last_address s
      then page_free ps addr s else (False, s))"

lemma splitted_malloc_page:
  "\<not> is_krn \<or> aligned \<Longrightarrow> splitted_malloc ps n is_krn aligned s = Some (Inr (malloc_page ps n is_krn s))"
  by (auto simp: splitted_malloc_def malloc_page_def)

lemma splitted_free_page: "splitted_free ps addr False s = Inr (free_page ps addr s)"
  by (auto simp: splitted_free_def free_page_def)

definition splitted_vmalloc :: ptr where
  "splitted_vmalloc = 0"


section \<open>What the loops compute\<close>

text \<open>The largest free page up to \<open>n\<close>, 0 if there is none above page 0.\<close>

fun top_free :: "bitmap \<Rightarrow> nat \<Rightarrow> nat" where
  "top_free bm 0 = 0"
| "top_free bm (Suc n) = (if bm_free bm (of_nat (Suc n)) then Suc n else top_free bm n)"

lemma top_free_le: "top_free bm n \<le> n"
  by (induction n) auto

lemma top_free_free: "top_free bm n \<noteq> 0 \<Longrightarrow> bm_free bm (of_nat (top_free bm n))"
  by (induction n) auto

lemma top_free_above: "top_free bm n < j \<Longrightarrow> j \<le> n \<Longrightarrow> \<not> bm_free bm (of_nat j)"
  by (induction n) (auto simp: le_Suc_eq split: if_splits)

lemma page_scan_eq:
  "page_scan ps k i ret bm =
    (let t = top_free bm (unat i)
     in (of_nat t, ret - of_nat (unat i - t) * ps, if t = 0 then bm else pm.take_page k (of_nat t) bm))"
proof (induction ps k i ret bm rule: page_scan.induct)
  case (1 ps k i ret bm)
  show ?case
  proof (cases "i = 0")
    case True
    then show ?thesis by (simp add: page_scan.simps)
  next
    case False
    then have Suc: "unat i = Suc (unat (i - 1))" by (simp add: unat_minus_one unat_gt_0)
    have i: "ucast i = (of_nat (Suc (unat (i - 1))) :: u32)" "i = of_nat (Suc (unat (i - 1)))"
      by (simp_all flip: Suc)
    show ?thesis
    proof (cases "bm_free bm (ucast i)")
      case True
      then have "top_free bm (unat i) = unat i" unfolding Suc top_free.simps i(1) by simp
      then show ?thesis
        using True False by (subst page_scan.simps) (simp add: pm.take_page_def word_gt_0 unat_eq_0)
    next
      case nf: False
      then have "top_free bm (unat i) = top_free bm (unat (i - 1))"
        unfolding Suc top_free.simps i(1) by simp
      moreover have "page_scan ps k i ret bm = page_scan ps k (i - 1) (ret - ps) bm"
        using False nf by (subst page_scan.simps) (simp add: word_gt_0)
      moreover have "unat i - t = Suc (unat (i - 1) - t)" if "t \<le> unat (i - 1)" for t
        using that Suc by simp
      ultimately show ?thesis
        using 1 False nf top_free_le [of bm "unat (i - 1)"] by (simp add: word_gt_0 Let_def algebra_simps)
    qed
  qed
qed

lemma advance_bound_eq:
  "bm_free bm (ucast i) \<Longrightarrow> j \<le> bm_entrys bm
   \<Longrightarrow> advance_bound ps bm i j b = b + of_nat (unat (bm_entrys bm) - unat j) * ps"
proof (induction ps bm i j b rule: advance_bound.induct)
  case (1 ps bm i j b)
  show ?case
  proof (cases "j < bm_entrys bm")
    case False
    then show ?thesis using 1 by (subst advance_bound.simps) (simp add: word_le_nat_alt)
  next
    case True
    then have lt: "unat j < unat (bm_entrys bm)" by (simp add: word_less_nat_alt)
    then have j1: "unat (j + 1) = unat j + 1"
      using unat_lt64 [of "bm_entrys bm"] by (subst unat_plus_nowrap) simp_all
    then have "j + 1 \<le> bm_entrys bm" using lt by (simp add: word_le_nat_alt)
    with 1 True have "advance_bound ps bm i j b
        = b + ps + of_nat (unat (bm_entrys bm) - unat (j + 1)) * ps"
      by (subst advance_bound.simps) simp
    moreover have "unat (bm_entrys bm) - unat j = Suc (unat (bm_entrys bm) - unat (j + 1))"
      using lt j1 by simp
    ultimately show ?thesis by (simp add: algebra_simps)
  qed
qed

section \<open>The invariant of the page pool\<close>

abbreviation page_count :: "splitted \<Rightarrow> nat" where
  "page_count s \<equiv> unat (bm_entrys (page_bm s))"

definition page_addr :: "u32 \<Rightarrow> splitted \<Rightarrow> nat \<Rightarrow> ptr" where
  "page_addr ps s j = first_address s + of_nat j * ps"

definition used_pages :: "splitted \<Rightarrow> nat set" where
  "used_pages s = {j. j < page_count s \<and> \<not> bm_free (page_bm s) (of_nat j)}"

text \<open>
  The pages fill the space between the two constant addresses, the kernel heap is
  below the user bound, and every page in use is above it.
\<close>

definition pages_inv :: "u32 \<Rightarrow> splitted \<Rightarrow> bool" where
  "pages_inv ps s \<longleftrightarrow> is_initialized s \<and> 0 < unat ps \<and> first_address s \<noteq> 0 \<and> 0 < page_count s
     \<and> unat (first_address s) + page_count s * unat ps = unat (last_address s)
     \<and> first_address s \<le> cur_kernel_bound s \<and> cur_kernel_bound s \<le> cur_user_bound s
     \<and> max_kernel_bound s = cur_kernel_bound s \<and> cur_user_bound s \<le> last_address s
     \<and> 0 \<notin> used_pages s
     \<and> (\<forall>j \<in> used_pages s. cur_user_bound s \<le> page_addr ps s j)"

lemma unat_page_addr:
  assumes "pages_inv ps s" "j \<le> page_count s"
  shows "unat (page_addr ps s j) = unat (first_address s) + j * unat ps"
proof -
  have "j * unat ps \<le> page_count s * unat ps" using assms(2) by (rule mult_le_mono1)
  moreover have "unat (first_address s) + page_count s * unat ps < 2 ^ 32"
    using assms(1) unat_lt32 [of "last_address s"] unfolding pages_inv_def by simp
  ultimately have b: "unat (first_address s) + j * unat ps < 2 ^ 32" by linarith
  have "page_addr ps s j = of_nat (unat (first_address s) + j * unat ps)"
    by (simp add: page_addr_def)
  moreover have "unat (of_nat (unat (first_address s) + j * unat ps) :: u32)
      = unat (first_address s) + j * unat ps"
    by (rule unat_of_nat_lt) (use b in simp)
  ultimately show ?thesis by (simp only:)
qed

lemma page_addr_nonzero:
  assumes "pages_inv ps s" "j \<le> page_count s"
  shows "page_addr ps s j \<noteq> 0"
proof -
  have "0 < unat (first_address s)" using assms(1) by (simp add: pages_inv_def unat_gt_0)
  then have "0 < unat (page_addr ps s j)" unfolding unat_page_addr [OF assms] by (rule trans_less_add1)
  then show ?thesis by (metis less_irrefl unat_0)
qed

lemma page_addr_mono:
  assumes "pages_inv ps s" "i \<le> j" "j \<le> page_count s"
  shows "page_addr ps s i \<le> page_addr ps s j"
  using assms by (simp add: word_le_nat_alt unat_page_addr)

lemma page_addr_last:
  assumes "pages_inv ps s"
  shows "page_addr ps s (page_count s) = last_address s"
  using assms unat_page_addr [OF assms, of "page_count s"]
  by (simp add: pages_inv_def word_unat_eq_iff)

lemma page_addr_below_last:
  assumes "pages_inv ps s" "j < page_count s"
  shows "unat (page_addr ps s j) + unat ps \<le> unat (last_address s)"
proof -
  have "unat (page_addr ps s j) + unat ps = unat (page_addr ps s (Suc j))"
    using assms by (simp add: unat_page_addr)
  then show ?thesis
    using page_addr_mono [of ps s "Suc j" "page_count s"] assms
    by (simp add: page_addr_last word_le_nat_alt)
qed

lemma page_index:
  assumes "pages_inv ps s" "j < page_count s"
  shows "(ucast (ucast ((page_addr ps s j - first_address s) div ps) :: u64) :: u32) = of_nat j
    \<and> unat (ucast ((page_addr ps s j - first_address s) div ps) :: u64) = j"
proof -
  have p: "0 < unat ps" using assms(1) by (simp add: pages_inv_def)
  have "unat (page_addr ps s j - first_address s) = j * unat ps"
    using unat_page_addr [OF assms(1), of j] assms(2)
    by (subst unat_minus_le) (simp_all add: word_le_nat_alt)
  then have "unat ((page_addr ps s j - first_address s) div ps) = j"
    using p by (simp add: unat_div)
  then have "unat (ucast ((page_addr ps s j - first_address s) div ps) :: u64) = j"
    by (simp add: unat_ucast64)
  moreover from this have "(ucast (ucast ((page_addr ps s j - first_address s) div ps) :: u64) :: u32)
      = of_nat j" by (metis of_nat_unat)
  ultimately show ?thesis by blast
qed

section \<open>page_alloc\<close>

text \<open>What the page operations leave alone.\<close>

definition same_heap :: "splitted \<Rightarrow> splitted \<Rightarrow> bool" where
  "same_heap s s' \<longleftrightarrow> is_initialized s' = is_initialized s \<and> first_address s' = first_address s
     \<and> cur_kernel_bound s' = cur_kernel_bound s \<and> max_kernel_bound s' = max_kernel_bound s
     \<and> last_address s' = last_address s \<and> first_structure s' = first_structure s
     \<and> fu_mem s' = fu_mem s \<and> page_count s' = page_count s"

lemma same_heap_blocks:
  "same_heap s s' \<Longrightarrow> heap_blocks s bs \<Longrightarrow> cur_kernel_bound s' \<le> cur_user_bound s' \<Longrightarrow> heap_blocks s' bs"
  by (simp add: heap_blocks_def same_heap_def)

lemma page_addr_same: "first_address s' = first_address s \<Longrightarrow> page_addr ps s' = page_addr ps s"
  by (simp add: page_addr_def fun_eq_iff)

text \<open>The candidate: the highest free page, and whether it is above the kernel heap.\<close>

definition top_page :: "splitted \<Rightarrow> nat" where
  "top_page s = top_free (page_bm s) (page_count s - 1)"

lemma top_page_lt: "0 < page_count s \<Longrightarrow> top_page s < page_count s"
  using top_free_le [of "page_bm s" "page_count s - 1"] by (simp add: top_page_def)

lemma of_nat_page_eq:
  assumes "pages_inv ps s" "i < page_count s" "j < page_count s"
  shows "(of_nat i :: u32) = of_nat j \<longleftrightarrow> i = j"
proof
  assume "(of_nat i :: u32) = of_nat j"
  then have "page_addr ps s i = page_addr ps s j" by (simp add: page_addr_def)
  then have "unat (page_addr ps s i) = unat (page_addr ps s j)" by (rule arg_cong)
  then have "i * unat ps = j * unat ps"
    unfolding unat_page_addr [OF assms(1) order_less_imp_le [OF assms(2)]]
      unat_page_addr [OF assms(1) order_less_imp_le [OF assms(3)]] by (rule add_left_imp_eq)
  moreover have "0 < unat ps" using assms(1) by (simp add: pages_inv_def)
  ultimately show "i = j" by simp
qed simp

lemma not_used_top:
  assumes "pages_inv ps s"
  shows "bm_free (page_bm s) (of_nat (top_page s))"
proof (cases "top_page s = 0")
  case True
  then show ?thesis using assms by (auto simp: pages_inv_def used_pages_def)
next
  case False
  then show ?thesis using top_free_free by (auto simp: top_page_def)
qed

lemma top_page_max:
  "j \<in> {1..<page_count s} \<Longrightarrow> top_page s < j \<Longrightarrow> j \<in> used_pages s"
  using top_free_above [of "page_bm s" "page_count s - 1" j] by (auto simp: top_page_def used_pages_def)

lemma page_alloc_eq:
  fixes k :: bool
  assumes inv: "pages_inv ps s"
  defines "t \<equiv> top_page s"
  defines "p \<equiv> page_addr ps s t"
  defines "bm \<equiv> (if t = 0 then page_bm s else pm.take_page k (of_nat t) (page_bm s))"
  shows "page_alloc ps k s =
    (if cur_kernel_bound s > p
     then (0, s\<lparr>page_bm := bm_set_kernel False (of_nat t) (bm_set_free True (of_nat t) bm)\<rparr>)
     else (p, s\<lparr>page_bm := bm, cur_user_bound := min (cur_user_bound s) p\<rparr>))"
proof -
  let ?n = "bm_entrys (page_bm s)"
  have n: "0 < page_count s" using inv by (simp add: pages_inv_def)
  then have n1: "unat (?n - 1) = page_count s - 1" by (simp add: unat_minus_one unat_gt_0)
  have tn: "t < page_count s" using top_page_lt [OF n] by (simp add: t_def)
  have "last_address s = first_address s + of_nat (page_count s) * ps"
    using page_addr_last [OF inv] by (simp only: page_addr_def)
  moreover have "of_nat (page_count s) = (of_nat (page_count s - 1 - t) :: u32) + 1 + of_nat t"
  proof -
    have "page_count s = page_count s - 1 - t + 1 + t" using tn by simp
    then have "(of_nat (page_count s) :: u32) = of_nat (page_count s - 1 - t + 1 + t)" by (rule arg_cong)
    then show ?thesis by (simp only: of_nat_add of_nat_1)
  qed
  ultimately have ret: "last_address s - ps - of_nat (page_count s - 1 - t) * ps = p"
    by (simp only: p_def page_addr_def) (simp add: algebra_simps)
  have scan: "page_scan ps k (?n - 1) (last_address s - ps) (page_bm s) = (of_nat t, p, bm)"
    unfolding page_scan_eq n1 Let_def top_page_def [symmetric] t_def [symmetric] ret bm_def ..
  have t64: "ucast (of_nat t :: u64) = (of_nat t :: u32)"
  proof -
    have "t < 2 ^ 64" using tn unat_lt64 [of ?n] by simp
    then have "unat (of_nat t :: u64) = t" by (intro unat_of_nat_lt) simp
    then show ?thesis by (metis of_nat_unat)
  qed
  have p0: "p \<noteq> 0" unfolding p_def by (rule page_addr_nonzero [OF inv order_less_imp_le [OF tn]])
  have mx: "max_kernel_bound s = cur_kernel_bound s" using inv by (simp add: pages_inv_def)
  show ?thesis
    using p0 mx by (auto simp: page_alloc_def scan t64 min_def not_less Let_def)
qed

lemma used_pages_take:
  assumes "pages_inv ps s" "t < page_count s" "page_count s' = page_count s"
    "page_bm s' = pm.take_page k (of_nat t) (page_bm s)"
  shows "used_pages s' = insert t (used_pages s)"
  using assms of_nat_page_eq [OF assms(1)]
  by (auto simp: used_pages_def pm.take_page_def bm_free_set_kernel bm_free_set_free)

lemma page_alloc_inv:
  assumes inv: "pages_inv ps s" and pa: "page_alloc ps k s = (p, s')"
  shows "pages_inv ps s' \<and> same_heap s s' \<and>
    (if cur_kernel_bound s > page_addr ps s (top_page s)
     then p = 0 \<and> used_pages s' = used_pages s \<and> cur_user_bound s' = cur_user_bound s
     else p = page_addr ps s (top_page s)
       \<and> used_pages s' = (if top_page s = 0 then used_pages s else insert (top_page s) (used_pages s))
       \<and> cur_user_bound s' = min (cur_user_bound s) p)"
proof -
  let ?t = "top_page s"
  note I = inv [unfolded pages_inv_def]
  have tn: "?t < page_count s" using I top_page_lt by blast
  have fr: "bm_free (page_bm s) (of_nat ?t)" by (rule not_used_top [OF inv])
  show ?thesis
  proof (cases "cur_kernel_bound s > page_addr ps s ?t")
    case True
    then have s': "p = 0" "s' = s\<lparr>page_bm := bm_set_kernel False (of_nat ?t) (bm_set_free True (of_nat ?t)
        (if ?t = 0 then page_bm s else pm.take_page k (of_nat ?t) (page_bm s)))\<rparr>"
      using pa by (simp_all add: page_alloc_eq [OF inv])
    have "used_pages s' = used_pages s"
      using fr tn by (auto simp: s' used_pages_def bm_free_set_kernel bm_free_set_free pm.take_page_def)
    moreover have "same_heap s s'" by (simp add: same_heap_def s' pm.take_page_def)
    moreover have "cur_user_bound s' = cur_user_bound s" by (simp add: s')
    ultimately show ?thesis
      using True s'(1) I page_addr_same [of s' s ps] by (simp add: pages_inv_def same_heap_def)
  next
    case False
    then have s': "p = page_addr ps s ?t" "s' = s\<lparr>page_bm := (if ?t = 0 then page_bm s
        else pm.take_page k (of_nat ?t) (page_bm s)), cur_user_bound := min (cur_user_bound s) p\<rparr>"
      using pa unfolding page_alloc_eq [OF inv] by auto
    have sh: "same_heap s s'" by (simp add: same_heap_def s' pm.take_page_def)
    have us: "used_pages s' = (if ?t = 0 then used_pages s else insert ?t (used_pages s))"
    proof (cases "?t = 0")
      case False
      then show ?thesis
        using used_pages_take [OF inv tn, of s' k] sh by (simp add: s' same_heap_def)
    qed (simp add: s' used_pages_def)
    have ub: "cur_user_bound s' = min (cur_user_bound s) p" by (simp add: s')
    have "cur_user_bound s' \<le> page_addr ps s j" if "j \<in> used_pages s'" for j
      using that us ub I s'(1) by (auto simp: min_le_iff_disj split: if_splits)
    moreover have "cur_kernel_bound s \<le> min (cur_user_bound s) p"
      using False I s'(1) by simp
    ultimately have "pages_inv ps s'"
      using I sh us ub page_addr_same [of s' s ps] by (auto simp: pages_inv_def same_heap_def min_le_iff_disj)
    then show ?thesis using False s'(1) sh us ub by simp
  qed
qed

text \<open>C7: page_alloc hands out the highest free page. The page lies inside the managed
  memory, above the kernel heap, and was not in use; afterwards it is in use, with one
  exception: page 0, which the scan reaches when every other page is taken and which it
  does not mark. Without a page above the kernel heap the answer is null and the pages
  in use stay the same. The invariant of the pool is kept.\<close>

theorem page_alloc_correct:
  assumes "pages_inv ps s" and "page_alloc ps k s = (p, s')"
  shows "pages_inv ps s' \<and> same_heap s s'
    \<and> (p = 0 \<longleftrightarrow> page_addr ps s (top_page s) < cur_kernel_bound s)
    \<and> (p = 0 \<longrightarrow> used_pages s' = used_pages s)
    \<and> (p \<noteq> 0 \<longrightarrow> p = page_addr ps s (top_page s) \<and> top_page s \<notin> used_pages s
         \<and> cur_kernel_bound s' \<le> p \<and> unat p + unat ps \<le> unat (last_address s)
         \<and> (\<forall>j. top_page s < j \<and> j < page_count s \<longrightarrow> j \<in> used_pages s)
         \<and> used_pages s' = (if top_page s = 0 then used_pages s else insert (top_page s) (used_pages s)))"
proof -
  note r = page_alloc_inv [OF assms]
  note I = assms(1) [unfolded pages_inv_def]
  have tn: "top_page s < page_count s" using I top_page_lt by blast
  have p0: "page_addr ps s (top_page s) \<noteq> 0"
    by (rule page_addr_nonzero [OF assms(1) order_less_imp_le [OF tn]])
  have "top_page s \<notin> used_pages s" using not_used_top [OF assms(1)] by (simp add: used_pages_def)
  moreover have "\<forall>j. top_page s < j \<and> j < page_count s \<longrightarrow> j \<in> used_pages s"
    using top_page_max [of _ s] by auto
  ultimately show ?thesis
    using r p0 page_addr_below_last [OF assms(1) tn] by (auto simp: same_heap_def split: if_splits)
qed

section \<open>page_free\<close>

lemma page_free_eq:
  assumes inv: "pages_inv ps s" and j: "j < page_count s"
  shows "page_free ps (page_addr ps s j) s =
    (if j \<in> used_pages s
     then (True, s\<lparr>page_bm := bm_set_free True (of_nat j) (page_bm s),
             cur_user_bound := (if page_addr ps s j = cur_user_bound s then last_address s
                                else cur_user_bound s)\<rparr>)
     else (False, s))"
proof -
  let ?a = "page_addr ps s j"
  define i :: u64 where "i = ucast ((?a - first_address s) div ps)"
  define bm where "bm = bm_set_free True (of_nat j) (page_bm s)"
  have i: "ucast i = (of_nat j :: u32)" "unat i = j"
    using page_index [OF inv j] by (simp_all add: i_def)
  have "advance_bound ps bm i i ?a = ?a + of_nat (page_count s - j) * ps"
    using i j by (subst advance_bound_eq) (simp_all add: bm_def bm_free_set_free word_le_nat_alt)
  also have "\<dots> = page_addr ps s (page_count s)"
    using j by (simp add: page_addr_def of_nat_diff algebra_simps)
  finally have adv: "advance_bound ps bm i i ?a = last_address s"
    by (simp only: page_addr_last [OF inv])
  have used: "j \<in> used_pages s \<longleftrightarrow> \<not> bm_free (page_bm s) (of_nat j)"
    using j by (simp add: used_pages_def)
  have "page_free ps ?a s =
    (if bm_free (page_bm s) (ucast i) then (False, s)
     else if ?a = cur_user_bound s
     then (True, s\<lparr>page_bm := bm_set_free True (ucast i) (page_bm s), cur_user_bound :=
             advance_bound ps (bm_set_free True (ucast i) (page_bm s)) i i (cur_user_bound s)\<rparr>)
     else (True, s\<lparr>page_bm := bm_set_free True (ucast i) (page_bm s)\<rparr>))"
    by (simp add: page_free_def i_def Let_def)
  then show ?thesis using used adv unfolding i bm_def by auto
qed

lemma used_pages_free:
  assumes "pages_inv ps s" "j < page_count s" "page_bm s' = bm_set_free True (of_nat j) (page_bm s)"
  shows "used_pages s' = used_pages s - {j}"
  using assms of_nat_page_eq [OF assms(1)]
  by (auto simp: used_pages_def bm_free_set_free)

text \<open>Page_free takes the address of a page back to its number, refuses a page that
  is not in use, and otherwise releases this page and no other. The user bound moves
  exactly when the page is the one at the border, and then it jumps to the last address,
  whatever pages are in use above it.\<close>

theorem page_free_correct:
  assumes "pages_inv ps s" and "j < page_count s"
    and "page_free ps (page_addr ps s j) s = (b, s')"
  shows "(b \<longleftrightarrow> j \<in> used_pages s) \<and> used_pages s' = used_pages s - {j} \<and> same_heap s s'
    \<and> cur_user_bound s' = (if b \<and> page_addr ps s j = cur_user_bound s then last_address s
                            else cur_user_bound s)
    \<and> (page_addr ps s j \<noteq> cur_user_bound s \<longrightarrow> pages_inv ps s')"
proof (cases "j \<in> used_pages s")
  case True
  then have s': "b" "s' = s\<lparr>page_bm := bm_set_free True (of_nat j) (page_bm s),
             cur_user_bound := (if page_addr ps s j = cur_user_bound s then last_address s
                                else cur_user_bound s)\<rparr>"
    using assms(3) by (auto simp: page_free_eq [OF assms(1,2)])
  have us: "used_pages s' = used_pages s - {j}"
    by (rule used_pages_free [OF assms(1,2)]) (simp add: s')
  have sh: "same_heap s s'" by (simp add: s' same_heap_def)
  have "pages_inv ps s'" if "page_addr ps s j \<noteq> cur_user_bound s"
    using assms(1) that us sh page_addr_same [of s' s ps]
    by (auto simp: pages_inv_def same_heap_def s')
  then show ?thesis using True s' us sh by simp
next
  case False
  then have "\<not> b" "s' = s" using assms(3) by (auto simp: page_free_eq [OF assms(1,2)])
  then show ?thesis using False assms(1) by (simp add: same_heap_def)
qed

lemma free_border:
  assumes inv: "pages_inv ps s" and used: "j \<in> used_pages s"
    and border: "page_addr ps s j = cur_user_bound s"
  obtains s' where "splitted_free ps (page_addr ps s j) False s = Inr (True, s')"
    "cur_user_bound s' = last_address s" "same_heap s s'" "used_pages s' = used_pages s - {j}"
proof -
  have j: "j < page_count s" using used by (simp add: used_pages_def)
  define s' where "s' = s\<lparr>page_bm := bm_set_free True (of_nat j) (page_bm s),
             cur_user_bound := last_address s\<rparr>"
  have "page_free ps (page_addr ps s j) s = (True, s')"
    unfolding page_free_eq [OF inv j] using used border by (simp add: s'_def)
  then have "splitted_free ps (page_addr ps s j) False s = Inr (True, s')"
    using inv border by (simp add: splitted_free_def pages_inv_def)
  moreover have "used_pages s' = used_pages s - {j}"
    by (rule used_pages_free [OF inv j]) (simp add: s'_def)
  ultimately show ?thesis by (intro that) (simp_all add: s'_def same_heap_def)
qed

text \<open>Once the page at the border has been freed while another page is in use, that
  page can never be given back: free refuses its address.\<close>

theorem free_border_page_strands:
  assumes "pages_inv ps s" and "j \<in> used_pages s" and "page_addr ps s j = cur_user_bound s"
    and "i \<in> used_pages s" "i \<noteq> j"
  shows "\<exists>s'. splitted_free ps (page_addr ps s j) False s = Inr (True, s') \<and> i \<in> used_pages s'
    \<and> splitted_free ps (page_addr ps s i) False s' = Inr (False, s')"
proof -
  note I = assms(1) [unfolded pages_inv_def]
  have i: "i < page_count s" using assms(4) by (simp add: used_pages_def)
  obtain s' where s': "splitted_free ps (page_addr ps s j) False s = Inr (True, s')"
    "cur_user_bound s' = last_address s" "same_heap s s'" "used_pages s' = used_pages s - {j}"
    using free_border [OF assms(1-3)] by metis
  have init: "is_initialized s'" using I s'(3) by (simp add: same_heap_def)
  have "unat (page_addr ps s i) < unat (last_address s)"
    using page_addr_below_last [OF assms(1) i] I by linarith
  then have "\<not> cur_user_bound s' \<le> page_addr ps s i"
    by (simp add: s'(2) word_le_nat_alt)
  then have "splitted_free ps (page_addr ps s i) False s' = Inr (False, s')"
    using init by (simp add: splitted_free_def)
  then show ?thesis using s' assms(4,5) by auto
qed

text \<open>Worse, the kernel heap may then grow over the pages that are still in use: a
  request that reaches the last address is granted, and its block covers them.\<close>

theorem free_border_page_overlap:
  assumes "pages_inv ps s" and "heap_blocks s bs" and "list_all (\<lambda>b. \<not> snd b) bs"
    and "j \<in> used_pages s" and "page_addr ps s j = cur_user_bound s"
    and "i \<in> used_pages s" "i \<noteq> j"
    and "unat (cur_kernel_bound s) + sizeof_fu + unat n = unat (last_address s)"
    and "unat (cur_kernel_bound s) + sizeof_fu \<le> unat (page_addr ps s i)"
  shows "\<exists>s' p s''. splitted_free ps (page_addr ps s j) False s = Inr (True, s')
    \<and> splitted_malloc ps n True False s' = Some (Inr (p, s'')) \<and> i \<in> used_pages s''
    \<and> unat p \<le> unat (page_addr ps s i)
    \<and> unat (page_addr ps s i) + unat ps \<le> unat p + unat n"
proof -
  note I = assms(1) [unfolded pages_inv_def]
  have i: "i < page_count s" using assms(6) by (simp add: used_pages_def)
  obtain s' where s': "splitted_free ps (page_addr ps s j) False s = Inr (True, s')"
    "cur_user_bound s' = last_address s" "same_heap s s'" "used_pages s' = used_pages s - {j}"
    using free_border [OF assms(1,4,5)] by metis
  have init: "is_initialized s'" using I s'(3) by (simp add: same_heap_def)
  have eqs: "cur_kernel_bound s' = cur_kernel_bound s" "first_address s' = first_address s"
    using s'(3) by (simp_all add: same_heap_def)
  have hb: "heap_blocks s' bs"
    by (rule same_heap_blocks [OF s'(3) assms(2)]) (use I eqs s'(2) in auto)
  have "list_all (\<lambda>b. \<not> fits (unat n) b) bs"
    using assms(3) by (auto simp: list_all_iff fits_def)
  then have nofit: "split_fit (unat n) bs = None" by (simp add: split_fit_None)
  have "unat (cur_kernel_bound s) = unat (first_address s) + blocks_size bs"
    using assms(2) fu_seg_end by (auto simp: heap_blocks_def)
  then have spec: "spec_malloc (unat (first_address s')) (unat (cur_user_bound s')) (unat n) bs
      = Some (unat (cur_kernel_bound s) + sizeof_fu, bs @ [(unat n, False)])"
    using nofit assms(8) s'(2) eqs by (simp add: spec_malloc_def)
  from kernel_malloc_spec [OF hb, of n] assms(8) spec unat_lt32 [of "last_address s"] eqs
  obtain p s'' where km: "kernel_malloc n s' = Some (Inr (p, s''))"
      "unat p = unat (cur_kernel_bound s) + sizeof_fu" "same_pages s' s''"
    by auto
  have "splitted_malloc ps n True False s' = Some (Inr (p, s''))"
    using km(1) init by (simp add: splitted_malloc_def)
  moreover have "i \<in> used_pages s''"
    using km(3) s'(4) assms(6,7) by (simp add: same_pages_def used_pages_def)
  ultimately show ?thesis
    using s'(1) km(2) assms(8,9) page_addr_below_last [OF assms(1) i] by auto
qed

section \<open>Initialisation\<close>

lemma set_memory_areas_fields:
  assumes "\<not> is_initialized s"
  shows "is_initialized (splitted_set_memory_areas ps mem s)"
    "first_structure (splitted_set_memory_areas ps mem s) = first_structure s"
    "page_bm (splitted_set_memory_areas ps mem s) =
       set_to (ucast ps) (ucast ((high (first_area mem) - low (first_area mem)) div ps)) (page_bm s)"
    "last_address (splitted_set_memory_areas ps mem s) = high (first_area mem)"
    "cur_user_bound (splitted_set_memory_areas ps mem s) = high (first_area mem)"
    "cur_kernel_bound (splitted_set_memory_areas ps mem s) = first_address (splitted_set_memory_areas ps mem s)"
    "max_kernel_bound (splitted_set_memory_areas ps mem s) = first_address (splitted_set_memory_areas ps mem s)"
  using assms by (simp_all add: splitted_set_memory_areas_def Let_def)

text \<open>
  The geometry of a page aligned area of \<open>n\<close> pages: the bitmap takes a quarter of
  \<open>n\<close> bytes.
\<close>

definition aligned_area :: "u32 \<Rightarrow> memory_area \<Rightarrow> nat \<Rightarrow> bool" where
  "aligned_area ps a n \<longleftrightarrow> low a \<noteq> 0 \<and> 0 < unat ps \<and> unat (low a) mod unat ps = 0
     \<and> unat (high a) = unat (low a) + n * unat ps \<and> n div 4 div unat ps + 1 < n"

lemma aligned_area_entrys:
  assumes "aligned_area ps a n"
  shows "unat (ucast ((high a - low a) div ps) :: u64) = n"
proof -
  have "low a \<le> high a" using assms by (simp add: aligned_area_def word_le_nat_alt)
  then have "unat (high a - low a) = n * unat ps"
    using assms by (simp add: aligned_area_def unat_minus_le)
  then show ?thesis using assms by (simp add: unat_ucast64 unat_div aligned_area_def)
qed

lemma set_to_fields:
  assumes "aligned_area ps a n" "unat e = n"
  shows "unat (bm_entrys (set_to (ucast ps) e bm)) = n - (n div 4 div unat ps + 1)"
    "unat (bm_mem_size (set_to (ucast ps) e bm)) = n div 4"
proof -
  have ms: "unat (drop_bit 2 e) = n div 4"
    using assms(2) unfolding unat_drop_bit_eq by (simp add: drop_bit_eq_div)
  then show "unat (bm_mem_size (set_to (ucast ps) e bm)) = n div 4"
    by (simp add: set_to_def Let_def)
  have "unat (drop_bit 2 e div ucast ps) = n div 4 div unat ps"
    by (simp add: unat_div ms unat_ucast64)
  moreover from this have "unat (drop_bit 2 e div ucast ps + 1) = n div 4 div unat ps + 1"
    using assms unat_lt64 [of e] by (subst unat_plus_nowrap) (simp_all add: aligned_area_def)
  moreover from this have "drop_bit 2 e div ucast ps + 1 \<le> e"
    using assms by (simp add: word_le_nat_alt aligned_area_def)
  ultimately show "unat (bm_entrys (set_to (ucast ps) e bm)) = n - (n div 4 div unat ps + 1)"
    using assms(2) by (simp add: set_to_def Let_def unat_minus_le)
qed

lemma aligned_area_bound:
  assumes "aligned_area ps a n" "m \<le> n * unat ps"
  shows "unat (low a) + m < 2 ^ 32"
  using assms unat_lt32 [of "high a"] by (simp add: aligned_area_def)

lemma quarter_le:
  assumes "aligned_area ps a n"
  shows "n div 4 \<le> n * unat ps"
proof -
  have "n div 4 \<le> n" by simp
  also have "n * 1 \<le> n * unat ps" using assms by (intro mult_le_mono2) (simp add: aligned_area_def)
  finally show ?thesis by simp
qed

lemma bitmap_end:
  assumes "aligned_area ps a n"
  defines "e \<equiv> ucast ((high a - low a) div ps) :: u64"
  shows "unat (low a + ucast (bm_mem_size (set_to (ucast ps) e bm))) = unat (low a) + n div 4"
proof -
  have "n div 4 < 2 ^ 32" using aligned_area_bound [OF assms(1) quarter_le [OF assms(1)]] by simp
  then have "unat (ucast (bm_mem_size (set_to (ucast ps) e bm)) :: u32) = n div 4"
    using set_to_fields(2) [OF assms(1) aligned_area_entrys [OF assms(1)]]
    by (simp add: unat_ucast32 e_def)
  then show ?thesis
    using aligned_area_bound [OF assms(1) quarter_le [OF assms(1)]]
    by (subst unat_plus_nowrap) simp_all
qed

lemma init_first_address:
  assumes ar: "aligned_area ps (first_area mem) n" and "\<not> is_initialized s"
  shows "unat (first_address (splitted_set_memory_areas ps mem s)) = unat (low (first_area mem))
    + (if (n div 4) mod unat ps = 0 then n div 4 else (n div 4 div unat ps + 1) * unat ps)"
proof -
  let ?a = "first_area mem" and ?m = "n div 4" and ?p = "unat ps"
  define l1 where "l1 = low ?a + ucast (bm_mem_size (set_to (ucast ps)
      (ucast ((high ?a - low ?a) div ps)) (page_bm s)))"
  have fa: "first_address (splitted_set_memory_areas ps mem s) =
      (if l1 mod ps \<noteq> 0 then l1 + (ps - l1 mod ps) else l1)"
    using assms(2) by (simp add: splitted_set_memory_areas_def Let_def l1_def)
  have l1: "unat l1 = unat (low ?a) + ?m" using bitmap_end [OF ar] by (simp add: l1_def)
  have p: "0 < ?p" "unat (low ?a) mod ?p = 0" using ar by (simp_all add: aligned_area_def)
  have md: "unat (l1 mod ps) = ?m mod ?p"
    unfolding unat_mod l1 using p(2) by (metis add_0 mod_add_left_eq)
  show ?thesis
  proof (cases "?m mod ?p = 0")
    case True
    then have "l1 mod ps = 0" using md by (simp add: unat_eq_0)
    with fa True l1 show ?thesis by simp
  next
    case False
    then have nz: "l1 mod ps \<noteq> 0" using md by (metis unat_0)
    have "l1 mod ps \<le> ps" using md p(1) by (simp add: word_le_nat_alt order_less_imp_le)
    then have d: "unat (ps - l1 mod ps) = ?p - ?m mod ?p" by (simp add: unat_minus_le md)
    have up: "?m + (?p - ?m mod ?p) = (?m div ?p + 1) * ?p"
    proof -
      have "?m = ?m div ?p * ?p + ?m mod ?p" by simp
      moreover have "(?m div ?p + 1) * ?p = ?m div ?p * ?p + ?p" by simp
      ultimately show ?thesis using mod_less_divisor [OF p(1), of ?m] by linarith
    qed
    have "(?m div ?p + 1) * ?p \<le> n * ?p"
      using ar by (intro mult_le_mono1) (simp add: aligned_area_def)
    then have "unat (low ?a) + (?m + (?p - ?m mod ?p)) < 2 ^ 32"
      unfolding up by (rule aligned_area_bound [OF ar])
    then have "unat (l1 + (ps - l1 mod ps)) = unat (low ?a) + (?m + (?p - ?m mod ?p))"
      using l1 d by (subst unat_plus_nowrap) simp_all
    with fa nz up False show ?thesis by simp
  qed
qed

lemma init_all_free:
  assumes ar: "aligned_area ps (first_area mem) n" and "\<not> is_initialized s" "j < n"
  shows "bm_free (page_bm (splitted_set_memory_areas ps mem s)) (of_nat j)"
proof -
  have "unat (of_nat j :: u32) \<le> j" by (simp add: unsigned_of_nat take_bit_nat_less_eq_self)
  then show ?thesis
    using bm_free_set_to assms(3) aligned_area_entrys [OF ar]
    by (simp add: set_memory_areas_fields(3) [OF assms(2)])
qed

text \<open>Set_memory_areas sets the pool up for a page aligned area: all pages are free,
  the kernel heap is empty, and the invariant holds, whenever the bitmap does not end
  exactly on a page boundary.\<close>

theorem set_memory_areas_inv:
  assumes "aligned_area ps (first_area mem) n" and "\<not> is_initialized s" and "first_structure s = 0"
    and "(n div 4) mod unat ps \<noteq> 0"
  shows "pages_inv ps (splitted_set_memory_areas ps mem s)
    \<and> used_pages (splitted_set_memory_areas ps mem s) = {}
    \<and> heap_blocks (splitted_set_memory_areas ps mem s) []
    \<and> page_count (splitted_set_memory_areas ps mem s) = n - (n div 4 div unat ps + 1)"
proof -
  let ?s = "splitted_set_memory_areas ps mem s" and ?q = "n div 4 div unat ps + 1"
  note F = set_memory_areas_fields [OF assms(2), of ps mem]
  note A = assms(1) [unfolded aligned_area_def]
  have pc: "page_count ?s = n - ?q"
    unfolding F(3) by (rule set_to_fields(1) [OF assms(1) aligned_area_entrys [OF assms(1)]])
  have fa: "unat (first_address ?s) = unat (low (first_area mem)) + ?q * unat ps"
    using init_first_address [OF assms(1,2)] assms(4) by simp
  have "?q + (n - ?q) = n" using A by simp
  then have "?q * unat ps + (n - ?q) * unat ps = n * unat ps"
    by (simp only: add_mult_distrib [symmetric])
  then have sum: "unat (first_address ?s) + page_count ?s * unat ps = unat (last_address ?s)"
    using fa pc A by (simp add: F(4))
  have us: "used_pages ?s = {}"
    using init_all_free [OF assms(1,2)] pc by (auto simp: used_pages_def)
  have "first_address ?s \<noteq> 0" using fa A by (auto simp flip: unat_eq_0)
  moreover have "first_address ?s \<le> last_address ?s" using sum by (simp add: word_le_nat_alt)
  ultimately have "pages_inv ps ?s"
    using sum us pc A F by (simp add: pages_inv_def)
  moreover have "heap_blocks ?s []"
    using F assms(3) \<open>first_address ?s \<noteq> 0\<close> \<open>first_address ?s \<le> last_address ?s\<close>
    by (simp add: heap_blocks_def)
  ultimately show ?thesis using us pc by blast
qed

text \<open>When the bitmap does end exactly on a page boundary (64 MiB with pages of
  4096 bytes), the numbers are off by one: a page that was just handed out is taken for
  its successor, which the bitmap does not even cover, and cannot be freed.\<close>

theorem exact_bitmap_leaks_page:
  assumes "aligned_area ps (first_area mem) n" and "\<not> is_initialized s"
    and "(n div 4) mod unat ps = 0" and "n div 4 div unat ps + 2 < n"
  defines "s0 \<equiv> splitted_set_memory_areas ps mem s"
  shows "\<exists>p s1. splitted_malloc ps 1 False False s0 = Some (Inr (p, s1)) \<and> p \<noteq> 0
    \<and> page_count s0 - 1 \<in> used_pages s1 \<and> splitted_free ps p False s1 = Inr (False, s1)"
proof -
  let ?q = "n div 4 div unat ps + 1" and ?p = "unat ps" and ?a = "first_area mem"
  define L where "L = page_count s0"
  note F = set_memory_areas_fields [OF assms(2), of ps mem, folded s0_def]
  note A = assms(1) [unfolded aligned_area_def]
  have pc: "L = n - ?q"
    unfolding L_def F(3) by (rule set_to_fields(1) [OF assms(1) aligned_area_entrys [OF assms(1)]])
  have L: "1 < L" "L < n" using pc assms(4) by simp_all
  have "n div 4 = (?q - 1) * ?p" using assms(3) div_mult_mod_eq [of "n div 4" ?p] by simp
  then have fa: "unat (first_address s0) = unat (low ?a) + (?q - 1) * ?p"
    using init_first_address [OF assms(1,2)] assms(3) by (simp add: s0_def)
  have "?q - 1 + L + 1 = n" using pc assms(4) by simp
  then have "(?q - 1) * ?p + L * ?p + ?p = n * ?p" by (metis add_mult_distrib mult_1)
  then have la: "unat (last_address s0) = unat (first_address s0) + L * ?p + ?p"
    using A fa by (simp add: F(4))
  define r where "r = last_address s0 - ps"
  have r: "unat r = unat (first_address s0) + L * ?p"
    using la by (simp add: r_def unat_minus_le word_le_nat_alt)
  have free: "bm_free (page_bm s0) (of_nat j)" if "j < n" for j
    using init_all_free [OF assms(1,2) that] by (simp add: s0_def)
  have top: "top_free (page_bm s0) (L - 1) = L - 1"
  proof -
    obtain m where m: "L - 1 = Suc m" using L by (cases "L - 1") auto
    then have "bm_free (page_bm s0) (of_nat (Suc m))" using L free [of "Suc m"] by simp
    then show ?thesis unfolding m by (simp only: top_free.simps if_True)
  qed
  have n1: "unat (bm_entrys (page_bm s0) - 1) = L - 1"
    using L by (simp add: L_def unat_minus_one unat_gt_0 flip: unat_gt_0)
  define bm where "bm = pm.take_page False (of_nat (L - 1)) (page_bm s0)"
  have scan: "page_scan ps False (bm_entrys (page_bm s0) - 1) r (page_bm s0) = (of_nat (L - 1), r, bm)"
    unfolding page_scan_eq n1 top Let_def bm_def using L by simp
  define s1 where "s1 = s0\<lparr>page_bm := bm, cur_user_bound := r\<rparr>"
  have "0 < unat r" "first_address s0 \<le> r" "r < last_address s0"
    using r la A L by (simp_all add: word_le_nat_alt word_less_nat_alt)
  moreover from this have "r \<noteq> 0" by (metis less_irrefl unat_0)
  ultimately have pa: "page_alloc ps False s0 = (r, s1)"
    using scan F(5-7) by (simp add: page_alloc_def s1_def F(4) r_def Let_def not_less)
  have L32: "L < 2 ^ 32"
    using pc aligned_area_bound [OF assms(1), of n] A by (cases ?p) auto
  have ne: "(of_nat L :: u32) \<noteq> of_nat (L - 1)"
  proof
    assume "(of_nat L :: u32) = of_nat (L - 1)"
    then have "unat (of_nat L :: u32) = unat (of_nat (L - 1) :: u32)" by (rule arg_cong)
    moreover have "unat (of_nat L :: u32) = L" "unat (of_nat (L - 1) :: u32) = L - 1"
      by (rule unat_of_nat_lt, use L32 in simp)+
    ultimately show False using L by linarith
  qed
  have "unat ((r - first_address s0) div ps) = L"
    using r A by (simp add: unat_div unat_minus_le word_le_nat_alt)
  then have "unat (ucast ((r - first_address s0) div ps) :: u64) = L" by (simp only: unat_ucast64)
  then have "(ucast (ucast ((r - first_address s0) div ps) :: u64) :: u32) = of_nat L"
    by (metis of_nat_unat)
  then have "page_free ps r s1 = (False, s1)"
    using free [OF L(2)] ne
    by (simp add: page_free_def s1_def bm_def pm.take_page_def bm_free_set_kernel bm_free_set_free)
  then have "splitted_free ps r False s1 = Inr (False, s1)"
    using F(1) \<open>r < last_address s0\<close> by (simp add: splitted_free_def s1_def)
  moreover have "splitted_malloc ps 1 False False s0 = Some (Inr (r, s1))"
    using F(1) pa A unat_ucast64 [of ps]
    by (simp add: splitted_malloc_def page_malloc_def word_less_nat_alt)
  moreover have "L - 1 \<in> used_pages s1"
    using L by (simp add: used_pages_def s1_def bm_def pm.take_page_def bm_free_set_kernel
        bm_free_set_free L_def)
  ultimately show ?thesis using \<open>r \<noteq> 0\<close> by (auto simp: L_def)
qed

section \<open>Examples\<close>

text \<open>Four pages of 4096 bytes, the upper two in use, and an empty kernel heap.\<close>

definition pool_sample :: splitted where
  "pool_sample = splitted_new
     \<lparr>is_initialized := True, first_address := 0x10000, cur_kernel_bound := 0x10000,
      max_kernel_bound := 0x10000, cur_user_bound := 0x12000, last_address := 0x14000,
      page_bm := \<lparr>bm_data = (\<lambda>i. if i = 0 then 0x50 else 0), bm_mem_size = 1, bm_entrys = 4\<rparr>\<rparr>"

lemma pool_sample_bits:
  "bm_free (page_bm pool_sample) 0" "bm_free (page_bm pool_sample) 1"
  "\<not> bm_free (page_bm pool_sample) 2" "\<not> bm_free (page_bm pool_sample) 3"
  by (simp_all add: pool_sample_def splitted_new_def bm_free_def bm_index_def bm_shift_def
      free_mask_def)

lemma pool_sample_used: "used_pages pool_sample = {2, 3}"
proof -
  have pc: "page_count pool_sample = 4" by (simp add: pool_sample_def)
  show ?thesis
  proof (rule set_eqI)
    fix x :: nat
    consider "x = 0" | "x = 1" | "x = 2" | "x = 3" | "4 \<le> x" by linarith
    then show "x \<in> used_pages pool_sample \<longleftrightarrow> x \<in> {2, 3}"
      by cases (use pool_sample_bits in \<open>simp_all add: used_pages_def pc\<close>)
  qed
qed

lemma pool_sample_inv: "pages_inv 0x1000 pool_sample"
  by (simp add: pages_inv_def pool_sample_used)
    (simp add: pool_sample_def page_addr_def splitted_new_def)

lemma pool_sample_heap: "heap_blocks pool_sample []"
  by (simp add: heap_blocks_def pool_sample_def splitted_new_def)

lemma pool_sample_addr:
  "page_count pool_sample = 4" "page_addr 0x1000 pool_sample j = 0x10000 + of_nat j * 0x1000"
  "cur_user_bound pool_sample = 0x12000" "cur_kernel_bound pool_sample = 0x10000"
  "last_address pool_sample = 0x14000"
  by (simp_all add: pool_sample_def page_addr_def splitted_new_def)

theorem page_alloc_correct_witness:
  "\<exists>s'. page_alloc 0x1000 False pool_sample = (0x11000, s') \<and> used_pages s' = {1, 2, 3}"
proof -
  obtain p s' where r: "page_alloc 0x1000 False pool_sample = (p, s')" by (metis surj_pair)
  have "top_free (page_bm pool_sample) (Suc (Suc (Suc 0))) = 1" using pool_sample_bits by simp
  then have "top_free (page_bm pool_sample) 3 = 1" unfolding numeral_3_eq_3 .
  then have "top_page pool_sample = 1" by (simp add: top_page_def pool_sample_addr)
  with page_alloc_correct [OF pool_sample_inv r] r show ?thesis
    by (auto simp: pool_sample_addr pool_sample_used)
qed

theorem page_free_correct_witness:
  "\<exists>s'. page_free 0x1000 0x13000 pool_sample = (True, s') \<and> used_pages s' = {2}
     \<and> cur_user_bound s' = 0x12000"
proof -
  have n: "3 < page_count pool_sample" and a: "page_addr 0x1000 pool_sample 3 = 0x13000"
    by (simp_all add: pool_sample_addr)
  obtain b s' where pf: "page_free 0x1000 (page_addr 0x1000 pool_sample 3) pool_sample = (b, s')"
    by (metis surj_pair)
  note r = page_free_correct [OF pool_sample_inv n pf, unfolded pool_sample_used a]
  have b using r [THEN conjunct1] by simp
  moreover have "{2, 3} - {3} = {2 :: nat}" by auto
  then have "used_pages s' = {2}" using r [THEN conjunct2, THEN conjunct1] by (simp only:)
  moreover have "cur_user_bound s' = 0x12000"
    using r [THEN conjunct2, THEN conjunct2, THEN conjunct2, THEN conjunct1]
    by (simp add: pool_sample_addr)
  ultimately show ?thesis using pf a by auto
qed

theorem free_border_page_strands_witness:
  "\<exists>s'. splitted_free 0x1000 0x12000 False pool_sample = Inr (True, s')
     \<and> splitted_free 0x1000 0x13000 False s' = Inr (False, s')"
  using free_border_page_strands [OF pool_sample_inv, of 2 3]
  by (auto simp: pool_sample_addr pool_sample_used)

theorem free_border_page_overlap_witness:
  "\<exists>s' p s''. splitted_free 0x1000 0x12000 False pool_sample = Inr (True, s')
    \<and> splitted_malloc 0x1000 0x3FE8 True False s' = Some (Inr (p, s'')) \<and> 3 \<in> used_pages s''
    \<and> unat p \<le> 0x13000 \<and> 0x14000 \<le> unat p + 0x3FE8"
  using free_border_page_overlap [OF pool_sample_inv pool_sample_heap, of 2 3 "0x3FE8"]
  by (auto simp: pool_sample_addr pool_sample_used)

theorem set_memory_areas_inv_witness:
  "pages_inv 0x1000 (splitted_set_memory_areas 0x1000 [\<lparr>low = 0x200000, high = 0x300000\<rparr>] splitted_new)"
  using set_memory_areas_inv [of "0x1000" "[\<lparr>low = 0x200000, high = 0x300000\<rparr>]" 256 splitted_new]
  by (simp add: aligned_area_def first_area_def get_memory_areas_def splitted_new_def)

theorem exact_bitmap_leaks_page_witness:
  "\<exists>p s1. splitted_malloc 0x1000 1 False False
      (splitted_set_memory_areas 0x1000 [\<lparr>low = 0x400000, high = 0x4400000\<rparr>] splitted_new)
      = Some (Inr (p, s1)) \<and> splitted_free 0x1000 p False s1 = Inr (False, s1)"
proof -
  let ?mem = "[\<lparr>low = 0x400000, high = 0x4400000\<rparr>]"
  have 1: "aligned_area 0x1000 (first_area ?mem) 16384"
    by (simp add: aligned_area_def first_area_def get_memory_areas_def)
  have 2: "\<not> is_initialized splitted_new" by (simp add: splitted_new_def)
  have 3: "16384 div 4 mod unat (0x1000 :: u32) = 0" "16384 div 4 div unat (0x1000 :: u32) + 2 < 16384"
    by simp_all
  from exact_bitmap_leaks_page [OF 1 2 3] show ?thesis by blast
qed

end
