(* ===== verification/Vm_Structs.thy ===== *)
theory Vm_Structs
  imports Splitted_Pages
begin

text \<open>
  The x86 paging structures (kern/arch/x86/vm/vmstructs.h and .cpp): page table and
  page directory entries are 32-bit words whose bit fields are read and written in
  place, a virtual address is split into directory index, page index and offset.
  A table is a function from its 1024 indices to entries; the tables are kept by the
  address of the page they fill, apart from the bytes of the other memory.
\<close>

section \<open>Bit fields of an entry\<close>

definition put_bit :: "nat \<Rightarrow> bool \<Rightarrow> u32 \<Rightarrow> u32" where
  "put_bit n b w = (if b then w OR push_bit n 1 else w AND NOT (push_bit n 1))"

definition presence :: "u32 \<Rightarrow> bool" where
  "presence e = bit e 0"

definition page_size_flag :: "u32 \<Rightarrow> bool" where
  "page_size_flag e = bit e 7"

definition direct_mapped :: "u32 \<Rightarrow> bool" where
  "direct_mapped e = bit e 9"

definition entry_address :: "u32 \<Rightarrow> ptr" where
  "entry_address e = e AND 0xFFFFF000"

definition address4m :: "u32 \<Rightarrow> ptr" where
  "address4m e = e AND 0xFFE00000"

definition empty_entry :: u32 where
  "empty_entry = 0"

text \<open>Storing a page frame keeps the low twelve bits.\<close>

definition put_frame :: "u32 \<Rightarrow> u32 \<Rightarrow> u32" where
  "put_frame a e = (e AND 0xFFF) OR push_bit 12 (drop_bit 12 a)"

lemma bit_put_bit: "bit (put_bit n b w) k \<longleftrightarrow> (if k = n \<and> n < 32 then b else bit w k)"
  by (auto simp: put_bit_def bit_simps dest: bit_imp_le_length)

lemma mask_words:
  "(0xFFFFF000 :: u32) = NOT (mask 12)" "(0xFFF :: u32) = mask 12"
  "(0xFFC00000 :: u32) = NOT (mask 22)" "(0x003FFFFF :: u32) = mask 22" "(0x3FF :: u32) = mask 10"
  by (simp_all add: mask_eq_exp_minus_1)

lemma bit_entry_address: "bit (entry_address e) k \<longleftrightarrow> bit e k \<and> 12 \<le> k"
  unfolding entry_address_def mask_words by (auto simp: bit_simps dest: bit_imp_le_length)

lemma bit_put_frame: "bit (put_frame a e) k \<longleftrightarrow> (if k < 12 then bit e k else bit a k)"
  unfolding put_frame_def mask_words by (auto simp: bit_simps dest: bit_imp_le_length)

lemma entry_address_put_frame: "entry_address (put_frame a e) = entry_address a"
  by (rule bit_word_eqI) (auto simp: bit_entry_address bit_put_frame)

lemma entry_address_put_bit: "n < 12 \<Longrightarrow> entry_address (put_bit n b e) = entry_address e"
  by (rule bit_word_eqI) (auto simp: bit_entry_address bit_put_bit)

lemma entry_address_idem [simp]: "entry_address (entry_address e) = entry_address e"
  by (rule bit_word_eqI) (auto simp: bit_entry_address)

section \<open>Virtual addresses\<close>

definition va_offset :: "u32 \<Rightarrow> u32" where
  "va_offset v = v AND 0xFFF"

definition va_page :: "u32 \<Rightarrow> nat" where
  "va_page v = unat (drop_bit 12 v AND 0x3FF)"

definition va_dir :: "u32 \<Rightarrow> nat" where
  "va_dir v = unat (drop_bit 22 v)"

definition va_make :: "nat \<Rightarrow> nat \<Rightarrow> u32 \<Rightarrow> u32" where
  "va_make d p off = push_bit 22 (of_nat d) OR push_bit 12 (of_nat (p mod 1024)) OR (off AND 0xFFF)"

lemma va_dir_eq: "va_dir v = unat v div 2 ^ 22"
  unfolding va_dir_def unat_drop_bit_eq by (simp add: drop_bit_eq_div)

lemma va_page_eq: "va_page v = unat v div 2 ^ 12 mod 2 ^ 10"
  unfolding va_page_def mask_words unat_and_mask unat_drop_bit_eq by (simp add: drop_bit_eq_div)

lemma va_offset_eq: "unat (va_offset v) = unat v mod 2 ^ 12"
  unfolding va_offset_def mask_words unat_and_mask ..

lemma va_dir_lt: "va_dir v < 1024"
  using unat_lt32 [of v] by (simp add: va_dir_eq div_less_iff_less_mult)

lemma va_page_lt: "va_page v < 1024"
  by (simp add: va_page_eq)

lemma bit_nat_small: "bit (n :: nat) k \<Longrightarrow> n < 1024 \<Longrightarrow> k < 10"
proof -
  assume n: "bit n k" "n < 1024"
  have "take_bit 10 n = n" using n(2) by (simp add: take_bit_nat_eq_self)
  then show ?thesis using n(1) by (metis bit_take_bit_iff)
qed

lemma va_make_fields:
  assumes "d < 1024" "p < 1024"
  shows "va_dir (va_make d p off) = d" "va_page (va_make d p off) = p"
    "va_offset (va_make d p off) = off AND 0xFFF"
proof -
  have sm: "unat (of_nat d :: u32) = d" "unat (of_nat p :: u32) = p"
    using assms by (simp_all add: unat_of_nat_lt)
  have "drop_bit 22 (va_make d p off) = of_nat d"
    unfolding va_make_def mask_words using assms
    by (intro bit_word_eqI) (auto simp: bit_simps not_le dest: bit_imp_le_length bit_nat_small)
  then show "va_dir (va_make d p off) = d" by (simp add: va_dir_def sm)
  have "drop_bit 12 (va_make d p off) AND 0x3FF = of_nat p"
    unfolding va_make_def mask_words using assms
    by (intro bit_word_eqI) (auto simp: bit_simps dest: bit_imp_le_length bit_nat_small)
  then show "va_page (va_make d p off) = p" by (simp add: va_page_def sm)
  show "va_offset (va_make d p off) = off AND 0xFFF"
    unfolding va_make_def va_offset_def mask_words
    by (intro bit_word_eqI) (auto simp: bit_simps dest: bit_imp_le_length)
qed

section \<open>Tables in memory\<close>

type_synonym page_table = "nat \<Rightarrow> u32"

record vm_state =
  vm_mem :: splitted
  page_tables :: "ptr \<Rightarrow> page_table option"
  vm_ram :: "ptr \<Rightarrow> u8"

definition page_size :: u32 where
  "page_size = 4096"

definition page_size64 :: u64 where
  "page_size64 = 4096"

text \<open>
  kmalloc sets the memory areas up on the first call and then asks the policy. The
  calls below are for one aligned page of kernel memory and for one page of user memory.
\<close>

definition kmalloc_init :: "memory_area list \<Rightarrow> vm_state \<Rightarrow> vm_state" where
  "kmalloc_init areas s =
     (if is_initialized (vm_mem s) then s
      else s\<lparr>vm_mem := splitted_set_memory_areas page_size areas (vm_mem s)\<rparr>)"

definition kmalloc_page :: "memory_area list \<Rightarrow> u64 \<Rightarrow> vm_state \<Rightarrow> ptr \<times> vm_state" where
  "kmalloc_page areas n s =
     (let s0 = kmalloc_init areas s; (p, m) = malloc_page page_size n True (vm_mem s0)
      in (p, s0\<lparr>vm_mem := m\<rparr>))"

definition create_page_table :: "memory_area list \<Rightarrow> vm_state \<Rightarrow> ptr \<times> vm_state" where
  "create_page_table areas s =
     (let (mem, s1) = kmalloc_page areas (4 * 1024) s
      in if mem = 0 then (0, s1)
         else (mem, s1\<lparr>page_tables := (page_tables s1)(mem \<mapsto> (\<lambda>_. empty_entry))\<rparr>))"

definition create_page_directory_table :: "memory_area list \<Rightarrow> vm_state \<Rightarrow> ptr \<times> vm_state" where
  "create_page_directory_table areas s =
     (let (mem, s1) = kmalloc_page areas (4 * 1024) s
      in if mem = 0 then (0, s1)
         else (mem, s1\<lparr>page_tables := (page_tables s1)(mem \<mapsto> (\<lambda>_. empty_entry))\<rparr>))"

definition table_at :: "vm_state \<Rightarrow> ptr \<Rightarrow> page_table result" where
  "table_at s p =
     (if p = 0 then Inl Null_deref
      else case page_tables s p of None \<Rightarrow> Inl Wild_access | Some t \<Rightarrow> Inr t)"

definition set_entry :: "ptr \<Rightarrow> nat \<Rightarrow> u32 \<Rightarrow> vm_state \<Rightarrow> vm_state" where
  "set_entry p i e s =
     s\<lparr>page_tables := (page_tables s)(p := map_option (\<lambda>t. t(i := e)) (page_tables s p))\<rparr>"

lemma table_at_set_entry:
  "table_at (set_entry p i e s) q =
    (if q = p then bind_result (table_at s p) (\<lambda>t. Inr (t(i := e))) else table_at s q)"
  by (auto simp: table_at_def set_entry_def split: option.splits)

end
