(* ===== verification/Context_Switch.thy ===== *)
theory Context_Switch
  imports Vm_Structs
begin

text \<open>
  The part of a process the context switch works on
  (kern/arch/x86/scheduler/process_schedule_data.h, process_schedule_data.cpp) and the
  architecture dependent scheduler (kern/arch/x86/scheduler/scheduler.h, scheduler.cpp):
  kernel stacks and their copy for a fork, the registers saved and restored when processes
  are switched, and the faked stack a new process starts with.
\<close>

section \<open>Data\<close>

text \<open>
  Kernel stacks are memory in words. The stack pointer of a process shares its place with the
  pointer to the faked stack, the instruction pointer with the pointer to the entrance function.
\<close>

type_synonym word_mem = "ptr \<Rightarrow> u32"

record schedule_data =
  kernel_stack_base :: ptr
  sd_esp :: ptr
  sd_eip :: ptr
  sd_ebp :: ptr
  sd_cr3 :: ptr

definition KERNEL_STACK_SIZE :: nat where
  "KERNEL_STACK_SIZE = 0x4000"

definition stack_bottom_mask_size :: u32 where
  "stack_bottom_mask_size = 24"

text \<open>The base of a new process is the last word of its stack; the rest is not initialised.\<close>

definition schedule_data_new :: "ptr \<Rightarrow> schedule_data \<Rightarrow> schedule_data" where
  "schedule_data_new stack old = old\<lparr>kernel_stack_base := stack + 4 * of_nat (KERNEL_STACK_SIZE - 1)\<rparr>"

record entrance_information =
  magic_above :: u32
  ei_kernel :: bool
  ei_fct :: ptr
  ei_num :: u32
  ei_data :: ptr
  magic_under :: u32

definition MAGIC :: u32 where
  "MAGIC = 0x5742700"

definition entrance_information_new :: "bool \<Rightarrow> ptr \<Rightarrow> u32 \<Rightarrow> ptr \<Rightarrow> entrance_information" where
  "entrance_information_new krn fct num data =
     \<lparr>magic_above = MAGIC, ei_kernel = krn, ei_fct = fct, ei_num = num, ei_data = data, magic_under = MAGIC\<rparr>"

text \<open>
  The registers a switch works with, and the fields of the task state segment that say which
  stack and which page table an interrupt uses. \<open>eax\<close> is the result of get_eip.
\<close>

record cpu =
  r_esp :: ptr
  r_ebp :: ptr
  r_eip :: ptr
  r_cr3 :: ptr
  r_eax :: u32
  tss_esp0 :: ptr
  tss_cr3 :: ptr

definition MAGIC_VALUE :: u32 where
  "MAGIC_VALUE = 0xCAFFEE"

section \<open>Copying a stack\<close>

text \<open>
  The words are copied from the base downwards. A word that lies within the old stack is taken
  for a base pointer and moved. The size is unsigned: when it is not a multiple of 4 it never
  becomes 0.
\<close>

definition adapt_word :: "ptr \<Rightarrow> ptr \<Rightarrow> u32 \<Rightarrow> u32 \<Rightarrow> u32" where
  "adapt_word old_top old_base movement w =
     (if old_top < w \<and> w < old_base then w + movement else w)"

partial_function (option) copy_words ::
  "ptr \<Rightarrow> ptr \<Rightarrow> u32 \<Rightarrow> u32 \<Rightarrow> ptr \<Rightarrow> ptr \<Rightarrow> word_mem \<Rightarrow> word_mem option" where
  "copy_words old_top old_base movement old_size it_in it_out m =
     (if old_size = 0 then Some m
      else copy_words old_top old_base movement (old_size - 4) (it_in - 4) (it_out - 4)
             (m(it_in := adapt_word old_top old_base movement (m it_out))))"

definition copy_and_adapt_stack ::
  "ptr \<Rightarrow> ptr \<Rightarrow> ptr \<Rightarrow> ptr \<Rightarrow> word_mem \<Rightarrow> (ptr \<times> ptr \<times> word_mem) option" where
  "copy_and_adapt_stack old_base old_top old_ebp new_base m =
     (let movement = new_base - old_base
      in map_option (\<lambda>m'. (old_top + movement, old_ebp + movement, m'))
           (copy_words old_top old_base movement (old_base - old_top) new_base old_base m))"

definition copy_stack ::
  "schedule_data \<Rightarrow> ptr \<Rightarrow> ptr \<Rightarrow> schedule_data \<Rightarrow> word_mem \<Rightarrow> (schedule_data \<times> word_mem) option" where
  "copy_stack copy_from cur_top cur_ebp this m =
     map_option (\<lambda>(esp, ebp, m'). (this\<lparr>sd_esp := esp, sd_ebp := ebp\<rparr>, m'))
       (copy_and_adapt_stack (kernel_stack_base copy_from) cur_top cur_ebp (kernel_stack_base this) m)"

text \<open>The other version copies the running stack, and switches to the copy when asked to.\<close>

definition copy_running_stack ::
  "ptr \<Rightarrow> bool \<Rightarrow> schedule_data \<Rightarrow> cpu \<Rightarrow> word_mem \<Rightarrow> (schedule_data \<times> cpu \<times> word_mem) option" where
  "copy_running_stack cur_base immediate_use this c m =
     map_option (\<lambda>(esp, ebp, m').
         (this\<lparr>sd_esp := esp, sd_ebp := ebp\<rparr>, if immediate_use then c\<lparr>r_esp := esp, r_ebp := ebp\<rparr> else c, m'))
       (copy_and_adapt_stack cur_base (r_esp c) (r_ebp c) (kernel_stack_base this) m)"

section \<open>Switching\<close>

definition set_current :: "schedule_data \<Rightarrow> cpu \<Rightarrow> cpu" where
  "set_current next c = c\<lparr>tss_esp0 := kernel_stack_base next, tss_cr3 := sd_cr3 next\<rparr>"

text \<open>
  switch_to up to the jump: \<open>label\<close> is the address get_eip returns to. The registers of the
  running process go to \<open>prev\<close>, those saved in \<open>next\<close> are loaded and eax is the magic value.
  When the processor comes back to the label with the magic value, switch_to returns.
\<close>

definition save_registers :: "ptr \<Rightarrow> cpu \<Rightarrow> schedule_data \<Rightarrow> schedule_data" where
  "save_registers label c prev =
     prev\<lparr>sd_esp := r_esp c, sd_ebp := r_ebp c, sd_eip := label, sd_cr3 := r_cr3 c\<rparr>"

definition load_registers :: "schedule_data \<Rightarrow> cpu \<Rightarrow> cpu" where
  "load_registers next c =
     (set_current next c)\<lparr>r_ebp := sd_ebp next, r_esp := sd_esp next, r_cr3 := sd_cr3 next,
        r_eax := MAGIC_VALUE, r_eip := sd_eip next\<rparr>"

section \<open>New processes\<close>

text \<open>
  The stack of a new process is filled through the faked stack, whose first word is the
  parameter of the entrance function; \<open>ent\<close> is what new returns for the entrance information,
  0 when there is no memory. The word under the faked stack takes the place of a return address.
\<close>

definition fake_stack :: "ptr \<Rightarrow> ptr \<Rightarrow> word_mem \<Rightarrow> word_mem" where
  "fake_stack esp ent m =
     m(esp := ent, esp + 4 := 0, esp + 8 := 0xDEADDEAD, esp + 12 := 0xDEADDEAD,
       esp + 16 := 0xDEADDEAD, esp + 20 := 0xDEADDEAD)"

definition prepare_new ::
  "ptr \<Rightarrow> ptr \<Rightarrow> ptr \<Rightarrow> schedule_data \<Rightarrow> word_mem \<Rightarrow> bool \<times> schedule_data \<times> word_mem" where
  "prepare_new page_table entrance ent p m =
     (let p1 = p\<lparr>sd_cr3 := page_table, sd_eip := entrance, sd_ebp := 0,
                 sd_esp := kernel_stack_base p - stack_bottom_mask_size\<rparr>
      in if ent = 0 then (False, p1, m(sd_esp p1 := ent))
         else (True, p1\<lparr>sd_esp := sd_esp p1 - 4\<rparr>, fake_stack (sd_esp p1) ent m))"

text \<open>
  The entrance function, entered by the jump of switch_to: its parameter lies above the word
  the stack pointer points to. It deletes the entrance information, leaves kernel mode when it
  is told to and calls the function the process was made for.
\<close>

datatype birth = Calls bool ptr u32 ptr | Stuck

definition entrance_function ::
  "(ptr \<Rightarrow> entrance_information option) \<Rightarrow> cpu \<Rightarrow> word_mem
   \<Rightarrow> (birth \<times> (ptr \<Rightarrow> entrance_information option)) result" where
  "entrance_function heap c m =
     (let ent = m (r_esp c + 4)
      in if ent = 0 then Inr (Stuck, heap)
         else case heap ent of
                None \<Rightarrow> Inl Wild_access
              | Some i \<Rightarrow>
                  Inr (if magic_above i = MAGIC \<and> magic_under i = MAGIC
                       then Calls (ei_kernel i) (ei_fct i) (ei_num i) (ei_data i) else Stuck,
                       heap(ent := None)))"

section \<open>Forking\<close>

text \<open>
  prepare for a fork: the first time get_eip returns the address of the label, and the stack of
  the running parent is copied to the child, which is to go on from the same label; the result
  is the process identification of the parent. When the child is switched to, get_eip returns
  the magic value and the result is that of the child.
\<close>

definition prepare_fork ::
  "u32 \<Rightarrow> u32 \<Rightarrow> u32 \<Rightarrow> ptr \<Rightarrow> cpu \<Rightarrow> schedule_data \<Rightarrow> schedule_data \<Rightarrow> word_mem
   \<Rightarrow> (u32 \<times> schedule_data \<times> word_mem) option" where
  "prepare_fork parent_pid child_pid eip page_table c parent child m =
     (if eip = MAGIC_VALUE then Some (child_pid, child, m)
      else map_option (\<lambda>(child', m'). (parent_pid, child'\<lparr>sd_cr3 := page_table, sd_eip := eip\<rparr>, m'))
             (copy_stack parent (r_esp c) (r_ebp c) child m))"

section \<open>What a copy of a stack holds\<close>

text \<open>The words of a stack of \<open>n\<close> words below and at its base.\<close>

definition stack_words :: "ptr \<Rightarrow> nat \<Rightarrow> ptr set" where
  "stack_words base n = (\<lambda>k. base - 4 * of_nat k) ` {..<n}"

lemma stack_words_Suc: "stack_words base (Suc n) = insert base (stack_words (base - 4) n)"
proof -
  have "base - 4 * of_nat (Suc k) = base - 4 - 4 * of_nat k" for k by (simp add: algebra_simps)
  then show ?thesis by (simp only: stack_words_def lessThan_Suc_eq_insert_0 image_insert image_image) simp
qed

lemma four_times_inj:
  assumes "(4 :: ptr) * of_nat i = 4 * of_nat j" and "i < 2 ^ 30" and "j < 2 ^ 30"
  shows "i = j"
proof -
  have u: "unat (of_nat (4 * k) :: ptr) = 4 * k" if "k < 2 ^ 30" for k
    using that by (intro unat_of_nat_lt) simp
  have "(of_nat (4 * i) :: ptr) = of_nat (4 * j)" using assms(1) by (simp only: of_nat_mult of_nat_numeral)
  then have "4 * i = 4 * j" using u [OF assms(2)] u [OF assms(3)] by metis
  then show ?thesis by simp
qed

lemma copy_words_step:
  "copy_words t b mv (4 * of_nat (Suc n)) i j m =
    (if (4 :: u32) * of_nat (Suc n) = 0 then Some m
     else copy_words t b mv (4 * of_nat n) (i - 4) (j - 4) (m(i := adapt_word t b mv (m j))))"
proof -
  have "4 * of_nat (Suc n) - 4 = (4 * of_nat n :: u32)" by (simp add: algebra_simps)
  then show ?thesis by (subst copy_words.simps) simp
qed

lemma copy_words_copies:
  assumes "n < 2 ^ 30" and "stack_words i n \<inter> stack_words j n = {}"
  shows "\<exists>m'. copy_words t b mv (4 * of_nat n) i j m = Some m'
    \<and> (\<forall>k < n. m' (i - 4 * of_nat k) = adapt_word t b mv (m (j - 4 * of_nat k)))
    \<and> (\<forall>a. a \<notin> stack_words i n \<longrightarrow> m' a = m a)"
  using assms
proof (induction n arbitrary: i j m)
  case 0
  then show ?case by (simp add: copy_words.simps)
next
  case (Suc n)
  let ?m = "m(i := adapt_word t b mv (m j))"
  have "(4 :: u32) * of_nat (Suc n) \<noteq> 0"
    using four_times_inj [of "Suc n" 0] Suc.prems(1) by auto
  then have step: "copy_words t b mv (4 * of_nat (Suc n)) i j m = copy_words t b mv (4 * of_nat n) (i - 4) (j - 4) ?m"
    by (simp only: copy_words_step if_False)
  have dj: "stack_words (i - 4) n \<inter> stack_words (j - 4) n = {}" "i \<notin> stack_words (j - 4) n"
    using Suc.prems(2) by (auto simp: stack_words_Suc)
  obtain m' where m': "copy_words t b mv (4 * of_nat n) (i - 4) (j - 4) ?m = Some m'"
    "\<forall>k < n. m' (i - 4 - 4 * of_nat k) = adapt_word t b mv (?m (j - 4 - 4 * of_nat k))"
    "\<forall>a. a \<notin> stack_words (i - 4) n \<longrightarrow> m' a = ?m a"
    using Suc.IH [OF _ dj(1), of ?m] Suc.prems(1) by (blast dest: Suc_lessD)
  have "i \<notin> stack_words (i - 4) n"
  proof
    assume "i \<in> stack_words (i - 4) n"
    then obtain k where k: "k < n" "i = i - 4 - 4 * of_nat k" by (auto simp: stack_words_def)
    then have "4 * of_nat (Suc k) = 4 * (of_nat 0 :: ptr)" by (simp add: algebra_simps)
    then show False using four_times_inj [of "Suc k" 0] k(1) Suc.prems(1) by simp
  qed
  then have first: "m' i = adapt_word t b mv (m j)" using m'(3) by simp
  have "m' (i - 4 * of_nat k) = adapt_word t b mv (m (j - 4 * of_nat k))" if "k < Suc n" for k
  proof (cases k)
    case 0
    then show ?thesis using first by simp
  next
    case (Suc l)
    have e: "x - 4 * of_nat k = x - 4 - 4 * of_nat l" for x :: ptr using Suc by (simp add: algebra_simps)
    have "j - 4 - 4 * of_nat l \<noteq> i" using dj(2) that Suc by (auto simp: stack_words_def)
    then show ?thesis unfolding e using m'(2) that Suc by simp
  qed
  then show ?case unfolding step using m'(1,3) by (auto simp: stack_words_Suc)
qed


lemma copy_and_adapt_stack_copies:
  assumes "n < 2 ^ 30" and "old_base - old_top = 4 * of_nat n"
    and "stack_words new_base n \<inter> stack_words old_base n = {}"
  shows "\<exists>m'. copy_and_adapt_stack old_base old_top old_ebp new_base m
      = Some (new_base - 4 * of_nat n, old_ebp + (new_base - old_base), m')
    \<and> (\<forall>k < n. m' (new_base - 4 * of_nat k)
         = adapt_word old_top old_base (new_base - old_base) (m (old_base - 4 * of_nat k)))
    \<and> (\<forall>a. a \<notin> stack_words new_base n \<longrightarrow> m' a = m a)"
proof -
  have "old_top + (new_base - old_base) = new_base - 4 * of_nat n" using assms(2) by (simp add: algebra_simps)
  then show ?thesis
    using copy_words_copies [OF assms(1,3), of old_top old_base "new_base - old_base" m] assms(2)
    by (auto simp: copy_and_adapt_stack_def Let_def)
qed

text \<open>
  The frames of a stack: each saved base pointer is stored where the base pointer of the
  function it calls points to, and the return address lies above it.
\<close>

fun frames :: "nat \<Rightarrow> ptr \<Rightarrow> word_mem \<Rightarrow> ptr list" where
  "frames 0 ebp m = []"
| "frames (Suc n) ebp m = ebp # frames n (m ebp) m"

definition on_stack :: "ptr \<Rightarrow> nat \<Rightarrow> ptr \<Rightarrow> bool" where
  "on_stack base n a \<longleftrightarrow> base - 4 * of_nat n < a \<and> a < base \<and> (\<exists>k < n. a = base - 4 * of_nat k)"

lemma frames_moved:
  assumes c: "\<forall>k < n. m' (base' - 4 * of_nat k) = adapt_word t0 base (base' - base) (m (base - 4 * of_nat k))"
    and t0: "t0 = base - 4 * of_nat n"
  shows "\<forall>a \<in> set (frames d ebp m). on_stack base n a \<Longrightarrow>
    frames d (ebp + (base' - base)) m' = map (\<lambda>a. a + (base' - base)) (frames d ebp m)"
proof (induction d arbitrary: ebp)
  case 0
  then show ?case by simp
next
  case (Suc d)
  then have "on_stack base n ebp" by simp
  then obtain k where k: "k < n" "ebp = base - 4 * of_nat k" by (auto simp: on_stack_def)
  have e: "ebp + (base' - base) = base' - 4 * of_nat k" using k(2) by simp
  have word: "m' (ebp + (base' - base)) = adapt_word t0 base (base' - base) (m ebp)"
    unfolding e using c k by simp
  show ?case
  proof (cases d)
    case 0
    then show ?thesis by simp
  next
    case (Suc e)
    then have "on_stack base n (m ebp)" using Suc.prems by simp
    then have "m' (ebp + (base' - base)) = m ebp + (base' - base)"
      unfolding word by (simp add: adapt_word_def on_stack_def t0)
    then show ?thesis using Suc.IH [of "m ebp"] Suc.prems by simp
  qed
qed

end
