(* ===== verification/Process_Vm.thy ===== *)
theory Process_Vm
  imports Vm_Structs
begin

text \<open>
  The hardware part of a process (kern/arch/x86/scheduler/process.cpp and .h): its
  page directory, mapping and unmapping of pages, translation, copying between
  address spaces. The operations act on the memory \<open>vm_state\<close>; a process is the
  address of its page directory.
\<close>

section \<open>Construction\<close>

text \<open>Entry \<open>d\<close> of the one to one mapping shared by all processes: a 4 MiB page.\<close>

definition direct_entry :: "nat \<Rightarrow> u32" where
  "direct_entry d =
     put_bit 9 True (put_bit 8 True (put_bit 7 True (put_bit 5 False (put_bit 3 True
       (put_bit 4 False (put_bit 2 False (put_bit 1 True (put_bit 0 True (va_make d 0 0)))))))))"

text \<open>
  A process gets a fresh directory; its first 32 entries (128 MiB) are copied from the
  shared mapping, which the first process creates. The static pointer to the shared
  mapping is passed and returned.
\<close>

definition make_direct_mapping ::
  "memory_area list \<Rightarrow> ptr \<Rightarrow> vm_state \<Rightarrow> (ptr \<times> vm_state) result" where
  "make_direct_mapping areas dm s =
     (if dm = 0
      then (let (p, s1) = create_page_directory_table areas s
            in bind_result (table_at s1 p) (\<lambda>_.
                 Inr (p, s1\<lparr>page_tables := (page_tables s1)(p \<mapsto> direct_entry)\<rparr>)))
      else Inr (dm, s))"

definition process_new ::
  "memory_area list \<Rightarrow> ptr \<Rightarrow> vm_state \<Rightarrow> (ptr \<times> ptr \<times> vm_state) result" where
  "process_new areas dm s =
     (let (pt, s1) = create_page_directory_table areas s
      in bind_result (make_direct_mapping areas dm s1) (\<lambda>(dm', s2).
           bind_result (table_at s2 dm') (\<lambda>d.
             bind_result (table_at s2 pt) (\<lambda>t.
               Inr (pt, dm', s2\<lparr>page_tables := (page_tables s2)
                 (pt \<mapsto> (\<lambda>i. if i < 32 then d i else t i))\<rparr>)))))"

section \<open>Mapping pages\<close>

text \<open>The directory entry written for a new page table.\<close>

definition table_entry :: "ptr \<Rightarrow> u32" where
  "table_entry p =
     put_bit 9 False (put_bit 8 False (put_bit 7 False (put_bit 5 False (put_bit 3 True
       (put_bit 4 False (put_bit 2 True (put_bit 1 True (put_bit 0 True p))))))))"

text \<open>
  One directory entry on the way: a missing page table is created, a 4 MiB page ends
  the operation (no table is returned).
\<close>

definition need_table ::
  "memory_area list \<Rightarrow> ptr \<Rightarrow> nat \<Rightarrow> vm_state \<Rightarrow> (ptr option \<times> vm_state) result" where
  "need_table areas ptable d s =
     bind_result (table_at s ptable) (\<lambda>dir.
       if \<not> presence (dir d)
       then (let (p, s1) = create_page_table areas s; e = table_entry p
             in Inr (Some (entry_address e), set_entry ptable d e s1))
       else if page_size_flag (dir d) then Inr (None, s)
       else Inr (Some (entry_address (dir d)), s))"

type_synonym slot = "ptr \<times> nat"

text \<open>
  The search in one page table when the caller leaves the place open. The state of the
  search is the number of pages still missing, the slots collected and the page index
  where the run started.
\<close>

fun scan_table ::
  "page_table \<Rightarrow> ptr \<Rightarrow> nat \<Rightarrow> nat list \<Rightarrow> nat \<times> slot list \<times> nat \<Rightarrow> nat \<times> slot list \<times> nat" where
  "scan_table t pte need [] st = st"
| "scan_table t pte need (i # is) (count, used, vpage) =
     (let st' = (if presence (t i) then (need, [], vpage)
                 else (count - 1, used @ [(pte, i)], if count = need then i else vpage))
      in if fst st' = 0 then st' else scan_table t pte need is st')"

fun search_dirs ::
  "memory_area list \<Rightarrow> ptr \<Rightarrow> nat \<Rightarrow> nat list \<Rightarrow> nat \<times> slot list \<times> nat \<Rightarrow> vm_state
   \<Rightarrow> ((nat \<times> nat \<times> slot list) option \<times> vm_state) result" where
  "search_dirs areas ptable need [] st s = Inr (None, s)"
| "search_dirs areas ptable need (d # ds) st s =
     bind_result (need_table areas ptable d s) (\<lambda>(pt, s1).
       case pt of
         None \<Rightarrow> Inr (None, s1)
       | Some pte \<Rightarrow>
           bind_result (table_at s1 pte) (\<lambda>t.
             case scan_table t pte need [0..<1024] st of
               (count, used, vpage) \<Rightarrow>
                 if count = 0 then Inr (Some (d, vpage, used), s1)
                 else search_dirs areas ptable need ds (count, used, vpage) s1))"

text \<open>
  The walk from a given place: every slot has to be free until enough are collected.
  At the end of the directory it stops with what it has.
\<close>

fun take_slots ::
  "page_table \<Rightarrow> ptr \<Rightarrow> nat list \<Rightarrow> nat \<times> slot list \<Rightarrow> (nat \<times> slot list) option" where
  "take_slots t pte [] st = Some st"
| "take_slots t pte (i # is) (count, used) =
     (if presence (t i) then None
      else if count - 1 = 0 then Some (0, used @ [(pte, i)])
      else take_slots t pte is (count - 1, used @ [(pte, i)]))"

fun walk_dirs ::
  "memory_area list \<Rightarrow> ptr \<Rightarrow> nat \<Rightarrow> nat list \<Rightarrow> nat \<times> slot list \<Rightarrow> vm_state
   \<Rightarrow> (slot list option \<times> vm_state) result" where
  "walk_dirs areas ptable page [] st s = Inr (Some (snd st), s)"
| "walk_dirs areas ptable page (d # ds) st s =
     bind_result (need_table areas ptable d s) (\<lambda>(pt, s1).
       case pt of
         None \<Rightarrow> Inr (None, s1)
       | Some pte \<Rightarrow>
           bind_result (table_at s1 pte) (\<lambda>t.
             case take_slots t pte [page..<1024] st of
               None \<Rightarrow> Inr (None, s1)
             | Some (count, used) \<Rightarrow>
                 if count = 0 then Inr (Some used, s1)
                 else walk_dirs areas ptable 0 ds (count, used) s1))"

definition mapped_entry :: "ptr \<Rightarrow> u32 \<Rightarrow> u32" where
  "mapped_entry a e =
     put_frame a (put_bit 9 False (put_bit 8 False (put_bit 7 False (put_bit 6 False
       (put_bit 5 False (put_bit 4 False (put_bit 3 True (put_bit 2 True (put_bit 1 True
         (put_bit 0 True e))))))))))"

fun map_slots :: "slot list \<Rightarrow> ptr list \<Rightarrow> vm_state \<Rightarrow> vm_state result" where
  "map_slots [] as s = Inr s"
| "map_slots (u # us) [] s = Inl Out_of_bounds"
| "map_slots ((p, i) # us) (a # as) s =
     bind_result (table_at s p) (\<lambda>t. map_slots us as (set_entry p i (mapped_entry a (t i)) s))"

definition add_virtual_memory ::
  "memory_area list \<Rightarrow> ptr \<Rightarrow> ptr list \<Rightarrow> u32 \<Rightarrow> vm_state \<Rightarrow> (ptr \<times> vm_state) result" where
  "add_virtual_memory areas ptable addresses vaddr s =
     (let count = length addresses
      in if count = 0 then Inr (0, s)
         else if vaddr = 0
         then bind_result (search_dirs areas ptable count [512..<1024] (count, [], 0) s) (\<lambda>(r, s1).
                case r of
                  None \<Rightarrow> Inr (0, s1)
                | Some (d, p, used) \<Rightarrow>
                    bind_result (map_slots used addresses s1) (\<lambda>s2. Inr (va_make d p 0, s2)))
         else bind_result (walk_dirs areas ptable (va_page vaddr) [va_dir vaddr..<1024] (count, []) s)
              (\<lambda>(r, s1).
                case r of
                  None \<Rightarrow> Inr (0, s1)
                | Some used \<Rightarrow>
                    bind_result (map_slots used addresses s1) (\<lambda>s2. Inr (vaddr, s2))))"

section \<open>Translation and removal\<close>

definition get_phys_address :: "ptr \<Rightarrow> u32 \<Rightarrow> vm_state \<Rightarrow> ptr result" where
  "get_phys_address ptable vaddr s =
     bind_result (table_at s ptable) (\<lambda>dir.
       let dentry = dir (va_dir vaddr)
       in if \<not> presence dentry then Inr 0
          else if page_size_flag dentry
          then Inr ((dentry AND 0xFFC00000) OR (vaddr AND 0x003FFFFF))
          else bind_result (table_at s (entry_address dentry)) (\<lambda>t.
                 let e = t (va_page vaddr)
                 in if \<not> presence e then Inr 0
                    else Inr ((e AND 0xFFFFF000) OR va_offset vaddr)))"

definition remove_virtual_memory :: "ptr \<Rightarrow> u32 \<Rightarrow> vm_state \<Rightarrow> (bool \<times> vm_state) result" where
  "remove_virtual_memory ptable vaddr s =
     bind_result (table_at s ptable) (\<lambda>dir.
       let pde = dir (va_dir vaddr)
       in if \<not> presence pde then Inr (False, s)
          else if page_size_flag pde then Inr (False, s)
          else bind_result (table_at s (entry_address pde)) (\<lambda>t.
                 let e = t (va_page vaddr)
                 in if \<not> presence e then Inr (False, s)
                    else Inr (True, set_entry (entry_address pde) (va_page vaddr) (put_bit 0 False e) s)))"

definition page_table_ptr :: "ptr \<Rightarrow> ptr result" where
  "page_table_ptr ptable = (if ptable AND 0xFFF \<noteq> 0 then Inl Die else Inr ptable)"

section \<open>Copying\<close>

text \<open>Bytes are copied one after the other, upwards.\<close>

fun copy_bytes :: "nat \<Rightarrow> ptr \<Rightarrow> ptr \<Rightarrow> (ptr \<Rightarrow> u8) \<Rightarrow> ptr \<Rightarrow> u8" where
  "copy_bytes 0 d s m = m"
| "copy_bytes (Suc n) d s m = copy_bytes n (d + 1) (s + 1) (m(d := m s))"

definition copy_dir :: "bool \<Rightarrow> nat \<Rightarrow> ptr \<Rightarrow> ptr \<Rightarrow> vm_state \<Rightarrow> vm_state" where
  "copy_dir copyout n phys addr s =
     s\<lparr>vm_ram := (if copyout then copy_bytes n addr phys (vm_ram s)
                  else copy_bytes n phys addr (vm_ram s))\<rparr>"

text \<open>The next page of a virtual address; none after the last one. The offset stays.\<close>

definition next_page :: "u32 \<Rightarrow> u32 option" where
  "next_page v =
     (let p = (va_page v + 1) mod 1024
      in if p = 0
         then (let d = (va_dir v + 1) mod 1024
               in if d = 0 then None else Some (va_make d p (va_offset v)))
         else Some (va_make (va_dir v) p (va_offset v)))"

text \<open>Copying whole pages; the result is the place behind them, or none on an error.\<close>

fun copy_pages ::
  "ptr \<Rightarrow> bool \<Rightarrow> nat \<Rightarrow> u32 \<Rightarrow> ptr \<Rightarrow> vm_state \<Rightarrow> ((u32 \<times> ptr) option \<times> vm_state) result" where
  "copy_pages ptable copyout 0 v addr s = Inr (Some (v, addr), s)"
| "copy_pages ptable copyout (Suc n) v addr s =
     bind_result (get_phys_address ptable v s) (\<lambda>dest.
       if dest = 0 then Inr (None, s)
       else (let s1 = copy_dir copyout 4096 dest addr s
             in case next_page v of
                  None \<Rightarrow> Inr (None, s1)
                | Some v' \<Rightarrow> copy_pages ptable copyout n v' (addr + page_size) s1))"

definition copy_rest ::
  "ptr \<Rightarrow> bool \<Rightarrow> u32 \<Rightarrow> ptr \<Rightarrow> u32 \<Rightarrow> vm_state \<Rightarrow> (bool \<times> vm_state) result" where
  "copy_rest ptable copyout v addr sz s =
     bind_result (get_phys_address ptable v s) (\<lambda>dest.
       if dest = 0 then Inr (False, s)
       else Inr (True, copy_dir copyout (unat sz) dest addr s))"

definition copy_whole ::
  "ptr \<Rightarrow> bool \<Rightarrow> u32 \<Rightarrow> ptr \<Rightarrow> u32 \<Rightarrow> vm_state \<Rightarrow> (bool \<times> vm_state) result" where
  "copy_whole ptable copyout v addr sz s =
     (if sz \<ge> page_size
      then (let count = sz div page_size
            in bind_result (copy_pages ptable copyout (unat count) v addr s) (\<lambda>(r, s1).
                 case r of
                   None \<Rightarrow> Inr (False, s1)
                 | Some (v', addr') \<Rightarrow>
                     (let rest = sz - page_size * count
                      in if rest = 0 then Inr (True, s1)
                         else copy_rest ptable copyout v' addr' rest s1)))
      else copy_rest ptable copyout v addr sz s)"

definition copy_in ::
  "ptr \<Rightarrow> bool \<Rightarrow> u32 \<Rightarrow> ptr \<Rightarrow> u32 \<Rightarrow> vm_state \<Rightarrow> (bool \<times> vm_state) result" where
  "copy_in ptable copyout v addr sz s =
     (if sz = 0 then Inr (True, s)
      else if v = 0 \<or> addr = 0 then Inr (False, s)
      else if va_offset v \<noteq> 0
      then (let csize0 = page_size - va_offset v;
                csize = (if sz < csize0 then sz else csize0)
            in bind_result (get_phys_address ptable v s) (\<lambda>dptr.
                 if dptr = 0 then Inr (False, s)
                 else (let s1 = copy_dir copyout (unat csize) dptr addr s;
                           rest = sz - csize
                       in if rest = 0 then Inr (True, s1)
                          else case next_page (v - va_offset v) of
                                 None \<Rightarrow> Inr (False, s1)
                               | Some v' \<Rightarrow> copy_whole ptable copyout v' (addr + csize) rest s1)))
      else copy_whole ptable copyout v addr sz s)"

definition copy_out :: "ptr \<Rightarrow> ptr \<Rightarrow> u32 \<Rightarrow> u32 \<Rightarrow> vm_state \<Rightarrow> (bool \<times> vm_state) result" where
  "copy_out ptable addr v sz s = copy_in ptable True v addr sz s"

section \<open>Translation reads what mapping wrote\<close>

lemma presence_mapped: "presence (mapped_entry a e)"
  by (simp add: presence_def mapped_entry_def bit_put_frame bit_put_bit)

lemma address_mapped: "mapped_entry a e AND 0xFFFFF000 = entry_address a"
  unfolding entry_address_def [symmetric] mapped_entry_def by (rule entry_address_put_frame)

lemma table_entry_fields:
  "presence (table_entry p)" "\<not> page_size_flag (table_entry p)"
  "entry_address (table_entry p) = entry_address p"
  unfolding table_entry_def
  by (simp_all add: presence_def page_size_flag_def bit_put_bit entry_address_put_bit)

lemma table_at_Inr: "table_at s p = Inr t \<longleftrightarrow> p \<noteq> 0 \<and> page_tables s p = Some t"
  by (auto simp: table_at_def split: option.splits)

lemma need_table_entry:
  assumes "need_table areas pt d s = Inr (Some T, s1)"
  obtains dir where "table_at s1 pt = Inr dir" "presence (dir d)" "\<not> page_size_flag (dir d)"
    "entry_address (dir d) = T"
proof -
  from assms obtain dir where dir: "table_at s pt = Inr dir"
    by (auto simp: need_table_def bind_result_Inr_iff)
  show ?thesis
  proof (cases "presence (dir d)")
    case True
    with assms dir that show ?thesis by (auto simp: need_table_def split: if_splits)
  next
    case False
    obtain p s0 where c: "create_page_table areas s = (p, s0)" by (cases "create_page_table areas s")
    have "\<exists>dir0. table_at s0 pt = Inr dir0"
      using c dir by (auto simp: create_page_table_def kmalloc_page_def kmalloc_init_def Let_def
          table_at_Inr split: prod.splits if_splits)
    then obtain dir0 where "table_at s0 pt = Inr dir0" ..
    moreover have "T = entry_address p" "s1 = set_entry pt d (table_entry p) s0"
      using assms dir False c by (auto simp: need_table_def table_entry_fields Let_def)
    ultimately show ?thesis
      using that [of "dir0(d := table_entry p)"] by (simp add: table_at_set_entry table_entry_fields)
  qed
qed

lemma take_slots_run:
  "0 < n \<Longrightarrow> p + n \<le> 1024 \<Longrightarrow> \<forall>i < n. \<not> presence (t (p + i)) \<Longrightarrow>
   take_slots t T [p..<1024] (n, us) = Some (0, us @ map (Pair T) [p..<p + n])"
proof (induction n arbitrary: p us)
  case 0
  then show ?case by simp
next
  case (Suc n)
  have p: "[p..<1024] = p # [Suc p..<1024]" using Suc.prems by (simp add: upt_conv_Cons)
  have np: "\<not> presence (t p)" using Suc.prems(3) by force
  show ?case
  proof (cases n)
    case 0
    with p np show ?thesis by simp
  next
    case (Suc m)
    have "\<forall>i < n. \<not> presence (t (Suc p + i))" using Suc.prems(3) by force
    then have "take_slots t T [Suc p..<1024] (n, us @ [(T, p)])
        = Some (0, (us @ [(T, p)]) @ map (Pair T) [Suc p..<Suc p + n])"
      using Suc.IH [of "Suc p" "us @ [(T, p)]"] Suc.prems Suc by simp
    moreover have "[p..<p + Suc n] = p # [Suc p..<Suc p + n]" by (simp add: upt_conv_Cons)
    ultimately show ?thesis using p np Suc by simp
  qed
qed

definition map_run :: "nat \<Rightarrow> ptr list \<Rightarrow> page_table \<Rightarrow> page_table" where
  "map_run p as t = (\<lambda>i. if p \<le> i \<and> i < p + length as then mapped_entry (as ! (i - p)) (t i) else t i)"

lemma map_run_Cons: "map_run p (a # as) t = map_run (Suc p) as (t(p := mapped_entry a (t p)))"
  by (auto simp: map_run_def fun_eq_iff nth_Cons' Suc_le_eq)

lemma map_slots_run:
  "T \<noteq> 0 \<Longrightarrow> page_tables s T = Some t \<Longrightarrow>
   map_slots (map (Pair T) [p..<p + length as]) as s
     = Inr (s\<lparr>page_tables := (page_tables s)(T \<mapsto> map_run p as t)\<rparr>)"
proof (induction as arbitrary: p t s)
  case Nil
  have "map_run p [] t = t" by (auto simp: map_run_def fun_eq_iff)
  moreover have "(page_tables s)(T \<mapsto> t) = page_tables s" using Nil by (simp add: fun_upd_idem)
  ultimately show ?case by simp
next
  case (Cons a as)
  let ?t = "t(p := mapped_entry a (t p))"
  let ?s = "s\<lparr>page_tables := (page_tables s)(T \<mapsto> ?t)\<rparr>"
  have up: "[p..<p + length (a # as)] = p # [Suc p..<Suc p + length as]"
    by (subst upt_conv_Cons) simp_all
  have "map_slots (map (Pair T) (p # xs)) (a # as) s = map_slots (map (Pair T) xs) as ?s" for xs
    using Cons.prems by (simp add: table_at_def set_entry_def)
  moreover have "map_slots (map (Pair T) [Suc p..<Suc p + length as]) as ?s
      = Inr (?s\<lparr>page_tables := (page_tables ?s)(T \<mapsto> map_run (Suc p) as ?t)\<rparr>)"
    by (rule Cons.IH [where t = ?t]) (use Cons.prems in \<open>simp_all del: fun_upd_apply add: fun_upd_same\<close>)
  ultimately show ?case unfolding up map_run_Cons by (simp del: fun_upd_apply)
qed

lemma get_phys_small:
  assumes "table_at s pt = Inr dir" "presence (dir (va_dir v))" "\<not> page_size_flag (dir (va_dir v))"
    "table_at s (entry_address (dir (va_dir v))) = Inr t"
  shows "get_phys_address pt v s =
    Inr (if presence (t (va_page v)) then (t (va_page v) AND 0xFFFFF000) OR va_offset v else 0)"
  using assms by (simp add: get_phys_address_def Let_def)

lemma add_run:
  assumes nt: "need_table areas pt (va_dir v) s = Inr (Some T, s1)"
    and T: "page_tables s1 T = Some t" "T \<noteq> 0" "T \<noteq> pt" and v: "v \<noteq> 0" "as \<noteq> []"
    and room: "va_page v + length as \<le> 1024" "\<forall>i < length as. \<not> presence (t (va_page v + i))"
  shows "add_virtual_memory areas pt as v s
    = Inr (v, s1\<lparr>page_tables := (page_tables s1)(T \<mapsto> map_run (va_page v) as t)\<rparr>)"
proof -
  let ?n = "length as" and ?d = "va_dir v" and ?p = "va_page v"
  have tT: "table_at s1 T = Inr t" using T by (simp add: table_at_def)
  have "take_slots t T [?p..<1024] (?n, []) = Some (0, map (Pair T) [?p..<?p + ?n])"
    using take_slots_run [of ?n ?p t T "[]"] room v(2) by simp
  moreover have "[?d..<1024] = ?d # [Suc ?d..<1024]" using va_dir_lt by (simp add: upt_conv_Cons)
  ultimately have "walk_dirs areas pt ?p [?d..<1024] (?n, []) s
      = Inr (Some (map (Pair T) [?p..<?p + ?n]), s1)"
    using nt tT by simp
  then show ?thesis
    using v map_slots_run [of T s1 t ?p as] T by (simp add: add_virtual_memory_def)
qed

lemma add_translate:
  assumes nt: "need_table areas pt (va_dir v) s = Inr (Some T, s1)"
    and T: "page_tables s1 T = Some t" "T \<noteq> 0" "T \<noteq> pt" and v: "v \<noteq> 0" "as \<noteq> []"
    and room: "va_page v + length as \<le> 1024" "\<forall>i < length as. \<not> presence (t (va_page v + i))"
  shows "\<exists>s2. add_virtual_memory areas pt as v s = Inr (v, s2)
    \<and> (\<forall>w i. va_dir w = va_dir v \<and> va_page w = va_page v + i \<and> i < length as \<longrightarrow>
         get_phys_address pt w s2 = Inr (entry_address (as ! i) OR va_offset w))
    \<and> (\<forall>w. va_dir w = va_dir v \<and> \<not> (va_page v \<le> va_page w \<and> va_page w < va_page v + length as) \<longrightarrow>
         get_phys_address pt w s2 = get_phys_address pt w s1)"
proof -
  let ?n = "length as" and ?d = "va_dir v" and ?p = "va_page v"
  let ?s2 = "s1\<lparr>page_tables := (page_tables s1)(T \<mapsto> map_run ?p as t)\<rparr>"
  have add: "add_virtual_memory areas pt as v s = Inr (v, ?s2)" by (rule add_run [OF assms])
  have tT: "table_at s1 T = Inr t" using T by (simp add: table_at_def)
  obtain dir where dir: "table_at s1 pt = Inr dir" "presence (dir ?d)" "\<not> page_size_flag (dir ?d)"
    "entry_address (dir ?d) = T"
    using nt by (rule need_table_entry)
  have dir2: "table_at ?s2 pt = Inr dir" using dir(1) T(3) by (simp add: table_at_Inr)
  have T2: "table_at ?s2 T = Inr (map_run ?p as t)" using T(2) by (simp add: table_at_def)
  have "get_phys_address pt w ?s2 = Inr (entry_address (as ! i) OR va_offset w)"
    if "va_dir w = ?d \<and> va_page w = ?p + i \<and> i < ?n" for w i
  proof -
    have "get_phys_address pt w ?s2 = Inr (if presence (map_run ?p as t (va_page w))
        then (map_run ?p as t (va_page w) AND 0xFFFFF000) OR va_offset w else 0)"
      by (rule get_phys_small [OF dir2]) (use that dir T2 in simp_all)
    then show ?thesis using that by (simp add: map_run_def presence_mapped address_mapped)
  qed
  moreover have "get_phys_address pt w ?s2 = get_phys_address pt w s1"
    if "va_dir w = ?d \<and> \<not> (?p \<le> va_page w \<and> va_page w < ?p + ?n)" for w
  proof -
    have "map_run ?p as t (va_page w) = t (va_page w)" using that by (simp only: map_run_def if_False)
    moreover have "get_phys_address pt w s1 =
        Inr (if presence (t (va_page w)) then (t (va_page w) AND 0xFFFFF000) OR va_offset w else 0)"
      by (rule get_phys_small [OF dir(1)]) (use that dir tT in simp_all)
    moreover have "get_phys_address pt w ?s2 = Inr (if presence (map_run ?p as t (va_page w))
        then (map_run ?p as t (va_page w) AND 0xFFFFF000) OR va_offset w else 0)"
      by (rule get_phys_small [OF dir2]) (use that dir T2 in simp_all)
    ultimately show ?thesis by simp
  qed
  ultimately show ?thesis using add by blast
qed

text \<open>C28: mapping at a given address. When the pages fit into one page table whose
  entries are free, add_virtual_memory maps them in order and returns the address:
  translating any address in the \<open>i\<close>-th page gives the \<open>i\<close>-th physical page with the
  same offset, and the rest of that page table translates as before. The table is found
  or, if it was missing, created.\<close>

theorem add_then_translate:
  assumes nt: "need_table areas pt (va_dir v) s = Inr (Some T, s1)"
    and T: "page_tables s1 T = Some t" "T \<noteq> 0" "T \<noteq> pt" and v: "v \<noteq> 0" "as \<noteq> []"
    and room: "va_page v + length as \<le> 1024" "\<forall>i < length as. \<not> presence (t (va_page v + i))"
  shows "\<exists>s2. add_virtual_memory areas pt as v s = Inr (v, s2)
    \<and> (\<forall>w i. va_dir w = va_dir v \<and> va_page w = va_page v + i \<and> i < length as \<longrightarrow>
         get_phys_address pt w s2 = Inr (entry_address (as ! i) OR va_offset w))
    \<and> (\<forall>w. va_dir w = va_dir v \<and> \<not> (va_page v \<le> va_page w \<and> va_page w < va_page v + length as) \<longrightarrow>
         get_phys_address pt w s2 = get_phys_address pt w s1)"
  by (rule add_translate [OF assms])

text \<open>Removal undoes a mapping. A page that is mapped through a page table is
  unmapped exactly once: afterwards the address translates to null and a second removal
  is refused, and other entries of the table translate as before.\<close>

theorem remove_unmaps:
  assumes dir: "table_at s pt = Inr dir" "presence (dir (va_dir v))" "\<not> page_size_flag (dir (va_dir v))"
    and tab: "table_at s (entry_address (dir (va_dir v))) = Inr t" "presence (t (va_page v))"
    and ne: "entry_address (dir (va_dir v)) \<noteq> pt"
  shows "\<exists>s'. remove_virtual_memory pt v s = Inr (True, s') \<and> get_phys_address pt v s' = Inr 0
    \<and> remove_virtual_memory pt v s' = Inr (False, s')
    \<and> (\<forall>w. va_dir w = va_dir v \<and> va_page w \<noteq> va_page v \<longrightarrow>
         get_phys_address pt w s' = get_phys_address pt w s)"
proof -
  let ?T = "entry_address (dir (va_dir v))" and ?e = "put_bit 0 False (t (va_page v))"
  let ?s = "set_entry ?T (va_page v) ?e s"
  have rm: "remove_virtual_memory pt v s = Inr (True, ?s)"
    using dir tab by (simp add: remove_virtual_memory_def Let_def)
  have np: "\<not> presence ?e" by (simp add: presence_def bit_put_bit)
  have dir2: "table_at ?s pt = Inr dir" using dir(1) ne by (simp add: table_at_set_entry)
  have tab2: "table_at ?s ?T = Inr (t(va_page v := ?e))" using tab(1) by (simp add: table_at_set_entry)
  have "get_phys_address pt v ?s = Inr 0"
    using get_phys_small [OF dir2 dir(2,3) tab2] np by simp
  moreover have "remove_virtual_memory pt v ?s = Inr (False, ?s)"
    using dir2 dir(2,3) tab2 np by (simp add: remove_virtual_memory_def Let_def)
  moreover have "get_phys_address pt w ?s = get_phys_address pt w s"
    if w: "va_dir w = va_dir v" "va_page w \<noteq> va_page v" for w
  proof -
    have 1: "get_phys_address pt w ?s = Inr (if presence ((t(va_page v := ?e)) (va_page w))
        then ((t(va_page v := ?e)) (va_page w) AND 0xFFFFF000) OR va_offset w else 0)"
      by (rule get_phys_small [OF dir2]) (use w dir tab2 in \<open>simp_all del: fun_upd_apply\<close>)
    have 2: "get_phys_address pt w s =
        Inr (if presence (t (va_page w)) then (t (va_page w) AND 0xFFFFF000) OR va_offset w else 0)"
      by (rule get_phys_small [OF dir(1)]) (use w dir tab in simp_all)
    show ?thesis unfolding 1 2 using w(2) by simp
  qed
  ultimately show ?thesis using rm by blast
qed

section \<open>The kernel mapping of a new process\<close>

lemma bit_direct_entry:
  "presence (direct_entry d)" "page_size_flag (direct_entry d)" "direct_mapped (direct_entry d)"
  "22 \<le> k \<Longrightarrow> bit (direct_entry d) k \<longleftrightarrow> bit (va_make d 0 0) k"
  by (simp_all add: direct_entry_def presence_def page_size_flag_def direct_mapped_def bit_put_bit)

lemma direct_entry_identity: "(direct_entry (va_dir v) AND 0xFFC00000) OR (v AND 0x003FFFFF) = v"
proof (rule bit_word_eqI)
  fix k assume k: "k < LENGTH(32)"
  have d: "(of_nat (va_dir v) :: u32) = drop_bit 22 v" by (simp add: va_dir_def)
  have "bit (va_make (va_dir v) 0 0) k \<longleftrightarrow> bit v k" if "22 \<le> k"
    using that k unfolding va_make_def d by (simp add: bit_simps)
  then show "bit ((direct_entry (va_dir v) AND 0xFFC00000) OR (v AND 0x003FFFFF)) k \<longleftrightarrow> bit v k"
    unfolding mask_words using k bit_direct_entry(4) [of k "va_dir v"] by (auto simp: bit_simps)
qed

lemma get_phys_4m:
  assumes "table_at s pt = Inr dir" "dir (va_dir v) = direct_entry (va_dir v)"
  shows "get_phys_address pt v s = Inr v"
  using assms bit_direct_entry direct_entry_identity by (simp add: get_phys_address_def Let_def)

text \<open>The address space of a new process. The first 128 MiB are mapped one to one,
  everything above translates to null, and nothing of it can be unmapped. The shared
  mapping is the static one or, for the first process, a new one; the two pages the
  allocator returned must differ.\<close>

theorem process_new_space:
  assumes "process_new areas dm s = Inr (pt, dm', s')" and "pt \<noteq> dm'"
    and "dm \<noteq> 0 \<Longrightarrow> page_tables s dm = Some direct_entry"
  shows "get_phys_address pt v s' = Inr (if va_dir v < 32 then v else 0)
    \<and> remove_virtual_memory pt v s' = Inr (False, s') \<and> page_tables s' dm' = Some direct_entry"
proof -
  obtain p s1 where c: "create_page_directory_table areas s = (p, s1)"
    by (cases "create_page_directory_table areas s")
  from assms(1) c obtain s2 d t where mk: "make_direct_mapping areas dm s1 = Inr (dm', s2)"
    and d: "table_at s2 dm' = Inr d" and t: "table_at s2 p = Inr t" and p: "p = pt"
    and s': "s' = s2\<lparr>page_tables := (page_tables s2)(pt \<mapsto> (\<lambda>i. if i < 32 then d i else t i))\<rparr>"
    by (auto simp: process_new_def bind_result_Inr_iff split: prod.splits)
  have pt0: "pt \<noteq> 0" using t p by (simp add: table_at_Inr)
  have pts1: "page_tables s1 = (page_tables s)(pt \<mapsto> (\<lambda>_. empty_entry))"
    using c pt0 p by (auto simp: create_page_directory_table_def kmalloc_page_def kmalloc_init_def
        Let_def split: prod.splits if_splits)
  have tabs: "d = direct_entry \<and> t = (\<lambda>_. empty_entry)"
  proof (cases "dm = 0")
    case True
    obtain q s1' where c2: "create_page_directory_table areas s1 = (q, s1')"
      by (cases "create_page_directory_table areas s1")
    with mk True have q: "q = dm'" "q \<noteq> 0"
        "s2 = s1'\<lparr>page_tables := (page_tables s1')(dm' \<mapsto> direct_entry)\<rparr>"
      by (auto simp: make_direct_mapping_def bind_result_Inr_iff table_at_Inr)
    then have "page_tables s1' = (page_tables s1)(dm' \<mapsto> (\<lambda>_. empty_entry))"
      using c2 by (auto simp: create_page_directory_table_def kmalloc_page_def kmalloc_init_def
          Let_def split: prod.splits if_splits)
    then show ?thesis using q d t p pts1 assms(2) by (auto simp: table_at_Inr)
  next
    case False
    then have "dm' = dm" "s2 = s1" using mk by (auto simp: make_direct_mapping_def)
    then show ?thesis using d t p pts1 assms(2) assms(3) [OF False] by (auto simp: table_at_Inr)
  qed
  let ?dir = "\<lambda>i. if i < 32 then direct_entry i else empty_entry"
  have dir: "table_at s' pt = Inr ?dir" using s' pt0 unfolding tabs [THEN conjunct1] tabs [THEN conjunct2] by (simp add: table_at_def)
  have emp: "\<not> presence empty_entry" by (simp add: presence_def empty_entry_def)
  have "get_phys_address pt v s' = Inr (if va_dir v < 32 then v else 0)"
  proof (cases "va_dir v < 32")
    case True
    then show ?thesis using get_phys_4m [OF dir] by simp
  next
    case False
    then show ?thesis using dir emp by (simp add: get_phys_address_def Let_def)
  qed
  moreover have "remove_virtual_memory pt v s' = Inr (False, s')"
    using dir emp bit_direct_entry by (simp add: remove_virtual_memory_def Let_def)
  moreover have "page_tables s' dm' = Some direct_entry"
    using s' assms(2) d tabs by (simp add: table_at_Inr)
  ultimately show ?thesis by blast
qed

section \<open>Two places where mapping goes wrong\<close>

lemma scan_present:
  "0 < need \<Longrightarrow> is \<noteq> [] \<Longrightarrow> \<forall>i \<in> set is. presence (t i) \<Longrightarrow>
   scan_table t T need is (c, us, vp) = (need, [], vp)"
proof (induction "is" arbitrary: c us)
  case Nil
  then show ?case by simp
next
  case (Cons i "is")
  then show ?case by (cases "is") (simp_all add: Let_def)
qed

lemma scan_free:
  "length is < c \<Longrightarrow> c \<le> need \<Longrightarrow> \<forall>i \<in> set is. \<not> presence (t i) \<Longrightarrow>
   scan_table t T need is (c, us, vp)
     = (c - length is, us @ map (Pair T) is, if c = need \<and> is \<noteq> [] then hd is else vp)"
proof (induction "is" arbitrary: c us vp)
  case Nil
  then show ?case by simp
next
  case (Cons i "is")
  then have "scan_table t T need is (c - 1, us @ [(T, i)], if c = need then i else vp)
      = (c - 1 - length is, (us @ [(T, i)]) @ map (Pair T) is, if c = need then i else vp)"
    by (subst Cons.IH) auto
  then show ?case using Cons.prems by (simp add: Let_def)
qed

lemma scan_done:
  "0 < c \<Longrightarrow> c \<le> length is \<Longrightarrow> c \<le> need \<Longrightarrow> \<forall>i \<in> set (take c is). \<not> presence (t i) \<Longrightarrow>
   scan_table t T need is (c, us, vp)
     = (0, us @ map (Pair T) (take c is), if c = need then hd is else vp)"
proof (induction "is" arbitrary: c us vp)
  case Nil
  then show ?case by simp
next
  case (Cons i "is")
  show ?case
  proof (cases "c = 1")
    case True
    with Cons.prems show ?thesis by (simp add: Let_def)
  next
    case False
    then obtain c' where c: "c = Suc c'" "0 < c'" using Cons.prems(1) by (cases c) auto
    with Cons.prems have "scan_table t T need is (c', us @ [(T, i)], if c = need then i else vp)
        = (0, (us @ [(T, i)]) @ map (Pair T) (take c' is), if c = need then i else vp)"
      by (subst Cons.IH) auto
    then show ?thesis using Cons.prems c by (simp add: Let_def)
  qed
qed

lemma scan_append:
  "fst st \<noteq> 0 \<Longrightarrow> scan_table t T need (is @ js) st =
    (let st' = scan_table t T need is st in if fst st' = 0 then st' else scan_table t T need js st')"
proof (induction "is" arbitrary: st)
  case Nil
  then show ?case by simp
next
  case (Cons i "is")
  obtain c us vp where st: "st = (c, us, vp)" by (cases st)
  show ?case
    unfolding st using Cons.IH
    by (auto simp: Let_def)
qed

lemma need_table_old:
  assumes "table_at s pt = Inr dir" "presence (dir d)" "\<not> page_size_flag (dir d)"
  shows "need_table areas pt d s = Inr (Some (entry_address (dir d)), s)"
  using assms by (simp add: need_table_def)

lemma map_slots_append:
  "length as = length us \<Longrightarrow> map_slots (us @ ws) (as @ bs) s
     = bind_result (map_slots us as s) (map_slots ws bs)"
proof (induction us as arbitrary: s rule: list_induct2')
  case (4 u us a as)
  obtain p i where u: "u = (p, i)" by (cases u)
  show ?case
  proof (cases "table_at s p")
    case (Inl e)
    then show ?thesis by (simp add: u)
  next
    case (Inr t)
    with 4 show ?thesis by (simp add: u)
  qed
qed auto

lemma split_1024: "k \<le> 1024 \<Longrightarrow> [0..<1024] = [0..<1024 - k] @ [1024 - k..<1024]"
  using upt_add_eq_append [of 0 "1024 - k" k] by simp

text \<open>A run of pages that spans two page tables is given the wrong address. When the
  first table of the search range has only its last \<open>k\<close> entries free and the request is
  for more, the directory index of the answer is that of the table where the run ends,
  the page index that of where it starts; nothing is mapped there.\<close>

theorem spanning_run_misplaced:
  assumes dir: "table_at s pt = Inr dir"
    and e0: "presence (dir 512)" "\<not> page_size_flag (dir 512)" "entry_address (dir 512) = T0"
    and e1: "presence (dir 513)" "\<not> page_size_flag (dir 513)" "entry_address (dir 513) = T1"
    and T0: "table_at s T0 = Inr t0" and T1: "table_at s T1 = Inr t1"
    and ne: "T0 \<noteq> T1" "T0 \<noteq> pt" "T1 \<noteq> pt"
    and k: "0 < k" "k < length as" "length as \<le> 1024"
    and full: "\<forall>i < 1024 - k. presence (t0 i)" "\<forall>i. 1024 - k \<le> i \<and> i < 1024 \<longrightarrow> \<not> presence (t0 i)"
    and free: "\<forall>i \<le> 1024 - k. \<not> presence (t1 i)"
  shows "\<exists>s'. add_virtual_memory areas pt as 0 s = Inr (va_make 513 (1024 - k) 0, s')
    \<and> get_phys_address pt (va_make 513 (1024 - k) 0) s' = Inr 0"
proof -
  let ?n = "length as" and ?v = "va_make 513 (1024 - k) 0"
  have "scan_table t0 T0 ?n [0..<1024 - k] (?n, [], 0) = (?n, [], 0)"
    using full(1) k by (intro scan_present) auto
  moreover have "scan_table t0 T0 ?n [1024 - k..<1024] (?n, [], 0)
      = (?n - k, map (Pair T0) [1024 - k..<1024], 1024 - k)"
    using full(2) k by (subst scan_free) auto
  moreover have ne0: "as \<noteq> []" using k by auto
  ultimately have sc0: "scan_table t0 T0 ?n [0..<1024] (?n, [], 0)
      = (?n - k, map (Pair T0) [1024 - k..<1024], 1024 - k)"
    using k ne0 by (subst split_1024 [of k]) (auto simp: scan_append Let_def)
  have sc1: "scan_table t1 T1 ?n [0..<1024] (?n - k, map (Pair T0) [1024 - k..<1024], 1024 - k)
      = (0, map (Pair T0) [1024 - k..<1024] @ map (Pair T1) [0..<?n - k], 1024 - k)"
    using free k by (subst scan_done) (auto simp: take_upt)
  have ds: "[512..<1024] = 512 # 513 # [514..<1024]" by (simp add: upt_conv_Cons)
  have sd: "search_dirs areas pt ?n [512..<1024] (?n, [], 0) s
      = Inr (Some (513, 1024 - k, map (Pair T0) [1024 - k..<1024] @ map (Pair T1) [0..<?n - k]), s)"
    unfolding ds using need_table_old [OF dir e0(1,2)] need_table_old [OF dir e1(1,2)] e0(3) e1(3)
      T0 T1 sc0 sc1 k by simp
  let ?s1 = "s\<lparr>page_tables := (page_tables s)(T0 \<mapsto> map_run (1024 - k) (take k as) t0)\<rparr>"
  let ?s2 = "?s1\<lparr>page_tables := (page_tables ?s1)(T1 \<mapsto> map_run 0 (drop k as) t1)\<rparr>"
  have m0: "map_slots (map (Pair T0) [1024 - k..<1024]) (take k as) s = Inr ?s1"
    using map_slots_run [of T0 s t0 "1024 - k" "take k as"] T0 k by (simp add: table_at_Inr)
  have m1: "map_slots (map (Pair T1) [0..<?n - k]) (drop k as) ?s1 = Inr ?s2"
    using map_slots_run [of T1 ?s1 t1 0 "drop k as"] T1 ne by (simp add: table_at_Inr)
  have "map_slots (map (Pair T0) [1024 - k..<1024] @ map (Pair T1) [0..<?n - k]) (take k as @ drop k as) s
      = Inr ?s2"
    using k m0 m1 by (subst map_slots_append) simp_all
  then have add: "add_virtual_memory areas pt as 0 s = Inr (?v, ?s2)"
    using k ne0 by (simp add: add_virtual_memory_def sd del: upt_rec_numeral)
  have v: "va_dir ?v = 513" "va_page ?v = 1024 - k"
    using k by (simp_all add: va_make_fields)
  have dir2: "table_at ?s2 pt = Inr dir" using dir ne by (simp add: table_at_Inr)
  have T2: "table_at ?s2 T1 = Inr (map_run 0 (drop k as) t1)" using T1 by (simp add: table_at_Inr)
  have "\<not> 1024 - k < length as - k" using k by linarith
  then have "\<not> presence (map_run 0 (drop k as) t1 (1024 - k))" using free k by (simp add: map_run_def)
  moreover have "get_phys_address pt ?v ?s2 = Inr (if presence (map_run 0 (drop k as) t1 (va_page ?v))
      then (map_run 0 (drop k as) t1 (va_page ?v) AND 0xFFFFF000) OR va_offset ?v else 0)"
    by (rule get_phys_small [OF dir2]) (use v e1 T2 in simp_all)
  ultimately have "get_phys_address pt ?v ?s2 = Inr 0" by (simp add: v)
  with add show ?thesis by blast
qed

lemma take_slots_part:
  "length is < c \<Longrightarrow> \<forall>i \<in> set is. \<not> presence (t i) \<Longrightarrow>
   take_slots t T is (c, us) = Some (c - length is, us @ map (Pair T) is)"
  by (induction "is" arbitrary: c us) auto

text \<open>A request that runs off the end of the address space is reported as a success.
  At the last page table the walk stops with the pages it has; the address is returned
  although only the first \<open>1024 - page\<close> of the pages are mapped.\<close>

theorem mapping_cut_short:
  assumes dir: "table_at s pt = Inr dir" and v: "va_dir v = 1023" "v \<noteq> 0"
    and e: "presence (dir 1023)" "\<not> page_size_flag (dir 1023)" "entry_address (dir 1023) = T"
    and T: "table_at s T = Inr t"
    and free: "\<forall>i. va_page v \<le> i \<and> i < 1024 \<longrightarrow> \<not> presence (t i)"
    and many: "1024 - va_page v < length as"
  shows "add_virtual_memory areas pt as v s = Inr (v, s\<lparr>page_tables := (page_tables s)
      (T \<mapsto> map_run (va_page v) (take (1024 - va_page v) as) t)\<rparr>)"
proof -
  let ?p = "va_page v"
  have p: "?p < 1024" by (rule va_page_lt)
  have "take_slots t T [?p..<1024] (length as, []) = Some (length as - (1024 - ?p), map (Pair T) [?p..<1024])"
    using free many by (subst take_slots_part) auto
  moreover have "[va_dir v..<1024] = [1023]" by (simp add: v(1))
  ultimately have walk: "walk_dirs areas pt ?p [va_dir v..<1024] (length as, []) s
      = Inr (Some (map (Pair T) [?p..<1024]), s)"
    using need_table_old [OF dir e(1,2)] e(3) T many by simp
  have "map_slots (map (Pair T) [?p..<1024] @ []) (take (1024 - ?p) as @ drop (1024 - ?p) as) s
      = bind_result (map_slots (map (Pair T) [?p..<1024]) (take (1024 - ?p) as) s)
          (map_slots [] (drop (1024 - ?p) as))"
    using many by (intro map_slots_append) simp
  moreover have "map_slots (map (Pair T) [?p..<?p + length (take (1024 - ?p) as)]) (take (1024 - ?p) as) s
      = Inr (s\<lparr>page_tables := (page_tables s)(T \<mapsto> map_run ?p (take (1024 - ?p) as) t)\<rparr>)"
    by (rule map_slots_run) (use T in \<open>auto simp: table_at_Inr\<close>)
  moreover have "?p + length (take (1024 - ?p) as) = 1024" using many p by simp
  ultimately have "map_slots (map (Pair T) [?p..<1024]) as s
      = Inr (s\<lparr>page_tables := (page_tables s)(T \<mapsto> map_run ?p (take (1024 - ?p) as) t)\<rparr>)"
    by simp
  moreover have "as \<noteq> []" using many by auto
  ultimately show ?thesis using walk v(2) by (simp add: add_virtual_memory_def)
qed

section \<open>Examples\<close>

text \<open>A directory with two page tables; the first one has only its last entry free.\<close>

definition vm_sample :: vm_state where
  "vm_sample = \<lparr>vm_mem = pool_sample,
     page_tables = [0x1000 \<mapsto> (\<lambda>i. if i = 512 then table_entry 0x2000 else if i = 513 then table_entry 0x3000
                               else if i = 1023 then table_entry 0x4000 else 0),
                    0x2000 \<mapsto> (\<lambda>i. if i = 1023 then 0 else 1), 0x3000 \<mapsto> (\<lambda>_. 0), 0x4000 \<mapsto> (\<lambda>_. 0),
                    0x5000 \<mapsto> direct_entry],
     vm_ram = (\<lambda>_. 0)\<rparr>"

definition dir_sample :: page_table where
  "dir_sample = (\<lambda>i. if i = 512 then table_entry 0x2000 else if i = 513 then table_entry 0x3000
                               else if i = 1023 then table_entry 0x4000 else 0)"

lemma vm_sample_tables:
  "table_at vm_sample 0x1000 = Inr dir_sample"
  "table_at vm_sample 0x2000 = Inr (\<lambda>i. if i = 1023 then 0 else 1)"
  "table_at vm_sample 0x3000 = Inr (\<lambda>_. 0)" "table_at vm_sample 0x4000 = Inr (\<lambda>_. 0)"
  by (simp_all add: vm_sample_def table_at_def dir_sample_def)

lemma dir_sample_entries:
  "dir_sample 512 = table_entry 0x2000" "dir_sample 513 = table_entry 0x3000"
  "dir_sample 1023 = table_entry 0x4000"
  by (simp_all add: dir_sample_def)

lemma aligned_samples:
  "entry_address 0x2000 = 0x2000" "entry_address 0x3000 = 0x3000" "entry_address 0x4000 = 0x4000"
  by (simp_all add: entry_address_def)

lemma presence_bits: "\<not> presence 0" "presence 1"
  by (simp_all add: presence_def)

theorem add_then_translate_witness:
  "\<exists>s2. add_virtual_memory [] 0x1000 [0x7000, 0x9000] 0x80400000 vm_sample = Inr (0x80400000, s2)
     \<and> get_phys_address 0x1000 0x80401234 s2 = Inr 0x9234"
proof -
  let ?v = "0x80400000 :: u32" and ?w = "0x80401234 :: u32"
  have v: "va_dir ?v = 513" "va_page ?v = 0" "va_dir ?w = 513" "va_page ?w = 1" "va_offset ?w = 0x234"
    by (simp_all add: va_dir_def va_page_def va_offset_def)
  have nt: "need_table [] 0x1000 (va_dir ?v) vm_sample = Inr (Some 0x3000, vm_sample)"
    using need_table_old [OF vm_sample_tables(1), of 513]
    by (simp add: v dir_sample_entries table_entry_fields aligned_samples)
  have T: "page_tables vm_sample 0x3000 = Some (\<lambda>_. 0)" by (simp add: vm_sample_def)
  from add_then_translate [OF nt T, of "[0x7000, 0x9000]"] obtain s2 where
    "add_virtual_memory [] 0x1000 [0x7000, 0x9000] ?v vm_sample = Inr (?v, s2)"
    "\<forall>w i. va_dir w = va_dir ?v \<and> va_page w = va_page ?v + i \<and> i < length [0x7000, 0x9000 :: ptr] \<longrightarrow>
       get_phys_address 0x1000 w s2 = Inr (entry_address ([0x7000, 0x9000] ! i) OR va_offset w)"
    by (auto simp: v presence_bits)
  moreover from this(2) [rule_format, of ?w 1] have "get_phys_address 0x1000 ?w s2 = Inr 0x9234"
    by (simp add: v entry_address_def)
  ultimately show ?thesis by blast
qed

theorem remove_unmaps_witness:
  "\<exists>s'. remove_virtual_memory 0x1000 0x80000000 vm_sample = Inr (True, s')
     \<and> get_phys_address 0x1000 0x80000000 s' = Inr 0"
proof -
  have v: "va_dir 0x80000000 = 512" "va_page 0x80000000 = 0"
    by (simp_all add: va_dir_def va_page_def)
  from remove_unmaps [OF vm_sample_tables(1), of "0x80000000" "\<lambda>i. if i = 1023 then 0 else 1"]
  show ?thesis
    using vm_sample_tables(2)
    by (auto simp: v dir_sample_entries table_entry_fields aligned_samples presence_bits)
qed

theorem process_new_space_witness:
  "\<exists>pt s'. process_new [] 0x5000 vm_sample = Inr (pt, 0x5000, s')
     \<and> get_phys_address pt 0x00123456 s' = Inr 0x00123456 \<and> get_phys_address pt 0x90000000 s' = Inr 0"
proof -
  obtain p m where pa: "page_alloc 0x1000 True pool_sample = (p, m)" by (metis surj_pair)
  have "top_free (page_bm pool_sample) (Suc (Suc (Suc 0))) = 1" using pool_sample_bits by simp
  then have "top_page pool_sample = 1" by (simp add: top_page_def pool_sample_addr numeral_3_eq_3)
  then have p: "p = 0x11000" using page_alloc_inv [OF pool_sample_inv pa] by (simp add: pool_sample_addr)
  have init: "is_initialized pool_sample" by (simp add: pool_sample_def)
  have cp: "create_page_directory_table [] vm_sample = (0x11000, vm_sample\<lparr>vm_mem := m,
      page_tables := (page_tables vm_sample)(0x11000 \<mapsto> (\<lambda>_. empty_entry))\<rparr>)"
    using pa p init by (simp add: create_page_directory_table_def kmalloc_page_def kmalloc_init_def
        malloc_page_def page_malloc_def page_size_def vm_sample_def)
  obtain s' where pn: "process_new [] 0x5000 vm_sample = Inr (0x11000, 0x5000, s')"
    using cp by (simp add: process_new_def make_direct_mapping_def table_at_def vm_sample_def)
  have d: "va_dir 0x00123456 = 0" "va_dir 0x90000000 = 576" by (simp_all add: va_dir_def)
  have "(0x11000 :: ptr) \<noteq> 0x5000" by simp
  from process_new_space [OF pn this, of "0x00123456"] process_new_space [OF pn this, of "0x90000000"]
  show ?thesis using pn d by (auto simp: vm_sample_def)
qed

theorem spanning_run_misplaced_witness:
  "\<exists>s'. add_virtual_memory [] 0x1000 [0x7000, 0x9000] 0 vm_sample = Inr (va_make 513 1023 0, s')
    \<and> get_phys_address 0x1000 (va_make 513 1023 0) s' = Inr 0"
  using spanning_run_misplaced [OF vm_sample_tables(1) _ _ _ _ _ _ vm_sample_tables(2,3),
      where k = 1 and as = "[0x7000, 0x9000]" and areas = "[]"]
  by (simp add: dir_sample_entries table_entry_fields aligned_samples presence_bits)

theorem mapping_cut_short_witness:
  "\<exists>s'. add_virtual_memory [] 0x1000 [0x7000, 0x9000] 0xFFFFF000 vm_sample = Inr (0xFFFFF000, s')"
proof -
  have v: "va_dir 0xFFFFF000 = 1023" "va_page 0xFFFFF000 = 1023"
    by (simp_all add: va_dir_def va_page_def)
  show ?thesis
    using mapping_cut_short [OF vm_sample_tables(1) v(1), of "0x4000" "\<lambda>_. 0" "[0x7000, 0x9000]" "[]"]
    by (simp add: v dir_sample_entries table_entry_fields aligned_samples presence_bits vm_sample_tables)
qed

end
