(* ===== verification/Virtual_Mm.thy ===== *)
theory Virtual_Mm
  imports Process_Vm
begin

text \<open>
  The memory policy virtual_mm (kern/include/mm/policies/virtual.hpp), the functions
  kmalloc, vmalloc and kfree on top of it (kern/include/mm/kmalloc.h), and the
  operations of a process that use them: copying and resetting an address space
  (kern/arch/x86/scheduler/process.cpp).
\<close>

section \<open>Operations\<close>

text \<open>The pages of a request are taken one by one; when one is missing, those taken are freed.\<close>

fun free_pages :: "ptr list \<Rightarrow> vm_state \<Rightarrow> vm_state" where
  "free_pages [] s = s"
| "free_pages (a # as) s = free_pages as (s\<lparr>vm_mem := snd (free_page page_size a (vm_mem s))\<rparr>)"

fun alloc_pages :: "nat \<Rightarrow> ptr list \<Rightarrow> vm_state \<Rightarrow> ptr list option \<times> vm_state" where
  "alloc_pages 0 addresses s = (Some addresses, s)"
| "alloc_pages (Suc n) addresses s =
     (let (addr, m) = malloc_page page_size page_size64 False (vm_mem s);
          s1 = s\<lparr>vm_mem := m\<rparr>
      in if addr = 0 then (None, free_pages addresses s1)
         else alloc_pages n (addresses @ [addr]) s1)"

definition page_number :: "u32 \<Rightarrow> u32" where
  "page_number n = (if n mod page_size \<noteq> 0 then n div page_size + 1 else n div page_size)"

definition user_malloc ::
  "memory_area list \<Rightarrow> u32 \<Rightarrow> u32 \<Rightarrow> ptr \<Rightarrow> vm_state \<Rightarrow> (ptr \<times> vm_state) result" where
  "user_malloc areas n base proc s =
     (case alloc_pages (unat (page_number n)) [] s of
        (None, s1) \<Rightarrow> Inr (0, s1)
      | (Some addresses, s1) \<Rightarrow> add_virtual_memory areas proc addresses base s1)"

definition virtual_malloc ::
  "memory_area list \<Rightarrow> u32 \<Rightarrow> bool \<Rightarrow> bool \<Rightarrow> u32 \<Rightarrow> ptr \<Rightarrow> vm_state
   \<Rightarrow> (ptr \<times> vm_state) result option" where
  "virtual_malloc areas n is_krn aligned base proc s =
     (if is_krn
      then map_option (\<lambda>r. bind_result r (\<lambda>(p, m). Inr (p, s\<lparr>vm_mem := m\<rparr>)))
             (splitted_malloc page_size (ucast n) True aligned (vm_mem s))
      else Some (user_malloc areas n base proc s))"

definition virtual_vmalloc ::
  "memory_area list \<Rightarrow> u32 \<Rightarrow> ptr \<Rightarrow> u32 \<Rightarrow> vm_state \<Rightarrow> (ptr \<times> vm_state) result" where
  "virtual_vmalloc areas n proc base s =
     (if base = 0 then Inr (0, s) else user_malloc areas n base proc s)"

text \<open>\<open>current\<close> is the directory of the running process, none if no process runs.\<close>

definition virtual_free :: "ptr \<Rightarrow> bool \<Rightarrow> ptr option \<Rightarrow> vm_state \<Rightarrow> (bool \<times> vm_state) result" where
  "virtual_free addr is_krn current s =
     (if is_krn
      then bind_result (splitted_free page_size addr True (vm_mem s)) (\<lambda>(b, m). Inr (b, s\<lparr>vm_mem := m\<rparr>))
      else case current of
        None \<Rightarrow> Inr (False, s)
      | Some proc \<Rightarrow>
          bind_result (get_phys_address proc addr s) (\<lambda>real.
            if real = 0 then Inr (False, s)
            else (let (b, m) = free_page page_size real (vm_mem s); s1 = s\<lparr>vm_mem := m\<rparr>
                  in if \<not> b then Inr (False, s1) else remove_virtual_memory proc addr s1)))"

definition kmalloc ::
  "memory_area list \<Rightarrow> u32 \<Rightarrow> bool \<Rightarrow> bool \<Rightarrow> ptr \<Rightarrow> vm_state \<Rightarrow> (ptr \<times> vm_state) result option" where
  "kmalloc areas n is_krn aligned proc s =
     virtual_malloc areas n is_krn aligned 0 proc (kmalloc_init areas s)"

definition kfree :: "ptr \<Rightarrow> bool \<Rightarrow> ptr option \<Rightarrow> vm_state \<Rightarrow> (bool \<times> vm_state) result" where
  "kfree addr is_krn current s = virtual_free addr is_krn current s"

section \<open>Address spaces\<close>

text \<open>One page of the other process: a page at the same address, and its bytes.\<close>

definition copy_page ::
  "memory_area list \<Rightarrow> ptr \<Rightarrow> ptr \<Rightarrow> u32 \<Rightarrow> vm_state \<Rightarrow> (bool \<times> vm_state) result" where
  "copy_page areas this proc v s =
     bind_result (virtual_vmalloc areas page_size this v s) (\<lambda>(alloc, s1).
       if alloc \<noteq> v then Inr (False, s1)
       else bind_result (get_phys_address this alloc s1) (\<lambda>phys1.
              bind_result (get_phys_address proc v s1) (\<lambda>phys2.
                if phys1 = 0 \<or> phys2 = 0 then Inl Null_deref
                else Inr (True, s1\<lparr>vm_ram := copy_bytes 4096 phys1 phys2 (vm_ram s1)\<rparr>))))"

fun copy_entries ::
  "memory_area list \<Rightarrow> ptr \<Rightarrow> ptr \<Rightarrow> ptr \<Rightarrow> nat \<Rightarrow> nat list \<Rightarrow> vm_state \<Rightarrow> (bool \<times> vm_state) result" where
  "copy_entries areas this proc tbl d [] s = Inr (True, s)"
| "copy_entries areas this proc tbl d (p # ps) s =
     bind_result (table_at s tbl) (\<lambda>t.
       if presence (t p) \<and> \<not> direct_mapped (t p)
       then bind_result (copy_page areas this proc (va_make d p 0) s) (\<lambda>(b, s1).
              if b then copy_entries areas this proc tbl d ps s1 else Inr (False, s1))
       else copy_entries areas this proc tbl d ps s)"

fun copy_dirs ::
  "memory_area list \<Rightarrow> ptr \<Rightarrow> ptr \<Rightarrow> nat list \<Rightarrow> vm_state \<Rightarrow> (bool \<times> vm_state) result" where
  "copy_dirs areas this proc [] s = Inr (True, s)"
| "copy_dirs areas this proc (d # ds) s =
     bind_result (table_at s proc) (\<lambda>dir.
       if presence (dir d) \<and> direct_mapped (dir d)
       then bind_result (table_at s this) (\<lambda>_. copy_dirs areas this proc ds (set_entry this d (dir d) s))
       else if presence (dir d)
       then bind_result (copy_entries areas this proc (entry_address (dir d)) d [0..<1024] s) (\<lambda>(b, s1).
              if b then copy_dirs areas this proc ds s1 else Inr (False, s1))
       else copy_dirs areas this proc ds s)"

definition copy_address_space ::
  "memory_area list \<Rightarrow> ptr \<Rightarrow> ptr \<Rightarrow> vm_state \<Rightarrow> (bool \<times> vm_state) result" where
  "copy_address_space areas this proc s = copy_dirs areas this proc [0..<1024] s"

text \<open>
  reset_address_space looks for the pages in the directory of this process, and frees
  them with kfree, which works on the directory of the running one.
\<close>

fun reset_entries ::
  "ptr option \<Rightarrow> ptr \<Rightarrow> nat \<Rightarrow> nat list \<Rightarrow> bool \<Rightarrow> vm_state \<Rightarrow> (bool \<times> vm_state) result" where
  "reset_entries current tbl d [] success s = Inr (success, s)"
| "reset_entries current tbl d (p # ps) success s =
     bind_result (table_at s tbl) (\<lambda>t.
       if presence (t p) \<and> \<not> direct_mapped (t p)
       then bind_result (kfree (va_make d p 0) False current s) (\<lambda>(b, s1).
              reset_entries current tbl d ps (success \<and> b) s1)
       else reset_entries current tbl d ps success s)"

fun reset_dirs ::
  "ptr option \<Rightarrow> ptr \<Rightarrow> nat list \<Rightarrow> bool \<Rightarrow> vm_state \<Rightarrow> (bool \<times> vm_state) result" where
  "reset_dirs current this [] success s = Inr (success, s)"
| "reset_dirs current this (d # ds) success s =
     bind_result (table_at s this) (\<lambda>dir.
       if presence (dir d) \<and> \<not> direct_mapped (dir d)
       then bind_result (reset_entries current (entry_address (dir d)) d [0..<1024] success s) (\<lambda>(b, s1).
              reset_dirs current this ds b s1)
       else reset_dirs current this ds success s)"

definition reset_address_space :: "ptr option \<Rightarrow> ptr \<Rightarrow> vm_state \<Rightarrow> (bool \<times> vm_state) result" where
  "reset_address_space current this s = reset_dirs current this [0..<1024] True s"

section \<open>Rolling back an allocation\<close>

text \<open>Pages handed out one after the other: strictly falling numbers.\<close>

definition page_run :: "splitted \<Rightarrow> nat list \<Rightarrow> bool" where
  "page_run m js \<longleftrightarrow> sorted_wrt (>) js \<and> set js \<subseteq> used_pages m
     \<and> (\<forall>j \<in> set js. \<forall>k. j < k \<and> k < page_count m \<longrightarrow> k \<in> used_pages m)"

lemma malloc_page_user:
  "is_initialized m \<Longrightarrow> malloc_page page_size page_size64 k m = page_alloc page_size k m"
  by (simp add: malloc_page_def page_malloc_def page_size_def page_size64_def)

lemma page_run_snoc:
  assumes inv: "pages_inv ps m" and pa: "page_alloc ps k m = (p, m')" and p: "p \<noteq> 0"
    and heap: "first_address m < cur_kernel_bound m" and run: "page_run m js"
  shows "\<exists>t. p = page_addr ps m t \<and> t \<notin> used_pages m \<and> used_pages m' = insert t (used_pages m)
    \<and> pages_inv ps m' \<and> same_heap m m' \<and> page_run m' (js @ [t])"
proof -
  let ?t = "top_page m"
  note r = page_alloc_inv [OF inv pa]
  from r p have p': "p = page_addr ps m ?t" "\<not> page_addr ps m ?t < cur_kernel_bound m"
    by (auto split: if_splits)
  have "?t \<noteq> 0"
  proof
    assume "?t = 0"
    then show False using p'(2) heap by (simp add: page_addr_def)
  qed
  with r p' have u: "used_pages m' = insert ?t (used_pages m)" by simp
  have nu: "?t \<notin> used_pages m" using not_used_top [OF inv] by (simp add: used_pages_def)
  have above: "k \<in> used_pages m" if "?t < k" "k < page_count m" for k
    using top_page_max [of k m] that by auto
  have cnt: "page_count m' = page_count m" using r by (simp add: same_heap_def)
  have "?t < j" if "j \<in> set js" for j
  proof (rule ccontr)
    assume "\<not> ?t < j"
    moreover have "?t \<noteq> j" using nu that run by (auto simp: page_run_def)
    moreover have "?t < page_count m" using inv top_page_lt by (simp add: pages_inv_def)
    ultimately show False using nu that run by (auto simp: page_run_def)
  qed
  then have "page_run m' (js @ [?t])"
    using run u above cnt by (auto simp: page_run_def sorted_wrt_append)
  with r p' nu u show ?thesis by blast
qed

text \<open>
  Freeing such a run releases all of it: the page at the border, whose release moves
  the user bound, can only be the last.
\<close>

lemma free_run:
  assumes "pages_inv page_size (vm_mem s)" "sorted_wrt (>) js" "set js \<subseteq> used_pages (vm_mem s)"
  shows "used_pages (vm_mem (free_pages (map (page_addr page_size (vm_mem s)) js) s))
    = used_pages (vm_mem s) - set js"
  using assms
proof (induction js arbitrary: s)
  case Nil
  then show ?case by simp
next
  case (Cons j js)
  let ?m = "vm_mem s"
  have j: "j \<in> used_pages ?m" "j < page_count ?m"
    using Cons.prems(3) by (auto simp: used_pages_def)
  let ?a = "page_addr page_size ?m j"
  obtain b m' where pf: "page_free page_size ?a ?m = (b, m')" by (metis surj_pair)
  from Cons.prems(1) have I: "is_initialized ?m" "cur_user_bound ?m \<le> ?a" "?a \<le> last_address ?m"
    using j page_addr_mono [of page_size ?m j "page_count ?m"] page_addr_last [of page_size ?m]
    by (auto simp: pages_inv_def)
  then have fp: "free_page page_size ?a ?m = (b, m')" using pf by (simp add: free_page_def)
  note eq = page_free_eq [OF Cons.prems(1) j(2)]
  have m': "m' = ?m\<lparr>page_bm := bm_set_free True (of_nat j) (page_bm ?m),
             cur_user_bound := (if ?a = cur_user_bound ?m then last_address ?m else cur_user_bound ?m)\<rparr>"
    using pf j(1) by (simp add: eq)
  have us: "used_pages m' = used_pages ?m - {j}"
    by (rule used_pages_free [OF Cons.prems(1) j(2)]) (simp add: m')
  have pa: "page_addr page_size m' = page_addr page_size ?m"
    by (rule page_addr_same) (simp add: m')
  show ?case
  proof (cases js)
    case Nil
    then show ?thesis using fp us by simp
  next
    case (Cons i ks)
    have i: "i \<in> used_pages ?m" "i < j" using Cons.prems(2,3) Cons by auto
    have "unat (page_addr page_size ?m i) < unat ?a"
      using i j Cons.prems(1) by (simp add: unat_page_addr used_pages_def pages_inv_def)
    moreover have "cur_user_bound ?m \<le> page_addr page_size ?m i"
      using i Cons.prems(1) by (auto simp: pages_inv_def)
    ultimately have "?a \<noteq> cur_user_bound ?m" by (auto simp: word_le_nat_alt)
    then have inv': "pages_inv page_size m'"
      using Cons.prems(1) m' us pa by (auto simp: pages_inv_def)
    have "used_pages (vm_mem (free_pages (map (page_addr page_size m') js) (s\<lparr>vm_mem := m'\<rparr>)))
        = used_pages m' - set js"
      using Cons.IH [of "s\<lparr>vm_mem := m'\<rparr>"] inv' Cons.prems(2,3) us by auto
    then show ?thesis using fp us pa by auto
  qed
qed

lemma alloc_pages_run:
  assumes "pages_inv page_size (vm_mem s)" "first_address (vm_mem s) < cur_kernel_bound (vm_mem s)"
    and "page_run (vm_mem s) js" and "alloc_pages n (map (page_addr page_size (vm_mem s)) js) s = (r, s')"
  shows "(r = None \<longrightarrow> used_pages (vm_mem s') = used_pages (vm_mem s) - set js)
    \<and> (\<forall>as. r = Some as \<longrightarrow> (\<exists>ts. as = map (page_addr page_size (vm_mem s)) (js @ ts) \<and> length ts = n
         \<and> used_pages (vm_mem s') = used_pages (vm_mem s) \<union> set ts
         \<and> set ts \<inter> used_pages (vm_mem s) = {} \<and> page_run (vm_mem s') (js @ ts)
         \<and> pages_inv page_size (vm_mem s') \<and> same_heap (vm_mem s) (vm_mem s')
         \<and> page_tables s' = page_tables s \<and> vm_ram s' = vm_ram s))"
  using assms
proof (induction n arbitrary: js s)
  case 0
  then show ?case by (auto simp: same_heap_def)
next
  case (Suc n)
  let ?m = "vm_mem s"
  obtain p m' where pa: "page_alloc page_size False ?m = (p, m')" by (metis surj_pair)
  have mp: "malloc_page page_size page_size64 False ?m = (p, m')"
    using Suc.prems(1) pa by (simp add: malloc_page_user pages_inv_def)
  show ?case
  proof (cases "p = 0")
    case True
    have r: "used_pages m' = used_pages ?m" "pages_inv page_size m'" "same_heap ?m m'"
      using page_alloc_inv [OF Suc.prems(1) pa] True
        page_addr_nonzero [OF Suc.prems(1), of "top_page ?m"] top_page_lt [of ?m] Suc.prems(1)
      by (auto simp: pages_inv_def split: if_splits)
    have "page_addr page_size m' = page_addr page_size ?m"
      using r(3) by (intro page_addr_same) (simp add: same_heap_def)
    moreover have "r = None" "s' = free_pages (map (page_addr page_size ?m) js) (s\<lparr>vm_mem := m'\<rparr>)"
      using Suc.prems(4) mp True by auto
    ultimately show ?thesis
      using free_run [of "s\<lparr>vm_mem := m'\<rparr>" js] r Suc.prems(3) by (simp add: page_run_def)
  next
    case False
    from page_run_snoc [OF Suc.prems(1) pa False Suc.prems(2,3)] obtain t where
      t: "p = page_addr page_size ?m t" "t \<notin> used_pages ?m" "used_pages m' = insert t (used_pages ?m)"
        "pages_inv page_size m'" "same_heap ?m m'" "page_run m' (js @ [t])" by blast
    have ad: "page_addr page_size m' = page_addr page_size ?m"
      using t(5) by (intro page_addr_same) (simp add: same_heap_def)
    have al: "alloc_pages n (map (page_addr page_size m') (js @ [t])) (s\<lparr>vm_mem := m'\<rparr>) = (r, s')"
      using Suc.prems(4) mp False ad t(1) by simp
    have "first_address m' < cur_kernel_bound m'" using Suc.prems(2) t(5) by (simp add: same_heap_def)
    from Suc.IH [of "s\<lparr>vm_mem := m'\<rparr>" "js @ [t]"] t al this have
      ih: "(r = None \<longrightarrow> used_pages (vm_mem s') = used_pages m' - set (js @ [t]))
        \<and> (\<forall>as. r = Some as \<longrightarrow> (\<exists>ts. as = map (page_addr page_size m') ((js @ [t]) @ ts) \<and> length ts = n
         \<and> used_pages (vm_mem s') = used_pages m' \<union> set ts
         \<and> set ts \<inter> used_pages m' = {} \<and> page_run (vm_mem s') ((js @ [t]) @ ts)
         \<and> pages_inv page_size (vm_mem s') \<and> same_heap m' (vm_mem s')
         \<and> page_tables s' = page_tables s \<and> vm_ram s' = vm_ram s))"
      by simp
    have "\<exists>ts'. as = map (page_addr page_size ?m) (js @ ts') \<and> length ts' = Suc n
         \<and> used_pages (vm_mem s') = used_pages ?m \<union> set ts'
         \<and> set ts' \<inter> used_pages ?m = {} \<and> page_run (vm_mem s') (js @ ts')
         \<and> pages_inv page_size (vm_mem s') \<and> same_heap ?m (vm_mem s')
         \<and> page_tables s' = page_tables s \<and> vm_ram s' = vm_ram s" if "r = Some as" for as
    proof -
      from ih that obtain ts where "as = map (page_addr page_size m') ((js @ [t]) @ ts)" "length ts = n"
         "used_pages (vm_mem s') = used_pages m' \<union> set ts"
         "set ts \<inter> used_pages m' = {}" "page_run (vm_mem s') ((js @ [t]) @ ts)"
         "pages_inv page_size (vm_mem s')" "same_heap m' (vm_mem s')"
         "page_tables s' = page_tables s" "vm_ram s' = vm_ram s"
        by blast
      then show ?thesis
        using t(2,3,5) ad by (intro exI [of _ "t # ts"]) (auto simp: same_heap_def)
    qed
    moreover have "used_pages m' - set (js @ [t]) = used_pages ?m - set js" using t(2,3) by auto
    ultimately show ?thesis using ih by auto
  qed
qed

lemma page_run_Nil: "page_run m []"
  by (simp add: page_run_def)

text \<open>A request for user memory that cannot be met gives back every page it had
  taken: the answer is null and the pages in use are those of before. A kernel heap
  that is not empty keeps page 0 out of the game.\<close>

theorem user_malloc_rolls_back:
  assumes "pages_inv page_size (vm_mem s)" and "first_address (vm_mem s) < cur_kernel_bound (vm_mem s)"
    and "alloc_pages (unat (page_number n)) [] s = (None, s')"
  shows "user_malloc areas n base pt s = Inr (0, s')
    \<and> used_pages (vm_mem s') = used_pages (vm_mem s)"
  using alloc_pages_run [OF assms(1,2) page_run_Nil, of "unat (page_number n)" None s'] assms(3)
  by (simp add: user_malloc_def)

lemma alloc_pages_fresh:
  assumes "pages_inv page_size (vm_mem s)" "first_address (vm_mem s) < cur_kernel_bound (vm_mem s)"
    and "alloc_pages n [] s = (Some as, s')"
  obtains js where "as = map (page_addr page_size (vm_mem s)) js" "length js = n" "distinct js"
    "set js \<inter> used_pages (vm_mem s) = {}" "used_pages (vm_mem s') = used_pages (vm_mem s) \<union> set js"
    "page_tables s' = page_tables s" "pages_inv page_size (vm_mem s')" "same_heap (vm_mem s) (vm_mem s')"
proof -
  from alloc_pages_run [OF assms(1,2) page_run_Nil, of n "Some as" s'] assms(3)
  obtain js where js: "as = map (page_addr page_size (vm_mem s)) js" "length js = n"
    "set js \<inter> used_pages (vm_mem s) = {}" "used_pages (vm_mem s') = used_pages (vm_mem s) \<union> set js"
    "page_tables s' = page_tables s" "page_run (vm_mem s') js" "pages_inv page_size (vm_mem s')"
    "same_heap (vm_mem s) (vm_mem s')"
    by auto
  have "distinct js" if "sorted_wrt (>) js" for js :: "nat list"
    using that by (induction js) auto
  with js that show ?thesis by (auto simp: page_run_def)
qed

text \<open>More pages than there are free ones behind the first cannot be had.\<close>

lemma alloc_pages_too_many:
  assumes "pages_inv page_size (vm_mem s)" "first_address (vm_mem s) < cur_kernel_bound (vm_mem s)"
    and "{1..<page_count (vm_mem s)} - used_pages (vm_mem s) \<subseteq> A" and "finite A" and "card A < n"
  shows "\<exists>s'. alloc_pages n [] s = (None, s')"
proof -
  obtain r s' where al: "alloc_pages n [] s = (r, s')" by (metis surj_pair)
  have "r = None"
  proof (rule ccontr)
    assume "r \<noteq> None"
    then obtain as where "alloc_pages n [] s = (Some as, s')" using al by auto
    then obtain js where js: "length js = n" "distinct js" "set js \<inter> used_pages (vm_mem s) = {}"
      "used_pages (vm_mem s') = used_pages (vm_mem s) \<union> set js" "pages_inv page_size (vm_mem s')"
      "same_heap (vm_mem s) (vm_mem s')"
      using alloc_pages_fresh [OF assms(1,2)] by metis
    have sub: "set js \<subseteq> used_pages (vm_mem s')" unfolding js(4) by (rule Un_upper2)
    have zero: "0 \<notin> used_pages (vm_mem s')" using js(5) unfolding pages_inv_def by blast
    have pc: "page_count (vm_mem s') = page_count (vm_mem s)" using js(6) by (simp only: same_heap_def)
    have "x \<in> A" if x: "x \<in> set js" for x
    proof -
      have u: "x \<in> used_pages (vm_mem s')" using x sub by (rule set_rev_mp)
      then have "x < page_count (vm_mem s)" by (simp only: used_pages_def mem_Collect_eq pc)
      moreover have "x \<noteq> 0" using u zero by metis
      moreover have "x \<notin> used_pages (vm_mem s)" using x js(3) by (metis disjoint_iff)
      ultimately have "x \<in> {1..<page_count (vm_mem s)} - used_pages (vm_mem s)" by simp
      with assms(3) show ?thesis by (rule subsetD)
    qed
    then have "set js \<subseteq> A" by blast
    then have "card (set js) \<le> card A" using assms(4) by (simp add: card_mono)
    then show False using js(1,2) assms(5) by (simp add: distinct_card)
  qed
  with al show ?thesis by blast
qed

lemma user_malloc_fresh:
  assumes "pages_inv page_size (vm_mem s)" and "first_address (vm_mem s) < cur_kernel_bound (vm_mem s)"
    and al: "alloc_pages (unat (page_number n)) [] s = (Some as, s1)" and "page_number n \<noteq> 0"
    and nt: "need_table areas pt (va_dir base) s1 = Inr (Some T, s2)"
    and T: "page_tables s2 T = Some t" "T \<noteq> 0" "T \<noteq> pt" and base: "base \<noteq> 0"
    and room: "va_page base + unat (page_number n) \<le> 1024"
      "\<forall>i < unat (page_number n). \<not> presence (t (va_page base + i))"
  shows "\<exists>js s3. user_malloc areas n base pt s = Inr (base, s3)
    \<and> length js = unat (page_number n) \<and> distinct js \<and> set js \<inter> used_pages (vm_mem s) = {}
    \<and> used_pages (vm_mem s1) = used_pages (vm_mem s) \<union> set js
    \<and> (\<forall>w i. va_dir w = va_dir base \<and> va_page w = va_page base + i \<and> i < length js \<longrightarrow>
         get_phys_address pt w s3
           = Inr (entry_address (page_addr page_size (vm_mem s) (js ! i)) OR va_offset w))"
proof -
  obtain js where js: "as = map (page_addr page_size (vm_mem s)) js" "length js = unat (page_number n)"
    "distinct js" "set js \<inter> used_pages (vm_mem s) = {}"
    "used_pages (vm_mem s1) = used_pages (vm_mem s) \<union> set js"
    using alloc_pages_fresh [OF assms(1,2) al] by metis
  have "as \<noteq> []" using js(1,2) assms(4) by (auto simp: unat_eq_0)
  from add_translate [OF nt T base this] room js(1,2) obtain s3 where
    "add_virtual_memory areas pt as base s1 = Inr (base, s3)"
    "\<forall>w i. va_dir w = va_dir base \<and> va_page w = va_page base + i \<and> i < length as \<longrightarrow>
       get_phys_address pt w s3 = Inr (entry_address (as ! i) OR va_offset w)"
    by auto
  with js al show ?thesis
    by (intro exI [of _ js] exI [of _ s3]) (auto simp: user_malloc_def)
qed


text \<open>A request that is refused only when it is mapped leaks its pages. Inside the
  part of the address space that is mapped by 4 MiB pages the answer is null, but the
  pages stay in use and no address leads to them.\<close>

theorem refused_mapping_leaks:
  assumes "pages_inv page_size (vm_mem s)" and "first_address (vm_mem s) < cur_kernel_bound (vm_mem s)"
    and al: "alloc_pages (unat (page_number n)) [] s = (Some as, s1)" and "page_number n \<noteq> 0"
    and dir: "table_at s pt = Inr dir" "presence (dir (va_dir base))" "page_size_flag (dir (va_dir base))"
    and "base \<noteq> 0"
  shows "\<exists>s'. user_malloc areas n base pt s = Inr (0, s') \<and> page_tables s' = page_tables s
    \<and> card (used_pages (vm_mem s')) = card (used_pages (vm_mem s)) + unat (page_number n)"
proof -
  obtain js where js: "as = map (page_addr page_size (vm_mem s)) js" "length js = unat (page_number n)"
    "distinct js" "set js \<inter> used_pages (vm_mem s) = {}"
    "used_pages (vm_mem s1) = used_pages (vm_mem s) \<union> set js" "page_tables s1 = page_tables s"
    using alloc_pages_fresh [OF assms(1,2) al] by metis
  have as: "as \<noteq> []" using js(1,2) assms(4) by (auto simp: unat_eq_0)
  have "table_at s1 pt = Inr dir" using dir(1) js(6) by (simp add: table_at_Inr)
  then have "need_table areas pt (va_dir base) s1 = Inr (None, s1)" using dir by (simp add: need_table_def)
  moreover have "[va_dir base..<1024] = va_dir base # [Suc (va_dir base)..<1024]"
    using va_dir_lt by (simp add: upt_conv_Cons)
  ultimately have "add_virtual_memory areas pt as base s1 = Inr (0, s1)"
    using as assms(8) by (simp add: add_virtual_memory_def)
  then have "user_malloc areas n base pt s = Inr (0, s1)" using al by (simp add: user_malloc_def)
  moreover have "card (used_pages (vm_mem s1)) = card (used_pages (vm_mem s)) + unat (page_number n)"
    using js(2-5) by (subst js(5), subst card_Un_disjoint) (auto simp: distinct_card used_pages_def)
  ultimately show ?thesis using js(6) by blast
qed

section \<open>Copying a page\<close>

lemma copy_bytes_outside:
  "\<forall>i < n. x \<noteq> d + of_nat i \<Longrightarrow> copy_bytes n d s m x = m x"
proof (induction n arbitrary: d s m)
  case 0
  then show ?case by simp
next
  case (Suc n)
  have "\<forall>i < n. x \<noteq> (d + 1) + of_nat i"
  proof (intro allI impI)
    fix i assume "i < n"
    then show "x \<noteq> (d + 1) + of_nat i" using Suc.prems [rule_format, of "Suc i"] by (simp add: add.assoc)
  qed
  moreover have "x \<noteq> d" using Suc.prems [rule_format, of 0] by simp
  ultimately show ?case using Suc.IH by simp
qed

definition apart :: "nat \<Rightarrow> ptr \<Rightarrow> ptr \<Rightarrow> bool" where
  "apart n d s \<longleftrightarrow> unat d + n \<le> 2 ^ 32 \<and> unat s + n \<le> 2 ^ 32
     \<and> (unat d + n \<le> unat s \<or> unat s + n \<le> unat d)"

lemma unat_add_of_nat: "unat (d :: ptr) + n \<le> 2 ^ 32 \<Longrightarrow> i < n \<Longrightarrow> unat (d + of_nat i) = unat d + i"
  by (subst unat_plus_nowrap) (simp_all add: unat_of_nat_lt)

lemma copy_bytes_copies:
  "apart n d s \<Longrightarrow> i < n \<Longrightarrow> copy_bytes n d s m (d + of_nat i) = m (s + of_nat i)"
proof (induction n arbitrary: d s m i)
  case 0
  then show ?case by simp
next
  case (Suc n)
  note A = Suc.prems(1) [unfolded apart_def]
  show ?case
  proof (cases i)
    case 0
    have "d \<noteq> (d + 1) + of_nat k" if "k < n" for k
    proof
      assume "d = (d + 1) + of_nat k"
      then have "d = d + of_nat (Suc k)" by simp
      then show False using unat_add_of_nat [of d "Suc n" "Suc k"] A that by simp
    qed
    then show ?thesis using 0 copy_bytes_outside [of n d "d + 1" "s + 1" "m(d := m s)"] by simp
  next
    case (Suc k)
    show ?thesis
    proof (cases "n = 0")
      case True
      then show ?thesis using Suc.prems(2) Suc by simp
    next
      case False
      have d1: "unat (d + 1) = unat d + 1" "unat (s + 1) = unat s + 1"
        using unat_add_of_nat [of d "Suc n" 1] unat_add_of_nat [of s "Suc n" 1] A False by simp_all
      have "apart n (d + 1) (s + 1)" using A d1 by (auto simp: apart_def)
      moreover have "s + of_nat i \<noteq> d"
      proof
        assume "s + of_nat i = d"
        then have "unat s + i = unat d" using unat_add_of_nat [of s "Suc n" i] A Suc.prems(2) by simp
        then show False using A Suc.prems(2) Suc by auto
      qed
      moreover from calculation(1) Suc.prems(2) Suc
      have "copy_bytes n (d + 1) (s + 1) (m(d := m s)) ((d + 1) + of_nat k)
          = (m(d := m s)) ((s + 1) + of_nat k)"
        by (intro Suc.IH) simp_all
      moreover have "(d + 1) + of_nat k = d + of_nat i" "(s + 1) + of_nat k = s + of_nat i"
        using Suc by simp_all
      ultimately show ?thesis by simp
    qed
  qed
qed

text \<open>The bytes of the memory are not touched by mapping and allocating.\<close>

lemma create_page_table_ram: "create_page_table areas s = (p, s') \<Longrightarrow> vm_ram s' = vm_ram s"
  by (auto simp: create_page_table_def kmalloc_page_def kmalloc_init_def Let_def
      split: prod.splits if_splits)

lemma need_table_ram: "need_table areas pt d s = Inr (r, s') \<Longrightarrow> vm_ram s' = vm_ram s"
  using create_page_table_ram
  by (auto simp: need_table_def bind_result_Inr_iff set_entry_def Let_def split: prod.splits if_splits)

lemma map_slots_ram: "map_slots us as s = Inr s' \<Longrightarrow> vm_ram s' = vm_ram s"
  by (induction us as s rule: map_slots.induct) (auto simp: bind_result_Inr_iff set_entry_def)

lemma walk_dirs_ram: "walk_dirs areas pt page ds st s = Inr (r, s') \<Longrightarrow> vm_ram s' = vm_ram s"
proof (induction ds arbitrary: page st s)
  case (Cons d ds)
  from Cons.prems obtain tb s1 where nt: "need_table areas pt d s = Inr (tb, s1)"
    by (auto simp: bind_result_Inr_iff)
  note ram = need_table_ram [OF nt]
  show ?case
  proof (cases tb)
    case None
    with Cons.prems nt ram show ?thesis by simp
  next
    case (Some pte)
    with Cons.prems nt obtain t where t: "table_at s1 pte = Inr t"
      by (auto simp: bind_result_Inr_iff)
    show ?thesis
    proof (cases "take_slots t pte [page..<1024] st")
      case None
      with Cons.prems nt ram Some t show ?thesis by simp
    next
      case (Some cu)
      with Cons nt ram \<open>tb = Some pte\<close> t show ?thesis by (cases cu) (auto split: if_splits)
    qed
  qed
qed simp

lemma search_dirs_ram: "search_dirs areas pt need ds st s = Inr (r, s') \<Longrightarrow> vm_ram s' = vm_ram s"
proof (induction ds arbitrary: st s)
  case (Cons d ds)
  from Cons.prems obtain tb s1 where nt: "need_table areas pt d s = Inr (tb, s1)"
    by (auto simp: bind_result_Inr_iff)
  note ram = need_table_ram [OF nt]
  show ?case
  proof (cases tb)
    case None
    with Cons.prems nt ram show ?thesis by simp
  next
    case (Some pte)
    with Cons.prems nt obtain t where t: "table_at s1 pte = Inr t"
      by (auto simp: bind_result_Inr_iff)
    obtain c u vp where "scan_table t pte need [0..<1024] st = (c, u, vp)" by (metis prod_cases3)
    with Cons nt ram Some t show ?thesis by (cases "c = 0") auto
  qed
qed simp

lemma add_virtual_memory_ram:
  assumes "add_virtual_memory areas pt as v s = Inr (p, s')"
  shows "vm_ram s' = vm_ram s"
proof (cases "as = []")
  case True
  then show ?thesis using assms by (simp add: add_virtual_memory_def)
next
  case False
  show ?thesis
  proof (cases "v = 0")
    case True
    with assms False obtain r s1 where
      sd: "search_dirs areas pt (length as) [512..<1024] (length as, [], 0) s = Inr (r, s1)"
      by (auto simp: add_virtual_memory_def bind_result_Inr_iff Let_def simp del: upt_rec_numeral)
    show ?thesis
    proof (cases r)
      case None
      with assms False True sd search_dirs_ram [OF sd] show ?thesis
        by (simp add: add_virtual_memory_def Let_def del: upt_rec_numeral)
    next
      case (Some dpu)
      with assms False True sd search_dirs_ram [OF sd] map_slots_ram show ?thesis
        by (cases dpu) (auto simp: add_virtual_memory_def bind_result_Inr_iff Let_def simp del: upt_rec_numeral)
    qed
  next
    case v: False
    with assms False obtain r s1 where
      wd: "walk_dirs areas pt (va_page v) [va_dir v..<1024] (length as, []) s = Inr (r, s1)"
      by (auto simp: add_virtual_memory_def bind_result_Inr_iff)
    show ?thesis
      using assms False v wd walk_dirs_ram [OF wd] map_slots_ram
      by (cases r) (auto simp: add_virtual_memory_def bind_result_Inr_iff)
  qed
qed

lemma free_pages_ram: "vm_ram (free_pages as s) = vm_ram s"
  by (induction as arbitrary: s) auto

lemma alloc_pages_ram: "alloc_pages n as s = (r, s') \<Longrightarrow> vm_ram s' = vm_ram s"
  by (induction n arbitrary: as s)
    (auto simp: Let_def free_pages_ram split: prod.splits if_splits)

lemma user_malloc_ram: "user_malloc areas n v pt s = Inr (p, s') \<Longrightarrow> vm_ram s' = vm_ram s"
  using alloc_pages_ram add_virtual_memory_ram
  by (fastforce simp: user_malloc_def split: prod.splits option.splits)

text \<open>Copying an address space copies each page. When the step for one page succeeds,
  the address translates in both processes, and the 4096 bytes behind it in the copy are
  those of the original, provided the two physical pages do not overlap.\<close>

theorem copy_page_copies:
  assumes "copy_page areas this proc v s = Inr (True, s')"
  shows "\<exists>phys1 phys2. get_phys_address this v s' = Inr phys1 \<and> get_phys_address proc v s' = Inr phys2
    \<and> phys1 \<noteq> 0 \<and> phys2 \<noteq> 0
    \<and> (apart 4096 phys1 phys2 \<longrightarrow>
         (\<forall>i < 4096. vm_ram s' (phys1 + of_nat i) = vm_ram s (phys2 + of_nat i)))"
proof -
  from assms obtain s1 phys1 phys2 where
    vm: "virtual_vmalloc areas page_size this v s = Inr (v, s1)"
    and p: "get_phys_address this v s1 = Inr phys1" "get_phys_address proc v s1 = Inr phys2"
      "phys1 \<noteq> 0" "phys2 \<noteq> 0"
    and s': "s' = s1\<lparr>vm_ram := copy_bytes 4096 phys1 phys2 (vm_ram s1)\<rparr>"
    by (auto simp: copy_page_def bind_result_Inr_iff split: if_splits)
  have ram: "vm_ram s1 = vm_ram s"
    using vm user_malloc_ram by (auto simp: virtual_vmalloc_def split: if_splits)
  have same: "get_phys_address q v s' = get_phys_address q v s1" for q
  proof -
    have "table_at s' = table_at s1" by (simp add: s' table_at_def fun_eq_iff)
    then show ?thesis by (simp only: get_phys_address_def)
  qed
  have "\<forall>i < 4096. vm_ram s' (phys1 + of_nat i) = vm_ram s (phys2 + of_nat i)"
    if "apart 4096 phys1 phys2"
    using copy_bytes_copies [OF that, of _ "vm_ram s"] by (simp add: s' ram)
  with p show ?thesis unfolding same by blast
qed

text \<open>Reset_address_space does not reset the address space it is called for when
  another process is running: with no running process every mapped page is reported as
  an error and nothing is freed or unmapped at all.\<close>

theorem reset_without_current:
  assumes "reset_address_space None this s = Inr (b, s')"
  shows "s' = s \<and> (b \<longrightarrow> (\<forall>v dir t. table_at s this = Inr dir \<and> presence (dir (va_dir v))
    \<and> \<not> direct_mapped (dir (va_dir v)) \<and> table_at s (entry_address (dir (va_dir v))) = Inr t
    \<and> \<not> direct_mapped (t (va_page v)) \<longrightarrow> \<not> presence (t (va_page v))))"
proof -
  have ent: "s2 = s1 \<and> (b' \<longrightarrow> b0 \<and> (\<forall>p \<in> set ps. \<forall>t. table_at s1 tbl = Inr t \<longrightarrow>
      \<not> (presence (t p) \<and> \<not> direct_mapped (t p))))"
    if "reset_entries None tbl d ps b0 s1 = Inr (b', s2)" for tbl d ps b0 s1 b' s2
    using that
  proof (induction ps arbitrary: b0)
    case (Cons p ps)
    then show ?case
      by (auto simp: bind_result_Inr_iff kfree_def virtual_free_def split: if_splits)
  qed simp
  have dirs: "s2 = s1 \<and> (b' \<longrightarrow> b0 \<and> (\<forall>d \<in> set ds. \<forall>dir. table_at s1 this = Inr dir \<and> presence (dir d)
      \<and> \<not> direct_mapped (dir d) \<longrightarrow> (\<forall>p < 1024. \<forall>t. table_at s1 (entry_address (dir d)) = Inr t \<longrightarrow>
      \<not> (presence (t p) \<and> \<not> direct_mapped (t p)))))"
    if "reset_dirs None this ds b0 s1 = Inr (b', s2)" for ds b0 s1 b' s2
    using that
  proof (induction ds arbitrary: b0)
    case (Cons d ds)
    from Cons.prems obtain dir where dir: "table_at s1 this = Inr dir"
      by (auto simp: bind_result_Inr_iff)
    show ?case
    proof (cases "presence (dir d) \<and> \<not> direct_mapped (dir d)")
      case True
      with Cons.prems dir obtain b1 s3 where
        e: "reset_entries None (entry_address (dir d)) d [0..<1024] b0 s1 = Inr (b1, s3)"
        and r: "reset_dirs None this ds b1 s3 = Inr (b', s2)"
        by (auto simp: bind_result_Inr_iff)
      from ent [OF e] have "s3 = s1" by blast
      with Cons.IH r have "s2 = s1 \<and> (b' \<longrightarrow> b1 \<and> (\<forall>d \<in> set ds. \<forall>dir. table_at s1 this = Inr dir \<and> presence (dir d)
        \<and> \<not> direct_mapped (dir d) \<longrightarrow> (\<forall>p < 1024. \<forall>t. table_at s1 (entry_address (dir d)) = Inr t \<longrightarrow>
        \<not> (presence (t p) \<and> \<not> direct_mapped (t p)))))"
        by blast
      with ent [OF e] dir show ?thesis by auto
    next
      case False
      with Cons.prems dir have "reset_dirs None this ds b0 s1 = Inr (b', s2)"
        by (auto simp: bind_result_Inr_iff)
      from Cons.IH [OF this] dir False show ?thesis by auto
    qed
  qed simp
  show ?thesis
  proof (intro conjI impI allI)
    show "s' = s" using dirs [OF assms [unfolded reset_address_space_def]] by blast
  next
    fix v dir t
    assume b and "table_at s this = Inr dir \<and> presence (dir (va_dir v)) \<and> \<not> direct_mapped (dir (va_dir v))
      \<and> table_at s (entry_address (dir (va_dir v))) = Inr t \<and> \<not> direct_mapped (t (va_page v))"
    moreover have "va_dir v \<in> set [0..<1024]" using va_dir_lt by simp
    ultimately show "\<not> presence (t (va_page v))"
      using dirs [OF assms [unfolded reset_address_space_def]] va_page_lt [of v] by blast
  qed
qed

section \<open>Examples\<close>

text \<open>The pool of the page allocator with a kernel heap that is not empty.\<close>

definition user_sample :: vm_state where
  "user_sample = vm_sample\<lparr>vm_mem := pool_sample\<lparr>cur_kernel_bound := 0x10100, max_kernel_bound := 0x10100\<rparr>\<rparr>"

lemma user_sample_used: "used_pages (vm_mem user_sample) = {2, 3}"
  using pool_sample_used by (simp add: user_sample_def used_pages_def)

lemma user_sample_inv: "pages_inv page_size (vm_mem user_sample)"
  by (simp add: pages_inv_def user_sample_used)
    (simp add: user_sample_def pool_sample_def page_addr_def splitted_new_def page_size_def)

lemma user_sample_heap: "first_address (vm_mem user_sample) < cur_kernel_bound (vm_mem user_sample)"
  by (simp add: user_sample_def pool_sample_def splitted_new_def)

lemma user_sample_alloc:
  assumes "vm_mem s = vm_mem user_sample"
  obtains m where "alloc_pages 1 [] s = (Some [0x11000], s\<lparr>vm_mem := m\<rparr>)"
proof -
  let ?m = "vm_mem user_sample"
  have bm: "page_bm ?m = page_bm pool_sample" by (simp add: user_sample_def)
  obtain p m where pa: "page_alloc page_size False ?m = (p, m)" by (metis surj_pair)
  have "top_free (page_bm ?m) (Suc (Suc (Suc 0))) = 1" using pool_sample_bits by (simp add: bm)
  then have "top_page ?m = 1" by (simp add: top_page_def bm pool_sample_addr numeral_3_eq_3)
  moreover have "page_addr page_size ?m 1 = 0x11000" "cur_kernel_bound ?m = 0x10100"
    by (simp_all add: user_sample_def pool_sample_def page_addr_def splitted_new_def page_size_def)
  ultimately have p: "p = 0x11000" using page_alloc_inv [OF user_sample_inv pa] by simp
  have "is_initialized ?m" using user_sample_inv by (simp add: pages_inv_def)
  then have "alloc_pages 1 [] s = (Some [0x11000], s\<lparr>vm_mem := m\<rparr>)"
    using pa p assms by (simp add: malloc_page_user)
  then show ?thesis by (rule that)
qed

lemma page_number_1: "page_number 1 = 1"
  by (simp add: page_number_def page_size_def)

lemma user_sample_tables: "table_at s p = table_at vm_sample p" if "page_tables s = page_tables vm_sample"
  using that by (simp add: table_at_def)


theorem refused_mapping_leaks_witness:
  "\<exists>s'. user_malloc [] 1 0x400000 0x5000 user_sample = Inr (0, s')
     \<and> card (used_pages (vm_mem s')) = 3"
proof -
  let ?v = "0x400000 :: u32"
  obtain s1 where al: "alloc_pages 1 [] user_sample = (Some [0x11000], s1)"
    using user_sample_alloc [OF refl] by metis
  have al': "alloc_pages (unat (page_number 1)) [] user_sample = (Some [0x11000], s1)"
    using al by (simp add: page_number_1)
  have dir: "table_at user_sample 0x5000 = Inr direct_entry"
    by (simp add: table_at_def user_sample_def vm_sample_def)
  have c: "card {2, 3 :: nat} = 2" by simp
  from refused_mapping_leaks [OF user_sample_inv user_sample_heap al' _ dir, of ?v "[]"]
  show ?thesis by (auto simp: page_number_1 bit_direct_entry user_sample_used c)
qed

theorem user_malloc_rolls_back_witness:
  "\<exists>s'. user_malloc [] 0x2000 0x80400000 0x1000 user_sample = Inr (0, s')
     \<and> used_pages (vm_mem s') = {2, 3}"
proof -
  have n: "page_number 0x2000 = 2" by (simp add: page_number_def page_size_def)
  have "{1..<page_count (vm_mem user_sample)} - used_pages (vm_mem user_sample) \<subseteq> {1}"
    unfolding user_sample_used by (auto simp: user_sample_def pool_sample_addr)
  from alloc_pages_too_many [OF user_sample_inv user_sample_heap this]
  have "\<exists>s'. alloc_pages (unat (page_number 0x2000)) [] user_sample = (None, s')" by (simp add: n)
  then obtain s' where "alloc_pages (unat (page_number 0x2000)) [] user_sample = (None, s')" by blast
  with user_malloc_rolls_back [OF user_sample_inv user_sample_heap, of "0x2000" s' "[]" "0x80400000" "0x1000"]
  show ?thesis by (auto simp: user_sample_used)
qed

text \<open>A second process, whose page tables are empty, beside one with a page at 0x80400000.\<close>

definition fork_sample :: vm_state where
  "fork_sample = user_sample\<lparr>page_tables :=
     [0x1000 \<mapsto> dir_sample, 0x3000 \<mapsto> (\<lambda>i. if i = 0 then mapped_entry 0x12000 0 else 0),
      0x6000 \<mapsto> (\<lambda>i. if i = 513 then table_entry 0x8000 else 0), 0x8000 \<mapsto> (\<lambda>_. 0)]\<rparr>"

theorem copy_page_copies_witness:
  "\<exists>s'. copy_page [] 0x6000 0x1000 0x80400000 fork_sample = Inr (True, s')
     \<and> (\<exists>p. get_phys_address 0x6000 0x80400000 s' = Inr p \<and> p \<noteq> 0)"
proof -
  let ?v = "0x80400000 :: u32"
  have v: "va_dir ?v = 513" "va_page ?v = 0" "va_offset ?v = 0"
    by (simp_all add: va_dir_def va_page_def va_offset_def)
  have ea: "entry_address 0x8000 = 0x8000" "entry_address 0x12000 = 0x12000" "entry_address 0x11000 = 0x11000"
    by (simp_all add: entry_address_def)
  obtain m where al: "alloc_pages 1 [] fork_sample = (Some [0x11000], fork_sample\<lparr>vm_mem := m\<rparr>)"
    by (rule user_sample_alloc [of fork_sample]) (simp add: fork_sample_def)
  let ?s = "fork_sample\<lparr>vm_mem := m\<rparr>"
  have tabs: "table_at ?s 0x6000 = Inr (\<lambda>i. if i = 513 then table_entry 0x8000 else 0)"
    "page_tables ?s 0x8000 = Some (\<lambda>_. 0)"
    by (simp_all add: fork_sample_def table_at_def)
  have nt: "need_table [] 0x6000 (va_dir ?v) ?s = Inr (Some 0x8000, ?s)"
    using need_table_old [OF tabs(1), of 513] by (simp add: v table_entry_fields ea)
  let ?s2 = "?s\<lparr>page_tables := (page_tables ?s)(0x8000 \<mapsto> map_run 0 [0x11000] (\<lambda>_. 0))\<rparr>"
  have "add_virtual_memory [] 0x6000 [0x11000] ?v ?s = Inr (?v, ?s2)"
    using add_run [OF nt tabs(2), of "[0x11000]"] by (simp add: v presence_bits)
  then have vm: "virtual_vmalloc [] page_size 0x6000 ?v fork_sample = Inr (?v, ?s2)"
    using al by (simp add: virtual_vmalloc_def user_malloc_def page_number_def page_size_def)
  have g1: "get_phys_address 0x6000 ?v ?s2 = Inr 0x11000"
    using get_phys_small [of ?s2 "0x6000" "\<lambda>i. if i = 513 then table_entry 0x8000 else 0" ?v
        "map_run 0 [0x11000] (\<lambda>_. 0)"]
    by (simp add: v table_entry_fields ea table_at_def fork_sample_def map_run_def presence_mapped
        address_mapped)
  have g2: "get_phys_address 0x1000 ?v ?s2 = Inr 0x12000"
    using get_phys_small [of ?s2 "0x1000" dir_sample ?v "\<lambda>i. if i = 0 then mapped_entry 0x12000 0 else 0"]
    by (simp add: v table_entry_fields ea table_at_def fork_sample_def presence_mapped
        address_mapped dir_sample_entries aligned_samples)
  have "copy_page [] 0x6000 0x1000 ?v fork_sample
      = Inr (True, ?s2\<lparr>vm_ram := copy_bytes 4096 0x11000 0x12000 (vm_ram ?s2)\<rparr>)"
    using vm g1 g2 by (simp add: copy_page_def del: copy_bytes.simps)
  with copy_page_copies [OF this] show ?thesis by blast
qed

lemma reset_empty: "reset_dirs None 0x3000 ds b vm_sample = Inr (b, vm_sample)"
  by (induction ds) (simp_all add: vm_sample_tables presence_bits)

theorem reset_without_current_witness:
  "\<exists>b s'. reset_address_space None 0x3000 vm_sample = Inr (b, s') \<and> s' = vm_sample"
proof -
  have "reset_address_space None 0x3000 vm_sample = Inr (True, vm_sample)"
    unfolding reset_address_space_def by (rule reset_empty)
  with reset_without_current [OF this] show ?thesis by blast
qed

end
