(* ===== verification/Scheduler.thy ===== *)
theory Scheduler
  imports Context_Switch Round_Robin Virtual_Mm Filehandle
begin

text \<open>
  Processes and the scheduler (kern/include/scheduler/i_process.h, kern/scheduler/i_process.cpp,
  kern/include/scheduler/i_scheduler.h, kern/scheduler/i_scheduler.cpp) and the timer that
  drives it (kern/arch/x86/devices/timer.cpp): creation and forking of processes on the address
  spaces, the file handles and the stacks of the components below, and the switches between
  them in the order of the strategy.
\<close>

section \<open>State\<close>

record process =
  pid :: u32
  kernel_process :: bool
  process_state :: int
  heap_top :: ptr
  heap_max :: ptr
  ptable :: ptr
  holder :: filehandle_holder
  sched_data :: schedule_data

text \<open>
  Processes are objects on the heap. \<open>direct_map\<close> is the static table all address spaces share;
  \<open>entrances\<close> are the entrance informations not yet used.
\<close>

record scheduler =
  strategy :: round_robin
  next_pid :: u32
  procs :: "ptr \<Rightarrow> process option"
  memory :: vm_state
  direct_map :: ptr
  handles :: handle_store
  stacks :: word_mem
  entrances :: "ptr \<Rightarrow> entrance_information option"
  cpu_state :: cpu

text \<open>
  What new returns: for the process, the kernel stack in it and what its uninitialised fields
  hold, for the entrance information and for the cell of the list.
\<close>

record new_memory =
  nm_process :: ptr
  nm_stack :: ptr
  nm_rest :: schedule_data
  nm_entrance :: ptr
  nm_cell :: ptr

definition proc_at :: "scheduler \<Rightarrow> ptr \<Rightarrow> process result" where
  "proc_at s p =
     (if p = 0 then Inl Null_deref
      else case procs s p of None \<Rightarrow> Inl Wild_access | Some q \<Rightarrow> Inr q)"

definition put_process :: "ptr \<Rightarrow> process \<Rightarrow> scheduler \<Rightarrow> scheduler" where
  "put_process p q s = s\<lparr>procs := (procs s)(p \<mapsto> q)\<rparr>"

section \<open>Making and deleting processes\<close>

definition make_process ::
  "memory_area list \<Rightarrow> new_memory \<Rightarrow> bool \<Rightarrow> scheduler \<Rightarrow> (process \<times> scheduler) result" where
  "make_process areas nm krn s =
     bind_result (process_new areas (direct_map s) (memory s)) (\<lambda>(pt, dm, v).
       Inr (\<lparr>pid = 0, kernel_process = krn, process_state = 0, heap_top = 0, heap_max = 0, ptable = pt,
             holder = holder_new, sched_data = schedule_data_new (nm_stack nm) (nm_rest nm)\<rparr>,
            s\<lparr>memory := v, direct_map := dm\<rparr>))"

text \<open>Deleting a process frees its directory, and nothing that was mapped by it.\<close>

definition delete_process :: "process \<Rightarrow> scheduler \<Rightarrow> scheduler result" where
  "delete_process p s =
     bind_result (kfree (ptable p) True None (memory s)) (\<lambda>(_, v).
       Inr (s\<lparr>memory := v\<lparr>page_tables := (page_tables v)(ptable p := None)\<rparr>\<rparr>))"

text \<open>
  The common first part of new_process and fork_process: a child with the next number, a copy of
  the address space and of the file handles of the running process. None if there is no running
  process, no memory for the child or no memory for the copy; \<open>keys\<close> are the descriptors of the
  running process in the order of the map.
\<close>

datatype child = No_current | No_child | No_copy | Child ptr process process

definition make_child ::
  "memory_area list \<Rightarrow> u32 list \<Rightarrow> new_memory \<Rightarrow> bool \<Rightarrow> scheduler \<Rightarrow> (child \<times> scheduler) result" where
  "make_child areas keys nm krn s =
     bind_result (get_current_process (strategy s)) (\<lambda>cur.
       if cur = 0 then Inr (No_current, s)
       else if nm_process nm = 0 then Inr (No_child, s)
       else bind_result (make_process areas nm krn s) (\<lambda>(c0, s1).
         let c = c0\<lparr>pid := next_pid s1\<rparr>; s2 = s1\<lparr>next_pid := next_pid s1 + 1\<rparr>
         in bind_result (proc_at s2 cur) (\<lambda>p.
              bind_result (copy_address_space areas (ptable c) (ptable p) (memory s2)) (\<lambda>(success, v).
                let s3 = s2\<lparr>memory := v\<rparr>
                in if \<not> success then bind_result (delete_process c s3) (\<lambda>s4. Inr (No_copy, s4))
                   else bind_result (copy_filehandles (handles s3) keys (holder p) (holder c)) (\<lambda>h.
                          Inr (Child cur p (c\<lparr>holder := h\<rparr>), s3))))))"

text \<open>
  new_process: the child gets a faked stack. Whether there was memory for the entrance
  information is not looked at, and a missing child is no failure; the argument \<open>state\<close> of the
  function is not used. \<open>entrance\<close> is the address of the entrance function.
\<close>

definition new_process ::
  "memory_area list \<Rightarrow> u32 list \<Rightarrow> new_memory \<Rightarrow> ptr \<Rightarrow> ptr \<Rightarrow> u32 \<Rightarrow> int \<Rightarrow> ptr \<Rightarrow> bool \<Rightarrow> bool
   \<Rightarrow> scheduler \<Rightarrow> (bool \<times> scheduler) result" where
  "new_process areas keys nm entrance fct num state data krn run_in_kernel s =
     bind_result (make_child areas keys nm krn s) (\<lambda>(r, s1).
       case r of
         No_current \<Rightarrow> Inr (False, s1)
       | No_child \<Rightarrow> Inr (True, s1)
       | No_copy \<Rightarrow> Inr (False, s1)
       | Child cur p c \<Rightarrow>
           bind_result (page_table_ptr (ptable c)) (\<lambda>pt.
             let (_, d, m) = prepare_new pt entrance (nm_entrance nm) (sched_data c) (stacks s1);
                 e = (if nm_entrance nm = 0 then entrances s1
                      else (entrances s1)(nm_entrance nm \<mapsto> entrance_information_new run_in_kernel fct num data))
             in Inr (True, put_process (nm_process nm) (c\<lparr>sched_data := d\<rparr>)
                  (s1\<lparr>strategy := push_new (nm_cell nm) (nm_process nm) (strategy s1), stacks := m, entrances := e\<rparr>))))"

text \<open>
  fork_process: both the parent and the child come back from prepare, the parent with its own
  number and the child, when it is switched to, with its own. The parent puts the child into the
  list; \<open>child_pid\<close> is the reference parameter, and \<open>label\<close> where prepare goes on.
\<close>

definition fork_return ::
  "u32 \<Rightarrow> u32 \<Rightarrow> u32 \<Rightarrow> ptr \<Rightarrow> ptr \<Rightarrow> scheduler \<Rightarrow> bool \<times> u32 \<times> scheduler" where
  "fork_return ret_pid parent_pid child_pid cell c s =
     (if ret_pid \<noteq> parent_pid then (True, 0, s)
      else (True, child_pid, s\<lparr>strategy := push_new cell c (strategy s)\<rparr>))"

definition fork_process ::
  "memory_area list \<Rightarrow> u32 list \<Rightarrow> new_memory \<Rightarrow> ptr \<Rightarrow> bool \<Rightarrow> u32 \<Rightarrow> scheduler
   \<Rightarrow> (bool \<times> u32 \<times> scheduler) result option" where
  "fork_process areas keys nm label krn child_pid s =
     (case make_child areas keys nm krn s of
        Inl e \<Rightarrow> Some (Inl e)
      | Inr (No_current, s1) \<Rightarrow> Some (Inr (False, child_pid, s1))
      | Inr (No_child, s1) \<Rightarrow> Some (Inr (False, child_pid, s1))
      | Inr (No_copy, s1) \<Rightarrow> Some (Inr (False, next_pid s, s1))
      | Inr (Child cur p c, s1) \<Rightarrow>
          (case page_table_ptr (ptable c) of
             Inl e \<Rightarrow> Some (Inl e)
           | Inr pt \<Rightarrow>
               map_option (\<lambda>(ret, d, m). Inr (fork_return ret (pid p) (pid c) (nm_cell nm) (nm_process nm)
                   (put_process (nm_process nm) (c\<lparr>sched_data := d\<rparr>) (s1\<lparr>stacks := m\<rparr>))))
                 (prepare_fork (pid p) (pid c) label pt (cpu_state s1) (sched_data p) (sched_data c) (stacks s1))))"

text \<open>The child, back in prepare with the variables of its parent: get_eip gives it the magic value.\<close>

definition fork_child_returns :: "process \<Rightarrow> process \<Rightarrow> new_memory \<Rightarrow> scheduler \<Rightarrow> (bool \<times> u32 \<times> scheduler) option" where
  "fork_child_returns p c nm s =
     map_option (\<lambda>(ret, _, _). fork_return ret (pid p) (pid c) (nm_cell nm) (nm_process nm) s)
       (prepare_fork (pid p) (pid c) MAGIC_VALUE (ptable c) (cpu_state s) (sched_data p) (sched_data c) (stacks s))"

definition exit_process :: "scheduler \<Rightarrow> bool \<times> scheduler" where
  "exit_process s = (False, s)"

definition put_process0 :: "ptr \<Rightarrow> ptr \<Rightarrow> scheduler \<Rightarrow> scheduler result" where
  "put_process0 cell process0 s =
     bind_result (proc_at s process0) (\<lambda>p.
       let q = p\<lparr>pid := 0\<rparr>; s1 = put_process process0 q s
       in Inr (s1\<lparr>strategy := push_new cell process0 (strategy s1),
                 cpu_state := set_current (sched_data q) (cpu_state s1)\<rparr>))"

section \<open>Switching between processes\<close>

definition switch_to :: "ptr \<Rightarrow> ptr \<Rightarrow> ptr \<Rightarrow> scheduler \<Rightarrow> scheduler result" where
  "switch_to label prev next s =
     bind_result (proc_at s prev) (\<lambda>p.
       let s1 = put_process prev (p\<lparr>sched_data := save_registers label (cpu_state s) (sched_data p)\<rparr>) s
       in bind_result (proc_at s1 next) (\<lambda>n.
            Inr (s1\<lparr>cpu_state := load_registers (sched_data n) (cpu_state s1)\<rparr>)))"

definition context_switch :: "ptr \<Rightarrow> scheduler \<Rightarrow> scheduler result" where
  "context_switch label s =
     bind_result (get_current_process (strategy s)) (\<lambda>cur.
       bind_result (get_next_process (strategy s)) (\<lambda>(nxt, st).
         let s1 = s\<lparr>strategy := st\<rparr>
         in if cur \<noteq> 0 \<and> nxt \<noteq> 0 \<and> cur \<noteq> nxt then switch_to label cur nxt s1 else Inr s1))"

definition unblock_process :: "ptr \<Rightarrow> ptr \<Rightarrow> scheduler \<Rightarrow> scheduler result option" where
  "unblock_process cell process s =
     map_option (\<lambda>r. bind_result r (\<lambda>(p, st).
         let s1 = s\<lparr>strategy := st\<rparr>
         in if p \<noteq> 0
            then bind_result (proc_at s1 process) (\<lambda>q.
                   let s2 = put_process process (q\<lparr>process_state := 1\<rparr>) s1
                   in Inr (s2\<lparr>strategy := push_new cell p (strategy s2)\<rparr>))
            else Inr s1))
       (remove_from_blocked process (strategy s))"

text \<open>
  assign_process and resign_process go on after their switch when the process that called them
  runs again: each then sets a process as current once more.
\<close>

definition assign_process :: "ptr \<Rightarrow> ptr \<Rightarrow> scheduler \<Rightarrow> scheduler result" where
  "assign_process label process s =
     bind_result (get_current_process (strategy s)) (\<lambda>p. switch_to label p process s)"

definition set_current_process :: "ptr \<Rightarrow> scheduler \<Rightarrow> scheduler result" where
  "set_current_process process s =
     bind_result (proc_at s process) (\<lambda>q. Inr (s\<lparr>cpu_state := set_current (sched_data q) (cpu_state s)\<rparr>))"

definition resign_process :: "ptr \<Rightarrow> scheduler \<Rightarrow> (ptr \<times> scheduler) result" where
  "resign_process label s =
     bind_result (get_next_process (strategy s)) (\<lambda>(nxt, st).
       bind_result (context_switch label (s\<lparr>strategy := st\<rparr>)) (\<lambda>s1. Inr (nxt, s1)))"

section \<open>The timer\<close>

definition timer_interrupt_handler :: "ptr \<Rightarrow> u64 \<times> scheduler \<Rightarrow> (u64 \<times> scheduler) result" where
  "timer_interrupt_handler label = (\<lambda>(ticks, s).
     let t = ticks + 1
     in if t AND ticks_between_reschedulings = 0
        then bind_result (context_switch label s) (\<lambda>s1. Inr (t, s1))
        else Inr (t, s))"

section \<open>Every process has its own registers\<close>

text \<open>
  The abstract view of the machine: every process has registers of its own, the running one
  those of the processor and every other one those saved for it.
\<close>

definition registers :: "scheduler \<Rightarrow> ptr \<Rightarrow> (ptr \<times> ptr \<times> ptr) option" where
  "registers s p =
     (if get_current_process (strategy s) = Inr p
      then Some (r_esp (cpu_state s), r_ebp (cpu_state s), r_cr3 (cpu_state s))
      else map_option (\<lambda>q. (sd_esp (sched_data q), sd_ebp (sched_data q), sd_cr3 (sched_data q))) (procs s p))"

definition runnable :: "scheduler \<Rightarrow> ptr list \<Rightarrow> bool" where
  "runnable s qs \<longleftrightarrow> rr_rep (strategy s) qs \<and> distinct qs \<and> (\<forall>p \<in> set qs. p \<noteq> 0 \<and> procs s p \<noteq> None)"

text \<open>The processor interrupts to the stack and the page table of the running process.\<close>

definition own_interrupt_stack :: "scheduler \<Rightarrow> ptr \<Rightarrow> bool" where
  "own_interrupt_stack s p \<longleftrightarrow>
     (\<exists>q. procs s p = Some q \<and> tss_esp0 (cpu_state s) = kernel_stack_base (sched_data q)
        \<and> tss_cr3 (cpu_state s) = r_cr3 (cpu_state s))"

lemma context_switch_alone:
  assumes "runnable s [p]"
  shows "\<exists>st. context_switch label s = Inr (s\<lparr>strategy := st\<rparr>) \<and> rr_rep st [p]"
proof -
  have r: "rr_rep (strategy s) (p # [])" using assms by (simp add: runnable_def)
  obtain st where "get_next_process (strategy s) = Inr (p, st)" "rr_rep st [p]" using rr_next [OF r] by auto
  then show ?thesis using rr_current [OF r] by (auto simp: context_switch_def)
qed

lemma context_switch_eq:
  assumes "runnable s (p # q # qs)" and "procs s p = Some pp" and "procs s q = Some qq"
  shows "\<exists>st. context_switch label s = Inr (s\<lparr>strategy := st,
      procs := (procs s)(p \<mapsto> pp\<lparr>sched_data := save_registers label (cpu_state s) (sched_data pp)\<rparr>),
      cpu_state := load_registers (sched_data qq) (cpu_state s)\<rparr>)
    \<and> rr_rep st (q # qs @ [p])"
proof -
  have r: "rr_rep (strategy s) (p # q # qs)" and d: "p \<noteq> q" "p \<noteq> 0" "q \<noteq> 0"
    using assms(1) by (auto simp: runnable_def)
  obtain st where "get_next_process (strategy s) = Inr (q, st)" "rr_rep st (q # qs @ [p])"
    using rr_next [OF r] by auto
  then show ?thesis using rr_current [OF r] d assms(2,3)
    by (intro exI [of _ st]) (simp add: context_switch_def switch_to_def proc_at_def put_process_def Let_def)
qed

lemma switch_registers:
  assumes "runnable s (p # q # qs)"
  shows "\<exists>s'. context_switch label s = Inr s' \<and> runnable s' (q # qs @ [p])
    \<and> registers s' = registers s \<and> own_interrupt_stack s' q
    \<and> r_eax (cpu_state s') = MAGIC_VALUE
    \<and> (\<exists>qq. procs s q = Some qq \<and> r_eip (cpu_state s') = sd_eip (sched_data qq))
    \<and> (\<exists>pp. procs s' p = Some pp \<and> sd_eip (sched_data pp) = label)
    \<and> (\<forall>a. a \<noteq> p \<longrightarrow> procs s' a = procs s a)"
proof -
  from assms obtain pp qq where pq: "procs s p = Some pp" "procs s q = Some qq" and d: "p \<noteq> q"
    by (auto simp: runnable_def)
  obtain st where cs: "context_switch label s = Inr (s\<lparr>strategy := st,
      procs := (procs s)(p \<mapsto> pp\<lparr>sched_data := save_registers label (cpu_state s) (sched_data pp)\<rparr>),
      cpu_state := load_registers (sched_data qq) (cpu_state s)\<rparr>)" (is "_ = Inr ?s")
    and rep: "rr_rep st (q # qs @ [p])"
    using context_switch_eq [OF assms pq] by blast
  have cur: "get_current_process (strategy s) = Inr p"
    using assms rr_current [of "strategy s" "p # q # qs"] by (simp add: runnable_def)
  have cur': "get_current_process st = Inr q" using rr_current [OF rep] by simp
  have "registers ?s = registers s"
    unfolding registers_def using cur cur' pq d
    by (auto simp: fun_eq_iff save_registers_def load_registers_def set_current_def)
  moreover have "runnable ?s (q # qs @ [p])" using assms rep by (auto simp: runnable_def)
  moreover have "own_interrupt_stack ?s q"
    using pq(2) d by (simp add: own_interrupt_stack_def load_registers_def set_current_def)
  ultimately show ?thesis
    using cs pq by (intro exI [of _ ?s]) (auto simp: load_registers_def set_current_def save_registers_def)
qed

text \<open>
  Runs of the machine: the running process uses its registers as it likes, until a timer
  interrupt switches to the next one. The specification is a machine in which every process has
  registers of its own.
\<close>

datatype event = Switch ptr | Run ptr ptr ptr

fun machine_step :: "event \<Rightarrow> scheduler \<Rightarrow> scheduler result" where
  "machine_step (Switch label) s = context_switch label s"
| "machine_step (Run esp ebp cr3) s =
     Inr (s\<lparr>cpu_state := (cpu_state s)\<lparr>r_esp := esp, r_ebp := ebp, r_cr3 := cr3\<rparr>\<rparr>)"

fun machine_run :: "event list \<Rightarrow> scheduler \<Rightarrow> scheduler result" where
  "machine_run [] s = Inr s"
| "machine_run (e # es) s = bind_result (machine_step e s) (machine_run es)"

type_synonym own_registers = "ptr \<Rightarrow> (ptr \<times> ptr \<times> ptr) option"

fun spec_step :: "event \<Rightarrow> ptr list \<times> own_registers \<Rightarrow> ptr list \<times> own_registers" where
  "spec_step (Switch label) (qs, regs) = (rotate1 qs, regs)"
| "spec_step (Run esp ebp cr3) (qs, regs) = (qs, regs(hd qs \<mapsto> (esp, ebp, cr3)))"

lemma machine_step_refines:
  assumes "runnable s qs" and "qs \<noteq> []"
  shows "\<exists>s'. machine_step e s = Inr s' \<and> (runnable s' (fst (spec_step e (qs, registers s))))
    \<and> registers s' = snd (spec_step e (qs, registers s)) \<and> (\<forall>a. procs s' a = None \<longleftrightarrow> procs s a = None)"
proof -
  obtain p ps where qs: "qs = p # ps" using assms(2) by (cases qs) auto
  have cur: "get_current_process (strategy s) = Inr p"
    using assms(1) rr_current [of "strategy s" qs] qs by (simp add: runnable_def)
  show ?thesis
  proof (cases e)
    case (Run esp ebp cr3)
    then show ?thesis using assms(1) cur qs by (auto simp: runnable_def registers_def fun_eq_iff)
  next
    case (Switch label)
    show ?thesis
    proof (cases ps)
      case Nil
      then obtain st where st: "context_switch label s = Inr (s\<lparr>strategy := st\<rparr>)" "rr_rep st [p]"
        using context_switch_alone assms(1) qs by blast
      then show ?thesis
        using assms(1) qs Nil Switch cur rr_current [OF st(2)] by (auto simp: runnable_def registers_def fun_eq_iff)
    next
      case (Cons q rs)
      from switch_registers [of s p q rs label] assms(1) qs Cons
      obtain s' where s': "context_switch label s = Inr s'" "runnable s' (q # rs @ [p])" "registers s' = registers s"
        "\<exists>pp. procs s' p = Some pp" "\<forall>a. a \<noteq> p \<longrightarrow> procs s' a = procs s a" by blast
      have "procs s p \<noteq> None" using assms(1) qs by (simp add: runnable_def)
      then have "procs s' a = None \<longleftrightarrow> procs s a = None" for a using s'(4,5) by (cases "a = p") auto
      then show ?thesis using s' qs Cons Switch by simp
    qed
  qed
qed

lemma spec_step_order: "fst (spec_step e (qs, regs)) = [] \<longleftrightarrow> qs = []"
  by (cases e) simp_all

lemma machine_run_refines:
  "runnable s qs \<Longrightarrow> qs \<noteq> [] \<Longrightarrow> \<exists>s'. machine_run es s = Inr s'
    \<and> runnable s' (fst (fold spec_step es (qs, registers s)))
    \<and> registers s' = snd (fold spec_step es (qs, registers s))"
proof (induction es arbitrary: s qs)
  case Nil
  then show ?case by simp
next
  case (Cons e es)
  obtain qs' regs' where step: "spec_step e (qs, registers s) = (qs', regs')" by force
  with machine_step_refines [OF Cons.prems, of e] obtain s1 where
    s1: "machine_step e s = Inr s1" "runnable s1 qs'" "registers s1 = regs'" by auto
  have "qs' \<noteq> []" using spec_step_order [of e qs "registers s"] step Cons.prems(2) by simp
  from Cons.IH [OF s1(2) this] show ?case using s1 step by simp
qed

text \<open>C8: switching between processes is transparent. Whatever the processes do with their
  registers and whenever the timer interrupts them, a run of the machine never faults, and it
  implements the machine in which every process has a stack pointer, a base pointer and a page
  table register of its own: the running process changes only its own, a switch changes none,
  and the processes run in the order of the strategy.\<close>

theorem switching_is_transparent:
  assumes "runnable s qs" and "qs \<noteq> []"
  shows "\<exists>s'. machine_run es s = Inr s'
    \<and> runnable s' (fst (fold spec_step es (qs, registers s)))
    \<and> (\<forall>p \<in> set qs. registers s' p = snd (fold spec_step es (qs, registers s)) p)"
  using machine_run_refines [OF assms, of es] by auto

text \<open>An interrupt finds the stack of the process it interrupts. After a switch between two
  processes the interrupt stack is the kernel stack of the process that runs now, its page table
  is the one in use, the processor goes on where that process was saved, with the value that
  makes its own switch_to return, and the process that was left will go on after its switch_to.\<close>

theorem switch_installs_stack:
  assumes "runnable s (p # q # qs)" and "procs s q = Some qq"
  shows "\<exists>s'. context_switch label s = Inr s' \<and> own_interrupt_stack s' q
    \<and> r_eax (cpu_state s') = MAGIC_VALUE \<and> r_eip (cpu_state s') = sd_eip (sched_data qq)
    \<and> (\<exists>pp. procs s' p = Some pp \<and> sd_eip (sched_data pp) = label)
    \<and> (\<forall>a. a \<noteq> p \<longrightarrow> procs s' a = procs s a)"
  using switch_registers [OF assms(1), of label] assms(2) by auto

section \<open>Creating processes\<close>

lemma make_process_facts:
  assumes "make_process areas nm krn s = Inr (c, s1)"
  shows "pid c = 0 \<and> holder c = holder_new \<and> sched_data c = schedule_data_new (nm_stack nm) (nm_rest nm)
    \<and> (\<exists>v dm. s1 = s\<lparr>memory := v, direct_map := dm\<rparr>)"
  using assms by (auto simp: make_process_def bind_result_Inr_iff)

lemma delete_process_facts: "delete_process c s = Inr s1 \<Longrightarrow> \<exists>v. s1 = s\<lparr>memory := v\<rparr>"
  by (auto simp: delete_process_def bind_result_Inr_iff)

definition same_but_memory :: "scheduler \<Rightarrow> scheduler \<Rightarrow> bool" where
  "same_but_memory s s1 \<longleftrightarrow> procs s1 = procs s \<and> strategy s1 = strategy s \<and> stacks s1 = stacks s
    \<and> cpu_state s1 = cpu_state s \<and> entrances s1 = entrances s \<and> handles s1 = handles s"

lemma make_child_facts:
  assumes r: "make_child areas keys nm krn s = Inr (r, s1)"
  shows "same_but_memory s s1 \<and> (next_pid s1 = next_pid s \<or> next_pid s1 = next_pid s + 1)
    \<and> (\<forall>cur p c. r = Child cur p c \<longrightarrow> get_current_process (strategy s) = Inr cur \<and> cur \<noteq> 0 \<and> procs s cur = Some p
        \<and> nm_process nm \<noteq> 0 \<and> pid c = next_pid s \<and> next_pid s1 = next_pid s + 1
        \<and> sched_data c = schedule_data_new (nm_stack nm) (nm_rest nm)
        \<and> copy_filehandles (handles s) keys (holder p) holder_new = Inr (holder c))"
proof -
  obtain cur where cur: "get_current_process (strategy s) = Inr cur"
    using r by (auto simp: make_child_def bind_result_Inr_iff)
  show ?thesis
  proof (cases "cur = 0 \<or> nm_process nm = 0")
    case True
    then have "s1 = s" "r = No_current \<or> r = No_child" using r cur by (auto simp: make_child_def split: if_splits)
    then show ?thesis by (auto simp: same_but_memory_def)
  next
    case False
    then obtain c0 s0 p b v where c0: "make_process areas nm krn s = Inr (c0, s0)"
      and p: "proc_at (s0\<lparr>next_pid := next_pid s0 + 1\<rparr>) cur = Inr p"
      and rest: "(if \<not> b then bind_result (delete_process (c0\<lparr>pid := next_pid s0\<rparr>)
            (s0\<lparr>next_pid := next_pid s0 + 1, memory := v\<rparr>)) (\<lambda>s4. Inr (No_copy, s4))
          else bind_result (copy_filehandles (handles (s0\<lparr>next_pid := next_pid s0 + 1, memory := v\<rparr>)) keys (holder p)
              (holder (c0\<lparr>pid := next_pid s0\<rparr>))) (\<lambda>h.
            Inr (Child cur p (c0\<lparr>pid := next_pid s0, holder := h\<rparr>), s0\<lparr>next_pid := next_pid s0 + 1, memory := v\<rparr>)))
        = Inr (r, s1)"
      using r cur by (auto simp: make_child_def bind_result_Inr_iff Let_def)
    from make_process_facts [OF c0] obtain v0 dm where s0: "s0 = s\<lparr>memory := v0, direct_map := dm\<rparr>"
      and c: "holder c0 = holder_new" "sched_data c0 = schedule_data_new (nm_stack nm) (nm_rest nm)" by blast
    show ?thesis
    proof (cases b)
      case True
      then show ?thesis using rest p cur False c
        by (auto simp: bind_result_Inr_iff s0 same_but_memory_def proc_at_def split: option.splits)
    next
      case False
      then obtain s4 where "delete_process (c0\<lparr>pid := next_pid s0\<rparr>)
            (s0\<lparr>next_pid := next_pid s0 + 1, memory := v\<rparr>) = Inr s4" "r = No_copy" "s1 = s4"
        using rest by (auto simp: bind_result_Inr_iff)
      from delete_process_facts [OF this(1)] this(2,3) show ?thesis
        by (auto simp: s0 same_but_memory_def)
    qed
  qed
qed

lemma push_child:
  assumes "runnable s qs" and "get_current_process (strategy s) = Inr cur" and "cur \<noteq> 0"
    and "rr_fresh cell (strategy s)"
  obtains as bs where "qs = as @ bs" and "as \<noteq> []" and "rr_rep (push_new cell c (strategy s)) (as @ c # bs)"
proof -
  have "rr_rep (strategy s) qs" "qs \<noteq> []"
    using assms(1-3) rr_current [of "strategy s" qs] by (auto simp: runnable_def split: list.splits)
  then show thesis using that rr_push [of "strategy s" qs cell c] assms(4) by (auto simp: rr_fresh_def)
qed

lemma kernel_stack_base_new [simp]: "kernel_stack_base (schedule_data_new a d) = a + 4 * of_nat (KERNEL_STACK_SIZE - 1)"
  by (simp add: schedule_data_new_def)

lemma prepare_fork_copies:
  assumes "eip \<noteq> MAGIC_VALUE" and "n < 2 ^ 30" and "kernel_stack_base parent - r_esp c = 4 * of_nat n"
    and "stack_words (kernel_stack_base child) n \<inter> stack_words (kernel_stack_base parent) n = {}"
    and fr: "\<forall>a \<in> set (frames d (r_ebp c) m). on_stack (kernel_stack_base parent) n a"
  shows "\<exists>child' m'. prepare_fork ppid cpid eip pt c parent child m = Some (ppid, child', m')
    \<and> sd_eip child' = eip \<and> sd_cr3 child' = pt \<and> kernel_stack_base child' = kernel_stack_base child
    \<and> kernel_stack_base child' - sd_esp child' = kernel_stack_base parent - r_esp c
    \<and> frames d (sd_ebp child') m'
        = map (\<lambda>a. a + (kernel_stack_base child - kernel_stack_base parent)) (frames d (r_ebp c) m)
    \<and> (\<forall>a. a \<notin> stack_words (kernel_stack_base child) n \<longrightarrow> m' a = m a)"
proof -
  let ?b = "kernel_stack_base parent" and ?b' = "kernel_stack_base child"
  obtain m' where m': "copy_and_adapt_stack ?b (r_esp c) (r_ebp c) ?b' m
      = Some (?b' - 4 * of_nat n, r_ebp c + (?b' - ?b), m')"
    "\<forall>k < n. m' (?b' - 4 * of_nat k) = adapt_word (r_esp c) ?b (?b' - ?b) (m (?b - 4 * of_nat k))"
    "\<forall>a. a \<notin> stack_words ?b' n \<longrightarrow> m' a = m a"
    using copy_and_adapt_stack_copies [OF assms(2-4), of "r_ebp c" m] by blast
  have "r_esp c = ?b - 4 * of_nat n" using assms(3) by (simp add: algebra_simps)
  from frames_moved [OF m'(2) this fr] show ?thesis
    using assms(1,3) m'(1,3) by (simp add: prepare_fork_def copy_stack_def)
qed


lemma fake_stack_first: "fake_stack e ent m e = ent"
  by (simp add: fake_stack_def)

text \<open>C23: a new process starts with the function it was made for. When new_process could make
  a copy of the address space and had memory for the entrance information, the process has the
  next free number and is in the list; whenever it is switched to for the first time, the
  processor goes on in the entrance function, which finds its parameter, calls the function with
  the two arguments, in kernel mode exactly when that was asked for, and deletes the entrance
  information.\<close>

theorem new_process_starts:
  assumes made: "make_child areas keys nm krn s = Inr (Child cur p c, s1)" and "ptable c AND 0xFFF = 0"
    and "nm_entrance nm \<noteq> 0" and "runnable s qs" and "rr_fresh (nm_cell nm) (strategy s)"
  shows "\<exists>s2 q as bs. new_process areas keys nm entrance fct num state data krn run_in_kernel s = Inr (True, s2)
    \<and> procs s2 = (procs s)(nm_process nm \<mapsto> q) \<and> pid q = next_pid s
    \<and> copy_filehandles (handles s) keys (holder p) holder_new = Inr (holder q)
    \<and> qs = as @ bs \<and> as \<noteq> [] \<and> rr_rep (strategy s2) (as @ nm_process nm # bs)
    \<and> (\<forall>k. r_eip (load_registers (sched_data q) k) = entrance
        \<and> r_cr3 (load_registers (sched_data q) k) = ptable c
        \<and> entrance_function (entrances s2) (load_registers (sched_data q) k) (stacks s2)
            = Inr (Calls run_in_kernel fct num data, (entrances s2)(nm_entrance nm := None)))"
proof -
  note f = make_child_facts [OF made, unfolded same_but_memory_def]
  from f have f1: "stacks s1 = stacks s" "strategy s1 = strategy s" "procs s1 = procs s" "entrances s1 = entrances s"
    "pid c = next_pid s" "copy_filehandles (handles s) keys (holder p) holder_new = Inr (holder c)"
    "get_current_process (strategy s) = Inr cur" "procs s cur = Some p" "cur \<noteq> 0" by blast+
  let ?d = "(sched_data c)\<lparr>sd_cr3 := ptable c, sd_eip := entrance, sd_ebp := 0,
     sd_esp := kernel_stack_base (sched_data c) - stack_bottom_mask_size - 4\<rparr>"
  let ?m = "fake_stack (kernel_stack_base (sched_data c) - stack_bottom_mask_size) (nm_entrance nm) (stacks s)"
  let ?q = "c\<lparr>sched_data := ?d\<rparr>"
  let ?s2 = "put_process (nm_process nm) ?q (s1\<lparr>strategy := push_new (nm_cell nm) (nm_process nm) (strategy s1), stacks := ?m,
     entrances := (entrances s1)(nm_entrance nm \<mapsto> entrance_information_new run_in_kernel fct num data)\<rparr>)"
  have "new_process areas keys nm entrance fct num state data krn run_in_kernel s = Inr (True, ?s2)"
    using made assms(2,3) f1(1) by (simp add: new_process_def page_table_ptr_def prepare_new_def Let_def)
  moreover obtain as bs where "qs = as @ bs" "as \<noteq> []"
    "rr_rep (push_new (nm_cell nm) (nm_process nm) (strategy s)) (as @ nm_process nm # bs)"
    by (rule push_child [OF assms(4) f1(7,9) assms(5)])
  ultimately show ?thesis
    using f1 assms(3) fake_stack_first [of "kernel_stack_base (sched_data c) - stack_bottom_mask_size" "nm_entrance nm" "stacks s"]
    by (intro exI [of _ ?s2] exI [of _ ?q] exI [of _ as] exI [of _ bs])
      (simp add: put_process_def load_registers_def set_current_def entrance_function_def entrance_information_new_def Let_def)
qed

section \<open>The processes of the system\<close>

text \<open>
  The steps the scheduler takes for its callers. Memory for new objects is not in use, and the
  numbers of processes have not been used up.
\<close>

definition fresh_memory :: "new_memory \<Rightarrow> scheduler \<Rightarrow> bool" where
  "fresh_memory nm s \<longleftrightarrow> procs s (nm_process nm) = None \<and> rr_fresh (nm_cell nm) (strategy s) \<and> next_pid s \<noteq> - 1"

inductive sched_step :: "memory_area list \<Rightarrow> ptr \<Rightarrow> scheduler \<Rightarrow> scheduler \<Rightarrow> bool"
  for areas entrance where
  step_new: "new_process areas keys nm entrance fct num state data krn run s = Inr (r, s') \<Longrightarrow> fresh_memory nm s
    \<Longrightarrow> sched_step areas entrance s s'"
| step_fork: "fork_process areas keys nm label krn child_pid s = Some (Inr (r, k, s')) \<Longrightarrow> fresh_memory nm s
    \<Longrightarrow> label \<noteq> MAGIC_VALUE \<Longrightarrow> sched_step areas entrance s s'"
| step_switch: "context_switch label s = Inr s' \<Longrightarrow> sched_step areas entrance s s'"
| step_timer: "timer_interrupt_handler label (t, s) = Inr (t', s') \<Longrightarrow> sched_step areas entrance s s'"

text \<open>All processes are in the list, and no two have the same number.\<close>

definition pids_ok :: "(ptr \<Rightarrow> process option) \<Rightarrow> u32 \<Rightarrow> bool" where
  "pids_ok ps n \<longleftrightarrow> (\<forall>p a. ps p = Some a \<longrightarrow> pid a < n)
     \<and> (\<forall>p q a b. ps p = Some a \<and> ps q = Some b \<and> pid a = pid b \<longrightarrow> p = q)"

definition sched_inv :: "scheduler \<Rightarrow> bool" where
  "sched_inv s \<longleftrightarrow> (\<exists>qs. qs \<noteq> [] \<and> runnable s qs \<and> dom (procs s) = set qs) \<and> pids_ok (procs s) (next_pid s)"

lemma sched_invI:
  "qs \<noteq> [] \<Longrightarrow> runnable s qs \<Longrightarrow> dom (procs s) = set qs \<Longrightarrow> pids_ok (procs s) (next_pid s) \<Longrightarrow> sched_inv s"
  by (auto simp: sched_inv_def)

lemma pids_ok_mono: "pids_ok ps n \<Longrightarrow> n \<le> n' \<Longrightarrow> pids_ok ps n'"
  unfolding pids_ok_def by (meson less_le_trans)

lemma pids_ok_add:
  assumes "pids_ok ps n" and "n \<noteq> - 1" and "pid c = n"
  shows "pids_ok (ps(a \<mapsto> c)) (n + 1)"
  unfolding pids_ok_def
proof (intro conjI allI impI)
  fix p x assume "(ps(a \<mapsto> c)) p = Some x"
  then show "pid x < n + 1"
    using assms less_succ [OF assms(2)] unfolding pids_ok_def
    by (cases "p = a") (auto intro: less_trans)
next
  fix p q x y assume h: "(ps(a \<mapsto> c)) p = Some x \<and> (ps(a \<mapsto> c)) q = Some y \<and> pid x = pid y"
  have lt: "pid x < n" if "ps p = Some x" for p x using assms(1) that by (simp add: pids_ok_def)
  consider "p = a" "q = a" | "p = a" "x = c" "ps q = Some y" | "q = a" "y = c" "ps p = Some x" | "ps p = Some x" "ps q = Some y"
    using h by (metis fun_upd_apply option.inject)
  then show "p = q"
  proof cases
    case 2
    then show ?thesis using h lt [of q y] assms(3) by simp
  next
    case 3
    then show ?thesis using h lt [of p x] assms(3) by simp
  next
    case 4
    then show ?thesis using h assms(1) unfolding pids_ok_def by blast
  qed simp
qed

lemma sched_inv_same:
  assumes "sched_inv s" and "same_but_memory s s1" and "next_pid s1 = next_pid s \<or> next_pid s1 = next_pid s + 1"
    and "next_pid s \<noteq> - 1"
  shows "sched_inv s1"
proof -
  have "next_pid s \<le> next_pid s1" using assms(3) less_succ [OF assms(4)] by auto
  then show ?thesis
    using assms(1,2) pids_ok_mono by (auto simp: sched_inv_def same_but_memory_def runnable_def)
qed

lemma sched_inv_add:
  assumes "sched_inv s" and "fresh_memory nm s" and "pid c = next_pid s" and "nm_process nm \<noteq> 0"
    and "procs s2 = (procs s)(nm_process nm \<mapsto> c)" and "next_pid s2 = next_pid s + 1"
    and "strategy s2 = push_new (nm_cell nm) (nm_process nm) (strategy s)"
  shows "sched_inv s2"
proof -
  obtain qs where qs: "qs \<noteq> []" "runnable s qs" "dom (procs s) = set qs" using assms(1) by (auto simp: sched_inv_def)
  obtain as bs where ab: "qs = as @ bs" "rr_rep (strategy s2) (as @ nm_process nm # bs)"
    using rr_push [of "strategy s" qs "nm_cell nm" "nm_process nm"] qs(2) assms(2,7)
    by (auto simp: runnable_def fresh_memory_def rr_fresh_def)
  have "nm_process nm \<notin> set qs" using assms(2) qs(3) by (auto simp: fresh_memory_def)
  then have "runnable s2 (as @ nm_process nm # bs)"
    using qs(2) ab assms(4,5) by (auto simp: runnable_def)
  moreover have "dom (procs s2) = set (as @ nm_process nm # bs)" using qs(3) ab(1) assms(5) by auto
  moreover have "pids_ok (procs s2) (next_pid s2)"
    unfolding assms(5,6) using assms(1,2,3) by (intro pids_ok_add) (simp_all add: sched_inv_def fresh_memory_def)
  ultimately show ?thesis unfolding sched_inv_def by (metis Nil_is_append_conv list.distinct(1))
qed

lemma sched_inv_new:
  assumes "sched_inv s" and "fresh_memory nm s"
    and r: "new_process areas keys nm entrance fct num state data krn run s = Inr (b, s')"
  shows "sched_inv s'"
proof -
  obtain k s1 where made: "make_child areas keys nm krn s = Inr (k, s1)"
    using r by (auto simp: new_process_def bind_result_Inr_iff)
  note f = make_child_facts [OF made]
  have inv1: "sched_inv s1"
    using sched_inv_same [OF assms(1)] f assms(2) by (auto simp: fresh_memory_def)
  show ?thesis
  proof (cases k)
    case (Child cur p c)
    then obtain pt where "page_table_ptr (ptable c) = Inr pt"
      using r made by (auto simp: new_process_def bind_result_Inr_iff)
    moreover obtain x d m where "prepare_new pt entrance (nm_entrance nm) (sched_data c) (stacks s1) = (x, d, m)"
      by (metis prod_cases3)
    ultimately obtain e where "s' = put_process (nm_process nm) (c\<lparr>sched_data := d\<rparr>)
        (s1\<lparr>strategy := push_new (nm_cell nm) (nm_process nm) (strategy s1), stacks := m, entrances := e\<rparr>)"
      using r made Child by (auto simp: new_process_def Let_def)
    moreover have "procs s1 = procs s" "strategy s1 = strategy s" "next_pid s1 = next_pid s + 1" "pid c = next_pid s"
      "nm_process nm \<noteq> 0" using f Child unfolding same_but_memory_def by blast+
    ultimately show ?thesis
      by (intro sched_inv_add [OF assms(1,2), of "c\<lparr>sched_data := d\<rparr>"]) (simp_all add: put_process_def)
  qed (use r made inv1 in \<open>auto simp: new_process_def\<close>)
qed

lemma sched_inv_fork:
  assumes "sched_inv s" and "fresh_memory nm s" and "label \<noteq> MAGIC_VALUE"
    and r: "fork_process areas keys nm label krn child_pid s = Some (Inr (b, n, s'))"
  shows "sched_inv s'"
proof -
  obtain k s1 where made: "make_child areas keys nm krn s = Inr (k, s1)"
    using r by (auto simp: fork_process_def split: sum.splits)
  note f = make_child_facts [OF made]
  have inv1: "sched_inv s1"
    using sched_inv_same [OF assms(1)] f assms(2) by (auto simp: fresh_memory_def)
  show ?thesis
  proof (cases k)
    case (Child cur p c)
    then obtain pt where pt: "page_table_ptr (ptable c) = Inr pt"
      using r made by (auto simp: fork_process_def split: sum.splits)
    obtain d m where "s' = put_process (nm_process nm) (c\<lparr>sched_data := d\<rparr>)
        (s1\<lparr>stacks := m\<rparr>) \<lparr>strategy := push_new (nm_cell nm) (nm_process nm) (strategy s1)\<rparr>"
      using r made Child pt assms(3)
      by (auto simp: fork_process_def prepare_fork_def fork_return_def put_process_def)
    moreover have "procs s1 = procs s" "strategy s1 = strategy s" "next_pid s1 = next_pid s + 1" "pid c = next_pid s"
      "nm_process nm \<noteq> 0" using f Child unfolding same_but_memory_def by blast+
    ultimately show ?thesis
      by (intro sched_inv_add [OF assms(1,2), of "c\<lparr>sched_data := d\<rparr>"]) (simp_all add: put_process_def)
  qed (use r made inv1 in \<open>auto simp: fork_process_def\<close>)
qed

lemma sched_inv_switch:
  assumes "sched_inv s"
  shows "\<exists>s'. context_switch label s = Inr s' \<and> sched_inv s'"
proof -
  obtain qs where qs: "qs \<noteq> []" "runnable s qs" "dom (procs s) = set qs" and ids: "pids_ok (procs s) (next_pid s)"
    using assms by (auto simp: sched_inv_def)
  then obtain p ps where ps: "qs = p # ps" by (cases qs) auto
  show ?thesis
  proof (cases ps)
    case Nil
    then obtain st where st: "context_switch label s = Inr (s\<lparr>strategy := st\<rparr>)" "rr_rep st [p]"
      using context_switch_alone [of s p label] qs(2) ps by auto
    moreover have "sched_inv (s\<lparr>strategy := st\<rparr>)"
      using qs st(2) ps Nil ids by (intro sched_invI [of "[p]"]) (auto simp: runnable_def)
    ultimately show ?thesis by blast
  next
    case (Cons q rs)
    obtain pp qq where pq: "procs s p = Some pp" "procs s q = Some qq" using qs(2) ps Cons by (auto simp: runnable_def)
    define pp' where "pp' = pp\<lparr>sched_data := save_registers label (cpu_state s) (sched_data pp)\<rparr>"
    obtain st where cs: "context_switch label s = Inr (s\<lparr>strategy := st, procs := (procs s)(p \<mapsto> pp'),
        cpu_state := load_registers (sched_data qq) (cpu_state s)\<rparr>)" (is "_ = Inr ?s") and rep: "rr_rep st (q # rs @ [p])"
      using context_switch_eq [of s p q rs pp qq label] qs(2) ps Cons pq by (auto simp: pp'_def)
    have "runnable ?s (q # rs @ [p])" using qs(2) ps Cons rep by (auto simp: runnable_def)
    moreover have "dom (procs ?s) = set (q # rs @ [p])" using qs(3) ps Cons by auto
    moreover have "pids_ok (procs ?s) (next_pid ?s)"
      using ids pq(1) unfolding pids_ok_def by (simp add: pp'_def) (metis option.inject)
    ultimately show ?thesis using cs sched_invI [of "q # rs @ [p]" ?s] by blast
  qed
qed

lemma sched_inv_step:
  assumes "sched_step areas entrance s s'" and "sched_inv s"
  shows "sched_inv s'"
  using assms(1)
proof cases
  case step_new
  then show ?thesis using sched_inv_new [OF assms(2)] by blast
next
  case step_fork
  then show ?thesis using sched_inv_fork [OF assms(2)] by blast
next
  case (step_switch label)
  then show ?thesis using sched_inv_switch [OF assms(2), of label] by simp
next
  case (step_timer label t t')
  then show ?thesis using sched_inv_switch [OF assms(2), of label] assms(2)
    by (auto simp: timer_interrupt_handler_def Let_def split: if_splits)
qed

lemma put_process0_inv:
  assumes "strategy s = round_robin_new" and "procs s = [p0 \<mapsto> p]" and "p0 \<noteq> 0" and "cell \<noteq> 0" and "next_pid s = 1"
  shows "\<exists>s'. put_process0 cell p0 s = Inr s' \<and> sched_inv s'"
proof -
  define q where "q = p\<lparr>pid := 0\<rparr>"
  let ?s = "(put_process p0 q s)\<lparr>strategy := push_new cell p0 (strategy s), cpu_state := set_current (sched_data q) (cpu_state s)\<rparr>"
  have "put_process0 cell p0 s = Inr ?s"
    using assms(2,3) by (simp add: put_process0_def proc_at_def put_process_def q_def)
  moreover have "rr_rep (strategy ?s) [p0]"
    using rr_push [OF rr_rep_new assms(4), of p0] assms(1) by (auto simp: round_robin_new_def)
  then have "sched_inv ?s"
    using assms(2,3,5) by (intro sched_invI [of "[p0]"]) (auto simp: runnable_def put_process_def pids_ok_def q_def)
  ultimately show ?thesis by blast
qed

text \<open>C10: the processes of the system are sound. From the moment the kernel has made itself
  process 0, whatever processes are then created, forked and switched between, at any time every
  process is in the list of the scheduler exactly once, no two have the same number, there is a
  running one, and the next timer interrupt, whenever it comes, can switch.\<close>

theorem processes_stay_sound:
  assumes "strategy s0 = round_robin_new" and "procs s0 = [p0 \<mapsto> p]" and "p0 \<noteq> 0" and "cell \<noteq> 0" and "next_pid s0 = 1"
    and boot: "put_process0 cell p0 s0 = Inr s1" and "(sched_step areas entrance)\<^sup>*\<^sup>* s1 s"
  shows "(\<exists>qs. rr_rep (strategy s) qs \<and> distinct qs \<and> set qs = dom (procs s) \<and> qs \<noteq> [])
    \<and> (\<forall>a b x y. procs s a = Some x \<and> procs s b = Some y \<and> pid x = pid y \<longrightarrow> a = b)
    \<and> (\<exists>q. get_current_process (strategy s) = Inr q \<and> procs s q \<noteq> None)
    \<and> (\<forall>label t. \<exists>t' s'. timer_interrupt_handler label (t, s) = Inr (t', s'))"
proof -
  have "sched_inv s"
    using assms(7)
  proof induction
    case base
    then show ?case using put_process0_inv [OF assms(1-5)] boot by simp
  next
    case (step y z)
    then show ?case using sched_inv_step by blast
  qed
  then obtain qs where qs: "qs \<noteq> []" "runnable s qs" "dom (procs s) = set qs" and ids: "pids_ok (procs s) (next_pid s)"
    by (auto simp: sched_inv_def)
  obtain q rs where q: "qs = q # rs" using qs(1) by (cases qs) auto
  have "get_current_process (strategy s) = Inr q" "procs s q \<noteq> None"
    using rr_current [of "strategy s" qs] qs(2) q by (auto simp: runnable_def)
  moreover have "\<exists>t' s'. timer_interrupt_handler label (t, s) = Inr (t', s')" for label t
    using sched_inv_switch [OF \<open>sched_inv s\<close>, of label] by (auto simp: timer_interrupt_handler_def Let_def)
  moreover have "rr_rep (strategy s) qs \<and> distinct qs \<and> set qs = dom (procs s) \<and> qs \<noteq> []"
    using qs by (simp add: runnable_def)
  ultimately show ?thesis using ids unfolding pids_ok_def by blast
qed

section \<open>When the timer switches\<close>

lemma and_slice:
  fixes t :: u64
  assumes "k + n \<le> 64"
  shows "t AND push_bit k (mask n) = 0 \<longleftrightarrow> unat t div 2 ^ k mod 2 ^ n = 0"
proof -
  have "t AND push_bit k (mask n) = push_bit k (take_bit n (drop_bit k t))"
    by (rule bit_word_eqI) (auto simp: bit_simps)
  moreover have "take_bit n (drop_bit k t) = 0" if z: "push_bit k (take_bit n (drop_bit k t)) = 0"
  proof (rule bit_word_eqI)
    fix i assume "i < LENGTH(64)"
    have "\<not> bit (push_bit k (take_bit n (drop_bit k t))) (k + i)" by (simp add: z)
    then show "bit (take_bit n (drop_bit k t)) i = bit 0 i"
      using assms by (auto simp: bit_simps)
  qed
  moreover have "take_bit 64 (unat t) = unat t" using unat_lt64 [of t] by (simp add: take_bit_nat_eq_self)
  then have "unat (drop_bit k t) = unat t div 2 ^ k" by (subst unsigned_drop_bit_eq) (simp add: drop_bit_eq_div)
  moreover have "take_bit n (drop_bit k t) = 0 \<longleftrightarrow> unat (drop_bit k t) mod 2 ^ n = 0"
    by (simp only: word_unat_eq_iff unat_take_bit unat_0)
  ultimately show ?thesis by auto
qed

lemma tick_pattern:
  fixes u :: nat
  shows "u div 32 mod 32 = 0 \<and> u div 8 mod 2 = 0 \<longleftrightarrow> u mod 1024 < 8 \<or> 16 \<le> u mod 1024 \<and> u mod 1024 < 24"
proof -
  define m where "m = u mod 1024"
  have "u div 32 mod 32 = m div 32" using mod_mult2_eq [of u 32 32] by (simp add: m_def)
  moreover have "m div 8 = u div 8 mod 128" using mod_mult2_eq [of u 8 128] by (simp add: m_def)
  then have "u div 8 mod 2 = m div 8 mod 2" by (simp add: mod_mod_cancel)
  moreover have "m div 32 = 0 \<longleftrightarrow> m < 32" by (simp add: div_eq_0_iff)
  moreover have "m div 8 = (if m < 8 then 0 else if m < 16 then 1 else if m < 24 then 2 else 3)" if "m < 32"
    using that by (auto intro!: div_nat_eqI)
  ultimately show ?thesis unfolding m_def [symmetric] by (auto split: if_splits)
qed

lemma and_1000:
  fixes t :: u64
  shows "t AND 1000 = 0 \<longleftrightarrow> unat t mod 1024 < 8 \<or> 16 \<le> unat t mod 1024 \<and> unat t mod 1024 < 24"
proof -
  have "(1000 :: u64) = push_bit 5 (mask 5) OR push_bit 3 (mask 1)" by (simp add: mask_eq_exp_minus_1)
  then have "t AND 1000 = 0 \<longleftrightarrow> t AND push_bit 5 (mask 5) = 0 \<and> t AND push_bit 3 (mask 1) = 0"
    by (simp only: bit.conj_disj_distrib or_eq_0_iff)
  also have "\<dots> \<longleftrightarrow> unat t div 2 ^ 5 mod 2 ^ 5 = 0 \<and> unat t div 2 ^ 3 mod 2 ^ 1 = 0"
    using and_slice [of 5 5 t] and_slice [of 3 1 t] by simp
  also have "\<dots> \<longleftrightarrow> unat t div 32 mod 32 = 0 \<and> unat t div 8 mod 2 = 0" by simp
  finally show ?thesis unfolding tick_pattern .
qed

text \<open>The timer switches in bursts. The handler switches at the ticks whose number modulo 1024
  is below 8 or from 16 to 23: it tests the bits of the number 1000 and does not divide by it. So
  16 of 1024 ticks switch, two bursts of 8 successive ticks in which each process runs for one tick
  only, and then 1000 ticks without a switch.\<close>

theorem timer_switches_in_bursts:
  "timer_interrupt_handler label (t, s) =
    (if unat (t + 1) mod 1024 < 8 \<or> 16 \<le> unat (t + 1) mod 1024 \<and> unat (t + 1) mod 1024 < 24
     then bind_result (context_switch label s) (\<lambda>s1. Inr (t + 1, s1)) else Inr (t + 1, s))"
  unfolding timer_interrupt_handler_def ticks_between_reschedulings_def Let_def prod.case and_1000 ..

section \<open>Giving up the processor\<close>

text \<open>A process that resigns is lost. resign_process moves on to the next process before it
  calls the context switch, so the registers of the process that runs are saved into the process
  after it, which is skipped, and those saved earlier for the process that runs are what it will
  later continue with. The registers of the skipped process are gone.\<close>

theorem resign_saves_into_next:
  assumes "runnable s (p # q # qs)" and "procs s q = Some qq" and "hd (qs @ [p]) = r" and "procs s r = Some rr"
  shows "\<exists>s'. resign_process label s = Inr (q, s')
    \<and> get_current_process (strategy s') = Inr r
    \<and> procs s' = (procs s)(q \<mapsto> qq\<lparr>sched_data := save_registers label (cpu_state s) (sched_data qq)\<rparr>)
    \<and> cpu_state s' = load_registers (sched_data rr) (cpu_state s)"
proof -
  have "rr_rep (strategy s) (p # q # qs)" using assms(1) by (simp add: runnable_def)
  then obtain st where st: "get_next_process (strategy s) = Inr (q, st)" "rr_rep st (q # qs @ [p])"
    using rr_next by fastforce
  let ?s = "s\<lparr>strategy := st\<rparr>"
  obtain rs where rs: "qs @ [p] = r # rs" using assms(3) by (cases "qs @ [p]") auto
  have "set (r # rs) = insert p (set qs)" "distinct (r # rs) \<longleftrightarrow> distinct (qs @ [p])" unfolding rs [symmetric] by auto
  then have "runnable ?s (q # r # rs)" using assms(1) st(2) [unfolded rs] by (auto simp: runnable_def)
  from context_switch_eq [OF this, of qq rr label] obtain st2 where
    "context_switch label ?s = Inr (?s\<lparr>strategy := st2, procs := (procs s)(q \<mapsto>
        qq\<lparr>sched_data := save_registers label (cpu_state s) (sched_data qq)\<rparr>),
      cpu_state := load_registers (sched_data rr) (cpu_state s)\<rparr>)" "rr_rep st2 (r # rs @ [q])"
    using assms(2,4) by auto
  then show ?thesis using st rr_current by (auto simp: resign_process_def)
qed

section \<open>Examples\<close>

definition stack_sample :: schedule_data where
  "stack_sample = \<lparr>kernel_stack_base = 0x7FFFC, sd_esp = 0x7FFF0, sd_eip = 0x1234, sd_ebp = 0x7FFF8, sd_cr3 = 0x6000\<rparr>"

definition process_sample :: "u32 \<Rightarrow> process" where
  "process_sample n = \<lparr>pid = n, kernel_process = False, process_state = 0, heap_top = 0, heap_max = 0,
     ptable = 0x6000, holder = holder_new, sched_data = stack_sample\<rparr>"

definition vm_empty_sample :: vm_state where
  "vm_empty_sample = vm_sample\<lparr>page_tables := [0x5000 \<mapsto> direct_entry, 0x6000 \<mapsto> (\<lambda>_. 0)]\<rparr>"

definition cpu_sample :: cpu where
  "cpu_sample = \<lparr>r_esp = 0x7FFF4, r_ebp = 0x7FFF8, r_eip = 0, r_cr3 = 0x6000, r_eax = 0, tss_esp0 = 0x7FFFC, tss_cr3 = 0x6000\<rparr>"

definition sched_sample :: scheduler where
  "sched_sample = \<lparr>strategy = rr_sample, next_pid = 4,
     procs = [10 \<mapsto> process_sample 1, 20 \<mapsto> process_sample 2, 30 \<mapsto> process_sample 3],
     memory = vm_empty_sample, direct_map = 0x5000, handles = Map.empty, stacks = (\<lambda>_. 0), entrances = Map.empty,
     cpu_state = cpu_sample\<rparr>"

definition nm_sample :: new_memory where
  "nm_sample = \<lparr>nm_process = 40, nm_stack = 0x40000, nm_rest = stack_sample, nm_entrance = 0x900, nm_cell = 0x400\<rparr>"

lemma sched_sample_simps:
  "strategy sched_sample = rr_sample" "next_pid sched_sample = 4" "handles sched_sample = Map.empty"
  "stacks sched_sample = (\<lambda>_. 0)" "cpu_state sched_sample = cpu_sample"
  "procs sched_sample 10 = Some (process_sample 1)" "procs sched_sample 20 = Some (process_sample 2)"
  "procs sched_sample 30 = Some (process_sample 3)"
  by (simp_all add: sched_sample_def)

lemma sched_sample_runnable: "runnable sched_sample [10, 30, 20]"
  by (simp add: runnable_def sched_sample_simps rr_sample_rep)

lemma copy_dirs_empty:
  "table_at s proc = Inr dir \<Longrightarrow> \<forall>d \<in> set ds. \<not> presence (dir d) \<Longrightarrow> copy_dirs areas this proc ds s = Inr (True, s)"
  by (induction ds) simp_all

lemma sched_sample_child:
  "\<exists>c s1. make_child [] [] nm_sample False sched_sample = Inr (Child 10 (process_sample 1) c, s1)
    \<and> ptable c = 0x11000 \<and> kernel_stack_base (sched_data c) = 0x4FFFC"
proof -
  obtain p m where pa: "page_alloc 0x1000 True pool_sample = (p, m)" by (metis surj_pair)
  have "top_free (page_bm pool_sample) (Suc (Suc (Suc 0))) = 1" using pool_sample_bits by simp
  then have "top_page pool_sample = 1" by (simp add: top_page_def pool_sample_addr numeral_3_eq_3)
  then have p: "p = 0x11000" using page_alloc_inv [OF pool_sample_inv pa] by (simp add: pool_sample_addr)
  have init: "is_initialized pool_sample" by (simp add: pool_sample_def)
  have cp: "create_page_directory_table [] vm_empty_sample = (0x11000, vm_empty_sample\<lparr>vm_mem := m,
      page_tables := (page_tables vm_empty_sample)(0x11000 \<mapsto> (\<lambda>_. empty_entry))\<rparr>)"
    using pa p init by (simp add: create_page_directory_table_def kmalloc_page_def kmalloc_init_def
        malloc_page_def page_malloc_def page_size_def vm_sample_def vm_empty_sample_def)
  obtain v where pn: "process_new [] 0x5000 vm_empty_sample = Inr (0x11000, 0x5000, v)"
    and v: "table_at v 0x6000 = Inr (\<lambda>_. 0)"
    using cp by (simp add: process_new_def make_direct_mapping_def table_at_def vm_empty_sample_def)
  have copy: "copy_address_space [] 0x11000 0x6000 v = Inr (True, v)"
    unfolding copy_address_space_def using v by (rule copy_dirs_empty) (simp add: presence_bits)
  have cur: "get_current_process rr_sample = Inr 10" using rr_current [OF rr_sample_rep] by simp
  have base: "(0x40000 :: ptr) + 4 * of_nat (KERNEL_STACK_SIZE - 1) = 0x4FFFC" by (simp add: KERNEL_STACK_SIZE_def)
  show ?thesis
    using cur pn copy base
    by (simp add: make_child_def make_process_def sched_sample_def nm_sample_def proc_at_def process_sample_def
        copy_filehandles_def del: of_nat_diff)
qed

theorem switching_is_transparent_witness:
  "\<exists>s'. machine_run [Run 1 2 3, Switch 5, Run 7 8 9, Switch 5, Switch 5] sched_sample = Inr s'
    \<and> registers s' 10 = Some (1, 2, 3) \<and> registers s' 30 = Some (7, 8, 9)"
  using switching_is_transparent [OF sched_sample_runnable, of "[Run 1 2 3, Switch 5, Run 7 8 9, Switch 5, Switch 5]"]
  by auto

theorem switch_installs_stack_witness:
  "\<exists>s'. context_switch 5 sched_sample = Inr s' \<and> own_interrupt_stack s' 30 \<and> r_eip (cpu_state s') = 0x1234"
  using switch_installs_stack [OF sched_sample_runnable, of "process_sample 3" 5]
  by (auto simp: sched_sample_simps process_sample_def stack_sample_def)

lemma sample_fresh: "rr_fresh (nm_cell nm_sample) (strategy sched_sample)"
  by (simp add: rr_fresh_def nm_sample_def sched_sample_simps rr_sample_def push_new_def round_robin_new_def)


theorem new_process_starts_witness:
  "\<exists>s2 q. new_process [] [] nm_sample 0x7000 0x9000 3 1 0 False True sched_sample = Inr (True, s2)
    \<and> procs s2 40 = Some q \<and> pid q = 4
    \<and> entrance_function (entrances s2) (load_registers (sched_data q) cpu_sample) (stacks s2)
        = Inr (Calls True 0x9000 3 0, (entrances s2)(0x900 := None))"
proof -
  obtain c s1 where c: "make_child [] [] nm_sample False sched_sample = Inr (Child 10 (process_sample 1) c, s1)"
    "ptable c = 0x11000" using sched_sample_child by blast
  have nm: "nm_process nm_sample = 40" "nm_entrance nm_sample = 0x900" by (simp_all add: nm_sample_def)
  from new_process_starts [OF c(1) _ _ sched_sample_runnable sample_fresh, of "0x7000" "0x9000" 3 1 0 True]
  obtain s2 q where "new_process [] [] nm_sample 0x7000 0x9000 3 1 0 False True sched_sample = Inr (True, s2)"
    "procs s2 = (procs sched_sample)(40 \<mapsto> q)" "pid q = 4"
    "\<forall>k. entrance_function (entrances s2) (load_registers (sched_data q) k) (stacks s2)
        = Inr (Calls True 0x9000 3 0, (entrances s2)(0x900 := None))"
    by (auto simp: c nm sched_sample_simps)
  then show ?thesis by auto
qed

definition boot_sample :: scheduler where
  "boot_sample = sched_sample\<lparr>strategy := round_robin_new, next_pid := 1, procs := [10 \<mapsto> process_sample 7]\<rparr>"

theorem processes_stay_sound_witness:
  "\<exists>s. put_process0 0x100 10 boot_sample = Inr s \<and> (\<forall>label t. \<exists>t' s'. timer_interrupt_handler label (t, s) = Inr (t', s'))"
proof -
  have b: "strategy boot_sample = round_robin_new" "procs boot_sample = [10 \<mapsto> process_sample 7]" "next_pid boot_sample = 1"
    by (simp_all add: boot_sample_def)
  obtain s where s: "put_process0 0x100 10 boot_sample = Inr s"
    using put_process0_inv [OF b(1,2) _ _ b(3), of "0x100"] by auto
  from processes_stay_sound [OF b(1,2) _ _ b(3) s rtranclp.rtrancl_refl] show ?thesis using s by auto
qed

theorem resign_saves_into_next_witness:
  "\<exists>s'. resign_process 5 sched_sample = Inr (30, s') \<and> get_current_process (strategy s') = Inr 20
    \<and> procs s' 10 = Some (process_sample 1)"
  using resign_saves_into_next [OF sched_sample_runnable, of "process_sample 3" 20 "process_sample 2" 5]
  by (auto simp: sched_sample_simps)

end
