(* ===== verification/Copy_Memory.thy ===== *)
theory Copy_Memory
  imports Virtual_Mm
begin

text \<open>
  What copy_in and copy_out of a process (kern/arch/x86/scheduler/process.cpp) transfer: the
  bytes of a range of virtual addresses, page by page, to and from the kernel's memory.
\<close>

section \<open>Virtual addresses as numbers\<close>

lemma of_nat_of_unat: "unat w = n \<Longrightarrow> w = (of_nat n :: 'a::len word)"
  by (auto simp: word_unat_eq_iff)

lemma va_decomp: "unat w = va_dir w * 2 ^ 22 + va_page w * 2 ^ 12 + unat (va_offset w)"
proof -
  let ?u = "unat w"
  have "?u = ?u div 2 ^ 12 * 2 ^ 12 + ?u mod 2 ^ 12" by simp
  moreover have "?u div 2 ^ 12 = ?u div 2 ^ 12 div 2 ^ 10 * 2 ^ 10 + ?u div 2 ^ 12 mod 2 ^ 10" by simp
  moreover have "?u div 2 ^ 12 div 2 ^ 10 = ?u div 2 ^ 22" by (simp flip: div_mult2_eq)
  ultimately have "?u = (?u div 2 ^ 22 * 2 ^ 10 + ?u div 2 ^ 12 mod 2 ^ 10) * 2 ^ 12 + ?u mod 2 ^ 12" by metis
  then show ?thesis unfolding va_dir_eq va_page_eq va_offset_eq by (simp add: algebra_simps)
qed

lemma va_make_unat:
  assumes "d < 1024" and "p < 1024"
  shows "unat (va_make d p (va_offset w)) = d * 2 ^ 22 + p * 2 ^ 12 + unat (va_offset w)"
proof -
  have "va_offset w AND 0xFFF = va_offset w"
    unfolding va_offset_def by (simp add: ac_simps)
  then show ?thesis using va_make_fields [OF assms, of "va_offset w"] va_decomp [of "va_make d p (va_offset w)"] by simp
qed

lemma next_page_plus:
  assumes "unat w + 4096 < 2 ^ 32"
  shows "next_page w = Some (w + page_size)"
proof -
  have sum: "unat (w + page_size) = unat w + 4096"
    using assms by (simp add: page_size_def unat_plus_nowrap)
  note w = va_decomp [of w]
  have off: "unat (va_offset w) < 2 ^ 12" unfolding va_offset_eq by simp
  show ?thesis
  proof (cases "va_page w = 1023")
    case False
    then have p: "va_page w + 1 < 1024" using va_page_lt [of w] by simp
    have "unat (va_make (va_dir w) (va_page w + 1) (va_offset w)) = unat (w + page_size)"
      unfolding va_make_unat [OF va_dir_lt p] sum using w by simp
    then show ?thesis using p by (simp add: next_page_def Let_def word_unat_eq_iff)
  next
    case True
    have d: "va_dir w + 1 < 1024"
    proof (rule ccontr)
      assume "\<not> va_dir w + 1 < 1024"
      then have "1023 \<le> va_dir w" by simp
      then show False using w True assms by simp
    qed
    have "unat (va_make (va_dir w + 1) 0 (va_offset w)) = unat (w + page_size)"
      using va_make_unat [OF d, of 0 w] sum w True by simp
    then show ?thesis using True d by (simp add: next_page_def Let_def word_unat_eq_iff)
  qed
qed

section \<open>Translation within a page\<close>

lemma or_low_bits:
  fixes a b :: u32
  shows "(a AND NOT (mask n)) OR (b AND mask n) = (a AND NOT (mask n)) + take_bit n b"
proof -
  have "(a AND NOT (mask n)) AND (b AND mask n) = 0" by (rule bit_word_eqI) (auto simp: bit_simps)
  then show ?thesis by (simp add: disjunctive_add_eq_or take_bit_eq_mask)
qed

lemma take_bit_step:
  fixes v :: u32
  assumes "unat v mod 2 ^ n + i < 2 ^ n" and "unat v + i < 2 ^ 32"
  shows "take_bit n (v + of_nat i) = take_bit n v + of_nat i"
proof -
  have i: "unat (of_nat i :: u32) = i" using assms(2) by (intro unat_of_nat_lt) simp
  have "unat (v + of_nat i) = unat v + i" using assms(2) i by (simp add: unat_plus_nowrap)
  moreover have "(unat v + i) mod 2 ^ n = unat v mod 2 ^ n + i"
    using assms(1) by (metis mod_add_left_eq mod_less)
  moreover have "unat (take_bit n v + of_nat i) = unat v mod 2 ^ n + i"
  proof -
    have "unat v mod 2 ^ n + i \<le> unat v + i" by simp
    then have "unat v mod 2 ^ n + i < 2 ^ 32" using assms(2) by (rule le_less_trans)
    then have "unat (take_bit n v) + unat (of_nat i :: u32) < 2 ^ 32" using i by (simp only: unat_take_bit)
    then show ?thesis using i by (simp add: unat_plus_nowrap unat_take_bit)
  qed
  ultimately show ?thesis by (simp add: word_unat_eq_iff unat_take_bit)
qed

lemma same_page:
  assumes "unat (va_offset v) + i < 4096" and "unat v + i < 2 ^ 32"
  shows "va_dir (v + of_nat i) = va_dir v" and "va_page (v + of_nat i) = va_page v"
    and "take_bit 12 (v + of_nat i) = take_bit 12 v + of_nat i" and "take_bit 22 (v + of_nat i) = take_bit 22 v + of_nat i"
proof -
  let ?u = "unat v"
  have i: "unat (of_nat i :: u32) = i" using assms(2) by (intro unat_of_nat_lt) simp
  have u: "unat (v + of_nat i) = ?u + i" using assms(2) i by (simp add: unat_plus_nowrap)
  have o: "?u mod 2 ^ 12 + i < 2 ^ 12" using assms(1) by (simp add: va_offset_eq)
  have q: "(?u + i) div 2 ^ 12 = ?u div 2 ^ 12"
  proof (rule div_nat_eqI)
    have "?u mod 4096 + i < 4096" using o by simp
    then have "4096 * (?u div 4096) \<le> ?u + i \<and> ?u + i < 4096 * (?u div 4096) + 4096"
      using mult_div_mod_eq [of 4096 ?u] by linarith
    then show "2 ^ 12 * (?u div 2 ^ 12) \<le> ?u + i" "?u + i < 2 ^ 12 * Suc (?u div 2 ^ 12)" by simp_all
  qed
  then show "va_page (v + of_nat i) = va_page v" by (simp add: va_page_eq u)
  have "x div 2 ^ 22 = x div 2 ^ 12 div 2 ^ 10" for x :: nat by (simp flip: div_mult2_eq)
  then show "va_dir (v + of_nat i) = va_dir v" using q by (simp add: va_dir_eq u)
  show "take_bit 12 (v + of_nat i) = take_bit 12 v + of_nat i" by (rule take_bit_step [OF o assms(2)])
  have "?u mod 4194304 = 4096 * (?u div 4096 mod 1024) + ?u mod 4096" using mod_mult2_eq [of ?u 4096 1024] by simp
  moreover have "?u div 4096 mod 1024 < 1024" by simp
  moreover have "?u mod 4096 + i < 4096" using o by simp
  ultimately have "?u mod 4194304 + i < 4194304" by linarith
  then have "?u mod 2 ^ 22 + i < 2 ^ 22" by simp
  then show "take_bit 22 (v + of_nat i) = take_bit 22 v + of_nat i" by (rule take_bit_step [OF _ assms(2)])
qed

text \<open>Within a page, translation is adding the distance.\<close>

lemma phys_within_page:
  assumes "get_phys_address pt v s = Inr a" and "a \<noteq> 0" and "unat (va_offset v) + i < 4096" and "unat v + i < 2 ^ 32"
  shows "get_phys_address pt (v + of_nat i) s = Inr (a + of_nat i)"
proof -
  obtain dir where dir: "table_at s pt = Inr dir" using assms(1) by (auto simp: get_phys_address_def bind_result_Inr_iff)
  note same = same_page [OF assms(3,4)]
  let ?e = "dir (va_dir v)"
  have pres: "presence ?e"
  proof (rule ccontr)
    assume "\<not> presence ?e"
    then show False using assms(1,2) dir by (simp add: get_phys_address_def)
  qed
  show ?thesis
  proof (cases "page_size_flag ?e")
    case True
    then have "a = (?e AND NOT (mask 22)) + take_bit 22 v"
      using assms(1) dir pres by (simp add: get_phys_address_def mask_words or_low_bits)
    then show ?thesis using True dir pres same
      by (simp add: get_phys_address_def mask_words or_low_bits add.assoc)
  next
    case False
    obtain t where t: "table_at s (entry_address ?e) = Inr t"
      using assms(1) dir pres False by (auto simp: get_phys_address_def bind_result_Inr_iff Let_def)
    let ?p = "t (va_page v)"
    have pp: "presence ?p"
    proof (rule ccontr)
      assume "\<not> presence ?p"
      then show False using assms(1,2) dir pres False t by (simp add: get_phys_address_def)
    qed
    then have "a = (?p AND NOT (mask 12)) + take_bit 12 v"
      using assms(1) dir pres False t by (simp add: get_phys_address_def va_offset_def mask_words or_low_bits)
    then show ?thesis using False dir pres same t pp
      by (simp add: get_phys_address_def va_offset_def mask_words or_low_bits add.assoc)
  qed
qed

section \<open>Copying blocks\<close>

lemma copy_bytes_eq:
  assumes "\<forall>i < n. \<forall>j < n. d + of_nat i \<noteq> s + of_nat j"
  shows "copy_bytes n d s m a = (if \<exists>i < n. a = d + of_nat i then m (s + (a - d)) else m a)"
  using assms
proof (induction n arbitrary: d s m)
  case 0
  then show ?case by simp
next
  case (Suc n)
  have "\<forall>i < n. \<forall>j < n. (d + 1) + of_nat i \<noteq> (s + 1) + of_nat j"
  proof (intro allI impI)
    fix i j assume "i < n" "j < n"
    then show "(d + 1) + of_nat i \<noteq> (s + 1) + of_nat j"
      using Suc.prems [rule_format, of "Suc i" "Suc j"] by (simp add: algebra_simps)
  qed
  from Suc.IH [OF this, of "m(d := m s)"]
  have ih: "copy_bytes (Suc n) d s m a = (if \<exists>i < n. a = d + 1 + of_nat i
      then (m(d := m s)) (s + 1 + (a - (d + 1))) else (m(d := m s)) a)" by (simp only: copy_bytes.simps)
  have ex: "(\<exists>i < Suc n. a = d + of_nat i) \<longleftrightarrow> a = d \<or> (\<exists>i < n. a = d + 1 + of_nat i)"
    by (auto simp: less_Suc_eq_0_disj algebra_simps)
  show ?case
  proof (cases "\<exists>i < n. a = d + 1 + of_nat i")
    case True
    then obtain i where i: "i < n" "a = d + 1 + of_nat i" by blast
    then have "s + (a - d) \<noteq> d" using Suc.prems [rule_format, of 0 "Suc i"] by (simp add: algebra_simps)
    then show ?thesis unfolding ih ex using True by (simp add: algebra_simps)
  next
    case False
    then show ?thesis unfolding ih ex if_not_P [OF False] by (cases "a = d") (simp, simp only: simp_thms if_False fun_upd_apply)
  qed
qed

text \<open>The state of a transfer after \<open>k\<close> bytes, from the addresses \<open>src\<close> to the addresses \<open>dst\<close>.\<close>

definition moved :: "(nat \<Rightarrow> ptr) \<Rightarrow> (nat \<Rightarrow> ptr) \<Rightarrow> nat \<Rightarrow> (ptr \<Rightarrow> u8) \<Rightarrow> (ptr \<Rightarrow> u8) \<Rightarrow> bool" where
  "moved dst src k m m' \<longleftrightarrow>
     (\<forall>i < k. m' (dst i) = m (src i)) \<and> (\<forall>a. (\<forall>i < k. a \<noteq> dst i) \<longrightarrow> m' a = m a)"

definition separate :: "(nat \<Rightarrow> ptr) \<Rightarrow> (nat \<Rightarrow> ptr) \<Rightarrow> nat \<Rightarrow> bool" where
  "separate dst src n \<longleftrightarrow> inj_on dst {..<n} \<and> (\<forall>i < n. \<forall>j < n. dst i \<noteq> src j)"

lemma moved_block:
  assumes "moved dst src k m m'" and sep: "separate dst src n" and "k + c \<le> n"
    and d: "\<forall>i < c. dst (k + i) = d + of_nat i" and s: "\<forall>i < c. src (k + i) = s + of_nat i"
  shows "moved dst src (k + c) m (copy_bytes c d s m')"
proof -
  have dj: "\<forall>i < c. \<forall>j < c. d + of_nat i \<noteq> s + of_nat j"
  proof (intro allI impI)
    fix i j assume "i < c" "j < c"
    then show "d + of_nat i \<noteq> s + of_nat j"
      using sep assms(3) d s unfolding separate_def by (metis add_less_cancel_left less_le_trans)
  qed
  note eq = copy_bytes_eq [OF dj, of m']
  show ?thesis
    unfolding moved_def
  proof (intro conjI allI impI)
    fix i assume i: "i < k + c"
    show "copy_bytes c d s m' (dst i) = m (src i)"
    proof (cases "i < k")
      case True
      have "dst i \<noteq> d + of_nat j" if "j < c" for j
      proof
        assume "dst i = d + of_nat j"
        then have "dst i = dst (k + j)" using d that by simp
        then have "i = k + j" using sep True i that assms(3) unfolding separate_def inj_on_def by auto
        then show False using True by simp
      qed
      then show ?thesis using assms(1) True by (auto simp: eq moved_def)
    next
      case False
      define j where "j = i - k"
      then have j: "j < c" "i = k + j" using i False by auto
      have "src i \<noteq> dst l" if "l < k" for l
        using that i assms(3) sep unfolding separate_def by (metis less_le_trans trans_less_add1)
      then have "m' (src i) = m (src i)" using assms(1) by (auto simp: moved_def)
      moreover have "dst i = d + of_nat j" "src i = s + of_nat j" using d s j by auto
      ultimately show ?thesis using j(1) by (auto simp: eq)
    qed
  next
    fix a assume a: "\<forall>i < k + c. a \<noteq> dst i"
    then have "\<not> (\<exists>i < c. a = d + of_nat i)" using d by (metis add_less_cancel_left)
    moreover have "m' a = m a" using assms(1) a by (auto simp: moved_def)
    ultimately show "copy_bytes c d s m' a = m a" by (simp only: eq if_False)
  qed
qed

section \<open>Copying a range of virtual addresses\<close>

text \<open>
  A range of virtual addresses that is mapped: \<open>f i\<close> is where its \<open>i\<close>-th byte is.
\<close>

definition mapped_at :: "ptr \<Rightarrow> u32 \<Rightarrow> nat \<Rightarrow> (nat \<Rightarrow> ptr) \<Rightarrow> vm_state \<Rightarrow> bool" where
  "mapped_at pt v n f s \<longleftrightarrow> (\<forall>i < n. get_phys_address pt (v + of_nat i) s = Inr (f i) \<and> f i \<noteq> 0)"

lemma get_phys_ram [simp]: "get_phys_address pt v (s\<lparr>vm_ram := m\<rparr>) = get_phys_address pt v s"
proof -
  have "table_at (s\<lparr>vm_ram := m\<rparr>) = table_at s" by (simp add: table_at_def fun_eq_iff)
  then show ?thesis by (simp only: get_phys_address_def)
qed

lemma mapped_contiguous:
  assumes "mapped_at pt v n f s" and "k + c \<le> n" and "unat v + n \<le> 2 ^ 32"
    and "unat (va_offset (v + of_nat k)) + c \<le> 4096" and "i < c"
  shows "f (k + i) = f k + of_nat i"
proof -
  have "k < n" "k + i < n" using assms(2,5) by simp_all
  then have f: "get_phys_address pt (v + of_nat k) s = Inr (f k)" "f k \<noteq> 0"
    "get_phys_address pt (v + of_nat k + of_nat i) s = Inr (f (k + i))"
    using assms(1) by (auto simp: mapped_at_def add.assoc simp flip: of_nat_add)
  have "k < 2 ^ 32" using \<open>k < n\<close> assms(3) by linarith
  then have "unat (of_nat k :: u32) = k" by (intro unat_of_nat_lt) simp
  then have "unat (v + of_nat k) = unat v + k"
    using \<open>k < n\<close> assms(3) by (subst unat_plus_nowrap) auto
  then have "unat (v + of_nat k) + i < 2 ^ 32" using \<open>k + i < n\<close> assms(3) by simp
  moreover have "unat (va_offset (v + of_nat k)) + i < 4096" using assms(4,5) by linarith
  ultimately have "get_phys_address pt (v + of_nat k + of_nat i) s = Inr (f k + of_nat i)"
    by (rule phys_within_page [OF f(1,2), rotated])
  then show ?thesis using f(3) by simp
qed

text \<open>Where bytes are taken from and put, in the two directions.\<close>

definition copy_dst :: "bool \<Rightarrow> (nat \<Rightarrow> ptr) \<Rightarrow> ptr \<Rightarrow> nat \<Rightarrow> ptr" where
  "copy_dst copyout f addr i = (if copyout then addr + of_nat i else f i)"

definition copy_src :: "bool \<Rightarrow> (nat \<Rightarrow> ptr) \<Rightarrow> ptr \<Rightarrow> nat \<Rightarrow> ptr" where
  "copy_src copyout f addr i = (if copyout then f i else addr + of_nat i)"

definition transferring ::
  "ptr \<Rightarrow> u32 \<Rightarrow> nat \<Rightarrow> (nat \<Rightarrow> ptr) \<Rightarrow> bool \<Rightarrow> ptr \<Rightarrow> vm_state \<Rightarrow> bool" where
  "transferring pt v n f copyout addr s \<longleftrightarrow> mapped_at pt v n f s \<and> unat v + n < 2 ^ 32
     \<and> separate (copy_dst copyout f addr) (copy_src copyout f addr) n"

text \<open>The state after \<open>k\<close> bytes.\<close>

definition after_bytes ::
  "(nat \<Rightarrow> ptr) \<Rightarrow> bool \<Rightarrow> ptr \<Rightarrow> nat \<Rightarrow> vm_state \<Rightarrow> vm_state \<Rightarrow> bool" where
  "after_bytes f copyout addr k s s' \<longleftrightarrow>
     (\<exists>m. s' = s\<lparr>vm_ram := m\<rparr> \<and> moved (copy_dst copyout f addr) (copy_src copyout f addr) k (vm_ram s) m)"

lemma after_bytes_0: "after_bytes f copyout addr 0 s s"
  by (auto simp: after_bytes_def moved_def intro: exI [of _ "vm_ram s"])

lemma after_block:
  assumes "transferring pt v n f copyout addr s" and "after_bytes f copyout addr k s s1" and "0 < c" and "k + c \<le> n"
    and "unat (va_offset (v + of_nat k)) + c \<le> 4096"
  shows "get_phys_address pt (v + of_nat k) s1 = Inr (f k)" and "f k \<noteq> 0"
    and "after_bytes f copyout addr (k + c) s (copy_dir copyout c (f k) (addr + of_nat k) s1)"
proof -
  note T = assms(1) [unfolded transferring_def]
  obtain m where m: "s1 = s\<lparr>vm_ram := m\<rparr>" "moved (copy_dst copyout f addr) (copy_src copyout f addr) k (vm_ram s) m"
    using assms(2) by (auto simp: after_bytes_def)
  show "get_phys_address pt (v + of_nat k) s1 = Inr (f k)" "f k \<noteq> 0"
    using T assms(3,4) m(1) by (auto simp: mapped_at_def)
  have con: "f (k + i) = f k + of_nat i" if "i < c" for i
    using mapped_contiguous [of pt v n f s k c i] T assms(4,5) that by simp
  note mv = moved_block [OF m(2) _ assms(4)]
  show "after_bytes f copyout addr (k + c) s (copy_dir copyout c (f k) (addr + of_nat k) s1)"
  proof (cases copyout)
    case True
    then have "moved (copy_dst copyout f addr) (copy_src copyout f addr) (k + c) (vm_ram s) (copy_bytes c (addr + of_nat k) (f k) m)"
      using T con by (intro mv) (simp_all add: copy_dst_def copy_src_def add.assoc)
    then show ?thesis using True m(1) by (auto simp: after_bytes_def copy_dir_def)
  next
    case False
    then have "moved (copy_dst copyout f addr) (copy_src copyout f addr) (k + c) (vm_ram s) (copy_bytes c (f k) (addr + of_nat k) m)"
      using T con by (intro mv) (simp_all add: copy_dst_def copy_src_def add.assoc)
    then show ?thesis using False m(1) by (auto simp: after_bytes_def copy_dir_def)
  qed
qed


lemma transferring_place:
  assumes "transferring pt v n f copyout addr s" and "k \<le> n"
  shows "unat (v + of_nat k) = unat v + k" and "unat (of_nat k :: u32) = k"
proof -
  have b: "unat v + k < 4294967296" using assms by (simp add: transferring_def)
  then show k: "unat (of_nat k :: u32) = k" by (intro unat_of_nat_lt) simp
  show "unat (v + of_nat k) = unat v + k" using b k by (subst unat_plus_nowrap) simp_all
qed

lemma offset_next:
  assumes "transferring pt v n f copyout addr s" and "k + 4096 \<le> n" and "va_offset (v + of_nat k) = 0"
  shows "va_offset (v + of_nat (k + 4096)) = 0"
proof -
  have "(unat v + k) mod 4096 = 0"
    using assms(3) transferring_place(1) [OF assms(1), of k] assms(2) va_offset_eq [of "v + of_nat k"] by simp
  then have "(unat v + (k + 4096)) mod 4096 = 0" by (metis add.assoc mod_add_self2)
  then have "unat (va_offset (v + of_nat (k + 4096))) = 0"
    unfolding va_offset_eq transferring_place(1) [OF assms(1,2)] by simp
  then show ?thesis by (simp add: unat_eq_0)
qed

text \<open>Whole pages.\<close>

lemma copy_pages_transfers:
  assumes "transferring pt v n f copyout addr s" and "after_bytes f copyout addr k s s1"
    and "k + 4096 * c \<le> n" and "va_offset (v + of_nat k) = 0"
  shows "\<exists>s2. copy_pages pt copyout c (v + of_nat k) (addr + of_nat k) s1
      = Inr (Some (v + of_nat (k + 4096 * c), addr + of_nat (k + 4096 * c)), s2)
    \<and> after_bytes f copyout addr (k + 4096 * c) s s2"
  using assms
proof (induction c arbitrary: k s1)
  case 0
  then show ?case by simp
next
  case (Suc c)
  have le: "k + 4096 \<le> n" using Suc.prems(3) by simp
  have off: "unat (va_offset (v + of_nat k)) + 4096 \<le> 4096" using Suc.prems(4) by simp
  note blk = after_block [OF Suc.prems(1,2) _ le off, simplified]
  let ?s2 = "copy_dir copyout 4096 (f k) (addr + of_nat k) s1"
  have "unat (v + of_nat k) + 4096 < 2 ^ 32"
    using transferring_place(1) [OF Suc.prems(1), of k] le Suc.prems(1) by (simp add: transferring_def)
  note nx = next_page_plus [OF this]
  have st: "v + of_nat k + page_size = v + of_nat (k + 4096)" "addr + of_nat k + page_size = addr + of_nat (k + 4096)"
    by (simp_all add: page_size_def add.assoc)
  have "k + 4096 + 4096 * c \<le> n" using Suc.prems(3) by simp
  from Suc.IH [OF Suc.prems(1) blk(3) this offset_next [OF Suc.prems(1) le Suc.prems(4)]]
  obtain s3 where s3: "copy_pages pt copyout c (v + of_nat (k + 4096)) (addr + of_nat (k + 4096)) ?s2
      = Inr (Some (v + of_nat (k + 4096 + 4096 * c), addr + of_nat (k + 4096 + 4096 * c)), s3)"
    "after_bytes f copyout addr (k + 4096 + 4096 * c) s s3" by blast
  have sum: "k + 4096 + 4096 * c = k + 4096 * Suc c" by simp
  have "copy_pages pt copyout (Suc c) (v + of_nat k) (addr + of_nat k) s1
      = copy_pages pt copyout c (v + of_nat (k + 4096)) (addr + of_nat (k + 4096)) ?s2"
    unfolding copy_pages.simps(2) blk(1) bind_result.simps Let_def nx st option.case if_not_P [OF blk(2)] ..
  then show ?case using s3 unfolding sum by metis
qed

text \<open>From the start of a page on.\<close>

lemma copy_rest_transfers:
  assumes "transferring pt v n f copyout addr s" and "after_bytes f copyout addr k s s1"
    and "k < n" and "n - k < 4096" and "va_offset (v + of_nat k) = 0"
  shows "\<exists>s2. copy_rest pt copyout (v + of_nat k) (addr + of_nat k) (of_nat (n - k)) s1 = Inr (True, s2)
    \<and> after_bytes f copyout addr n s s2"
proof -
  have u: "unat (of_nat (n - k) :: u32) = n - k" by (rule transferring_place(2) [OF assms(1) diff_le_self])
  have "0 < n - k" "k + (n - k) \<le> n" "unat (va_offset (v + of_nat k)) + (n - k) \<le> 4096"
    using assms(3-5) by simp_all
  note blk = after_block [OF assms(1,2) this]
  then show ?thesis using assms(3) u by (simp add: copy_rest_def)
qed

lemma copy_whole_transfers:
  assumes "transferring pt v n f copyout addr s" and "after_bytes f copyout addr k s s1"
    and "k < n" and "va_offset (v + of_nat k) = 0"
  shows "\<exists>s2. copy_whole pt copyout (v + of_nat k) (addr + of_nat k) (of_nat (n - k)) s1 = Inr (True, s2)
    \<and> after_bytes f copyout addr n s s2"
proof -
  let ?r = "of_nat (n - k) :: u32"
  have u: "unat ?r = n - k" by (rule transferring_place(2) [OF assms(1) diff_le_self])
  have big: "page_size \<le> ?r \<longleftrightarrow> 4096 \<le> n - k" using u by (simp add: word_le_nat_alt page_size_def)
  show ?thesis
  proof (cases "4096 \<le> n - k")
    case False
    then show ?thesis using copy_rest_transfers [OF assms(1-3) _ assms(4)] big by (simp add: copy_whole_def)
  next
    case True
    define c where "c = (n - k) div 4096"
    have c: "unat (?r div page_size) = c" by (simp add: unat_div u page_size_def c_def)
    have cle: "k + 4096 * c \<le> n" unfolding c_def using assms(3) by (simp add: algebra_simps)
    obtain s2 where s2: "copy_pages pt copyout c (v + of_nat k) (addr + of_nat k) s1
        = Inr (Some (v + of_nat (k + 4096 * c), addr + of_nat (k + 4096 * c)), s2)"
      "after_bytes f copyout addr (k + 4096 * c) s s2"
      using copy_pages_transfers [OF assms(1,2) cle assms(4)] by blast
    let ?k = "k + 4096 * c"
    have rest: "?r - page_size * (?r div page_size) = of_nat (n - ?k)"
    proof -
      have "?r div page_size = of_nat c" using c by (rule of_nat_of_unat)
      then show ?thesis using cle by (simp add: page_size_def of_nat_diff)
    qed
    have rz: "(of_nat (n - ?k) :: u32) = 0 \<longleftrightarrow> n = ?k"
      using transferring_place(2) [OF assms(1), of "n - ?k"] cle by (auto simp: word_unat_eq_iff)
    have sm: "n - ?k < 4096" using mod_less_divisor [of 4096 "n - k"]
      by (simp add: c_def flip: diff_diff_left minus_mult_div_eq_mod)
    have off: "va_offset (v + of_nat ?k) = 0"
    proof -
      have "unat (va_offset (v + of_nat ?k)) = (unat v + k + 4096 * c) mod 4096"
        unfolding va_offset_eq transferring_place(1) [OF assms(1) cle] by (simp add: add.assoc)
      also have "\<dots> = unat (va_offset (v + of_nat k))"
        unfolding va_offset_eq using transferring_place(1) [OF assms(1), of k] assms(3) by simp
      finally show ?thesis using assms(4) by (simp add: unat_eq_0)
    qed
    show ?thesis
    proof (cases "n = ?k")
      case True
      then show ?thesis using s2 c rest rz big \<open>4096 \<le> n - k\<close> by (auto simp: copy_whole_def Let_def)
    next
      case False
      then have "?k < n" using cle by simp
      from copy_rest_transfers [OF assms(1) s2(2) this sm off] obtain s3 where
        "copy_rest pt copyout (v + of_nat ?k) (addr + of_nat ?k) (of_nat (n - ?k)) s2 = Inr (True, s3)"
        "after_bytes f copyout addr n s s3" by blast
      then show ?thesis using s2 c rest rz big False \<open>4096 \<le> n - k\<close>
        by (intro exI [of _ s3]) (simp add: copy_whole_def Let_def)
    qed
  qed
qed


section \<open>Copying in and out\<close>

text \<open>The head: the bytes up to the end of the first page.\<close>

lemma copy_in_bytes:
  assumes T: "transferring pt v n f copyout addr s" and nz: "v \<noteq> 0" "addr \<noteq> 0"
  shows "\<exists>s2. copy_in pt copyout v addr (of_nat n) s = Inr (True, s2) \<and> after_bytes f copyout addr n s s2"
proof (cases "n = 0")
  case True
  then show ?thesis using after_bytes_0 by (auto simp: copy_in_def)
next
  case False
  have n: "unat (of_nat n :: u32) = n" by (rule transferring_place(2) [OF T]) simp
  then have n0: "(of_nat n :: u32) \<noteq> 0" using False by (auto simp: word_unat_eq_iff)
  have A0: "after_bytes f copyout addr 0 s s" by (rule after_bytes_0)
  show ?thesis
  proof (cases "va_offset v = 0")
    case True
    then show ?thesis using copy_whole_transfers [OF T A0, simplified] False n0 nz
      by (simp add: copy_in_def)
  next
    case off: False
    define h where "h = 4096 - unat (va_offset v)"
    define c where "c = min n h"
    have o: "unat (va_offset v) < 4096" by (simp add: va_offset_eq)
    have o1: "0 < unat (va_offset v)" using off by (simp add: unat_gt_0)
    have h: "unat (page_size - va_offset v) = h" "page_size - va_offset v = of_nat h"
    proof -
      have "va_offset v \<le> page_size" using o(1) by (simp add: word_le_nat_alt page_size_def)
      then show "unat (page_size - va_offset v) = h" by (simp add: unat_sub h_def page_size_def)
      then show "page_size - va_offset v = of_nat h" by (rule of_nat_of_unat)
    qed
    have "unat (if of_nat n < page_size - va_offset v then of_nat n else page_size - va_offset v) = c"
      using h(1) n by (simp add: c_def word_less_nat_alt)
    then have cs: "(if of_nat n < page_size - va_offset v then of_nat n else page_size - va_offset v) = of_nat c"
      by (rule of_nat_of_unat)
    have c: "0 < c" "0 + c \<le> n" "unat (va_offset (v + of_nat 0)) + c \<le> 4096"
      using False o by (auto simp: c_def h_def)
    have uc: "unat (of_nat c :: u32) = c" by (rule transferring_place(2) [OF T]) (simp add: c_def)
    note blk = after_block [OF T A0 c, simplified]
    let ?s1 = "copy_dir copyout c (f 0) addr s"
    have rest: "of_nat n - of_nat c = (of_nat (n - c) :: u32)" using c(2) by (simp add: of_nat_diff)
    have rz: "(of_nat (n - c) :: u32) = 0 \<longleftrightarrow> n = c"
      using transferring_place(2) [OF T, of "n - c"] c(2) by (auto simp: word_unat_eq_iff)
    have eq: "copy_in pt copyout v addr (of_nat n) s =
        (if n = c then Inr (True, ?s1)
         else case next_page (v - va_offset v) of None \<Rightarrow> Inr (False, ?s1)
              | Some v' \<Rightarrow> copy_whole pt copyout v' (addr + of_nat c) (of_nat (n - c)) ?s1)"
      unfolding copy_in_def cs Let_def blk(1) bind_result.simps if_not_P [OF blk(2)] rest rz uc
      using n0 nz off by simp
    show ?thesis
    proof (cases "n = c")
      case True
      then show ?thesis using blk(3) eq by auto
    next
      case more: False
      then have ch: "c = h" and hn: "h < n" by (auto simp: c_def)
      have le: "va_offset v \<le> v"
        unfolding word_le_nat_alt va_offset_eq by simp
      have uv: "unat (v - va_offset v) + 4096 = unat v + h"
        using le o by (simp add: unat_sub word_le_nat_alt h_def)
      moreover have "unat v + n < 2 ^ 32" using T by (simp add: transferring_def)
      ultimately have "unat (v - va_offset v) + 4096 < 2 ^ 32" using hn by linarith
      note nx = next_page_plus [OF this]
      have st: "v - va_offset v + page_size = v + of_nat c"
        using h(2) ch by (simp add: algebra_simps)
      have "unat (va_offset (v + of_nat c)) = 0"
      proof -
        have "unat v = 4096 * (unat v div 4096) + unat (va_offset v)" by (simp add: va_offset_eq)
        then have "unat v + c = 4096 * (unat v div 4096 + 1)" using o ch h_def by simp
        then show ?thesis unfolding va_offset_eq transferring_place(1) [OF T less_imp_le [OF hn [folded ch]]] by simp
      qed
      then have off': "va_offset (v + of_nat c) = 0" by (simp add: unat_eq_0)
      have "c < n" using ch hn by simp
      from copy_whole_transfers [OF T blk(3) this off'] show ?thesis
        unfolding eq nx st using more by simp
    qed
  qed
qed


lemma transferringI:
  assumes "mapped_at pt v n f s" and "unat v + n < 2 ^ 32" and "inj_on f {..<n}"
    and "\<forall>i < n. \<forall>j < n. f i \<noteq> addr + of_nat j"
  shows "transferring pt v n f copyout addr s"
proof -
  have "inj_on (\<lambda>i. addr + of_nat i) {..<n}"
  proof (rule inj_onI)
    fix i j assume "i \<in> {..<n}" "j \<in> {..<n}" "addr + of_nat i = addr + of_nat j"
    then have "unat (of_nat i :: u32) = unat (of_nat j :: u32)" "i < 2 ^ 32" "j < 2 ^ 32" using assms(2) by auto
    then show "i = j" by (simp add: unat_of_nat_lt)
  qed
  moreover have "\<forall>i < n. \<forall>j < n. addr + of_nat i \<noteq> f j" using assms(4) by metis
  moreover have "copy_dst True f addr = (\<lambda>i. addr + of_nat i)" "copy_dst False f addr = f"
    "copy_src True f addr = f" "copy_src False f addr = (\<lambda>i. addr + of_nat i)"
    by (simp_all add: fun_eq_iff copy_dst_def copy_src_def)
  ultimately show ?thesis using assms unfolding transferring_def separate_def
    by (cases copyout) simp_all
qed

lemma copy_in_moves:
  assumes "mapped_at pt v n f s" and "unat v + n < 2 ^ 32" and "inj_on f {..<n}"
    and "\<forall>i < n. \<forall>j < n. f i \<noteq> addr + of_nat j" and "v \<noteq> 0" and "addr \<noteq> 0"
  shows "\<exists>m. copy_in pt False v addr (of_nat n) s = Inr (True, s\<lparr>vm_ram := m\<rparr>)
    \<and> (\<forall>i < n. m (f i) = vm_ram s (addr + of_nat i)) \<and> (\<forall>a. a \<notin> f ` {..<n} \<longrightarrow> m a = vm_ram s a)"
  using copy_in_bytes [OF transferringI [OF assms(1-4)] assms(5,6), of False]
  by (auto simp: after_bytes_def moved_def copy_dst_def copy_src_def image_iff)

lemma copy_out_moves:
  assumes "mapped_at pt v n f s" and "unat v + n < 2 ^ 32" and "inj_on f {..<n}"
    and "\<forall>i < n. \<forall>j < n. f i \<noteq> addr + of_nat j" and "v \<noteq> 0" and "addr \<noteq> 0"
  shows "\<exists>m. copy_out pt addr v (of_nat n) s = Inr (True, s\<lparr>vm_ram := m\<rparr>)
    \<and> (\<forall>i < n. m (addr + of_nat i) = vm_ram s (f i))"
  using copy_in_bytes [OF transferringI [OF assms(1-4)] assms(5,6), of True]
  by (auto simp: after_bytes_def moved_def copy_dst_def copy_src_def copy_out_def)

text \<open>Copying into a process puts the \<open>n\<close> bytes of the kernel at the \<open>n\<close> places its virtual
  range is mapped to, whatever the offset of the range in its first page and however many
  pages, wherever they are, it spans; nothing else of the memory changes. The range has to
  be mapped throughout, to end before the last address, and not to reach into the source.\<close>

theorem copy_in_transfers:
  assumes "mapped_at pt v n f s" and "unat v + n < 2 ^ 32" and "inj_on f {..<n}"
    and "\<forall>i < n. \<forall>j < n. f i \<noteq> addr + of_nat j" and "v \<noteq> 0" and "addr \<noteq> 0"
  shows "\<exists>m. copy_in pt False v addr (of_nat n) s = Inr (True, s\<lparr>vm_ram := m\<rparr>)
    \<and> (\<forall>i < n. m (f i) = vm_ram s (addr + of_nat i)) \<and> (\<forall>a. a \<notin> f ` {..<n} \<longrightarrow> m a = vm_ram s a)"
  using assms by (rule copy_in_moves)

text \<open>C11: what is copied into a process is what a copy out of the same range of it returns.\<close>

theorem copy_in_then_out:
  assumes "mapped_at pt v n f s" and "unat v + n < 2 ^ 32" and "inj_on f {..<n}"
    and "\<forall>i < n. \<forall>j < n. f i \<noteq> addr + of_nat j" and "\<forall>i < n. \<forall>j < n. f i \<noteq> back + of_nat j"
    and "v \<noteq> 0" and "addr \<noteq> 0" and "back \<noteq> 0"
  shows "\<exists>s1 s2. copy_in pt False v addr (of_nat n) s = Inr (True, s1)
    \<and> copy_out pt back v (of_nat n) s1 = Inr (True, s2)
    \<and> (\<forall>i < n. vm_ram s2 (back + of_nat i) = vm_ram s (addr + of_nat i))"
proof -
  obtain m where m: "copy_in pt False v addr (of_nat n) s = Inr (True, s\<lparr>vm_ram := m\<rparr>)"
    "\<forall>i < n. m (f i) = vm_ram s (addr + of_nat i)"
    using copy_in_moves [OF assms(1-4,6,7)] by blast
  have "mapped_at pt v n f (s\<lparr>vm_ram := m\<rparr>)" using assms(1) by (simp add: mapped_at_def)
  from copy_out_moves [OF this assms(2,3,5,6,8)] obtain m' where
    "copy_out pt back v (of_nat n) (s\<lparr>vm_ram := m\<rparr>) = Inr (True, s\<lparr>vm_ram := m'\<rparr>)"
    "\<forall>i < n. m' (back + of_nat i) = m (f i)" by auto
  with m show ?thesis by auto
qed

section \<open>Example\<close>

text \<open>Two pages that lie the other way round in the memory, and four bytes across their border.\<close>

definition copy_sample :: vm_state where
  "copy_sample = vm_sample\<lparr>page_tables :=
     [0x1000 \<mapsto> (\<lambda>i. if i = 512 then table_entry 0x2000 else 0),
      0x2000 \<mapsto> (\<lambda>i. if i = 0 then mapped_entry 0x9000 0 else if i = 1 then mapped_entry 0x7000 0 else 0)]\<rparr>"

definition copy_place :: "nat \<Rightarrow> ptr" where
  "copy_place i = (if i < 2 then 0x9FFE + of_nat i else 0x6FFE + of_nat i)"

lemma below_4: "(\<forall>i < (4::nat). P i) \<longleftrightarrow> P 0 \<and> P 1 \<and> P 2 \<and> P 3"
proof -
  have "i < 4 \<longleftrightarrow> i = 0 \<or> i = 1 \<or> i = 2 \<or> i = 3" for i :: nat by linarith
  then show ?thesis by auto
qed

lemma copy_sample_mapped: "mapped_at 0x1000 0x80000FFE 4 copy_place copy_sample"
proof -
  have t: "table_at copy_sample 0x1000 = Inr (\<lambda>i. if i = 512 then table_entry 0x2000 else 0)"
    "table_at copy_sample 0x2000
      = Inr (\<lambda>i. if i = 0 then mapped_entry 0x9000 0 else if i = 1 then mapped_entry 0x7000 0 else 0)"
    by (simp_all add: copy_sample_def table_at_def)
  have e: "mapped_entry 0x9000 0 AND 0xFFFFF000 = 0x9000" "mapped_entry 0x7000 0 AND 0xFFFFF000 = 0x7000"
    unfolding address_mapped by (simp_all add: entry_address_def)
  note d = va_dir_def va_page_def va_offset_def
  have "get_phys_address 0x1000 0x80000FFE copy_sample = Inr 0x9FFE"
    "get_phys_address 0x1000 0x80000FFF copy_sample = Inr 0x9FFF"
    "get_phys_address 0x1000 0x80001000 copy_sample = Inr 0x7000"
    "get_phys_address 0x1000 0x80001001 copy_sample = Inr 0x7001"
    by (simp_all add: get_phys_address_def t d table_entry_fields aligned_samples presence_mapped e)
  then show ?thesis by (simp add: mapped_at_def copy_place_def below_4)
qed

lemma copy_place_facts:
  "inj_on copy_place {..<4}" "\<forall>i < 4. \<forall>j < 4. copy_place i \<noteq> 0x200 + of_nat j"
  "\<forall>i < 4. \<forall>j < 4. copy_place i \<noteq> 0x100 + of_nat j"
proof -
  have "\<forall>i < 4. \<forall>j < 4. copy_place i = copy_place j \<longrightarrow> i = j"
    unfolding below_4 by (simp add: copy_place_def)
  then show "inj_on copy_place {..<4}" by (simp add: inj_on_def)
  show "\<forall>i < 4. \<forall>j < 4. copy_place i \<noteq> 0x200 + of_nat j" "\<forall>i < 4. \<forall>j < 4. copy_place i \<noteq> 0x100 + of_nat j"
    unfolding below_4 by (simp_all add: copy_place_def)
qed

lemma copy_sample_range: "unat (0x80000FFE :: u32) + 4 < 2 ^ 32" by simp

theorem copy_in_transfers_witness:
  "\<exists>m. copy_in 0x1000 False 0x80000FFE 0x100 (of_nat 4) copy_sample = Inr (True, copy_sample\<lparr>vm_ram := m\<rparr>)
    \<and> m (copy_place 3) = vm_ram copy_sample (0x100 + of_nat 3)"
  using copy_in_transfers [OF copy_sample_mapped copy_sample_range copy_place_facts(1,3)]
  unfolding below_4 by fastforce

theorem copy_in_then_out_witness:
  "\<exists>s1 s2. copy_in 0x1000 False 0x80000FFE 0x100 (of_nat 4) copy_sample = Inr (True, s1)
    \<and> copy_out 0x1000 0x200 0x80000FFE (of_nat 4) s1 = Inr (True, s2)
    \<and> vm_ram s2 (0x200 + of_nat 3) = vm_ram copy_sample (0x100 + of_nat 3)"
proof -
  have nz: "(0x80000FFE :: u32) \<noteq> 0" "(0x100 :: u32) \<noteq> 0" "(0x200 :: u32) \<noteq> 0" by simp_all
  show ?thesis
    using copy_in_then_out [OF copy_sample_mapped copy_sample_range copy_place_facts(1,3,2) nz]
    unfolding below_4 by blast
qed

end
