(* ===== verification/Space_Reset.thy ===== *)
theory Space_Reset
  imports Virtual_Mm
begin

text \<open>
  What reset_address_space of a process (kern/arch/x86/scheduler/process.cpp) leaves of an
  address space, when it works on the space of the running process.
\<close>

section \<open>Entries only become absent\<close>

definition absent_or_same :: "page_table \<Rightarrow> page_table \<Rightarrow> bool" where
  "absent_or_same t t' \<longleftrightarrow> (\<forall>i. t' i = t i \<or> t' i = put_bit 0 False (t i))"

definition shrinks :: "vm_state \<Rightarrow> vm_state \<Rightarrow> bool" where
  "shrinks s s' \<longleftrightarrow> vm_ram s' = vm_ram s
     \<and> (\<forall>a. page_tables s a = None \<longrightarrow> page_tables s' a = None)
     \<and> (\<forall>a t. page_tables s a = Some t \<longrightarrow> (\<exists>t'. page_tables s' a = Some t' \<and> absent_or_same t t'))"

lemma put_bit_again: "put_bit n b (put_bit n c w) = put_bit n b w"
  by (rule bit_word_eqI) (auto simp: bit_put_bit)

lemma absent_or_same_trans: "absent_or_same t t' \<Longrightarrow> absent_or_same t' t'' \<Longrightarrow> absent_or_same t t''"
  unfolding absent_or_same_def by (metis put_bit_again)

lemma absent_or_same_refl [simp]: "absent_or_same t t"
  by (simp add: absent_or_same_def)

lemma shrinks_refl [simp]: "shrinks s s"
  by (auto simp: shrinks_def)

lemma shrinksD:
  "shrinks s s' \<Longrightarrow> page_tables s x = Some t \<Longrightarrow> \<exists>t'. page_tables s' x = Some t' \<and> absent_or_same t t'"
  by (simp add: shrinks_def)

lemma shrinks_trans: "shrinks s s1 \<Longrightarrow> shrinks s1 s2 \<Longrightarrow> shrinks s s2"
proof -
  assume a: "shrinks s s1" and b: "shrinks s1 s2"
  have "\<exists>t'. page_tables s2 x = Some t' \<and> absent_or_same t t'" if x: "page_tables s x = Some t" for x t
  proof -
    obtain t1 where t1: "page_tables s1 x = Some t1" "absent_or_same t t1" using shrinksD [OF a x] by blast
    obtain t2 where "page_tables s2 x = Some t2" "absent_or_same t1 t2" using shrinksD [OF b t1(1)] by blast
    then show ?thesis using absent_or_same_trans [OF t1(2)] by blast
  qed
  then show ?thesis using a b unfolding shrinks_def by simp
qed

lemma shrinks_mem [simp]: "shrinks s (s\<lparr>vm_mem := m\<rparr>)"
  by (auto simp: shrinks_def)

lemma shrinks_set_entry:
  assumes "table_at s T = Inr t"
  shows "shrinks s (set_entry T p (put_bit 0 False (t p)) s)"
proof -
  have "page_tables s T = Some t" using assms by (auto simp: table_at_def split: if_splits option.splits)
  then show ?thesis by (auto simp: shrinks_def set_entry_def absent_or_same_def split: option.splits)
qed

lemma shrinks_table:
  assumes "shrinks s s'" and "table_at s a = Inr t"
  obtains t' where "table_at s' a = Inr t'" "absent_or_same t t'"
proof -
  have "a \<noteq> 0" "page_tables s a = Some t"
    using assms(2) by (auto simp: table_at_def split: if_splits option.splits)
  moreover from this obtain t' where "page_tables s' a = Some t'" "absent_or_same t t'"
    using shrinksD [OF assms(1)] by blast
  ultimately show ?thesis by (intro that [of t']) (simp_all add: table_at_def)
qed

lemma presence_put: "\<not> presence (put_bit 0 False e)"
  by (simp add: presence_def bit_put_bit)

lemma absent_stays: "absent_or_same t t' \<Longrightarrow> \<not> presence (t i) \<Longrightarrow> \<not> presence (t' i)"
  unfolding absent_or_same_def using presence_put by metis

text \<open>A virtual address nothing is mapped to, by the tables.\<close>

definition unmapped :: "ptr \<Rightarrow> u32 \<Rightarrow> vm_state \<Rightarrow> bool" where
  "unmapped pt w s \<longleftrightarrow> (\<exists>dir. table_at s pt = Inr dir \<and>
     (\<not> presence (dir (va_dir w)) \<or> \<not> page_size_flag (dir (va_dir w)) \<and>
        (\<exists>t. table_at s (entry_address (dir (va_dir w))) = Inr t \<and> \<not> presence (t (va_page w)))))"

lemma unmapped_phys: "unmapped pt w s \<Longrightarrow> get_phys_address pt w s = Inr 0"
  by (auto simp: unmapped_def get_phys_address_def Let_def)

lemma page_size_put: "page_size_flag (put_bit 0 b e) = page_size_flag e"
  by (simp add: page_size_flag_def bit_put_bit)

lemma direct_put: "direct_mapped (put_bit 0 b e) = direct_mapped e"
  by (simp add: direct_mapped_def bit_put_bit)

lemma unmapped_shrinks:
  assumes "unmapped pt w s" and "shrinks s s'"
  shows "unmapped pt w s'"
proof -
  obtain dir where dir: "table_at s pt = Inr dir" and
    or: "\<not> presence (dir (va_dir w)) \<or> \<not> page_size_flag (dir (va_dir w)) \<and>
        (\<exists>t. table_at s (entry_address (dir (va_dir w))) = Inr t \<and> \<not> presence (t (va_page w)))"
    using assms(1) by (auto simp: unmapped_def)
  obtain dir' where dir': "table_at s' pt = Inr dir'" "absent_or_same dir dir'"
    using shrinks_table [OF assms(2) dir] .
  show ?thesis
  proof (cases "presence (dir' (va_dir w))")
    case False
    then show ?thesis using dir' by (auto simp: unmapped_def)
  next
    case True
    then have same: "dir' (va_dir w) = dir (va_dir w)"
      using dir'(2) presence_put unfolding absent_or_same_def by metis
    then obtain t where t: "\<not> page_size_flag (dir (va_dir w))" "table_at s (entry_address (dir (va_dir w))) = Inr t"
      "\<not> presence (t (va_page w))" using or True by auto
    obtain t' where "table_at s' (entry_address (dir (va_dir w))) = Inr t'" "absent_or_same t t'"
      using shrinks_table [OF assms(2) t(2)] .
    then show ?thesis using t absent_stays dir' same by (auto simp: unmapped_def)
  qed
qed

section \<open>Freeing the pages of the running process\<close>

lemma kfree_page:
  assumes "kfree a False (Some pt) s = Inr (b, s')"
  shows "shrinks s s' \<and> (b \<longrightarrow> unmapped pt a s')"
proof -
  obtain real where real: "get_phys_address pt a s = Inr real"
    using assms by (auto simp: kfree_def virtual_free_def bind_result_Inr_iff)
  show ?thesis
  proof (cases "real = 0")
    case True
    then show ?thesis using assms real by (simp add: kfree_def virtual_free_def)
  next
    case False
    obtain f m where fp: "free_page page_size real (vm_mem s) = (f, m)" by (metis surj_pair)
    let ?s1 = "s\<lparr>vm_mem := m\<rparr>"
    show ?thesis
    proof (cases f)
      case no: False
      then have "s' = ?s1" "\<not> b" using assms real False fp by (simp_all add: kfree_def virtual_free_def)
      then show ?thesis by simp
    next
      case True
      then have rm: "remove_virtual_memory pt a ?s1 = Inr (b, s')"
        using assms real False fp by (simp add: kfree_def virtual_free_def)
      then obtain dir where dir: "table_at ?s1 pt = Inr dir"
        by (auto simp: remove_virtual_memory_def bind_result_Inr_iff)
      let ?e = "dir (va_dir a)"
      show ?thesis
      proof (cases "presence ?e \<and> \<not> page_size_flag ?e")
        case False
        then show ?thesis using rm dir by (auto simp: remove_virtual_memory_def Let_def split: if_splits)
      next
        case e: True
        obtain t where t: "table_at ?s1 (entry_address ?e) = Inr t"
          using rm dir e by (auto simp: remove_virtual_memory_def bind_result_Inr_iff Let_def)
        show ?thesis
        proof (cases "presence (t (va_page a))")
          case False
          then have "s' = ?s1" "\<not> b" using rm dir e t by (simp_all add: remove_virtual_memory_def)
          then show ?thesis by simp
        next
          case True
          let ?s2 = "set_entry (entry_address ?e) (va_page a) (put_bit 0 False (t (va_page a))) ?s1"
          have s': "s' = ?s2" using rm dir e t True by (simp add: remove_virtual_memory_def)
          have sh: "shrinks ?s1 ?s2" by (rule shrinks_set_entry [OF t])
          obtain dir' where dir': "table_at ?s2 pt = Inr dir'" "absent_or_same dir dir'"
            using shrinks_table [OF sh dir] .
          have "table_at ?s2 (entry_address ?e) = Inr (t(va_page a := put_bit 0 False (t (va_page a))))"
            using t by (auto simp: table_at_def set_entry_def split: if_splits option.splits)
          then have "unmapped pt a ?s2"
            using dir' e presence_put unfolding unmapped_def absent_or_same_def by (metis fun_upd_same)
          then show ?thesis using s' sh shrinks_trans [OF shrinks_mem sh] by simp
        qed
      qed
    qed
  qed
qed


section \<open>The loops\<close>

text \<open>The table the \<open>d\<close>-th entry of a directory names.\<close>

definition backed :: "ptr \<Rightarrow> nat \<Rightarrow> ptr \<Rightarrow> vm_state \<Rightarrow> bool" where
  "backed pt d tbl s \<longleftrightarrow>
     (\<exists>dir. table_at s pt = Inr dir \<and> \<not> page_size_flag (dir d) \<and> entry_address (dir d) = tbl)"

lemma backed_shrinks:
  assumes "backed pt d tbl s" and "shrinks s s'"
  shows "backed pt d tbl s'"
proof -
  obtain dir where dir: "table_at s pt = Inr dir" "\<not> page_size_flag (dir d)" "entry_address (dir d) = tbl"
    using assms(1) by (auto simp: backed_def)
  obtain dir' where dir': "table_at s' pt = Inr dir'" "absent_or_same dir dir'"
    using shrinks_table [OF assms(2) dir(1)] .
  have "dir' d = dir d \<or> dir' d = put_bit 0 False (dir d)" using dir'(2) by (simp add: absent_or_same_def)
  then have "\<not> page_size_flag (dir' d) \<and> entry_address (dir' d) = tbl"
    using dir(2,3) page_size_put entry_address_put_bit by auto
  then show ?thesis using dir'(1) by (auto simp: backed_def)
qed

lemma backed_unmapped:
  assumes "backed pt d tbl s" and "table_at s tbl = Inr t" and "\<not> presence (t p)" and "d < 1024" and "p < 1024"
  shows "unmapped pt (va_make d p 0) s"
  using assms va_make_fields [OF assms(4,5), of 0] by (auto simp: backed_def unmapped_def)

lemma reset_entries_unmap:
  assumes "reset_entries (Some pt) tbl d ps success s = Inr (b, s')"
  shows "shrinks s s' \<and> (b \<longrightarrow> success) \<and> (b \<and> backed pt d tbl s \<and> d < 1024 \<longrightarrow>
    (\<forall>t. table_at s tbl = Inr t \<longrightarrow> (\<forall>p \<in> set ps. p < 1024 \<and> \<not> direct_mapped (t p) \<longrightarrow> unmapped pt (va_make d p 0) s')))"
  using assms
proof (induction ps arbitrary: success s)
  case Nil
  then show ?case by simp
next
  case (Cons p ps)
  obtain t where t: "table_at s tbl = Inr t" using Cons.prems by (auto simp: bind_result_Inr_iff)
  obtain s1 f where s1: "shrinks s s1" "reset_entries (Some pt) tbl d ps f s1 = Inr (b, s')" "f \<longrightarrow> success"
    and here: "f \<and> backed pt d tbl s \<and> d < 1024 \<and> p < 1024 \<and> \<not> direct_mapped (t p) \<longrightarrow> unmapped pt (va_make d p 0) s1"
  proof (cases "presence (t p) \<and> \<not> direct_mapped (t p)")
    case True
    then obtain c s1 where k: "kfree (va_make d p 0) False (Some pt) s = Inr (c, s1)"
      "reset_entries (Some pt) tbl d ps (success \<and> c) s1 = Inr (b, s')"
      using Cons.prems t by (auto simp: bind_result_Inr_iff)
    then show ?thesis using kfree_page [OF k(1)] by (intro that [of s1 "success \<and> c"]) auto
  next
    case False
    then have "reset_entries (Some pt) tbl d ps success s = Inr (b, s')"
      using Cons.prems t by (simp add: if_not_P [OF False] del: de_Morgan_conj)
    then show ?thesis using False t backed_unmapped [of pt d tbl s t p] by (intro that [of s success]) auto
  qed
  note ih = Cons.IH [OF s1(2)]
  have sh: "shrinks s1 s'" using ih by blast
  show ?case
  proof (intro conjI impI allI ballI)
    show "shrinks s s'" using s1(1) sh by (rule shrinks_trans)
    show "b \<Longrightarrow> success" using ih s1(3) by blast
    fix t' q
    assume a: "b \<and> backed pt d tbl s \<and> d < 1024" "table_at s tbl = Inr t'" "q \<in> set (p # ps)"
      "q < 1024 \<and> \<not> direct_mapped (t' q)"
    then have t': "t' = t" using t by simp
    show "unmapped pt (va_make d q 0) s'"
    proof (cases "q = p")
      case True
      have "f" using ih a(1) by blast
      then have "unmapped pt (va_make d p 0) s1" using here a t' True by simp
      then show ?thesis using True unmapped_shrinks sh by blast
    next
      case False
      obtain t1 where t1: "table_at s1 tbl = Inr t1" "absent_or_same t t1"
        using shrinks_table [OF s1(1) t] .
      have "t1 q = t q \<or> t1 q = put_bit 0 False (t q)" using t1(2) by (simp add: absent_or_same_def)
      then have "\<not> direct_mapped (t1 q)" using a(4) t' by (auto simp: direct_put)
      then show ?thesis using ih a False t1(1) backed_shrinks [OF _ s1(1)] by auto
    qed
  qed
qed

lemma reset_dirs_unmap:
  assumes "reset_dirs (Some pt) pt ds success s = Inr (b, s')" and "\<forall>d \<in> set ds. d < 1024"
  shows "shrinks s s' \<and> (b \<longrightarrow> success) \<and> (b \<longrightarrow>
    (\<forall>dir d t p. table_at s pt = Inr dir \<and> d \<in> set ds \<and> \<not> direct_mapped (dir d) \<and> \<not> page_size_flag (dir d)
       \<and> table_at s (entry_address (dir d)) = Inr t \<and> p < 1024 \<and> \<not> direct_mapped (t p)
       \<longrightarrow> unmapped pt (va_make d p 0) s'))"
  using assms
proof (induction ds arbitrary: success s)
  case Nil
  then show ?case by simp
next
  case (Cons d ds)
  obtain dir where dir: "table_at s pt = Inr dir" using Cons.prems by (auto simp: bind_result_Inr_iff)
  obtain s1 f where s1: "shrinks s s1" "reset_dirs (Some pt) pt ds f s1 = Inr (b, s')" "f \<longrightarrow> success"
    and here: "f \<and> \<not> direct_mapped (dir d) \<and> \<not> page_size_flag (dir d) \<longrightarrow>
      (\<forall>t p. table_at s (entry_address (dir d)) = Inr t \<and> p < 1024 \<and> \<not> direct_mapped (t p)
         \<longrightarrow> unmapped pt (va_make d p 0) s1)"
  proof (cases "presence (dir d) \<and> \<not> direct_mapped (dir d)")
    case True
    then obtain c s1 where r: "reset_entries (Some pt) (entry_address (dir d)) d [0..<1024] success s = Inr (c, s1)"
      "reset_dirs (Some pt) pt ds c s1 = Inr (b, s')"
      using Cons.prems(1) dir by (auto simp: bind_result_Inr_iff simp del: upt_conv_Cons upt_Suc)
    have "backed pt d (entry_address (dir d)) s" if "\<not> page_size_flag (dir d)"
      using dir that by (auto simp: backed_def)
    then show ?thesis using reset_entries_unmap [OF r(1)] Cons.prems(2) r(2) by (intro that [of s1 c]) auto
  next
    case False
    then have "reset_dirs (Some pt) pt ds success s = Inr (b, s')"
      using Cons.prems(1) dir by (simp add: if_not_P [OF False] del: de_Morgan_conj)
    moreover have "unmapped pt (va_make d p 0) s" if "\<not> direct_mapped (dir d)" "p < 1024" for p
      using False dir that Cons.prems(2) va_make_fields [of d p 0] by (auto simp: unmapped_def)
    ultimately show ?thesis by (intro that [of s success]) auto
  qed
  note ih = Cons.IH [OF s1(2)]
  have ds: "\<forall>d \<in> set ds. d < 1024" using Cons.prems(2) by simp
  have sh: "shrinks s1 s'" using ih [OF ds] by blast
  show ?case
  proof (intro conjI impI allI)
    show "shrinks s s'" using s1(1) sh by (rule shrinks_trans)
    show "b \<Longrightarrow> success" using ih [OF ds] s1(3) by blast
    fix dir' c t p
    assume b: b and a: "table_at s pt = Inr dir' \<and> c \<in> set (d # ds) \<and> \<not> direct_mapped (dir' c) \<and> \<not> page_size_flag (dir' c)
       \<and> table_at s (entry_address (dir' c)) = Inr t \<and> p < 1024 \<and> \<not> direct_mapped (t p)"
    then have dd: "dir' = dir" using dir by simp
    show "unmapped pt (va_make c p 0) s'"
    proof (cases "c = d")
      case True
      have "f" using ih [OF ds] b by blast
      then have "unmapped pt (va_make d p 0) s1" using here a dd True by auto
      then show ?thesis using True unmapped_shrinks sh by blast
    next
      case False
      obtain dir1 where d1: "table_at s1 pt = Inr dir1" "absent_or_same dir dir1"
        using shrinks_table [OF s1(1) dir] .
      have "dir1 c = dir c \<or> dir1 c = put_bit 0 False (dir c)" using d1(2) by (simp add: absent_or_same_def)
      then have e: "\<not> direct_mapped (dir1 c)" "\<not> page_size_flag (dir1 c)" "entry_address (dir1 c) = entry_address (dir c)"
        using a dd by (auto simp: direct_put page_size_put entry_address_put_bit)
      have "table_at s (entry_address (dir c)) = Inr t" using a dd by simp
      then obtain t1 where t1: "table_at s1 (entry_address (dir c)) = Inr t1" "absent_or_same t t1"
        using shrinks_table [OF s1(1)] by blast
      have "t1 p = t p \<or> t1 p = put_bit 0 False (t p)" using t1(2) by (simp add: absent_or_same_def)
      then have "\<not> direct_mapped (t1 p)" using a by (auto simp: direct_put)
      then show ?thesis using ih [OF ds] b a False d1(1) e t1(1) by auto
    qed
  qed
qed


lemma reset_done:
  assumes "reset_address_space (Some pt) pt s = Inr (True, s')"
    and "table_at s pt = Inr dir" and "\<not> direct_mapped (dir (va_dir w))" and "\<not> page_size_flag (dir (va_dir w))"
    and "table_at s (entry_address (dir (va_dir w))) = Inr t" and "\<not> direct_mapped (t (va_page w))"
  shows "get_phys_address pt w s' = Inr 0 \<and> vm_ram s' = vm_ram s"
proof -
  have r: "reset_dirs (Some pt) pt [0..<1024] True s = Inr (True, s')"
    using assms(1) by (simp add: reset_address_space_def)
  have "unmapped pt (va_make (va_dir w) (va_page w) 0) s'"
    using reset_dirs_unmap [OF r] assms(2-) va_dir_lt [of w] va_page_lt [of w] by auto
  then have "unmapped pt w s'"
    by (simp add: unmapped_def va_make_fields [OF va_dir_lt va_page_lt])
  moreover have "vm_ram s' = vm_ram s" using reset_dirs_unmap [OF r] by (auto simp: shrinks_def)
  ultimately show ?thesis by (simp add: unmapped_phys)
qed


section \<open>Example\<close>

lemma reset_entries_absent:
  "table_at s tbl = Inr t \<Longrightarrow> \<forall>p \<in> set ps. \<not> presence (t p) \<Longrightarrow> reset_entries c tbl d ps b s = Inr (b, s)"
  by (induction ps) simp_all

lemma reset_dirs_absent:
  "table_at s this = Inr dir \<Longrightarrow> \<forall>d \<in> set ds. \<not> presence (dir d)
   \<Longrightarrow> reset_dirs c this (ds @ es) b s = reset_dirs c this es b s"
  by (induction ds) simp_all

text \<open>A space with one page, at 0x80400000.\<close>

definition reset_sample :: vm_state where
  "reset_sample = vm_sample\<lparr>page_tables :=
     [0x1000 \<mapsto> (\<lambda>i. if i = 513 then table_entry 0x3000 else 0),
      0x3000 \<mapsto> (\<lambda>i. if i = 0 then mapped_entry 0x13000 0 else 0)]\<rparr>"

lemma reset_sample_tables:
  "table_at reset_sample 0x1000 = Inr (\<lambda>i. if i = 513 then table_entry 0x3000 else 0)"
  "table_at reset_sample 0x3000 = Inr (\<lambda>i. if i = 0 then mapped_entry 0x13000 0 else 0)"
  by (simp_all add: reset_sample_def table_at_def)

lemma direct_entries: "\<not> direct_mapped (table_entry a)" "\<not> direct_mapped (mapped_entry a e)"
  by (simp_all add: direct_mapped_def table_entry_def mapped_entry_def bit_put_frame bit_put_bit)

lemma reset_sample_page:
  "va_make 513 0 0 = 0x80400000" "va_dir 0x80400000 = 513" "va_page 0x80400000 = 0" "va_offset 0x80400000 = 0"
  by (simp_all add: va_make_def va_dir_def va_page_def va_offset_def)

lemma reset_sample_mapped: "get_phys_address 0x1000 0x80400000 reset_sample = Inr 0x13000"
proof -
  have "mapped_entry 0x13000 0 AND 0xFFFFF000 = 0x13000"
    unfolding address_mapped by (simp add: entry_address_def)
  then show ?thesis
    by (simp add: get_phys_address_def reset_sample_tables reset_sample_page table_entry_fields aligned_samples presence_mapped)
qed

lemma reset_sample_free:
  "\<exists>m. kfree 0x80400000 False (Some 0x1000) reset_sample
     = Inr (True, set_entry 0x3000 0 (put_bit 0 False (mapped_entry 0x13000 0)) (reset_sample\<lparr>vm_mem := m\<rparr>))"
proof -
  have v: "vm_mem reset_sample = pool_sample" by (simp add: reset_sample_def vm_sample_def)
  have n: "3 < page_count pool_sample" and a: "page_addr page_size pool_sample 3 = 0x13000"
    by (simp_all add: pool_sample_addr page_size_def)
  have "\<exists>m. page_free page_size 0x13000 pool_sample = (True, m)"
    using page_free_eq [OF pool_sample_inv n] pool_sample_used a by (auto simp: page_size_def)
  then obtain m where "free_page page_size 0x13000 (vm_mem reset_sample) = (True, m)"
    unfolding v by (auto simp: free_page_def pool_sample_def)
  moreover have "table_at (reset_sample\<lparr>vm_mem := m\<rparr>) = table_at reset_sample"
    by (simp add: table_at_def fun_eq_iff)
  ultimately have "kfree 0x80400000 False (Some 0x1000) reset_sample
     = Inr (True, set_entry 0x3000 0 (put_bit 0 False (mapped_entry 0x13000 0)) (reset_sample\<lparr>vm_mem := m\<rparr>))"
    using reset_sample_mapped
    by (simp add: kfree_def virtual_free_def remove_virtual_memory_def reset_sample_tables reset_sample_page
        table_entry_fields aligned_samples presence_mapped)
  then show ?thesis ..
qed

lemma reset_sample_done: "\<exists>s'. reset_address_space (Some 0x1000) 0x1000 reset_sample = Inr (True, s')"
proof -
  obtain m where k: "kfree (va_make 513 0 0) False (Some 0x1000) reset_sample
     = Inr (True, set_entry 0x3000 0 (put_bit 0 False (mapped_entry 0x13000 0)) (reset_sample\<lparr>vm_mem := m\<rparr>))" (is "_ = Inr (True, ?s)")
    using reset_sample_free reset_sample_page(1) by auto
  have T: "table_at ?s 0x1000 = Inr (\<lambda>i. if i = 513 then table_entry 0x3000 else 0)"
    "table_at ?s 0x3000 = Inr (\<lambda>i. if i = 0 then put_bit 0 False (mapped_entry 0x13000 0) else 0)"
    by (simp_all add: reset_sample_def table_at_def set_entry_def fun_eq_iff)
  obtain ps :: "nat list" where ps: "[0..<1024] = 0 # ps" "set ps = {1..<1024}"
    using upt_conv_Cons [of 0 1024] that [of "[Suc 0..<1024]"] by (simp del: upt_rec_numeral)
  obtain ds es :: "nat list" where ds: "[0..<1024] = ds @ 513 # es" "set ds = {0..<513}" "set es = {514..<1024}"
    using upt_add_eq_append [of 0 513 511] upt_conv_Cons [of 513 1024] that [of "[0..<513]" "[514..<1024]"]
    by (simp del: upt_rec_numeral)
  have "reset_entries (Some 0x1000) 0x3000 513 ps True ?s = Inr (True, ?s)"
    using ps(2) by (intro reset_entries_absent [OF T(2)]) (auto simp: presence_bits)
  then have "reset_entries (Some 0x1000) 0x3000 513 [0..<1024] True reset_sample = Inr (True, ?s)"
    unfolding ps(1) using k by (simp add: reset_sample_tables presence_mapped direct_entries)
  moreover have "reset_dirs (Some 0x1000) 0x1000 (es @ []) True ?s = Inr (True, ?s)"
    using ds(3) by (subst reset_dirs_absent [OF T(1)]) (auto simp: presence_bits)
  ultimately have "reset_dirs (Some 0x1000) 0x1000 (513 # es) True reset_sample = Inr (True, ?s)"
    by (simp add: reset_sample_tables table_entry_fields aligned_samples direct_entries del: upt_rec_numeral)
  then have "reset_address_space (Some 0x1000) 0x1000 reset_sample = Inr (True, ?s)"
    unfolding reset_address_space_def ds(1)
    using ds(2) by (subst reset_dirs_absent [OF reset_sample_tables(1)]) (auto simp: presence_bits)
  then show ?thesis by blast
qed


end
