(* ===== verification/Elf_Loader.thy ===== *)
theory Elf_Loader
  imports Scheduler Copy_Memory Space_Reset Byte_Fields Fs_Boot
begin

text \<open>
  The loader of ELF files (kern/elf/i_elf_loader.cpp, kern/include/elf/elf.h,
  kern/arch/x86/elf/elf_loader.cpp), which the system call execve runs: it replaces the address
  space of the running process by the segments of a file and enters it.
\<close>

section \<open>The kernel's state\<close>

text \<open>What the scheduler keeps, and the file system.\<close>

record ('drv, 'con, 'w) system =
  sched :: scheduler
  files :: "('drv, 'con, 'w) vfs"

section \<open>Headers\<close>

record elf32_ehdr =
  e_ident :: "u8 list"
  e_type :: u16
  e_machine :: u16
  e_version :: u32
  e_entry :: u32
  e_phoff :: u32
  e_shoff :: u32
  e_flags :: u32
  e_ehsize :: u16
  e_phentsize :: u16
  e_phnum :: u16
  e_shentsize :: u16
  e_shnum :: u16
  e_shstrndx :: u16

definition elf32_ehdr_of :: "u8 list \<Rightarrow> elf32_ehdr" where
  "elf32_ehdr_of bs =
     \<lparr>e_ident = take 16 bs, e_type = le16 bs 16, e_machine = le16 bs 18, e_version = le32 bs 20,
      e_entry = le32 bs 24, e_phoff = le32 bs 28, e_shoff = le32 bs 32, e_flags = le32 bs 36,
      e_ehsize = le16 bs 40, e_phentsize = le16 bs 42, e_phnum = le16 bs 44,
      e_shentsize = le16 bs 46, e_shnum = le16 bs 48, e_shstrndx = le16 bs 50\<rparr>"

record elf32_phdr =
  p_type :: u32
  p_offset :: u32
  p_vaddr :: u32
  p_paddr :: u32
  p_filesz :: u32
  p_memsz :: u32
  p_flags :: u32
  p_align :: u32

definition elf32_phdr_of :: "u8 list \<Rightarrow> elf32_phdr" where
  "elf32_phdr_of bs =
     \<lparr>p_type = le32 bs 0, p_offset = le32 bs 4, p_vaddr = le32 bs 8, p_paddr = le32 bs 12,
      p_filesz = le32 bs 16, p_memsz = le32 bs 20, p_flags = le32 bs 24, p_align = le32 bs 28\<rparr>"

definition sizeof_ehdr :: u32 where "sizeof_ehdr = 52"

definition sizeof_phdr :: u64 where "sizeof_phdr = 32"

definition ELFMAG :: "u8 list" where "ELFMAG = [0x7F, 0x45, 0x4C, 0x46]"

definition PT_NULL :: u32 where "PT_NULL = 0"

definition PT_LOAD :: u32 where "PT_LOAD = 1"

section \<open>Segments\<close>

definition INITIAL_ELF_STACKSIZE :: u32 where "INITIAL_ELF_STACKSIZE = 4096"

definition INITIAL_STACK_BASE :: ptr where "INITIAL_STACK_BASE = 0 - INITIAL_ELF_STACKSIZE"

definition INITIAL_STACK_POINTER :: ptr where "INITIAL_STACK_POINTER = 0 - 4"

text \<open>The alignment and the access rights of a segment are only logged.\<close>

definition allocate_area ::
  "memory_area list \<Rightarrow> ptr \<Rightarrow> ptr \<Rightarrow> u64 \<Rightarrow> scheduler \<Rightarrow> (bool \<times> scheduler) result" where
  "allocate_area areas process vaddr sz s =
     bind_result (proc_at s process) (\<lambda>p.
       let area_end = ucast vaddr + sz;
           q = (if (ucast (heap_top p) :: u64) < area_end then p\<lparr>heap_top := ucast area_end\<rparr> else p);
           s1 = put_process process q s
       in bind_result (virtual_vmalloc areas (ucast sz) (ptable q) vaddr (memory s1)) (\<lambda>(ret, v).
            Inr (vaddr = ret, s1\<lparr>memory := v\<rparr>)))"

definition allocate_stack :: "memory_area list \<Rightarrow> ptr \<Rightarrow> scheduler \<Rightarrow> (bool \<times> scheduler) result" where
  "allocate_stack areas process s =
     bind_result (proc_at s process) (\<lambda>p.
       bind_result (virtual_vmalloc areas INITIAL_ELF_STACKSIZE (ptable p) INITIAL_STACK_BASE (memory s)) (\<lambda>(ret, v).
         Inr (ret = INITIAL_STACK_BASE, s\<lparr>memory := v\<rparr>)))"

text \<open>
  new takes kernel memory and throws when there is none, which the dispatcher of the system
  calls answers with die. Kernel memory is mapped one to one, so its bytes are those of the
  memory at the same address.
\<close>

definition operator_new :: "memory_area list \<Rightarrow> u32 \<Rightarrow> vm_state \<Rightarrow> (ptr \<times> vm_state) result option" where
  "operator_new areas n v =
     map_option (\<lambda>r. bind_result r (\<lambda>(p, v'). if p = 0 then Inl Die else Inr (p, v')))
       (kmalloc areas (if n = 0 then 1 else n) True False 0 v)"

definition get_bytes :: "ptr \<Rightarrow> nat \<Rightarrow> (ptr \<Rightarrow> u8) \<Rightarrow> u8 list" where
  "get_bytes a n m = map (\<lambda>i. m (a + of_nat i)) [0..<n]"

definition put_bytes :: "ptr \<Rightarrow> u8 list \<Rightarrow> (ptr \<Rightarrow> u8) \<Rightarrow> ptr \<Rightarrow> u8" where
  "put_bytes a bs m = (\<lambda>x. if unat (x - a) < length bs then bs ! unat (x - a) else m x)"

text \<open>What copy_in returns is not looked at.\<close>

definition copy_to_area ::
  "('drv, 'con, 'w) vfs_env \<Rightarrow> memory_area list \<Rightarrow> ptr option \<Rightarrow> ptr \<Rightarrow> ('drv, 'con, 'w) vnode \<Rightarrow> u64 \<Rightarrow> ptr \<Rightarrow> u64
   \<Rightarrow> ('drv, 'con, 'w) system \<Rightarrow> (bool \<times> ('drv, 'con, 'w) system) result option" where
  "copy_to_area env areas current pt node offset vaddr sz st =
     bind_loop (operator_new areas (ucast sz) (memory (sched st))) (\<lambda>(buf, v1).
     bind_loop (v_read env node offset (ucast sz) (get_bytes buf (unat (ucast sz :: u32)) (vm_ram v1)) (world (files st))) (\<lambda>(bs, w).
       let v2 = v1\<lparr>vm_ram := put_bytes buf bs (vm_ram v1)\<rparr>
       in Some (bind_result (copy_in pt False vaddr buf (ucast sz) v2) (\<lambda>(_, v3).
            bind_result (kfree buf True current v3) (\<lambda>(_, v4).
              Inr (True, st\<lparr>sched := (sched st)\<lparr>memory := v4\<rparr>, files := (files st)\<lparr>world := w\<rparr>\<rparr>))))))"

text \<open>
  One program header: an area is allocated for every type, and only those to load are copied.
\<close>

definition load_segment ::
  "('drv, 'con, 'w) vfs_env \<Rightarrow> memory_area list \<Rightarrow> ptr option \<Rightarrow> ptr \<Rightarrow> ('drv, 'con, 'w) vnode \<Rightarrow> elf32_phdr \<Rightarrow> bool
   \<Rightarrow> ('drv, 'con, 'w) system \<Rightarrow> (bool \<times> ('drv, 'con, 'w) system) result option" where
  "load_segment env areas current process node p success st =
     bind_loop (Some (allocate_area areas process (p_vaddr p) (ucast (p_memsz p)) (sched st))) (\<lambda>(b, s1).
       let success1 = (success \<and> b); st1 = st\<lparr>sched := s1\<rparr>
       in if p_type p = PT_NULL then Some (Inr (success1, st1))
          else if p_type p = PT_LOAD
          then bind_loop (Some (proc_at s1 process)) (\<lambda>q.
                 bind_loop (copy_to_area env areas current (ptable q) node (ucast (p_offset p)) (p_vaddr p)
                              (ucast (p_filesz p)) st1) (\<lambda>(b2, st2).
                   Some (Inr (success1 \<and> b2, st2))))
          else Some (Inr (False, st1)))"

text \<open>
  The loop over the program headers, the \<open>i\<close>-th at \<open>offset\<close>; \<open>junk\<close> is what the memory of the
  header holds before it is read.
\<close>

fun load_segments ::
  "('drv, 'con, 'w) vfs_env \<Rightarrow> memory_area list \<Rightarrow> (nat \<Rightarrow> u8 list) \<Rightarrow> ptr option \<Rightarrow> ptr \<Rightarrow> ('drv, 'con, 'w) vnode
   \<Rightarrow> nat \<Rightarrow> u64 \<Rightarrow> bool \<Rightarrow> ('drv, 'con, 'w) system \<Rightarrow> (bool \<times> ('drv, 'con, 'w) system) result option" where
  "load_segments env areas junk current process node 0 offset success st = Some (Inr (success, st))"
| "load_segments env areas junk current process node (Suc n) offset success st =
     bind_loop (v_read env node offset (ucast sizeof_phdr) (junk n) (world (files st))) (\<lambda>(bs, w).
     bind_loop (load_segment env areas current process node (elf32_phdr_of bs) success
                  (st\<lparr>files := (files st)\<lparr>world := w\<rparr>\<rparr>)) (\<lambda>(b, st1).
       load_segments env areas junk current process node n (offset + sizeof_phdr) b st1))"

section \<open>Loading\<close>

text \<open>
  jump_in installs the page table and leaves the kernel with an interrupt return; it comes back
  only from a page table that is not aligned, where page_table_ptr dies.
\<close>

datatype exec_result = Returned bool | Entered

definition jump_in :: "ptr \<Rightarrow> ptr \<Rightarrow> ptr \<Rightarrow> scheduler \<Rightarrow> scheduler result" where
  "jump_in pt stack_pointer entry_point s =
     bind_result (page_table_ptr pt) (\<lambda>cr3.
       Inr (s\<lparr>cpu_state := (cpu_state s)\<lparr>r_esp := stack_pointer, r_eip := entry_point, r_cr3 := cr3\<rparr>\<rparr>))"

text \<open>
  The address space of the running process is given up as soon as the magic number of the file
  is right; a file without it is left open.
\<close>

definition reset_process :: "ptr \<Rightarrow> scheduler \<Rightarrow> scheduler result" where
  "reset_process process s =
     bind_result (proc_at s process) (\<lambda>p.
       bind_result (reset_address_space (Some (ptable p)) (ptable p) (memory s)) (\<lambda>(_, v).
         Inr (put_process process (p\<lparr>heap_top := 0\<rparr>) (s\<lparr>memory := v\<rparr>))))"

definition enter_image ::
  "memory_area list \<Rightarrow> ptr \<Rightarrow> u32 \<Rightarrow> ('drv, 'con, 'w) system \<Rightarrow> (exec_result \<times> ('drv, 'con, 'w) system) result" where
  "enter_image areas process entry st =
     bind_result (allocate_stack areas process (sched st)) (\<lambda>(b, s1).
       if \<not> b then Inr (Returned False, st\<lparr>sched := s1\<rparr>)
       else bind_result (proc_at s1 process) (\<lambda>p.
              bind_result (jump_in (ptable p) INITIAL_STACK_POINTER entry s1) (\<lambda>s2.
                Inr (Entered, st\<lparr>sched := s2\<rparr>))))"

definition load_elf ::
  "('drv, 'con, 'w) vfs_env \<Rightarrow> memory_area list \<Rightarrow> u8 list \<Rightarrow> (nat \<Rightarrow> u8 list) \<Rightarrow> string \<Rightarrow> ('drv, 'con, 'w) system
   \<Rightarrow> (exec_result \<times> ('drv, 'con, 'w) system) result option" where
  "load_elf env areas ehdr_junk phdr_junk file_name st =
     bind_loop (Some (get_current_process (strategy (sched st)))) (\<lambda>process.
       if process = 0 then Some (Inr (Returned False, st))
       else bind_loop (open_node env file_name (files st)) (\<lambda>(file, fs1).
         let st1 = st\<lparr>files := fs1\<rparr>
         in case file of
              None \<Rightarrow> Some (Inr (Returned False, st1))
            | Some f \<Rightarrow>
                bind_loop (Some (deref f fs1)) (\<lambda>(_, node).
                bind_loop (v_read env node 0 sizeof_ehdr ehdr_junk (world fs1)) (\<lambda>(bs, w).
                  let h = elf32_ehdr_of bs; st2 = st1\<lparr>files := fs1\<lparr>world := w\<rparr>\<rparr>
                  in if take 4 (e_ident h) \<noteq> ELFMAG then Some (Inr (Returned False, st2))
                     else bind_loop (Some (proc_at (sched st2) process)) (\<lambda>p.
                          bind_loop (Some (reset_process process (sched st2))) (\<lambda>s3.
                          bind_loop (load_segments env areas phdr_junk (Some (ptable p)) process node (unat (e_phnum h))
                                       (ucast (e_phoff h)) True (st2\<lparr>sched := s3\<rparr>)) (\<lambda>(success, st4).
                          bind_loop (Some (close_node env (Some f) (files st4))) (\<lambda>fs5.
                            let st5 = st4\<lparr>files := fs5\<rparr>
                            in if \<not> success then Some (Inr (Returned False, st5))
                               else Some (enter_image areas process (e_entry h) st5)))))))))"


section \<open>Headers are read back\<close>

definition ehdr_bytes :: "elf32_ehdr \<Rightarrow> u8 list" where
  "ehdr_bytes h = e_ident h @ bytes16 (e_type h) @ bytes16 (e_machine h) @ bytes32 (e_version h)
     @ bytes32 (e_entry h) @ bytes32 (e_phoff h) @ bytes32 (e_shoff h) @ bytes32 (e_flags h)
     @ bytes16 (e_ehsize h) @ bytes16 (e_phentsize h) @ bytes16 (e_phnum h)
     @ bytes16 (e_shentsize h) @ bytes16 (e_shnum h) @ bytes16 (e_shstrndx h)"

definition phdr_bytes :: "elf32_phdr \<Rightarrow> u8 list" where
  "phdr_bytes p = bytes32 (p_type p) @ bytes32 (p_offset p) @ bytes32 (p_vaddr p) @ bytes32 (p_paddr p)
     @ bytes32 (p_filesz p) @ bytes32 (p_memsz p) @ bytes32 (p_flags p) @ bytes32 (p_align p)"

lemma le16_at: "le16 (xs @ bytes16 w @ zs) (length xs) = w"
  by (subst le16_append) (simp_all add: le16_bytes16)

lemma le32_at: "le32 (xs @ bytes32 w @ zs) (length xs) = w"
  by (subst le32_append) (simp_all add: le32_bytes32)

text \<open>Skipping a field in front of the one that is read.\<close>

lemma le16_skip: "length xs \<le> i \<Longrightarrow> le16 (xs @ ys) i = le16 ys (i - length xs)"
  by (simp add: le16_def nth_append Suc_diff_le)

lemma le32_skip: "length xs \<le> i \<Longrightarrow> le32 (xs @ ys) i = le32 ys (i - length xs)"
  by (simp add: le32_def nth_append Suc_diff_le)

lemma headers_read_back:
  assumes "length (e_ident h) = 16"
  shows "elf32_ehdr_of (ehdr_bytes h @ zs) = h" and "elf32_phdr_of (phdr_bytes p @ zs) = p"
    and "length (ehdr_bytes h) = unat sizeof_ehdr" and "length (phdr_bytes p) = unat sizeof_phdr"
proof -
  note bytes16_def [simp del] bytes32_def [simp del]
  show "elf32_ehdr_of (ehdr_bytes h @ zs) = h"
    using assms by (simp add: elf32_ehdr_of_def ehdr_bytes_def le16_skip le32_skip le16_bytes16 le32_bytes32)
  show "elf32_phdr_of (phdr_bytes p @ zs) = p"
    by (simp add: elf32_phdr_of_def phdr_bytes_def le32_skip le32_bytes32)
  show "length (ehdr_bytes h) = unat sizeof_ehdr" "length (phdr_bytes p) = unat sizeof_phdr"
    using assms by (simp_all add: ehdr_bytes_def phdr_bytes_def sizeof_ehdr_def sizeof_phdr_def)
qed


section \<open>Kernel memory for a buffer\<close>

lemma spec_malloc_block:
  assumes "spec_malloc base limit n bs = Some (addr, bs')" and "addr \<noteq> 0"
  obtains pre sz post where "bs' = pre @ (sz, False) # post" "addr = base + blocks_size pre + sizeof_fu" "n \<le> sz"
proof (cases "split_fit n bs")
  case None
  then show ?thesis using assms that [of bs n "[]"] by (auto simp: spec_malloc_def split: if_splits)
next
  case (Some r)
  obtain pre sz post where r: "r = (pre, sz, post)" by (metis surj_pair)
  have a: "bs' = pre @ carve n sz @ post" "addr = base + blocks_size pre + sizeof_fu"
    using assms Some r by (auto simp: spec_malloc_def split: if_splits)
  have "n \<le> sz" using split_fit_Some Some r by blast
  then show ?thesis using a that [of pre n "(sz - n - sizeof_fu, True) # post"] that [of pre sz post]
    by (auto simp: carve_def split: if_splits)
qed

definition new_size :: "u32 \<Rightarrow> u32" where "new_size n = (if n = 0 then 1 else n)"

lemma new_then_delete:
  assumes hb: "heap_blocks (vm_mem v) bs" and init: "is_initialized (vm_mem v)"
    and nw: "unat (cur_kernel_bound (vm_mem v)) + sizeof_fu + unat (new_size n) < 2 ^ 32"
    and spec: "spec_malloc (unat (first_address (vm_mem v))) (unat (cur_user_bound (vm_mem v))) (unat (new_size n)) bs
      = Some (addr, bs')" and "addr \<noteq> 0"
  obtains buf m where "operator_new areas n v = Some (Inr (buf, v\<lparr>vm_mem := m\<rparr>))" "unat buf = addr" "heap_blocks m bs'"
    "\<And>v'. vm_mem v' = m \<Longrightarrow> \<exists>m' bs2. kfree buf True current v' = Inr (True, v'\<lparr>vm_mem := m'\<rparr>) \<and> heap_blocks m' bs2"
proof -
  let ?m = "vm_mem v" and ?n = "ucast (new_size n) :: u64"
  have un: "unat ?n = unat (new_size n)" by (rule unat_ucast64)
  obtain p m where p: "kernel_malloc ?n ?m = Some (Inr (p, m))" "unat p = addr" "heap_blocks m bs'" "same_pages ?m m"
    using kernel_malloc_spec [OF hb, of ?n] nw spec by (auto simp: un)
  have "p \<noteq> 0" using p(2) assms(5) by auto
  then have new: "operator_new areas n v = Some (Inr (p, v\<lparr>vm_mem := m\<rparr>))"
    using p(1) init by (simp add: operator_new_def kmalloc_def kmalloc_init_def virtual_malloc_def splitted_malloc_def new_size_def)
  obtain pre sz post where b: "bs' = pre @ (sz, False) # post"
    "addr = unat (first_address ?m) + blocks_size pre + sizeof_fu"
    using spec_malloc_block [OF spec assms(5)] by metis
  have fa: "first_address m = first_address ?m" "is_initialized m"
    using p(4) init by (auto simp: same_pages_def)
  have kf: "\<exists>m' bs2. kfree p True current v' = Inr (True, v'\<lparr>vm_mem := m'\<rparr>) \<and> heap_blocks m' bs2" if v': "vm_mem v' = m" for v'
  proof -
    have hb': "heap_blocks m (pre @ (sz, False) # post)" using p(3) b(1) by simp
    obtain m' where m': "kernel_free p m = Inr (True, m')" "heap_blocks m' (spec_free pre sz post)"
      using kernel_free_spec [OF hb'] p(2) b(2) fa by metis
    obtain q where "fu_seg (fu_mem m) 0 (first_structure m) (unat (first_address m)) bs' q 0 (unat (cur_kernel_bound m))"
      using p(3) by (auto simp: heap_blocks_def)
    then have "unat (cur_kernel_bound m) = unat (first_address m) + blocks_size bs'" by (rule fu_seg_end)
    then have "p \<le> cur_kernel_bound m" "first_address m \<le> p"
      using p(2) b fa by (simp_all add: word_le_nat_alt)
    then have "kfree p True current v' = Inr (True, v'\<lparr>vm_mem := m'\<rparr>)"
      using v' m'(1) fa by (simp add: kfree_def virtual_free_def splitted_free_def)
    then show ?thesis using m'(2) by blast
  qed
  show ?thesis using that [OF new p(2,3)] kf by blast
qed


section \<open>Loading a segment\<close>

lemma get_phys_mem [simp]: "get_phys_address pt v (s\<lparr>vm_mem := m\<rparr>) = get_phys_address pt v s"
proof -
  have "table_at (s\<lparr>vm_mem := m\<rparr>) = table_at s" by (simp add: table_at_def fun_eq_iff)
  then show ?thesis by (simp only: get_phys_address_def)
qed

lemma put_bytes_at: "i < length bs \<Longrightarrow> length bs < 2 ^ 32 \<Longrightarrow> put_bytes a bs m (a + of_nat i) = bs ! i"
  by (simp add: put_bytes_def unat_of_nat_lt)

lemma copy_to_area_places:
  assumes hb: "heap_blocks (vm_mem (memory (sched st))) bs" and init: "is_initialized (vm_mem (memory (sched st)))"
    and nw: "unat (cur_kernel_bound (vm_mem (memory (sched st)))) + sizeof_fu + unat (new_size n) < 2 ^ 32"
    and spec: "spec_malloc (unat (first_address (vm_mem (memory (sched st))))) (unat (cur_user_bound (vm_mem (memory (sched st)))))
      (unat (new_size n)) bs = Some (addr, bs')" and addr: "addr \<noteq> 0"
    and rd: "\<And>old. length old = unat n \<Longrightarrow> v_read env node offset n old (world (files st)) = Some (Inr (data, w))"
    and data: "length data = unat n"
    and mapped: "mapped_at pt vaddr (unat n) f (memory (sched st))" "unat vaddr + unat n < 2 ^ 32" "inj_on f {..<unat n}" "vaddr \<noteq> 0"
    and apart: "\<forall>i < unat n. \<forall>j < unat n. unat (f i) \<noteq> (addr + j) mod 2 ^ 32"
  shows "\<exists>v. copy_to_area env areas current pt node offset vaddr (ucast n) st
      = Some (Inr (True, st\<lparr>sched := (sched st)\<lparr>memory := v\<rparr>, files := (files st)\<lparr>world := w\<rparr>\<rparr>))
    \<and> (\<forall>i < unat n. vm_ram v (f i) = data ! i) \<and> page_tables v = page_tables (memory (sched st))"
proof -
  let ?v = "memory (sched st)"
  obtain buf m where buf: "operator_new areas n ?v = Some (Inr (buf, ?v\<lparr>vm_mem := m\<rparr>))" "unat buf = addr"
    and del: "\<And>v'. vm_mem v' = m \<Longrightarrow> \<exists>m' bs2. kfree buf True current v' = Inr (True, v'\<lparr>vm_mem := m'\<rparr>) \<and> heap_blocks m' bs2"
    using new_then_delete [OF hb init nw spec addr, of areas current] by metis
  have nz: "buf \<noteq> 0" using buf(2) addr by auto
  have un: "(ucast (ucast n :: u64) :: u32) = n"
    using unat_lt32 [of n] by (simp add: word_unat_eq_iff unat_ucast32 unat_ucast64)
  let ?ram = "put_bytes buf data (vm_ram ?v)"
  let ?v2 = "?v\<lparr>vm_mem := m, vm_ram := ?ram\<rparr>"
  have m2: "mapped_at pt vaddr (unat n) f ?v2" using mapped(1) by (simp add: mapped_at_def)
  have ap: "\<forall>i < unat n. \<forall>j < unat n. f i \<noteq> buf + of_nat j"
  proof (intro allI impI)
    fix i j assume "i < unat n" "j < unat n"
    then have "unat (f i) \<noteq> (addr + j) mod 2 ^ 32" using apart by blast
    moreover have "unat (buf + of_nat j) = (addr + j) mod 2 ^ 32"
      using buf(2) by (simp add: unat_word_ariths unat_of_nat mod_add_right_eq)
    ultimately show "f i \<noteq> buf + of_nat j" by metis
  qed
  obtain ram' where ci: "copy_in pt False vaddr buf (of_nat (unat n)) ?v2 = Inr (True, ?v2\<lparr>vm_ram := ram'\<rparr>)"
    and b: "\<forall>i < unat n. ram' (f i) = ?ram (buf + of_nat i)"
    using copy_in_moves [OF m2 mapped(2,3) ap mapped(4) nz] by auto
  obtain m' where fr: "kfree buf True current (?v2\<lparr>vm_ram := ram'\<rparr>) = Inr (True, ?v2\<lparr>vm_ram := ram', vm_mem := m'\<rparr>)"
    using del [of "?v2\<lparr>vm_ram := ram'\<rparr>"] by auto
  have "copy_to_area env areas current pt node offset vaddr (ucast n) st
      = Some (Inr (True, st\<lparr>sched := (sched st)\<lparr>memory := ?v2\<lparr>vm_ram := ram', vm_mem := m'\<rparr>\<rparr>, files := (files st)\<lparr>world := w\<rparr>\<rparr>))"
    using buf(1) rd [of "get_bytes buf (unat n) (vm_ram ?v)"] ci fr
    by (simp add: copy_to_area_def un get_bytes_def Let_def)
  moreover have "ram' (f i) = data ! i" if "i < unat n" for i
    using b that data put_bytes_at [of i data buf "vm_ram ?v"] unat_lt32 [of n] by simp
  ultimately show ?thesis
    by (intro exI [of _ "?v2\<lparr>vm_ram := ram', vm_mem := m'\<rparr>"]) simp
qed

text \<open>C12: loading a segment puts the bytes of the file where its addresses lead. When the area of
  a segment to load can be allocated, its addresses lead to different places of the memory and
  the kernel heap has room for a buffer outside of these, the loader takes the buffer, reads the
  part of the file the header names, copies it into the address space and gives the buffer
  back: afterwards the i-th byte of that part of the file is at the i-th place of the segment,
  the mapping is the one the allocation made and the loader goes on.\<close>

theorem segment_bytes_loaded:
  assumes alloc: "allocate_area areas process (p_vaddr p) (ucast (p_memsz p)) (sched st) = Inr (True, s1)"
    and q: "proc_at s1 process = Inr q" and ty: "p_type p = PT_LOAD"
    and heap: "heap_blocks (vm_mem (memory s1)) bs" "is_initialized (vm_mem (memory s1))"
      "unat (cur_kernel_bound (vm_mem (memory s1))) + sizeof_fu + unat (new_size (p_filesz p)) < 2 ^ 32"
      "spec_malloc (unat (first_address (vm_mem (memory s1)))) (unat (cur_user_bound (vm_mem (memory s1))))
         (unat (new_size (p_filesz p))) bs = Some (addr, bs')" "addr \<noteq> 0"
    and reads: "\<And>old. length old = unat (p_filesz p) \<Longrightarrow>
        v_read env node (ucast (p_offset p)) (p_filesz p) old (world (files st)) = Some (Inr (data, w))"
      "length data = unat (p_filesz p)"
    and mapped: "mapped_at (ptable q) (p_vaddr p) (unat (p_filesz p)) f (memory s1)"
      "unat (p_vaddr p) + unat (p_filesz p) < 2 ^ 32" "inj_on f {..<unat (p_filesz p)}" "p_vaddr p \<noteq> 0"
      "\<forall>i < unat (p_filesz p). \<forall>j < unat (p_filesz p). unat (f i) \<noteq> (addr + j) mod 2 ^ 32"
  shows "\<exists>v. load_segment env areas current process node p success st
      = Some (Inr (success, st\<lparr>sched := s1\<lparr>memory := v\<rparr>, files := (files st)\<lparr>world := w\<rparr>\<rparr>))
    \<and> (\<forall>i < unat (p_filesz p). vm_ram v (f i) = data ! i) \<and> page_tables v = page_tables (memory s1)"
proof -
  let ?st = "st\<lparr>sched := s1\<rparr>"
  have "PT_LOAD \<noteq> PT_NULL" by (simp add: PT_LOAD_def PT_NULL_def)
  obtain v where v: "copy_to_area env areas current (ptable q) node (ucast (p_offset p)) (p_vaddr p) (ucast (p_filesz p)) ?st
      = Some (Inr (True, ?st\<lparr>sched := s1\<lparr>memory := v\<rparr>, files := (files st)\<lparr>world := w\<rparr>\<rparr>))"
    "\<forall>i < unat (p_filesz p). vm_ram v (f i) = data ! i" "page_tables v = page_tables (memory s1)"
    using copy_to_area_places [of ?st bs "p_filesz p" addr bs' env node "ucast (p_offset p)" data w "ptable q" "p_vaddr p" f areas current]
      heap reads mapped by auto
  then show ?thesis using alloc q ty \<open>PT_LOAD \<noteq> PT_NULL\<close>
    by (intro exI [of _ v]) (simp add: load_segment_def Let_def)
qed


text \<open>The end of a segment can be missing. The number of pages of an area is computed from
  its size alone: when a segment does not start at a page border and its last byte lies one page
  behind the last page that number covers, the area is allocated, the loader takes it for
  complete, and the address of the last byte translates to null.\<close>

theorem segment_tail_missing:
  assumes q: "proc_at s process = Inr q" and base: "base \<noteq> 0"
    and pool: "pages_inv page_size (vm_mem (memory s))"
      "first_address (vm_mem (memory s)) < cur_kernel_bound (vm_mem (memory s))"
    and al: "alloc_pages (unat (page_number n)) [] (memory s) = (Some as, v1)" and "page_number n \<noteq> 0"
    and nt: "need_table areas (ptable q) (va_dir base) v1 = Inr (Some T, v2)"
    and T: "page_tables v2 T = Some t" "T \<noteq> 0" "T \<noteq> ptable q"
    and room: "va_page base + unat (page_number n) < 1024"
      "\<forall>i \<le> unat (page_number n). \<not> presence (t (va_page base + i))"
    and tail: "va_dir (base + n - 1) = va_dir base" "va_page (base + n - 1) = va_page base + unat (page_number n)"
  shows "\<exists>s'. allocate_area areas process base (ucast n) s = Inr (True, s')
    \<and> get_phys_address (ptable q) (base + n - 1) (memory s') = Inr 0"
proof -
  let ?e = "base + n - 1"
  obtain js where js: "as = map (page_addr page_size (vm_mem (memory s))) js" "length js = unat (page_number n)"
    using alloc_pages_fresh [OF pool al] by metis
  have ne: "as \<noteq> []" using js assms(6) by (auto simp: unat_eq_0)
  have len: "length as = unat (page_number n)" using js by simp
  have rm: "va_page base + length as \<le> 1024" "\<forall>i < length as. \<not> presence (t (va_page base + i))"
    using room len by simp_all
  obtain v3 where v3: "add_virtual_memory areas (ptable q) as base v1 = Inr (base, v3)"
    "get_phys_address (ptable q) ?e v3 = get_phys_address (ptable q) ?e v2"
    using add_translate [OF nt T base ne rm] tail len by auto
  obtain dir where dir: "table_at v2 (ptable q) = Inr dir" "presence (dir (va_dir base))"
    "\<not> page_size_flag (dir (va_dir base))" "entry_address (dir (va_dir base)) = T"
    using nt by (rule need_table_entry)
  have "table_at v2 T = Inr t" using T by (simp add: table_at_def)
  moreover have "\<not> presence (t (va_page ?e))" using room(2) tail(2) by simp
  ultimately have "get_phys_address (ptable q) ?e v2 = Inr 0"
    using dir tail(1) by (simp add: get_phys_address_def Let_def)
  moreover have un: "(ucast (ucast n :: u64) :: u32) = n"
    using unat_lt32 [of n] by (simp add: word_unat_eq_iff unat_ucast32 unat_ucast64)
  have "virtual_vmalloc areas n (ptable q) base (memory s) = Inr (base, v3)"
    using base al v3(1) by (simp add: virtual_vmalloc_def user_malloc_def)
  then have "\<exists>s'. allocate_area areas process base (ucast n) s = Inr (True, s') \<and> memory s' = v3"
    using q un by (simp add: allocate_area_def put_process_def Let_def)
  ultimately show ?thesis using v3(2) by auto
qed

section \<open>Giving up the old program\<close>

lemma load_elf_open:
  assumes "get_current_process (strategy (sched st)) = Inr process" and "process \<noteq> 0"
    and "open_node env name (files st) = Some (Inr (Some f, fs1))" and "node_heap fs1 f = Some (u, node)"
    and "v_read env node 0 sizeof_ehdr junk (world fs1) = Some (Inr (bs, w))"
  shows "load_elf env areas junk phdr_junk name st =
    (let h = elf32_ehdr_of bs; st2 = st\<lparr>files := fs1\<lparr>world := w\<rparr>\<rparr>
     in if take 4 (e_ident h) \<noteq> ELFMAG then Some (Inr (Returned False, st2))
        else bind_loop (Some (proc_at (sched st) process)) (\<lambda>p.
             bind_loop (Some (reset_process process (sched st))) (\<lambda>s3.
             bind_loop (load_segments env areas phdr_junk (Some (ptable p)) process node (unat (e_phnum h))
                          (ucast (e_phoff h)) True (st2\<lparr>sched := s3\<rparr>)) (\<lambda>(success, st4).
             bind_loop (Some (close_node env (Some f) (files st4))) (\<lambda>fs5.
               let st5 = st4\<lparr>files := fs5\<rparr>
               in if \<not> success then Some (Inr (Returned False, st5))
                  else Some (enter_image areas process (e_entry h) st5))))))"
  using assms by (simp add: load_elf_def deref_def Let_def)

text \<open>A file that is no ELF file is left open. execve of such a file fails and leaves the
  process as it was, but the node of the file stays in the map of open nodes with its use
  counted.\<close>

theorem wrong_magic_stays_open:
  assumes "get_current_process (strategy (sched st)) = Inr process" and "process \<noteq> 0"
    and "open_node env name (files st) = Some (Inr (Some f, fs1))" and "node_heap fs1 f = Some (u, node)"
    and "v_read env node 0 sizeof_ehdr junk (world fs1) = Some (Inr (bs, w))" and "take 4 bs \<noteq> ELFMAG"
  shows "load_elf env areas junk phdr_junk name st
    = Some (Inr (Returned False, st\<lparr>files := fs1\<lparr>world := w\<rparr>\<rparr>))"
  using load_elf_open [OF assms(1-5)] assms(6) by (simp add: elf32_ehdr_of_def Let_def)

lemma vmalloc_nothing:
  "virtual_vmalloc areas 0 pt base v = Inr (0, v)"
  by (simp add: virtual_vmalloc_def user_malloc_def page_number_def page_size_def add_virtual_memory_def)



section \<open>Examples\<close>

text \<open>A kernel heap with one block in use, and room for pages above it.\<close>

definition elf_pool :: splitted where
  "elf_pool = pool_sample\<lparr>cur_kernel_bound := 0x10100, max_kernel_bound := 0x10100, first_structure := 0x10000,
     fu_mem := [0x10000 \<mapsto> \<lparr>fu_free = False, fu_previous = 0, fu_next = 0, allocated_memory = 0x10018, fu_size = 232\<rparr>]\<rparr>"

lemma elf_pool_simps:
  "is_initialized elf_pool" "first_address elf_pool = 0x10000" "cur_kernel_bound elf_pool = 0x10100"
  "cur_user_bound elf_pool = 0x12000" "page_bm elf_pool = page_bm pool_sample" "last_address elf_pool = 0x14000"
  "max_kernel_bound elf_pool = 0x10100"
  by (simp_all add: elf_pool_def pool_sample_def splitted_new_def)

lemma elf_pool_blocks: "heap_blocks elf_pool [(232, False)]"
  by (simp add: heap_blocks_def elf_pool_simps) (simp add: elf_pool_def)

lemma elf_pool_addr: "page_addr page_size elf_pool j = 0x10000 + of_nat j * 0x1000" "page_count elf_pool = 4"
  by (simp_all add: page_addr_def elf_pool_simps page_size_def pool_sample_def splitted_new_def)

lemma elf_pool_used: "used_pages elf_pool = {2, 3}"
  using pool_sample_used by (simp add: used_pages_def elf_pool_simps)

lemma elf_pool_inv: "pages_inv page_size elf_pool"
  by (simp add: pages_inv_def elf_pool_simps elf_pool_addr elf_pool_used)
    (simp add: page_size_def pool_sample_def splitted_new_def)

lemma elf_pool_alloc:
  "\<exists>m. page_alloc page_size False elf_pool = (0x11000, m) \<and> heap_blocks m [(232, False)] \<and> is_initialized m
    \<and> first_address m = 0x10000 \<and> cur_kernel_bound m = 0x10100 \<and> cur_user_bound m = 0x11000"
proof -
  obtain p m where pa: "page_alloc page_size False elf_pool = (p, m)" by (metis surj_pair)
  have "top_free (page_bm elf_pool) (Suc (Suc (Suc 0))) = 1" using pool_sample_bits by (simp add: elf_pool_simps)
  then have "top_page elf_pool = 1" by (simp add: top_page_def elf_pool_addr numeral_3_eq_3)
  then have p: "p = 0x11000" "cur_user_bound m = 0x11000" "same_heap elf_pool m"
    using page_alloc_inv [OF elf_pool_inv pa] by (simp_all add: elf_pool_addr elf_pool_simps min_def)
  have "cur_kernel_bound m = 0x10100" using p(3) by (simp add: same_heap_def elf_pool_simps)
  then have "heap_blocks m [(232, False)]" using same_heap_blocks [OF p(3) elf_pool_blocks] p(2) by simp
  then show ?thesis using pa p by (intro exI [of _ m]) (auto simp: same_heap_def elf_pool_simps)
qed

definition elf_memory :: vm_state where
  "elf_memory = vm_sample\<lparr>vm_mem := elf_pool\<rparr>"

definition elf_sched :: scheduler where
  "elf_sched = sched_sample\<lparr>memory := elf_memory, procs := [10 \<mapsto> (process_sample 1)\<lparr>ptable := 0x1000\<rparr>]\<rparr>"

lemma elf_tables: "table_at (elf_memory\<lparr>vm_mem := m\<rparr>) = table_at vm_sample" "page_tables elf_memory = page_tables vm_sample"
  by (simp_all add: elf_memory_def table_at_def fun_eq_iff)

lemma elf_pages:
  obtains m where "alloc_pages (Suc 0) [] elf_memory = (Some [0x11000], elf_memory\<lparr>vm_mem := m\<rparr>)"
    "heap_blocks m [(232, False)]" "is_initialized m" "first_address m = 0x10000" "cur_kernel_bound m = 0x10100"
    "cur_user_bound m = 0x11000"
proof -
  obtain m where m: "page_alloc page_size False elf_pool = (0x11000, m)" "heap_blocks m [(232, False)]" "is_initialized m"
    "first_address m = 0x10000" "cur_kernel_bound m = 0x10100" "cur_user_bound m = 0x11000" using elf_pool_alloc by blast
  then have "malloc_page page_size page_size64 False elf_pool = (0x11000, m)"
    by (simp add: malloc_page_user elf_pool_simps)
  then have "alloc_pages (Suc 0) [] elf_memory = (Some [0x11000], elf_memory\<lparr>vm_mem := m\<rparr>)"
    by (simp add: elf_memory_def)
  then show ?thesis using that m by blast
qed

lemma elf_need_table: "va_dir base = 513 \<Longrightarrow> need_table [] 0x1000 (va_dir base) (elf_memory\<lparr>vm_mem := m\<rparr>)
    = Inr (Some 0x3000, elf_memory\<lparr>vm_mem := m\<rparr>)"
  using need_table_old [of "elf_memory\<lparr>vm_mem := m\<rparr>" "0x1000" dir_sample 513]
  by (simp add: elf_tables vm_sample_tables dir_sample_entries table_entry_fields aligned_samples)


theorem segment_tail_missing_witness:
  "\<exists>s'. allocate_area [] 10 0x80400800 4096 elf_sched = Inr (True, s')
    \<and> get_phys_address 0x1000 0x804017FF (memory s') = Inr 0"
proof -
  obtain m where m: "alloc_pages (Suc 0) [] elf_memory = (Some [0x11000], elf_memory\<lparr>vm_mem := m\<rparr>)" by (rule elf_pages)
  have v: "va_dir 0x80400800 = 513" "va_page 0x80400800 = 0" "va_dir 0x804017FF = 513" "va_page 0x804017FF = 1"
    by (simp_all add: va_dir_def va_page_def)
  have n: "page_number 4096 = 1" by (simp add: page_number_def page_size_def)
  have q: "proc_at elf_sched 10 = Inr ((process_sample 1)\<lparr>ptable := 0x1000\<rparr>)" "memory elf_sched = elf_memory"
    by (simp_all add: proc_at_def elf_sched_def)
  have al: "alloc_pages (unat (page_number 4096)) [] (memory elf_sched) = (Some [0x11000], elf_memory\<lparr>vm_mem := m\<rparr>)"
    using m by (simp add: n q)
  have T: "page_tables (elf_memory\<lparr>vm_mem := m\<rparr>) 0x3000 = Some (\<lambda>_. 0)" by (simp add: elf_tables vm_sample_def)
  have inv: "pages_inv page_size (vm_mem (memory elf_sched))"
    "first_address (vm_mem (memory elf_sched)) < cur_kernel_bound (vm_mem (memory elf_sched))"
    using elf_pool_inv by (simp_all add: q elf_memory_def elf_pool_simps)
  have nt: "need_table [] (ptable ((process_sample 1)\<lparr>ptable := 0x1000\<rparr>)) (va_dir 0x80400800) (elf_memory\<lparr>vm_mem := m\<rparr>)
      = Inr (Some 0x3000, elf_memory\<lparr>vm_mem := m\<rparr>)"
    using elf_need_table [OF v(1), of m] v by simp
  show ?thesis
    using segment_tail_missing [OF q(1) _ inv al _ nt T] by (simp add: n v presence_bits)
qed


text \<open>The loader on a directory, whose node reads nothing: the buffers keep what they held.\<close>

definition elf_system :: "vm_state \<Rightarrow> (unit, unit, nat \<Rightarrow> u8) system" where
  "elf_system v = \<lparr>sched = elf_sched\<lparr>memory := v\<rparr>, files = used_vfs 1\<rparr>"

definition ehdr_sample :: elf32_ehdr where
  "ehdr_sample = \<lparr>e_ident = ELFMAG @ replicate 12 0, e_type = 2, e_machine = 3, e_version = 1, e_entry = 0x8000000, e_phoff = 52,
     e_shoff = 0, e_flags = 0, e_ehsize = 52, e_phentsize = 32, e_phnum = 1, e_shentsize = 0, e_shnum = 0, e_shstrndx = 0\<rparr>"

definition stack_phdr :: elf32_phdr where
  "stack_phdr = \<lparr>p_type = 0x6474E551, p_offset = 0, p_vaddr = 0, p_paddr = 0, p_filesz = 0, p_memsz = 0, p_flags = 6, p_align = 4\<rparr>"

definition root_opened :: "(unit, unit, nat \<Rightarrow> u8) vfs" where
  "root_opened = (used_vfs 1)\<lparr>node_heap := (node_heap (used_vfs 1))(0 \<mapsto> (1, V_dummy ''/'' True True)),
     open_nodes := (open_nodes (used_vfs 1))(''/'' \<mapsto> 0)\<rparr>"

lemma root_open: "open_node (sample_env (Inr None)) ''/'' (used_vfs 1) = Some (Inr (Some 0, root_opened))"
proof -
  have "clean_path ''/'' = [''/'']" by (simp add: clean_path_def cp_init_def cp_step_def cp_slash_def cp_dot_def Let_def)
  then show ?thesis
    by (simp add: open_node_def find_second_def used_vfs_def mark_open_def deref_def root_opened_def Let_def)
qed

lemma elf_current:
  "get_current_process (strategy (sched (elf_system v))) = Inr 10" "files (elf_system v) = used_vfs 1"
  "procs (sched (elf_system v)) 10 = Some ((process_sample 1)\<lparr>ptable := 0x1000\<rparr>)" "memory (sched (elf_system v)) = v"
  using rr_current [OF rr_sample_rep] by (simp_all add: elf_system_def elf_sched_def sched_sample_def)

lemma root_open_system:
  "open_node (sample_env (Inr None)) ''/'' (files (elf_system v)) = Some (Inr (Some 0, root_opened))"
  by (simp only: elf_current(2) root_open)

lemma ehdr_sample_read:
  "elf32_ehdr_of (ehdr_bytes ehdr_sample) = ehdr_sample" "take 4 (ehdr_bytes ehdr_sample) = ELFMAG"
  using headers_read_back(1) [of ehdr_sample "[]"]
  by (simp_all add: ehdr_sample_def ELFMAG_def) (simp add: ehdr_bytes_def)

theorem wrong_magic_stays_open_witness:
  "load_elf (sample_env (Inr None)) [] [0, 0, 0, 0] (\<lambda>_. []) ''/'' (elf_system reset_sample)
    = Some (Inr (Returned False, (elf_system reset_sample)\<lparr>files := root_opened\<rparr>))"
proof -
  have n: "node_heap root_opened 0 = Some (1, V_dummy ''/'' True True)" by (simp add: root_opened_def)
  have "root_opened\<lparr>world := world root_opened\<rparr> = root_opened" by simp
  then show ?thesis
    using wrong_magic_stays_open [OF elf_current(1) _ root_open_system n, of "[0, 0, 0, 0]" "[0, 0, 0, 0]"]
    by (simp add: ELFMAG_def)
qed



text \<open>A segment of four bytes out of a slice of a drive.\<close>

definition load_phdr :: elf32_phdr where
  "load_phdr = \<lparr>p_type = 1, p_offset = 3, p_vaddr = 0x80400000, p_paddr = 0, p_filesz = 4, p_memsz = 4, p_flags = 5, p_align = 4096\<rparr>"

definition load_system :: "(unit, unit, nat \<Rightarrow> u8) system" where
  "load_system = \<lparr>sched = elf_sched, files = (used_vfs 1)\<lparr>world := (\<lambda>i. of_nat i)\<rparr>\<rparr>"

lemma load_read:
  "length old = unat (p_filesz load_phdr) \<Longrightarrow>
     v_read (sample_env (Inr None)) (V_dev ram_slice) (ucast (p_offset load_phdr)) (p_filesz load_phdr) old (world (files load_system))
     = Some (Inr ([13, 14, 15, 16], \<lambda>i. of_nat i))"
  by (simp add: load_phdr_def load_system_def sample_env_def ram_slice_def dev_node_drive_def dev_node_read_def ram_dev_io_def chunk_def
      Let_def upt_rec)

definition load_place :: "nat \<Rightarrow> ptr" where
  "load_place i = 0x11000 + of_nat i"

lemma mapped_phys:
  assumes "table_at s pt = Inr dir" and "dir (va_dir w) = table_entry T" and "entry_address T = T"
    and "table_at s T = Inr t" and "t (va_page w) = mapped_entry a e"
  shows "get_phys_address pt w s = Inr (entry_address a OR va_offset w)"
  using assms by (simp add: get_phys_address_def table_entry_fields presence_mapped address_mapped Let_def)

lemma load_allocated:
  obtains s1 m where "allocate_area [] 10 0x80400000 4 elf_sched = Inr (True, s1)"
    "proc_at s1 10 = Inr ((process_sample 1)\<lparr>ptable := 0x1000, heap_top := 0x80400004\<rparr>)"
    "vm_mem (memory s1) = m" "heap_blocks m [(232, False)]" "is_initialized m" "first_address m = 0x10000"
    "cur_kernel_bound m = 0x10100" "cur_user_bound m = 0x11000"
    "mapped_at 0x1000 0x80400000 4 load_place (memory s1)"
proof -
  obtain m where m: "alloc_pages (Suc 0) [] elf_memory = (Some [0x11000], elf_memory\<lparr>vm_mem := m\<rparr>)"
    "heap_blocks m [(232, False)]" "is_initialized m" "first_address m = 0x10000" "cur_kernel_bound m = 0x10100"
    "cur_user_bound m = 0x11000" by (rule elf_pages)
  let ?v1 = "elf_memory\<lparr>vm_mem := m\<rparr>"
  let ?v2 = "?v1\<lparr>page_tables := (page_tables ?v1)(0x3000 \<mapsto> map_run 0 [0x11000] (\<lambda>_. 0))\<rparr>"
  have v: "va_dir 0x80400000 = 513" "va_page 0x80400000 = 0" by (simp_all add: va_dir_def va_page_def)
  have T: "page_tables ?v1 0x3000 = Some (\<lambda>_. 0)" by (simp add: elf_tables vm_sample_def)
  have "add_virtual_memory [] 0x1000 [0x11000] 0x80400000 ?v1 = Inr (0x80400000, ?v2)"
    using add_run [OF elf_need_table [OF v(1), of m] T, of "[0x11000]"] by (simp add: v presence_bits)
  then have um: "virtual_vmalloc [] 4 0x1000 0x80400000 elf_memory = Inr (0x80400000, ?v2)"
    using m(1) by (simp add: virtual_vmalloc_def user_malloc_def page_number_def page_size_def)
  let ?q = "(process_sample 1)\<lparr>ptable := 0x1000, heap_top := 0x80400004\<rparr>"
  let ?s1 = "(put_process 10 ?q elf_sched)\<lparr>memory := ?v2\<rparr>"
  have "allocate_area [] 10 0x80400000 4 elf_sched = Inr (True, ?s1)"
    using um by (simp add: allocate_area_def proc_at_def elf_sched_def put_process_def process_sample_def Let_def)
  moreover have "proc_at ?s1 10 = Inr ?q" by (simp add: proc_at_def put_process_def)
  moreover have "mapped_at 0x1000 0x80400000 4 load_place (memory ?s1)"
  proof -
    have t: "table_at ?v2 0x1000 = Inr dir_sample" "table_at ?v2 0x3000 = Inr (map_run 0 [0x11000] (\<lambda>_. 0))"
      using vm_sample_tables(1) by (simp_all add: table_at_def elf_tables)
    have e: "map_run 0 [0x11000] (\<lambda>_. 0) 0 = mapped_entry 0x11000 0" by (simp add: map_run_def)
    have "get_phys_address 0x1000 w ?v2 = Inr (0x11000 OR va_offset w)" if "va_dir w = 513" "va_page w = 0" for w
      using mapped_phys [OF t(1) _ _ t(2), of w "0x11000" 0] that
      by (simp add: dir_sample_entries aligned_samples e) (simp add: entry_address_def)
    then have "get_phys_address 0x1000 0x80400000 ?v2 = Inr 0x11000" "get_phys_address 0x1000 0x80400001 ?v2 = Inr 0x11001"
      "get_phys_address 0x1000 0x80400002 ?v2 = Inr 0x11002" "get_phys_address 0x1000 0x80400003 ?v2 = Inr 0x11003"
      by (simp_all add: va_dir_def va_page_def va_offset_def)
    then show ?thesis by (simp add: mapped_at_def load_place_def below_4)
  qed
  ultimately show ?thesis using that [of ?s1 m] m by simp
qed

theorem segment_bytes_loaded_witness:
  "\<exists>st. load_segment (sample_env (Inr None)) [] (Some 0x1000) 10 (V_dev ram_slice) load_phdr True load_system = Some (Inr (True, st))
    \<and> vm_ram (memory (sched st)) 0x11002 = 15"
proof -
  let ?q = "(process_sample 1)\<lparr>ptable := 0x1000, heap_top := 0x80400004\<rparr>"
  obtain s1 m where a: "allocate_area [] 10 0x80400000 4 elf_sched = Inr (True, s1)"
    and q: "proc_at s1 10 = Inr ?q"
    and m: "vm_mem (memory s1) = m" "heap_blocks m [(232, False)]" "is_initialized m" "first_address m = 0x10000"
    "cur_kernel_bound m = 0x10100" "cur_user_bound m = 0x11000"
    and mp: "mapped_at 0x1000 0x80400000 4 load_place (memory s1)" by (rule load_allocated)
  have ph: "p_vaddr load_phdr = 0x80400000" "p_memsz load_phdr = 4" "p_type load_phdr = PT_LOAD" "p_filesz load_phdr = 4"
    by (simp_all add: load_phdr_def PT_LOAD_def)
  have al: "allocate_area [] 10 (p_vaddr load_phdr) (ucast (p_memsz load_phdr)) (sched load_system) = Inr (True, s1)"
    using a by (simp add: ph load_system_def)
  have hb: "heap_blocks (vm_mem (memory s1)) [(232, False)]" "is_initialized (vm_mem (memory s1))"
    "unat (cur_kernel_bound (vm_mem (memory s1))) + sizeof_fu + unat (new_size (p_filesz load_phdr)) < 2 ^ 32"
    "spec_malloc (unat (first_address (vm_mem (memory s1)))) (unat (cur_user_bound (vm_mem (memory s1))))
       (unat (new_size (p_filesz load_phdr))) [(232, False)] = Some (0x10118, [(232, False), (4, False)])"
    using m by (simp_all add: new_size_def ph spec_malloc_def fits_def)
  have mp': "mapped_at (ptable ?q) (p_vaddr load_phdr) (unat (p_filesz load_phdr)) load_place (memory s1)"
    "unat (p_vaddr load_phdr) + unat (p_filesz load_phdr) < 2 ^ 32" "p_vaddr load_phdr \<noteq> 0"
    "length [13 :: u8, 14, 15, 16] = unat (p_filesz load_phdr)"
    using mp by (simp_all add: ph)
  have "\<forall>i < 4. \<forall>j < 4. load_place i = load_place j \<longrightarrow> i = j"
    unfolding below_4 by (simp add: load_place_def)
  then have inj: "inj_on load_place {..<unat (p_filesz load_phdr)}" by (simp add: inj_on_def ph)
  have "\<forall>i < 4. \<forall>j < 4. unat (load_place i) \<noteq> (0x10118 + j) mod 2 ^ 32"
    unfolding below_4 by (simp add: load_place_def)
  then have ap: "\<forall>i < unat (p_filesz load_phdr). \<forall>j < unat (p_filesz load_phdr). unat (load_place i) \<noteq> (0x10118 + j) mod 2 ^ 32"
    by (simp add: ph)
  obtain v where v: "load_segment (sample_env (Inr None)) [] (Some 0x1000) 10 (V_dev ram_slice) load_phdr True load_system
      = Some (Inr (True, load_system\<lparr>sched := s1\<lparr>memory := v\<rparr>, files := (files load_system)\<lparr>world := \<lambda>i. of_nat i\<rparr>\<rparr>))"
    "\<forall>i < unat (p_filesz load_phdr). vm_ram v (load_place i) = [13, 14, 15, 16] ! i"
    using segment_bytes_loaded [OF al q ph(3) hb _ load_read mp'(4,1,2) inj mp'(3) ap, of "Some 0x1000" True] by auto
  have "vm_ram v 0x11002 = 15" using v(2) [rule_format, of 2] by (simp add: ph load_place_def)
  with v(1) show ?thesis by simp
qed

end
