(* ===== verification/Heap_Break.thy ===== *)
theory Heap_Break
  imports Elf_Loader
begin

text \<open>
  The system call sbrk (kern/syscalls/syscall_dispatcher.cpp): the break of a process moves, and
  pages are mapped behind it when it crosses the border of one. The increment is unsigned.
\<close>

section \<open>Error numbers\<close>

text \<open>The numbers of the errors are those of the C library.\<close>

definition no_error :: u32 where "no_error = 0"
definition e_no_such_entry :: u32 where "e_no_such_entry = 2"
definition e_no_exec :: u32 where "e_no_exec = 8"
definition e_bad_filedescriptor :: u32 where "e_bad_filedescriptor = 9"
definition e_no_mem :: u32 where "e_no_mem = 12"
definition e_illegal_seek :: u32 where "e_illegal_seek = 29"
definition e_no_syscall :: u32 where "e_no_syscall = 88"

lemmas error_numbers = no_error_def e_no_such_entry_def e_no_exec_def e_bad_filedescriptor_def e_no_mem_def
  e_illegal_seek_def e_no_syscall_def

section \<open>The call\<close>

text \<open>
  The results are the error, the increment and the address in the message, and the state. A
  break that fits into the page it is in needs no memory; that it is too high is an error, but
  the break is moved all the same.
\<close>

definition sbrk_within :: "ptr \<Rightarrow> process \<Rightarrow> u32 \<Rightarrow> scheduler \<Rightarrow> u32 \<times> u32 \<times> ptr \<times> scheduler" where
  "sbrk_within cur p incr s =
     (let t = heap_top p + incr
      in (if heap_max p \<noteq> 0 \<and> heap_max p < t \<or> t < heap_top p then e_no_mem else no_error,
          incr, heap_top p, put_process cur (p\<lparr>heap_top := t\<rparr>) s))"

text \<open>Pages are mapped at \<open>base\<close>; the break moves by \<open>incr\<close> from where it was.\<close>

definition sbrk_pages ::
  "memory_area list \<Rightarrow> ptr \<Rightarrow> process \<Rightarrow> u32 \<Rightarrow> ptr \<Rightarrow> scheduler \<Rightarrow> (u32 \<times> u32 \<times> ptr \<times> scheduler) result" where
  "sbrk_pages areas cur p incr base s =
     (let md = (if incr mod page_size = 0 then page_size else incr mod page_size)
      in bind_result (virtual_vmalloc areas (incr + page_size - md) (ptable p) base (memory s)) (\<lambda>(vaddr, v).
           Inr (if vaddr = 0 then e_no_mem else no_error, incr, if vaddr = 0 then NOT 0 else vaddr,
                put_process cur (p\<lparr>heap_top := heap_top p + incr\<rparr>) (s\<lparr>memory := v\<rparr>))))"

fun release_pages :: "nat \<Rightarrow> ptr option \<Rightarrow> ptr \<Rightarrow> vm_state \<Rightarrow> (ptr \<times> vm_state) result" where
  "release_pages 0 current a v = Inr (a, v)"
| "release_pages (Suc n) current a v =
     bind_result (kfree (a - page_size) False current v) (\<lambda>(_, v1). release_pages n current (a - page_size) v1)"

text \<open>
  The branch that lowers the break: a first step down to the border of the page, then as many
  whole pages as there are left.
\<close>

definition sbrk_release :: "ptr \<Rightarrow> process \<Rightarrow> u32 \<Rightarrow> scheduler \<Rightarrow> (u32 \<times> u32 \<times> ptr \<times> scheduler) result" where
  "sbrk_release cur p incr s =
     (let decr = - incr; md = heap_top p mod page_size
      in if decr < md then Inr (no_error, incr, 0, put_process cur (p\<lparr>heap_top := heap_top p - decr\<rparr>) s)
         else bind_result (kfree (heap_top p - md) False (Some (ptable p)) (memory s)) (\<lambda>(_, v).
              bind_result (release_pages (unat ((decr - md) div page_size)) (Some (ptable p)) (heap_top p - md) v) (\<lambda>(a, v1).
                Inr (no_error, incr, 0,
                     put_process cur (p\<lparr>heap_top := a - (decr - md) mod page_size\<rparr>) (s\<lparr>memory := v1\<rparr>)))))"

definition sys_break ::
  "memory_area list \<Rightarrow> ptr \<Rightarrow> u32 \<Rightarrow> ptr \<Rightarrow> scheduler \<Rightarrow> (u32 \<times> u32 \<times> ptr \<times> scheduler) result" where
  "sys_break areas cur incr addr s =
     bind_result (proc_at s cur) (\<lambda>p.
       let md = heap_top p mod page_size; avail = page_size - md
       in if heap_top p = 0 then Inr (e_no_mem, incr, addr, s)
          else if incr \<noteq> 0
          then (if md \<noteq> 0 \<and> incr \<le> avail then Inr (sbrk_within cur p incr s)
                else if md \<noteq> 0 then sbrk_pages areas cur p (incr - avail) (heap_top p + avail) s
                else sbrk_pages areas cur p incr (heap_top p) s)
          else sbrk_release cur p incr s)"

section \<open>A break that stays in its page\<close>

lemma put_twice [simp]: "put_process c q (put_process c p s) = put_process c q s"
  by (simp add: put_process_def)

lemma proc_at_put [simp]: "c \<noteq> 0 \<Longrightarrow> proc_at (put_process c p s) c = Inr p"
  by (simp add: proc_at_def put_process_def)

lemma memory_put [simp]: "memory (put_process c p s) = memory s"
  by (simp add: put_process_def)

lemma put_memory: "(put_process c p s)\<lparr>memory := v\<rparr> = put_process c p (s\<lparr>memory := v\<rparr>)"
  by (simp add: put_process_def)

lemma proc_at_nonnull: "proc_at s c = Inr p \<Longrightarrow> c \<noteq> 0"
  by (auto simp: proc_at_def)

lemma sbrk_in_page:
  assumes "proc_at s cur = Inr p" and "heap_top p \<noteq> 0" and "heap_max p = 0"
    and "heap_top p mod page_size \<noteq> 0" and "incr \<noteq> 0" and "incr \<le> page_size - heap_top p mod page_size"
    and "unat (heap_top p) + unat incr < 2 ^ 32"
  shows "sys_break areas cur incr a s
    = Inr (no_error, incr, heap_top p, put_process cur (p\<lparr>heap_top := heap_top p + incr\<rparr>) s)"
proof -
  have "unat (heap_top p + incr) = unat (heap_top p) + unat incr" using assms(7) by (simp add: unat_plus_nowrap)
  then have "\<not> heap_top p + incr < heap_top p" by (simp add: word_less_nat_alt)
  then show ?thesis using assms by (simp add: sys_break_def sbrk_within_def Let_def)
qed

lemma sbrk_new_pages:
  assumes "proc_at s cur = Inr p" and "heap_top p \<noteq> 0" and "heap_top p mod page_size \<noteq> 0"
    and "page_size - heap_top p mod page_size < incr"
  shows "sys_break areas cur incr a s
    = sbrk_pages areas cur p (incr - (page_size - heap_top p mod page_size))
        (heap_top p + (page_size - heap_top p mod page_size)) s"
proof -
  have "incr \<noteq> 0" "\<not> incr \<le> page_size - heap_top p mod page_size" using assms(4) by auto
  then show ?thesis using assms by (simp add: sys_break_def Let_def)
qed

lemma sbrk_aligned:
  assumes "proc_at s cur = Inr p" and "heap_top p \<noteq> 0" and "heap_top p mod page_size = 0" and "incr \<noteq> 0"
  shows "sys_break areas cur incr a s = sbrk_pages areas cur p incr (heap_top p) s"
  using assms by (simp add: sys_break_def Let_def)

text \<open>The number of pages for an increment is that of the increment rounded up.\<close>

lemma page_number_rounded:
  assumes "incr \<noteq> 0" and "unat incr + 4096 < 2 ^ 32"
  shows "page_number (incr + page_size - (if incr mod page_size = 0 then page_size else incr mod page_size))
    = page_number incr"
proof (cases "incr mod page_size = 0")
  case True
  then show ?thesis by simp
next
  case False
  have ps: "unat page_size = 4096" by (simp add: page_size_def)
  have m: "unat (incr mod page_size) = unat incr mod 4096" by (simp add: unat_mod ps)
  have lt: "unat incr mod 4096 < 4096" by simp
  have "incr mod page_size \<le> incr + page_size"
    using assms(2) ps m by (simp add: word_le_nat_alt unat_plus_nowrap)
  then have u: "unat (incr + page_size - incr mod page_size) = unat incr + 4096 - unat incr mod 4096"
    using assms(2) ps m by (simp add: unat_minus_le unat_plus_nowrap)
  have e: "unat incr + 4096 - unat incr mod 4096 = (unat incr div 4096 + 1) * 4096"
  proof -
    have "unat incr + 4096 = (unat incr div 4096 + 1) * 4096 + unat incr mod 4096"
      using div_mult_mod_eq [of "unat incr" 4096] by (simp only: add_mult_distrib)
    then show ?thesis by (simp only: diff_add_inverse2)
  qed
  have "unat ((incr + page_size - incr mod page_size) mod page_size) = 0"
    "unat ((incr + page_size - incr mod page_size) div page_size) = unat incr div 4096 + 1"
    unfolding unat_mod unat_div u ps e by simp_all
  moreover have "unat (incr div page_size + 1) = unat incr div 4096 + 1"
    using unat_lt32 [of incr] by (subst unat_plus_nowrap) (simp_all add: unat_div ps)
  ultimately show ?thesis using False
    by (simp add: page_number_def word_unat_eq_iff)
qed

lemma page_number_pos:
  assumes "incr \<noteq> 0"
  shows "page_number incr \<noteq> 0"
proof
  assume z: "page_number incr = 0"
  have ps: "unat page_size = 4096" by (simp add: page_size_def)
  have lt: "unat incr div 4096 + 1 < 2 ^ 32" using unat_lt32 [of incr] by simp
  show False
  proof (cases "incr mod page_size = 0")
    case True
    then have "unat incr mod 4096 = 0" "unat incr div 4096 = 0"
      using z by (simp_all add: page_number_def word_unat_eq_iff unat_div unat_mod ps)
    then show False using assms by (simp add: word_unat_eq_iff)
  next
    case False
    then have "unat (incr div page_size + 1) = 0" using z by (simp add: page_number_def)
    then show False using lt by (subst (asm) unat_plus_nowrap) (simp_all add: unat_div ps)
  qed
qed

text \<open>Multiples of the page size are closed under subtraction: the number of words is a multiple too.\<close>

lemma dvd_word_minus:
  assumes "4096 dvd unat (n :: u32)"
  shows "4096 dvd unat (- n)"
proof -
  have "(unat n + unat (- n)) mod 4294967296 = unat (n + - n)" by (simp only: unat_word_ariths) simp
  then have "4294967296 dvd unat n + unat (- n)" by (simp add: dvd_eq_mod_eq_0)
  then have "4096 dvd unat n + unat (- n)" by (rule dvd_trans [rotated]) simp
  then show ?thesis using assms by (simp only: dvd_add_right_iff)
qed

lemma dvd_word_diff:
  assumes "4096 dvd unat (a :: u32)" and "4096 dvd unat b"
  shows "4096 dvd unat (a - b)"
proof -
  have "4096 dvd (unat a + unat (- b)) mod 4294967296"
    using assms dvd_word_minus by (intro dvd_mod) simp_all
  then show ?thesis by (simp add: unat_word_ariths flip: add_uminus_conv_diff)
qed

lemma alloc_pages_length:
  assumes "alloc_pages n as s = (Some bs, s')"
  shows "length bs = length as + n"
  using assms by (induction n arbitrary: as s) (auto simp: Let_def split: prod.splits if_splits)

section \<open>The break moves\<close>



lemma alloc_pages_tables:
  assumes "alloc_pages n as s = (r, s')"
  shows "page_tables s' = page_tables s"
proof -
  have "page_tables (free_pages as s) = page_tables s" for as s by (induction as arbitrary: s) simp_all
  with assms show ?thesis by (induction n arbitrary: as s) (auto simp: Let_def split: prod.splits if_splits)
qed

lemma translation_by_tables: "page_tables v = page_tables v' \<Longrightarrow> get_phys_address pt w v = get_phys_address pt w v'"
  by (simp only: get_phys_address_def table_at_def)

text \<open>Sbrk does not shrink the heap. A negative increment is taken as a large unsigned one;
  when there is not that much memory the call reports an error and hands out the address of all
  ones, but the break has moved down all the same, while no page is given back and the pages
  behind the break stay mapped.\<close>

theorem sbrk_negative_fails:
  assumes p: "proc_at s cur = Inr p" and top: "heap_top p \<noteq> 0" "heap_top p mod page_size = 0"
    and n: "n \<noteq> 0" "n mod page_size = 0"
    and pool: "pages_inv page_size (vm_mem (memory s))" "first_address (vm_mem (memory s)) < cur_kernel_bound (vm_mem (memory s))"
    and none: "alloc_pages (unat (page_number (- n))) [] (memory s) = (None, v)"
  shows "sys_break areas cur (- n) a s
      = Inr (e_no_mem, - n, NOT 0, put_process cur (p\<lparr>heap_top := heap_top p - n\<rparr>) (s\<lparr>memory := v\<rparr>))
    \<and> used_pages (vm_mem v) = used_pages (vm_mem (memory s))
    \<and> (\<forall>w. get_phys_address (ptable p) w v = get_phys_address (ptable p) w (memory s))"
proof -
  have "unat n mod 4096 = 0" using n(2) by (simp add: word_unat_eq_iff unat_mod page_size_def)
  then have m: "(- n) mod page_size = 0"
    using dvd_word_minus [of n] by (simp add: word_unat_eq_iff unat_mod page_size_def dvd_eq_mod_eq_0)
  have "virtual_vmalloc areas (- n) (ptable p) (heap_top p) (memory s) = Inr (0, v)"
    using top(1) none by (simp add: virtual_vmalloc_def user_malloc_def)
  then have "sys_break areas cur (- n) a s
      = Inr (e_no_mem, - n, NOT 0, put_process cur (p\<lparr>heap_top := heap_top p - n\<rparr>) (s\<lparr>memory := v\<rparr>))"
    using sbrk_aligned [OF p top, of "- n" areas a] n(1) m by (simp add: sbrk_pages_def Let_def)
  moreover have "used_pages (vm_mem v) = used_pages (vm_mem (memory s))"
    using alloc_pages_run [OF pool page_run_Nil, of "unat (page_number (- n))" None v] none by simp
  ultimately show ?thesis using translation_by_tables [OF alloc_pages_tables [OF none]] by simp
qed

text \<open>Asking for the break destroys memory. sbrk(0) returns 0 and not the break. At the
  border of a page it gives the page behind the break back, if one is mapped there, and the
  address of the break is unmapped; it reports no error. Inside a page nothing happens.\<close>

theorem sbrk_zero_frees:
  assumes p: "proc_at s cur = Inr p" and top: "heap_top p \<noteq> 0"
    and free: "kfree (heap_top p) False (Some (ptable p)) (memory s) = Inr (True, v)"
  shows "(heap_top p mod page_size = 0 \<longrightarrow> sys_break areas cur 0 a s = Inr (no_error, 0, 0, put_process cur p (s\<lparr>memory := v\<rparr>)))
    \<and> (heap_top p mod page_size \<noteq> 0 \<longrightarrow> sys_break areas cur 0 a s = Inr (no_error, 0, 0, put_process cur p s))
    \<and> get_phys_address (ptable p) (heap_top p) v = Inr 0"
proof -
  have "unmapped (ptable p) (heap_top p) v" using kfree_page [OF free] by simp
  moreover have "0 < heap_top p mod page_size" if "heap_top p mod page_size \<noteq> 0"
    using that by (simp add: word_gt_0)
  ultimately show ?thesis using p top free by (simp add: sys_break_def sbrk_release_def Let_def unmapped_phys)
qed

section \<open>Samples\<close>

definition brk_process :: "ptr \<Rightarrow> process" where
  "brk_process brk = (process_sample 1)\<lparr>ptable := 0x1000, heap_top := brk\<rparr>"

definition brk_sched :: "vm_state \<Rightarrow> ptr \<Rightarrow> scheduler" where
  "brk_sched v brk = sched_sample\<lparr>memory := v, procs := [10 \<mapsto> brk_process brk]\<rparr>"

lemma brk_simps:
  "proc_at (brk_sched v brk) 10 = Inr (brk_process brk)" "memory (brk_sched v brk) = v" "heap_top (brk_process brk) = brk"
  "heap_max (brk_process brk) = 0" "ptable (brk_process brk) = 0x1000"
  by (simp_all add: proc_at_def brk_sched_def brk_process_def process_sample_def)

lemma elf_memory_inv:
  "pages_inv page_size (vm_mem elf_memory)" "first_address (vm_mem elf_memory) < cur_kernel_bound (vm_mem elf_memory)"
  using elf_pool_inv by (simp_all add: elf_memory_def elf_pool_simps)



theorem sbrk_zero_frees_witness:
  "\<exists>s. sys_break [] 10 0 0 (brk_sched reset_sample 0x80400000) = Inr (no_error, 0, 0, s)
    \<and> get_phys_address 0x1000 0x80400000 reset_sample = Inr 0x13000 \<and> get_phys_address 0x1000 0x80400000 (memory s) = Inr 0"
proof -
  obtain v where "kfree 0x80400000 False (Some 0x1000) reset_sample = Inr (True, v)" using reset_sample_free by blast
  then show ?thesis
    using sbrk_zero_frees [OF brk_simps(1) [of reset_sample "0x80400000"], of v "[]" 0] reset_sample_mapped
    by (simp add: brk_simps page_size_def)
qed

text \<open>There is one free page, so that the pages of a negative increment cannot be had.\<close>

lemma elf_memory_small:
  assumes "1 < n"
  shows "\<exists>v. alloc_pages n [] elf_memory = (None, v)"
proof -
  have "{1..<page_count elf_pool} - used_pages elf_pool \<subseteq> {1}"
    unfolding elf_pool_used by (auto simp: elf_pool_addr)
  then show ?thesis
    using alloc_pages_too_many [OF elf_memory_inv, of "{1}" n] assms by (simp add: elf_memory_def)
qed

theorem sbrk_negative_fails_witness:
  "\<exists>v. sys_break [] 10 (- 0x1000) 0 (brk_sched elf_memory 0x80400000)
    = Inr (e_no_mem, - 0x1000, NOT 0, put_process 10 (brk_process 0x803FF000) ((brk_sched elf_memory 0x80400000)\<lparr>memory := v\<rparr>))"
proof -
  have "1 < unat (page_number (- 0x1000))" by (simp add: page_number_def page_size_def)
  then obtain v where v: "alloc_pages (unat (page_number (- 0x1000))) [] elf_memory = (None, v)" using elf_memory_small by blast
  have q: "(brk_process 0x80400000)\<lparr>heap_top := 0x803FF000\<rparr> = brk_process 0x803FF000" by (simp add: brk_process_def)
  show ?thesis
    using sbrk_negative_fails [OF brk_simps(1) [of elf_memory "0x80400000"], of "0x1000" v "[]" 0, unfolded brk_simps, OF _ _ _ _ elf_memory_inv v] q
    by (intro exI [of _ v]) (simp add: page_size_def)
qed

end
