(* ===== verification/Syscalls.thy ===== *)
theory Syscalls
  imports Heap_Break
begin

text \<open>
  The system calls (common/include/syscalls.h, common/include/syscalls/syscall_structs.h,
  kern/syscalls/syscall_dispatcher.cpp): the message a process hands to the kernel, and the
  dispatcher that answers it out of the scheduler, the file system, the loader and the memory.
\<close>

section \<open>Messages\<close>

datatype syscall_type =
    test_call | exit_call | close_call | execve_call | fork_call | fstat_call | getpid_call | isatty_call
  | kill_call | link_call | lseek_call | open_call | read_call | sbrk_call | stat_call | times_call
  | unlink_call | wait_call | write_call | gettimeofday_call | pipe_call

fun syscall_type_to_string :: "syscall_type option \<Rightarrow> string" where
  "syscall_type_to_string None = ''No such syscall''"
| "syscall_type_to_string (Some test_call) = ''Test call''"
| "syscall_type_to_string (Some exit_call) = ''Exit call''"
| "syscall_type_to_string (Some close_call) = ''Close call''"
| "syscall_type_to_string (Some execve_call) = ''Execve call''"
| "syscall_type_to_string (Some fork_call) = ''Fork call''"
| "syscall_type_to_string (Some fstat_call) = ''Fstat call''"
| "syscall_type_to_string (Some getpid_call) = ''Getpid call''"
| "syscall_type_to_string (Some isatty_call) = ''is a tty call''"
| "syscall_type_to_string (Some kill_call) = ''kill call''"
| "syscall_type_to_string (Some link_call) = ''link call''"
| "syscall_type_to_string (Some lseek_call) = ''lseek call''"
| "syscall_type_to_string (Some open_call) = ''open call''"
| "syscall_type_to_string (Some read_call) = ''read call''"
| "syscall_type_to_string (Some sbrk_call) = ''sbrk call''"
| "syscall_type_to_string (Some stat_call) = ''stat call''"
| "syscall_type_to_string (Some times_call) = ''times call''"
| "syscall_type_to_string (Some unlink_call) = ''unlink call''"
| "syscall_type_to_string (Some wait_call) = ''wait call''"
| "syscall_type_to_string (Some pipe_call) = ''pipe call ''"
| "syscall_type_to_string (Some write_call) = ''write call''"
| "syscall_type_to_string (Some gettimeofday_call) = ''get time of day call''"

definition error_type_to_string :: "u32 \<Rightarrow> string" where
  "error_type_to_string e =
     (if e = no_error then ''no error''
      else if e = e_no_such_entry then ''no such entry''
      else if e = e_no_syscall then ''no syscall''
      else if e = e_bad_filedescriptor then ''bad filedescriptor''
      else if e = e_no_exec then ''no exec''
      else if e = e_no_mem then ''no mem''
      else if e = e_illegal_seek then ''illegal seek''
      else ''no such error'')"

text \<open>
  The union of the structures of all calls, with the number of the call: a pointer to a string
  or to a buffer stands as what it points to, so that requests and answers are values. Fields that
  no side reads or sets (the arguments of execve, the buffers of times, gettimeofday and pipe) are
  left out.
\<close>

datatype stat_value = No_stat | Dev_value dev_stat | Fat_value fat_stat

datatype syscall_data =
    Testcall_data "u8 list" "u32" "u8 list" "u32"
  | Exit_data u32
  | Close_data u32
  | Execve_data string
  | Fork_data u32
  | Fstat_data u32 stat_value
  | Getpid_data u32
  | Isatty_data u32 u32
  | Kill_data u32 u32
  | Link_data string string
  | Lseek_data u32 u64 int
  | Open_data u32 string u32 u32
  | Read_data u32 "u8 list" u32
  | Sbrk_data u32 ptr
  | Stat_data string stat_value
  | Times_data u32
  | Unlink_data string
  | Wait_data u32 u32
  | Write_data u32 "u8 list" u32
  | Gettimeofday_data
  | Pipe_data u32 u32
  | Unknown_data u32

fun call_type :: "syscall_data \<Rightarrow> syscall_type option" where
  "call_type (Testcall_data a b c d) = Some test_call"
| "call_type (Exit_data a) = Some exit_call"
| "call_type (Close_data a) = Some close_call"
| "call_type (Execve_data a) = Some execve_call"
| "call_type (Fork_data a) = Some fork_call"
| "call_type (Fstat_data a b) = Some fstat_call"
| "call_type (Getpid_data a) = Some getpid_call"
| "call_type (Isatty_data a b) = Some isatty_call"
| "call_type (Kill_data a b) = Some kill_call"
| "call_type (Link_data a b) = Some link_call"
| "call_type (Lseek_data a b c) = Some lseek_call"
| "call_type (Open_data a b c d) = Some open_call"
| "call_type (Read_data a b c) = Some read_call"
| "call_type (Sbrk_data a b) = Some sbrk_call"
| "call_type (Stat_data a b) = Some stat_call"
| "call_type (Times_data a) = Some times_call"
| "call_type (Unlink_data a) = Some unlink_call"
| "call_type (Wait_data a b) = Some wait_call"
| "call_type (Write_data a b c) = Some write_call"
| "call_type Gettimeofday_data = Some gettimeofday_call"
| "call_type (Pipe_data a b) = Some pipe_call"
| "call_type (Unknown_data n) = None"

record syscall_message =
  msg_call :: syscall_data
  msg_error :: u32

section \<open>The world of a call\<close>

text \<open>
  What the model does not fix: the drives and consoles, what new returns for a handle and for a
  child, the descriptors of the running process in the order of its map, the place fork goes on
  at, and what the memory of the loader holds before it is read.
\<close>

record ('drv, 'con, 'w) kernel_env =
  fs_env :: "('drv, 'con, 'w) vfs_env"
  mem_areas :: "memory_area list"
  new_handle :: nat
  new_mem :: new_memory
  fd_keys :: "u32 list"
  fork_label :: ptr
  ehdr_junk :: "u8 list"
  phdr_junk :: "nat \<Rightarrow> u8 list"

text \<open>The answer to a call; there is none when the call does not return to its caller.\<close>

type_synonym ('drv, 'con, 'w) reply = "(syscall_message option \<times> ('drv, 'con, 'w) system) result option"

definition answer :: "syscall_data \<Rightarrow> u32 \<Rightarrow> ('drv, 'con, 'w) system \<Rightarrow> ('drv, 'con, 'w) reply" where
  "answer d e st = Some (Inr (Some \<lparr>msg_call = d, msg_error = e\<rparr>, st))"

definition set_holder :: "ptr \<Rightarrow> process \<Rightarrow> filehandle_holder \<Rightarrow> ('drv, 'con, 'w) system \<Rightarrow> ('drv, 'con, 'w) system" where
  "set_holder cur p h st = st\<lparr>sched := put_process cur (p\<lparr>holder := h\<rparr>) (sched st)\<rparr>"

definition set_handles :: "handle_store \<Rightarrow> ('drv, 'con, 'w) system \<Rightarrow> ('drv, 'con, 'w) system" where
  "set_handles hs st = st\<lparr>sched := (sched st)\<lparr>handles := hs\<rparr>\<rparr>"

definition set_world :: "'w \<Rightarrow> ('drv, 'con, 'w) system \<Rightarrow> ('drv, 'con, 'w) system" where
  "set_world w st = st\<lparr>files := (files st)\<lparr>world := w\<rparr>\<rparr>"

text \<open>The handle of a descriptor of the running process.\<close>

definition handle_of :: "ptr \<Rightarrow> u32 \<Rightarrow> ('drv, 'con, 'w) system \<Rightarrow> (nat \<times> filehandle) result" where
  "handle_of cur fd st =
     bind_result (proc_at (sched st) cur) (\<lambda>p.
     bind_result (get_filehandle fd (holder p)) (\<lambda>i.
       case handles (sched st) i of None \<Rightarrow> Inl Wild_access | Some fh \<Rightarrow> Inr (i, fh)))"

section \<open>What a node answers a handle\<close>

text \<open>The operations of nodes in the shape the handles use them.\<close>

definition node_read ::
  "('drv, 'con, 'w) vfs_env \<Rightarrow> ('drv, 'con, 'w) vfs \<Rightarrow> nat \<Rightarrow> u64 \<Rightarrow> u32
   \<Rightarrow> (u8 list \<times> 'w) result option \<Rightarrow> (u8 list \<times> 'w) result option" where
  "node_read env fs node offset len r =
     bind_loop r (\<lambda>(buf, w). bind_loop (Some (deref node fs)) (\<lambda>(_, n). v_read env n offset len buf w))"

definition node_write ::
  "('drv, 'con, 'w) vfs_env \<Rightarrow> ('drv, 'con, 'w) vfs \<Rightarrow> u8 list \<Rightarrow> nat \<Rightarrow> u64 \<Rightarrow> u32
   \<Rightarrow> 'w result option \<Rightarrow> 'w result option" where
  "node_write env fs buf node offset len r =
     bind_loop r (\<lambda>w. bind_loop (Some (deref node fs)) (\<lambda>(_, n). v_write env n offset len buf w))"

fun v_is_tty :: "('drv, 'con, 'w) vnode \<Rightarrow> bool" where
  "v_is_tty (V_dummy path fs_root dir) = False"
| "v_is_tty (V_dev n) = dn_tty n"
| "v_is_tty (V_fat con fs n) = False"

fun v_stat :: "('drv, 'con, 'w) vnode \<Rightarrow> stat_value result" where
  "v_stat (V_dummy path fs_root dir) = Inr No_stat"
| "v_stat (V_dev n) = Inr (Dev_value (dev_node_stat n))"
| "v_stat (V_fat con fs n) = bind_result (fat_node_stat fs n) (\<lambda>v. Inr (Fat_value v))"

definition node_info_of :: "('drv, 'con, 'w) vfs \<Rightarrow> nat \<Rightarrow> node_info" where
  "node_info_of fs node =
     (case node_heap fs node of
        None \<Rightarrow> \<lparr>ni_is_tty = False, ni_length = 0\<rparr>
      | Some (_, n) \<Rightarrow> \<lparr>ni_is_tty = v_is_tty n, ni_length = v_length n\<rparr>)"

definition node_alive :: "('drv, 'con, 'w) vfs \<Rightarrow> filehandle \<Rightarrow> bool" where
  "node_alive fs fh \<longleftrightarrow> (case fh_node fh of None \<Rightarrow> True | Some p \<Rightarrow> node_heap fs p \<noteq> None)"

section \<open>The calls\<close>

text \<open>Sixteen bytes are written, however long the response is.\<close>

definition test_answer :: "u8 list" where
  "test_answer = map (\<lambda>c. of_nat (of_char c)) ''HELLO Userlevel!''"

definition sys_test :: "u8 list \<Rightarrow> u32 \<Rightarrow> u8 list \<Rightarrow> u32 \<Rightarrow> ('drv, 'con, 'w) system \<Rightarrow> ('drv, 'con, 'w) reply" where
  "sys_test request req_length response resp_length st =
     (if length response < 16 then Some (Inl Out_of_bounds)
      else answer (Testcall_data request req_length (test_answer @ drop 16 response) resp_length) no_error st)"

text \<open>Flags and mode are cut to a char.\<close>

definition sys_open ::
  "('drv, 'con, 'w) kernel_env \<Rightarrow> ptr \<Rightarrow> u32 \<Rightarrow> string \<Rightarrow> u32 \<Rightarrow> u32 \<Rightarrow> ('drv, 'con, 'w) system \<Rightarrow> ('drv, 'con, 'w) reply" where
  "sys_open env cur fd0 path_name flags create_mode st =
     bind_loop (open_node (fs_env env) path_name (files st)) (\<lambda>(file, fs).
       let st1 = st\<lparr>files := fs\<rparr>
       in if file = None then answer (Open_data fd0 path_name flags create_mode) e_no_such_entry st1
          else bind_loop (Some (proc_at (sched st1) cur)) (\<lambda>p.
               bind_loop (Some (push_filehandle (new_handle env) file (char_of (unat flags)) (char_of (unat create_mode))
                                  (holder p) (handles (sched st1)))) (\<lambda>(fd, h, hs).
                 answer (Open_data fd path_name flags create_mode) no_error (set_handles hs (set_holder cur p h st1)))))"

definition sys_close ::
  "('drv, 'con, 'w) kernel_env \<Rightarrow> ptr \<Rightarrow> u32 \<Rightarrow> ('drv, 'con, 'w) system \<Rightarrow> ('drv, 'con, 'w) reply" where
  "sys_close env cur fd st =
     bind_loop (Some (proc_at (sched st) cur)) (\<lambda>p.
     bind_loop (Some (remove_filehandle fd (holder p) (handles (sched st)))) (\<lambda>(file, h).
       let st1 = set_holder cur p h st
       in if file = None then answer (Close_data fd) e_bad_filedescriptor st1
          else bind_loop (Some (close_node (fs_env env) file (files st1))) (\<lambda>fs.
                 answer (Close_data fd) no_error (st1\<lparr>files := fs\<rparr>))))"

text \<open>What read and write of the handle return is not looked at.\<close>

definition sys_read ::
  "('drv, 'con, 'w) kernel_env \<Rightarrow> ptr \<Rightarrow> u32 \<Rightarrow> u8 list \<Rightarrow> u32 \<Rightarrow> ('drv, 'con, 'w) system \<Rightarrow> ('drv, 'con, 'w) reply" where
  "sys_read env cur fd buffer len st =
     bind_loop (Some (handle_of cur fd st)) (\<lambda>(i, fh).
       let (_, fh1, r) = fh_read (node_read (fs_env env) (files st)) len fh (Some (Inr (buffer, world (files st))))
       in bind_loop r (\<lambda>(bs, w).
            answer (Read_data fd bs len) no_error
              (set_world w (set_handles ((handles (sched st))(i \<mapsto> fh1)) st))))"

definition sys_write ::
  "('drv, 'con, 'w) kernel_env \<Rightarrow> ptr \<Rightarrow> u32 \<Rightarrow> u8 list \<Rightarrow> u32 \<Rightarrow> ('drv, 'con, 'w) system \<Rightarrow> ('drv, 'con, 'w) reply" where
  "sys_write env cur fd buffer len st =
     bind_loop (Some (handle_of cur fd st)) (\<lambda>(i, fh).
       let (_, fh1, r) = fh_write (node_write (fs_env env) (files st) buffer) len fh (Some (Inr (world (files st))))
       in bind_loop r (\<lambda>w.
            answer (Write_data fd buffer len) no_error
              (set_world w (set_handles ((handles (sched st))(i \<mapsto> fh1)) st))))"

definition sys_lseek :: "ptr \<Rightarrow> u32 \<Rightarrow> u64 \<Rightarrow> int \<Rightarrow> ('drv, 'con, 'w) system \<Rightarrow> ('drv, 'con, 'w) reply" where
  "sys_lseek cur fd offset number st =
     bind_loop (Some (handle_of cur fd st)) (\<lambda>(i, fh).
       if \<not> node_alive (files st) fh then Some (Inl Wild_access)
       else let (success, fh1) = fh_seek (node_info_of (files st)) offset number fh
            in answer (Lseek_data fd offset number) (if \<not> success then e_illegal_seek else no_error)
                 (set_handles ((handles (sched st))(i \<mapsto> fh1)) st))"

definition sys_fstat :: "ptr \<Rightarrow> u32 \<Rightarrow> stat_value \<Rightarrow> ('drv, 'con, 'w) system \<Rightarrow> ('drv, 'con, 'w) reply" where
  "sys_fstat cur fd st0 st =
     bind_loop (Some (handle_of cur fd st)) (\<lambda>(i, fh).
       case fh_stat (\<lambda>p. bind_result (deref p (files st)) (\<lambda>(_, n). v_stat n)) fh of
         None \<Rightarrow> answer (Fstat_data fd st0) e_no_such_entry st
       | Some r \<Rightarrow> bind_loop (Some r) (\<lambda>v. answer (Fstat_data fd v) no_error st))"

definition sys_sbrk ::
  "('drv, 'con, 'w) kernel_env \<Rightarrow> ptr \<Rightarrow> u32 \<Rightarrow> ptr \<Rightarrow> ('drv, 'con, 'w) system \<Rightarrow> ('drv, 'con, 'w) reply" where
  "sys_sbrk env cur incr addr st =
     bind_loop (Some (sys_break (mem_areas env) cur incr addr (sched st))) (\<lambda>(e, incr1, addr1, s).
       answer (Sbrk_data incr1 addr1) e (st\<lparr>sched := s\<rparr>))"

definition sys_getpid :: "ptr \<Rightarrow> ('drv, 'con, 'w) system \<Rightarrow> ('drv, 'con, 'w) reply" where
  "sys_getpid cur st = bind_loop (Some (proc_at (sched st) cur)) (\<lambda>p. answer (Getpid_data (pid p)) no_error st)"

definition sys_fork :: "('drv, 'con, 'w) kernel_env \<Rightarrow> ('drv, 'con, 'w) system \<Rightarrow> ('drv, 'con, 'w) reply" where
  "sys_fork env st =
     bind_loop (fork_process (mem_areas env) (fd_keys env) (new_mem env) (fork_label env) False 0 (sched st)) (\<lambda>(success, child, s).
       if \<not> success then answer (Fork_data (- 1)) e_no_mem (st\<lparr>sched := s\<rparr>)
       else answer (Fork_data child) no_error (st\<lparr>sched := s\<rparr>))"

definition sys_execve :: "('drv, 'con, 'w) kernel_env \<Rightarrow> string \<Rightarrow> ('drv, 'con, 'w) system \<Rightarrow> ('drv, 'con, 'w) reply" where
  "sys_execve env file_name st =
     bind_loop (load_elf (fs_env env) (mem_areas env) (ehdr_junk env) (phdr_junk env) file_name st) (\<lambda>(r, st1).
       case r of
         Entered \<Rightarrow> Some (Inr (None, st1))
       | Returned success \<Rightarrow> answer (Execve_data file_name) (if \<not> success then e_no_exec else no_error) st1)"

definition sys_exit :: "u32 \<Rightarrow> ('drv, 'con, 'w) system \<Rightarrow> ('drv, 'con, 'w) reply" where
  "sys_exit code st =
     (let (success, s) = exit_process (sched st)
      in if \<not> success then Some (Inl Die) else answer (Exit_data code) no_error (st\<lparr>sched := s\<rparr>))"

section \<open>The dispatcher\<close>

text \<open>
  Without a running process the kernel stops. Calls without a case are answered with an error.
  An exception thrown inside a call stops the kernel, as the fault Die does here.
\<close>

definition real_dispatch_syscall ::
  "('drv, 'con, 'w) kernel_env \<Rightarrow> syscall_message \<Rightarrow> ('drv, 'con, 'w) system \<Rightarrow> ('drv, 'con, 'w) reply" where
  "real_dispatch_syscall env msg st =
     bind_loop (Some (get_current_process (strategy (sched st)))) (\<lambda>cur.
       if cur = 0 then Some (Inl Die)
       else case msg_call msg of
              Testcall_data request n response m \<Rightarrow> sys_test request n response m st
            | Open_data fd path_name flags create_mode \<Rightarrow> sys_open env cur fd path_name flags create_mode st
            | Close_data fd \<Rightarrow> sys_close env cur fd st
            | Read_data fd buffer len \<Rightarrow> sys_read env cur fd buffer len st
            | Write_data fd buffer len \<Rightarrow> sys_write env cur fd buffer len st
            | Lseek_data fd offset number \<Rightarrow> sys_lseek cur fd offset number st
            | Fstat_data fd v \<Rightarrow> sys_fstat cur fd v st
            | Sbrk_data incr addr \<Rightarrow> sys_sbrk env cur incr addr st
            | Getpid_data p \<Rightarrow> sys_getpid cur st
            | Fork_data p \<Rightarrow> sys_fork env st
            | Execve_data file_name \<Rightarrow> sys_execve env file_name st
            | Pipe_data r w \<Rightarrow> answer (Pipe_data r w) no_error st
            | Exit_data code \<Rightarrow> sys_exit code st
            | d \<Rightarrow> answer d e_no_syscall st)"

section \<open>Exceptions\<close>

record exception_message =
  exception_text :: string
  exception_number :: u32
  error_code :: u32
  instruction_address :: ptr
  memory_address :: ptr

text \<open>No exception of the processor is handled.\<close>

definition real_dispatch_exception :: "exception_message \<Rightarrow> ('drv, 'con, 'w) system \<Rightarrow> ('drv, 'con, 'w) system result" where
  "real_dispatch_exception msg st = Inl Die"

section \<open>Unknown descriptors\<close>

lemma dispatch_current:
  assumes "get_current_process (strategy (sched st)) = Inr cur" and "cur \<noteq> 0"
  shows "real_dispatch_syscall env \<lparr>msg_call = Open_data fd0 name flags mode, msg_error = e\<rparr> st = sys_open env cur fd0 name flags mode st"
    and "real_dispatch_syscall env \<lparr>msg_call = Close_data fd, msg_error = e\<rparr> st = sys_close env cur fd st"
    and "real_dispatch_syscall env \<lparr>msg_call = Read_data fd buf len, msg_error = e\<rparr> st = sys_read env cur fd buf len st"
    and "real_dispatch_syscall env \<lparr>msg_call = Write_data fd buf len, msg_error = e\<rparr> st = sys_write env cur fd buf len st"
    and "real_dispatch_syscall env \<lparr>msg_call = Lseek_data fd off dir, msg_error = e\<rparr> st = sys_lseek cur fd off dir st"
    and "real_dispatch_syscall env \<lparr>msg_call = Fstat_data fd v, msg_error = e\<rparr> st = sys_fstat cur fd v st"
    and "real_dispatch_syscall env \<lparr>msg_call = Sbrk_data incr addr, msg_error = e\<rparr> st = sys_sbrk env cur incr addr st"
    and "real_dispatch_syscall env \<lparr>msg_call = Getpid_data x, msg_error = e\<rparr> st = sys_getpid cur st"
    and "real_dispatch_syscall env \<lparr>msg_call = Fork_data x, msg_error = e\<rparr> st = sys_fork env st"
    and "real_dispatch_syscall env \<lparr>msg_call = Execve_data name, msg_error = e\<rparr> st = sys_execve env name st"
  using assms by (simp_all add: real_dispatch_syscall_def)

lemma handle_of_eq:
  assumes "procs (sched st) cur = Some p" and "cur \<noteq> 0" and "filehandles (holder p) fd = Some i" and "handles (sched st) i = Some fh"
  shows "handle_of cur fd st = Inr (i, fh)"
  using assms by (simp add: handle_of_def proc_at_def get_filehandle_def)

text \<open>The error for a bad descriptor is never reported for one. Closing, reading,
  writing, seeking or asking for the status of a descriptor the process does not have
  dereferences the end of its map of handles, before any test could answer EBADF.\<close>

theorem bad_descriptor_overruns:
  assumes "get_current_process (strategy (sched st)) = Inr cur" and "cur \<noteq> 0" and "procs (sched st) cur = Some p"
    and "filehandles (holder p) fd = None"
    and "d \<in> {Close_data fd, Read_data fd buf len, Write_data fd buf len, Lseek_data fd off dir, Fstat_data fd v}"
  shows "real_dispatch_syscall env \<lparr>msg_call = d, msg_error = e\<rparr> st = Some (Inl End_deref)"
proof -
  have "handle_of cur fd st = Inl End_deref"
    using assms by (simp add: handle_of_def proc_at_def get_filehandle_def)
  then show ?thesis using assms
    by (auto simp: dispatch_current sys_close_def sys_read_def sys_write_def sys_lseek_def sys_fstat_def proc_at_def
        remove_filehandle_def)
qed

section \<open>Opening and reading a file\<close>

lemma set_simps [simp]:
  "files (set_holder cur p h st) = files st" "files (set_handles hs st) = files st"
  "handles (sched (set_holder cur p h st)) = handles (sched st)" "handles (sched (set_handles hs st)) = hs"
  "procs (sched (set_holder cur p h st)) = (procs (sched st))(cur \<mapsto> p\<lparr>holder := h\<rparr>)"
  "procs (sched (set_handles hs st)) = procs (sched st)"
  "strategy (sched (set_holder cur p h st)) = strategy (sched st)" "strategy (sched (set_handles hs st)) = strategy (sched st)"
  "next_pid (sched (set_holder cur p h st)) = next_pid (sched st)" "next_pid (sched (set_handles hs st)) = next_pid (sched st)"
  "sched (set_world w st) = sched st" "files (set_world w st) = (files st)\<lparr>world := w\<rparr>"
  by (simp_all add: set_holder_def set_handles_def set_world_def put_process_def)

lemma read_through_handle:
  assumes "get_current_process (strategy (sched st)) = Inr cur" and "cur \<noteq> 0" and "procs (sched st) cur = Some p"
    and "filehandles (holder p) fd = Some i" and "handles (sched st) i = Some fh" and "fh_node fh = Some f"
    and "node_heap (files st) f = Some (u, n)"
    and "v_read (fs_env env) n (fh_offset fh) len buf (world (files st)) = Some (Inr (bs, w))"
  shows "real_dispatch_syscall env \<lparr>msg_call = Read_data fd buf len, msg_error = e\<rparr> st
    = answer (Read_data fd bs len) no_error
        (set_world w (set_handles ((handles (sched st))(i \<mapsto> fh\<lparr>fh_offset := fh_offset fh + ucast len\<rparr>)) st))"
  using assms
  by (simp add: dispatch_current sys_read_def handle_of_eq fh_read_def fh_transfer_def node_read_def deref_def Let_def)

lemma open_pushes:
  assumes "get_current_process (strategy (sched st)) = Inr cur" and "cur \<noteq> 0" and "procs (sched st) cur = Some p"
    and "open_node (fs_env env) name (files st) = Some (Inr (Some f, fs))"
  shows "\<exists>st1 q. real_dispatch_syscall env \<lparr>msg_call = Open_data fd0 name flags mode, msg_error = e\<rparr> st
      = answer (Open_data (fd_counter (holder p)) name flags mode) no_error st1
    \<and> strategy (sched st1) = strategy (sched st) \<and> files st1 = fs
    \<and> procs (sched st1) = (procs (sched st))(cur \<mapsto> q)
    \<and> filehandles (holder q) = (filehandles (holder p))(fd_counter (holder p) \<mapsto> new_handle env)
    \<and> handles (sched st1) = (handles (sched st))(new_handle env \<mapsto>
        filehandle_new (Some f) (char_of (unat flags)) (char_of (unat mode)) (fd_counter (holder p)))"
proof -
  let ?q = "p\<lparr>holder := (holder p)\<lparr>filehandles := (filehandles (holder p))(fd_counter (holder p) \<mapsto> new_handle env),
      fd_counter := fd_counter (holder p) + 1\<rparr>\<rparr>"
  show ?thesis
    using assms by (simp add: dispatch_current sys_open_def proc_at_def push_filehandle_eq Let_def answer_def)
      (intro exI [of _ ?q] conjI, simp_all)
qed

text \<open>C6: a file that is opened is read from its start on. Opening a path answers the next
  descriptor of the process; a read through it asks the node the path leads to for the bytes at
  offset 0, and the following read for those behind the first, whatever the node is.\<close>

theorem open_then_reads:
  assumes cur: "get_current_process (strategy (sched st)) = Inr cur" "cur \<noteq> 0" "procs (sched st) cur = Some p"
    and op: "open_node (fs_env env) name (files st) = Some (Inr (Some f, fs))" "node_heap fs f = Some (u, n)"
    and r1: "v_read (fs_env env) n 0 len1 buf1 (world fs) = Some (Inr (bs1, w1))"
    and r2: "v_read (fs_env env) n (ucast len1) len2 buf2 w1 = Some (Inr (bs2, w2))"
  shows "\<exists>st1 st2 st3 fd. fd = fd_counter (holder p)
    \<and> real_dispatch_syscall env \<lparr>msg_call = Open_data fd0 name flags mode, msg_error = e\<rparr> st
        = answer (Open_data fd name flags mode) no_error st1
    \<and> real_dispatch_syscall env \<lparr>msg_call = Read_data fd buf1 len1, msg_error = e\<rparr> st1 = answer (Read_data fd bs1 len1) no_error st2
    \<and> real_dispatch_syscall env \<lparr>msg_call = Read_data fd buf2 len2, msg_error = e\<rparr> st2 = answer (Read_data fd bs2 len2) no_error st3"
proof -
  let ?fd = "fd_counter (holder p)" and ?i = "new_handle env"
  obtain st1 q where o: "real_dispatch_syscall env \<lparr>msg_call = Open_data fd0 name flags mode, msg_error = e\<rparr> st
      = answer (Open_data ?fd name flags mode) no_error st1"
    and s1: "strategy (sched st1) = strategy (sched st)" "files st1 = fs" "procs (sched st1) = (procs (sched st))(cur \<mapsto> q)"
    "filehandles (holder q) = (filehandles (holder p))(?fd \<mapsto> ?i)"
    "handles (sched st1) = (handles (sched st))(?i \<mapsto> filehandle_new (Some f) (char_of (unat flags)) (char_of (unat mode)) ?fd)"
    using open_pushes [OF cur op(1)] by metis
  obtain fh where fh: "handles (sched st1) ?i = Some fh" "fh_node fh = Some f" "fh_offset fh = 0"
    using s1(5) by (simp add: filehandle_new_def)
  let ?st2 = "set_world w1 (set_handles ((handles (sched st1))(?i \<mapsto> fh\<lparr>fh_offset := fh_offset fh + ucast len1\<rparr>)) st1)"
  have a: "real_dispatch_syscall env \<lparr>msg_call = Read_data ?fd buf1 len1, msg_error = e\<rparr> st1
      = answer (Read_data ?fd bs1 len1) no_error ?st2"
    using read_through_handle [of st1 cur q ?fd ?i fh f u n env len1 buf1 bs1 w1 e]
    by (simp add: s1(1-4) cur(1,2) fh op(2) r1)
  have b: "real_dispatch_syscall env \<lparr>msg_call = Read_data ?fd buf2 len2, msg_error = e\<rparr> ?st2
      = answer (Read_data ?fd bs2 len2) no_error (set_world w2 (set_handles ((handles (sched ?st2))(?i \<mapsto>
          fh\<lparr>fh_offset := ucast len1\<rparr>\<lparr>fh_offset := ucast len1 + ucast len2\<rparr>)) ?st2))"
    using read_through_handle [of ?st2 cur q ?fd ?i "fh\<lparr>fh_offset := ucast len1\<rparr>" f u n env len2 buf2 bs2 w2 e]
    by (simp add: s1(1-4) cur(1,2) fh op(2) r2)
  show ?thesis using o a b by blast
qed

section \<open>Descriptors shared by a fork\<close>


section \<open>Samples\<close>

definition kernel_sample :: "(unit, unit, nat \<Rightarrow> u8) kernel_env" where
  "kernel_sample = \<lparr>fs_env = sample_env (Inr None), mem_areas = [], new_handle = 7, new_mem = nm_sample, fd_keys = [],
     fork_label = 0x8000, ehdr_junk = [], phdr_junk = \<lambda>_. []\<rparr>"

text \<open>A system whose root is a slice of a drive, and one where it is open twice.\<close>

definition slice_vfs :: "(unit, unit, nat \<Rightarrow> u8) vfs" where
  "slice_vfs = (used_vfs 1)\<lparr>node_heap := [0 \<mapsto> (0, V_dev ram_slice)], open_nodes := Map.empty, world := \<lambda>i. of_nat i\<rparr>"

definition slice_system :: "(unit, unit, nat \<Rightarrow> u8) system" where
  "slice_system = \<lparr>sched = elf_sched, files = slice_vfs\<rparr>"

definition shared_system :: "(unit, unit, nat \<Rightarrow> u8) system" where
  "shared_system = \<lparr>sched = elf_sched\<lparr>procs := [10 \<mapsto> (process_sample 1)\<lparr>holder := holder_sample\<rparr>,
       20 \<mapsto> (process_sample 2)\<lparr>holder := holder_sample\<rparr>], handles := [4 \<mapsto> filehandle_new (Some 0) CHR 0x00 CHR 0x00 0]\<rparr>,
     files = slice_vfs\<lparr>node_heap := [0 \<mapsto> (1, V_dev ram_slice)], open_nodes := [dn_path ram_slice \<mapsto> 0]\<rparr>\<rparr>"

lemma sample_current:
  "get_current_process (strategy (sched slice_system)) = Inr 10" "get_current_process (strategy (sched shared_system)) = Inr 10"
  "procs (sched slice_system) 10 = Some ((process_sample 1)\<lparr>ptable := 0x1000\<rparr>)" "fs_env kernel_sample = sample_env (Inr None)"
  using rr_current [OF rr_sample_rep]
  by (simp_all add: slice_system_def shared_system_def kernel_sample_def elf_sched_def sched_sample_def)

theorem bad_descriptor_overruns_witness:
  "real_dispatch_syscall kernel_sample \<lparr>msg_call = Read_data 5 [] 0, msg_error = 0\<rparr> slice_system = Some (Inl End_deref)"
  by (rule bad_descriptor_overruns [OF sample_current(1) _ sample_current(3)])
    (simp_all add: process_sample_def holder_new_def)

lemma slice_open:
  "open_node (sample_env (Inr None)) ''/'' slice_vfs = Some (Inr (Some 0,
     slice_vfs\<lparr>node_heap := [0 \<mapsto> (1, V_dev ram_slice)], open_nodes := [dn_path ram_slice \<mapsto> 0]\<rparr>))"
proof -
  have "clean_path ''/'' = [''/'']" by (simp add: clean_path_def cp_init_def cp_step_def cp_slash_def cp_dot_def Let_def)
  then show ?thesis
    by (simp add: open_node_def find_second_def slice_vfs_def used_vfs_def mark_open_def deref_def ram_slice_def dev_node_drive_def Let_def)
qed

lemma slice_read:
  assumes "length buf = 4"
  shows "v_read (sample_env (Inr None)) (V_dev ram_slice) 0 4 buf (\<lambda>i. of_nat i) = Some (Inr ([10, 11, 12, 13], \<lambda>i. of_nat i))"
    and "v_read (sample_env (Inr None)) (V_dev ram_slice) 4 4 buf (\<lambda>i. of_nat i) = Some (Inr ([14, 15, 16, 17], \<lambda>i. of_nat i))"
  using assms
  by (simp_all add: sample_env_def ram_slice_def dev_node_drive_def dev_node_read_def ram_dev_io_def chunk_def Let_def upt_rec)

theorem open_then_reads_witness:
  "\<exists>st1 st2 st3. real_dispatch_syscall kernel_sample \<lparr>msg_call = Open_data 9 ''/'' 0 0, msg_error = 0\<rparr> slice_system
      = answer (Open_data 0 ''/'' 0 0) no_error st1
    \<and> real_dispatch_syscall kernel_sample \<lparr>msg_call = Read_data 0 [0, 0, 0, 0] 4, msg_error = 0\<rparr> st1
      = answer (Read_data 0 [10, 11, 12, 13] 4) no_error st2
    \<and> real_dispatch_syscall kernel_sample \<lparr>msg_call = Read_data 0 [0, 0, 0, 0] 4, msg_error = 0\<rparr> st2
      = answer (Read_data 0 [14, 15, 16, 17] 4) no_error st3"
proof -
  let ?fs = "slice_vfs\<lparr>node_heap := [0 \<mapsto> (1 :: u32, V_dev ram_slice)], open_nodes := [dn_path ram_slice \<mapsto> 0]\<rparr>"
  have o: "open_node (fs_env kernel_sample) ''/'' (files slice_system) = Some (Inr (Some 0, ?fs))"
    using slice_open by (simp add: sample_current slice_system_def)
  have w: "world ?fs = (\<lambda>i. of_nat i)" "node_heap ?fs 0 = Some (1, V_dev ram_slice)" by (simp_all add: slice_vfs_def)
  have fd: "fd_counter (holder ((process_sample 1)\<lparr>ptable := 0x1000\<rparr>)) = 0" by (simp add: process_sample_def holder_new_def)
  have r: "v_read (fs_env kernel_sample) (V_dev ram_slice) 0 4 [0, 0, 0, 0] (world ?fs) = Some (Inr ([10, 11, 12, 13], \<lambda>i. of_nat i))"
    "v_read (fs_env kernel_sample) (V_dev ram_slice) (ucast (4 :: u32)) 4 [0, 0, 0, 0] (\<lambda>i. of_nat i) = Some (Inr ([14, 15, 16, 17], \<lambda>i. of_nat i))"
    using slice_read [of "[0, 0, 0, 0]"] by (simp_all add: sample_current w)
  have "(10 :: ptr) \<noteq> 0" by simp
  from open_then_reads [OF sample_current(1) this sample_current(3) o w(2) r, of 9 0 0 0] show ?thesis unfolding fd by blast
qed


end
