(* ===== verification/User_Calls.thy ===== *)
theory User_Calls
  imports Syscalls
begin

text \<open>
  The system calls as a program makes them (user/syscalls/syscalls.cpp): each fills a message on
  the stack, enters the kernel and turns the answer into a result and the error number. The
  kernel has no other entry for programs.
\<close>

section \<open>Calling the kernel\<close>

text \<open>
  The message is a variable that is not initialised: \<open>junk\<close> stands for what the fields hold that
  are not set. A call that does not come back has no result.
\<close>

definition call_system ::
  "('drv, 'con, 'w) kernel_env \<Rightarrow> u32 \<Rightarrow> syscall_data \<Rightarrow> (syscall_data \<Rightarrow> u32 \<Rightarrow> 'v) \<Rightarrow> ('drv, 'con, 'w) system
   \<Rightarrow> ('v option \<times> ('drv, 'con, 'w) system) result option" where
  "call_system env junk d f st =
     bind_loop (real_dispatch_syscall env \<lparr>msg_call = d, msg_error = junk\<rparr> st) (\<lambda>(m, st1).
       Some (Inr (map_option (\<lambda>m. f (msg_call m) (msg_error m)) m, st1)))"

text \<open>The usual end of a call: minus one and the error number, or the result.\<close>

definition with_errno :: "u32 \<Rightarrow> u32 \<Rightarrow> u32 \<times> u32 option" where
  "with_errno e v = (if e \<noteq> 0 then (- 1, Some e) else (v, None))"

type_synonym ('drv, 'con, 'w) user_result = "((u32 \<times> u32 option) option \<times> ('drv, 'con, 'w) system) result option"

section \<open>The calls\<close>

definition u_testcall ::
  "('drv, 'con, 'w) kernel_env \<Rightarrow> u32 \<Rightarrow> u8 list \<Rightarrow> u32 \<Rightarrow> u8 list \<Rightarrow> u32 \<Rightarrow> ('drv, 'con, 'w) system
   \<Rightarrow> (u8 list option \<times> ('drv, 'con, 'w) system) result option" where
  "u_testcall env junk request req_length response resp_length =
     call_system env junk (Testcall_data request req_length response resp_length)
       (\<lambda>d e. case d of Testcall_data _ _ r _ \<Rightarrow> r | _ \<Rightarrow> response)"

text \<open>_exit spins when the kernel comes back.\<close>

definition u_exit :: "('drv, 'con, 'w) kernel_env \<Rightarrow> u32 \<Rightarrow> u32 \<Rightarrow> ('drv, 'con, 'w) system \<Rightarrow> ('drv, 'con, 'w) user_result" where
  "u_exit env junk exit_code st =
     (case call_system env junk (Exit_data exit_code) (\<lambda>d e. with_errno e 0) st of
        Some (Inl e) \<Rightarrow> Some (Inl e)
      | _ \<Rightarrow> None)"

definition u_close :: "('drv, 'con, 'w) kernel_env \<Rightarrow> u32 \<Rightarrow> u32 \<Rightarrow> ('drv, 'con, 'w) system \<Rightarrow> ('drv, 'con, 'w) user_result" where
  "u_close env junk file = call_system env junk (Close_data file) (\<lambda>d e. with_errno e 0)"

definition u_execve :: "('drv, 'con, 'w) kernel_env \<Rightarrow> u32 \<Rightarrow> string \<Rightarrow> ('drv, 'con, 'w) system \<Rightarrow> ('drv, 'con, 'w) user_result" where
  "u_execve env junk name = call_system env junk (Execve_data name) (\<lambda>d e. with_errno e junk)"

definition u_execv :: "('drv, 'con, 'w) kernel_env \<Rightarrow> u32 \<Rightarrow> string \<Rightarrow> ('drv, 'con, 'w) system \<Rightarrow> ('drv, 'con, 'w) user_result" where
  "u_execv env junk name = u_execve env junk name"

definition u_fork :: "('drv, 'con, 'w) kernel_env \<Rightarrow> u32 \<Rightarrow> ('drv, 'con, 'w) system \<Rightarrow> ('drv, 'con, 'w) user_result" where
  "u_fork env junk = call_system env junk (Fork_data junk)
     (\<lambda>d e. with_errno e (case d of Fork_data child_pid \<Rightarrow> child_pid | _ \<Rightarrow> 0))"

definition u_fstat ::
  "('drv, 'con, 'w) kernel_env \<Rightarrow> u32 \<Rightarrow> u32 \<Rightarrow> stat_value \<Rightarrow> ('drv, 'con, 'w) system
   \<Rightarrow> (((u32 \<times> u32 option) \<times> stat_value) option \<times> ('drv, 'con, 'w) system) result option" where
  "u_fstat env junk file v = call_system env junk (Fstat_data file v)
     (\<lambda>d e. (with_errno e 0, case d of Fstat_data _ v1 \<Rightarrow> v1 | _ \<Rightarrow> v))"

definition u_getpid :: "('drv, 'con, 'w) kernel_env \<Rightarrow> u32 \<Rightarrow> ('drv, 'con, 'w) system \<Rightarrow> ('drv, 'con, 'w) user_result" where
  "u_getpid env junk = call_system env junk (Getpid_data junk)
     (\<lambda>d e. (case d of Getpid_data p \<Rightarrow> p | _ \<Rightarrow> 0, None))"

definition u_isatty :: "('drv, 'con, 'w) kernel_env \<Rightarrow> u32 \<Rightarrow> u32 \<Rightarrow> ('drv, 'con, 'w) system \<Rightarrow> ('drv, 'con, 'w) user_result" where
  "u_isatty env junk file = call_system env junk (Isatty_data file junk)
     (\<lambda>d e. (case d of Isatty_data _ t \<Rightarrow> t | _ \<Rightarrow> 0, None))"

definition u_kill :: "('drv, 'con, 'w) kernel_env \<Rightarrow> u32 \<Rightarrow> u32 \<Rightarrow> u32 \<Rightarrow> ('drv, 'con, 'w) system \<Rightarrow> ('drv, 'con, 'w) user_result" where
  "u_kill env junk p sig = call_system env junk (Kill_data p sig) (\<lambda>d e. with_errno e 0)"

definition u_link :: "('drv, 'con, 'w) kernel_env \<Rightarrow> u32 \<Rightarrow> string \<Rightarrow> string \<Rightarrow> ('drv, 'con, 'w) system \<Rightarrow> ('drv, 'con, 'w) user_result" where
  "u_link env junk from_name to_name = call_system env junk (Link_data from_name to_name) (\<lambda>d e. with_errno e 0)"

text \<open>The offset in the answer is the one that was asked for; the kernel does not change it.\<close>

definition u_lseek ::
  "('drv, 'con, 'w) kernel_env \<Rightarrow> u32 \<Rightarrow> u32 \<Rightarrow> u32 \<Rightarrow> u32 \<Rightarrow> ('drv, 'con, 'w) system \<Rightarrow> ('drv, 'con, 'w) user_result" where
  "u_lseek env junk file offset seek_type = call_system env junk (Lseek_data file (scast offset) (sint seek_type))
     (\<lambda>d e. with_errno e (case d of Lseek_data _ off _ \<Rightarrow> ucast off | _ \<Rightarrow> 0))"

definition u_open ::
  "('drv, 'con, 'w) kernel_env \<Rightarrow> u32 \<Rightarrow> string \<Rightarrow> u32 \<Rightarrow> u32 \<Rightarrow> ('drv, 'con, 'w) system \<Rightarrow> ('drv, 'con, 'w) user_result" where
  "u_open env junk path oflags mode = call_system env junk (Open_data junk path oflags mode)
     (\<lambda>d e. with_errno e (case d of Open_data fd _ _ _ \<Rightarrow> fd | _ \<Rightarrow> 0))"

text \<open>Both transfers answer the length that was asked for.\<close>

definition u_read ::
  "('drv, 'con, 'w) kernel_env \<Rightarrow> u32 \<Rightarrow> u32 \<Rightarrow> u8 list \<Rightarrow> u32 \<Rightarrow> ('drv, 'con, 'w) system
   \<Rightarrow> (((u32 \<times> u32 option) \<times> u8 list) option \<times> ('drv, 'con, 'w) system) result option" where
  "u_read env junk file buf len = call_system env junk (Read_data file buf len)
     (\<lambda>d e. (with_errno e len, case d of Read_data _ bs _ \<Rightarrow> bs | _ \<Rightarrow> buf))"

definition u_write ::
  "('drv, 'con, 'w) kernel_env \<Rightarrow> u32 \<Rightarrow> u32 \<Rightarrow> u8 list \<Rightarrow> u32 \<Rightarrow> ('drv, 'con, 'w) system \<Rightarrow> ('drv, 'con, 'w) user_result" where
  "u_write env junk file buf len = call_system env junk (Write_data file buf len) (\<lambda>d e. with_errno e len)"

text \<open>The error is not looked at.\<close>

definition u_sbrk :: "('drv, 'con, 'w) kernel_env \<Rightarrow> u32 \<Rightarrow> u32 \<Rightarrow> ('drv, 'con, 'w) system \<Rightarrow> ('drv, 'con, 'w) user_result" where
  "u_sbrk env junk incr = call_system env junk (Sbrk_data incr 0)
     (\<lambda>d e. (case d of Sbrk_data _ addr \<Rightarrow> addr | _ \<Rightarrow> 0, None))"

definition u_stat :: "('drv, 'con, 'w) kernel_env \<Rightarrow> u32 \<Rightarrow> string \<Rightarrow> stat_value \<Rightarrow> ('drv, 'con, 'w) system \<Rightarrow> ('drv, 'con, 'w) user_result" where
  "u_stat env junk file v = call_system env junk (Stat_data file v) (\<lambda>d e. with_errno e 0)"

definition u_times :: "('drv, 'con, 'w) kernel_env \<Rightarrow> u32 \<Rightarrow> ('drv, 'con, 'w) system \<Rightarrow> ('drv, 'con, 'w) user_result" where
  "u_times env junk = call_system env junk (Times_data 0)
     (\<lambda>d e. with_errno e (case d of Times_data clock \<Rightarrow> clock | _ \<Rightarrow> 0))"

definition u_unlink :: "('drv, 'con, 'w) kernel_env \<Rightarrow> u32 \<Rightarrow> string \<Rightarrow> ('drv, 'con, 'w) system \<Rightarrow> ('drv, 'con, 'w) user_result" where
  "u_unlink env junk name = call_system env junk (Unlink_data name) (\<lambda>d e. (e, None))"

definition u_wait :: "('drv, 'con, 'w) kernel_env \<Rightarrow> u32 \<Rightarrow> ('drv, 'con, 'w) system \<Rightarrow> ('drv, 'con, 'w) user_result" where
  "u_wait env junk = call_system env junk (Wait_data 0 0)
     (\<lambda>d e. with_errno e (case d of Wait_data _ p \<Rightarrow> p | _ \<Rightarrow> 0))"

definition u_gettimeofday :: "('drv, 'con, 'w) kernel_env \<Rightarrow> u32 \<Rightarrow> ('drv, 'con, 'w) system \<Rightarrow> ('drv, 'con, 'w) user_result" where
  "u_gettimeofday env junk = call_system env junk Gettimeofday_data (\<lambda>d e. with_errno e 0)"

text \<open>The calls that never reach the kernel.\<close>

definition u_mkdir :: "string \<Rightarrow> u32 \<Rightarrow> u32" where "u_mkdir path mode = 0"
definition u_rmdir :: "string \<Rightarrow> u32" where "u_rmdir path = 0"
definition u_getcwd :: "ptr \<Rightarrow> u32 \<Rightarrow> ptr" where "u_getcwd buffer n = 0"
definition u_chdir :: "string \<Rightarrow> u32" where "u_chdir path = - 1"
definition u_pipe :: u32 where "u_pipe = - 1"
definition u_dup2 :: "u32 \<Rightarrow> u32 \<Rightarrow> u32" where "u_dup2 oldfd newfd = - 1"
definition u_putenv :: "string \<Rightarrow> u32" where "u_putenv s = - 1"

section \<open>Calls without an implementation\<close>

text \<open>A call the kernel does not know is refused and changes nothing, but not every wrapper
  notices. kill, link, stat, times, wait and gettimeofday answer -1 with ENOSYS, unlink answers the
  number of the error as its result, isatty answers whatever its message held before it was sent,
  and _exit stops the whole kernel.\<close>

theorem unimplemented_calls:
  assumes "get_current_process (strategy (sched st)) = Inr cur" and "cur \<noteq> 0"
  shows "u_kill env junk p sig st = Some (Inr (Some (- 1, Some 88), st))
    \<and> u_link env junk old_name new_name st = Some (Inr (Some (- 1, Some 88), st))
    \<and> u_stat env junk old_name v st = Some (Inr (Some (- 1, Some 88), st))
    \<and> u_times env junk st = Some (Inr (Some (- 1, Some 88), st))
    \<and> u_wait env junk st = Some (Inr (Some (- 1, Some 88), st))
    \<and> u_gettimeofday env junk st = Some (Inr (Some (- 1, Some 88), st))
    \<and> u_unlink env junk old_name st = Some (Inr (Some (88, None), st))
    \<and> u_isatty env junk fd st = Some (Inr (Some (junk, None), st))
    \<and> u_exit env junk code st = Some (Inl Die)"
  using assms
  by (simp add: u_kill_def u_link_def u_stat_def u_times_def u_wait_def u_gettimeofday_def u_unlink_def u_isatty_def u_exit_def
      call_system_def real_dispatch_syscall_def answer_def with_errno_def e_no_syscall_def sys_exit_def exit_process_def)

theorem unimplemented_calls_witness:
  "u_isatty kernel_sample 0xDEAD 1 slice_system = Some (Inr (Some (0xDEAD, None), slice_system))"
  using unimplemented_calls [OF sample_current(1), of kernel_sample "0xDEAD"] by simp

section \<open>Seeking\<close>

lemma lseek_through_handle:
  assumes "get_current_process (strategy (sched st)) = Inr cur" and "cur \<noteq> 0" and "procs (sched st) cur = Some p"
    and "filehandles (holder p) fd = Some i" and "handles (sched st) i = Some fh" and "fh_node fh = Some f"
    and "node_heap (files st) f = Some (u, n)" and "fh_seek (node_info_of (files st)) (scast offset) (sint dir) fh = (b, fh1)"
  shows "u_lseek env junk fd offset dir st
    = Some (Inr (Some (if b then (offset, None) else (- 1, Some e_illegal_seek)),
                 set_handles ((handles (sched st))(i \<mapsto> fh1)) st))"
proof -
  have "(ucast (scast offset :: u64) :: u32) = offset"
  proof (rule bit_word_eqI)
    fix n assume "n < LENGTH(32)"
    then consider "n < 31" | "n = 31" by fastforce
    then show "bit (ucast (scast offset :: u64) :: u32) n = bit offset n" by cases (simp_all add: bit_simps min_def)
  qed
  then show ?thesis using assms
    by (simp add: u_lseek_def call_system_def dispatch_current sys_lseek_def handle_of_eq node_alive_def answer_def with_errno_def
        error_numbers)
qed

text \<open>C21: lseek tells the caller the opposite of what it did. On a file, when the position that is
  asked for lies inside the file, the offset of the handle moves there and the call answers -1 with
  ESPIPE; when it lies outside, nothing is moved and the call answers the offset it was given
  without an error.\<close>

theorem lseek_answers_inverted:
  assumes cur: "get_current_process (strategy (sched st)) = Inr cur" "cur \<noteq> 0" "procs (sched st) cur = Some p"
    and h: "filehandles (holder p) fd = Some i" "handles (sched st) i = Some fh" "fh_node fh = Some f"
    and n: "node_heap (files st) f = Some (u, n)" "\<not> v_is_tty n"
    and dir: "sint dir \<in> {0, 1, 2}"
    and pos: "pos = sint (seek_base (v_length n) (sint dir) fh) + sint offset" "- (2 ^ 63) \<le> pos" "pos < 2 ^ 63"
  shows "\<exists>fh1. u_lseek env junk fd offset dir st
      = Some (Inr (Some (if 0 \<le> pos \<and> pos < sint (v_length n) then (- 1, Some e_illegal_seek) else (offset, None)),
                   set_handles ((handles (sched st))(i \<mapsto> fh1)) st))
    \<and> (0 \<le> pos \<and> pos < sint (v_length n) \<longrightarrow> sint (fh_offset fh1) = pos)
    \<and> (\<not> (0 \<le> pos \<and> pos < sint (v_length n)) \<longrightarrow> fh1 = fh)"
proof -
  let ?info = "node_info_of (files st)"
  have info: "\<not> ni_is_tty (?info f)" "ni_length (?info f) = v_length n" using n by (simp_all add: node_info_of_def)
  have "- (2 ^ 31) \<le> sint offset" "sint offset < 2 ^ 31" using sint_ge [of offset] sint_lt [of offset] by simp_all
  then have off: "sint (scast offset :: u64) = sint offset" by (simp add: signed_scast_eq signed_take_bit_int_eq_self)
  obtain b fh1 where s: "fh_seek ?info (scast offset) (sint dir) fh = (b, fh1)" by (metis surj_pair)
  have "(b \<longleftrightarrow> pos < 0 \<or> sint (v_length n) \<le> pos) \<and> (b \<longrightarrow> fh1 = fh)
      \<and> (\<not> b \<longrightarrow> (\<exists>t. fh1 = fh\<lparr>fh_offset := t\<rparr> \<and> sint t = pos))" (is "?b \<and> ?same \<and> ?moved")
    using seek_fails_outside [where info = ?info and direction = "sint dir" and offset = "scast offset" and p = pos,
        OF h(3) info(1) dir] pos s by (simp add: info(2) off)
  then have "?b \<and> ?same \<and> (\<not> b \<longrightarrow> sint (fh_offset fh1) = pos)" by (metis filehandle.select_convs(5) filehandle.surjective filehandle.update_convs(5))
  then show ?thesis
    using lseek_through_handle [OF cur h n(1) s, of env junk] by (intro exI [of _ fh1]) auto
qed

theorem lseek_answers_inverted_witness:
  "\<exists>st1. u_lseek kernel_sample 0 0 4 0 shared_system = Some (Inr (Some (- 1, Some 29), st1))
    \<and> u_lseek kernel_sample 0 0 50 0 shared_system = Some (Inr (Some (50, None), shared_system))"
proof -
  have h: "procs (sched shared_system) 10 = Some ((process_sample 1)\<lparr>holder := holder_sample\<rparr>)"
    "filehandles (holder ((process_sample 1)\<lparr>holder := holder_sample\<rparr>)) 0 = Some 4"
    "handles (sched shared_system) 4 = Some (filehandle_new (Some 0) CHR 0x00 CHR 0x00 0)"
    "fh_node (filehandle_new (Some 0) CHR 0x00 CHR 0x00 0) = Some 0"
    "node_heap (files shared_system) 0 = Some (1, V_dev ram_slice)" "\<not> v_is_tty (V_dev ram_slice)"
    by (simp_all add: shared_system_def holder_sample_def filehandle_new_def ram_slice_def dev_node_drive_def)
  have l: "dev_node_length ram_slice = 10" by (simp add: ram_slice_def dev_node_drive_def dev_node_length_def)
  have d: "sint (0 :: u32) \<in> {0, 1, 2}" by simp
  have same: "set_handles ((handles (sched shared_system))(4 \<mapsto> filehandle_new (Some 0) CHR 0x00 CHR 0x00 0)) shared_system = shared_system"
    by (simp add: set_handles_def shared_system_def)
  note F = lseek_answers_inverted [OF sample_current(2) _ h d]
  show ?thesis
    using F [of 4 4 kernel_sample 0] F [of 50 50 kernel_sample 0] same
    by (auto simp: l seek_base_def e_illegal_seek_def)
qed

section \<open>Reading to the end of a file\<close>

text \<open>A program cannot see the end of a file. A read of more bytes than a FAT file has answers
  the number that was asked for, although only the bytes of the file are put into the buffer, and
  the offset of the handle moves behind the end of the file: the next read, of any length, is then
  taken as one of nearly 2 to the 32 bytes.\<close>

theorem read_hides_end:
  assumes cur: "get_current_process (strategy (sched st)) = Inr cur" "cur \<noteq> 0" "procs (sched st) cur = Some p"
    and h: "filehandles (holder p) fd = Some i" "handles (sched st) i = Some fh" "fh_node fh = Some f" "fh_offset fh = 0"
    and n: "node_heap (files st) f = Some (u, V_fat con fs node)"
    and fat: "container_laws con contents cap" "linked (fs_table fs) (node_cluster node # cs)"
      "\<forall>x \<in> set (node_cluster node # cs). cluster_ok fs cap x" "0 < cluster_size fs"
      "length (node_cluster node # cs) \<le> 2 ^ 32" "\<not> node_directory node"
      "unat (de_size (node_entry node)) \<le> length (node_cluster node # cs) * unat (cluster_size fs)"
    and len: "length buf = unat len" "de_size (node_entry node) < len"
    and bytes: "bytes = take (unat (de_size (node_entry node))) (file_bytes fs (node_cluster node # cs) (contents (world (files st))))"
  shows "\<exists>w. u_read env junk fd buf len st
      = Some (Inr (Some ((len, None), bytes @ drop (length bytes) buf),
          set_world w (set_handles ((handles (sched st))(i \<mapsto> fh\<lparr>fh_offset := ucast len\<rparr>)) st)))
    \<and> unat (node_limit node (ucast len) len2) = 2 ^ 32 - (unat len - unat (de_size (node_entry node)))"
proof -
  let ?s = "unat (de_size (node_entry node))"
  have s: "?s < unat len" using len(2) by (simp add: word_less_nat_alt)
  have lb: "length bytes = ?s" using fat(7) by (simp add: bytes)
  have "\<exists>d'. fat_node_read con fs node 0 len buf (world (files st)) = Some (Inr (take (unat len) (drop (unat (0 :: u64)) bytes)
      @ drop (min (unat len) (length bytes - unat (0 :: u64))) buf, d')) \<and> contents d' = contents (world (files st))"
    by (rule fat_node_read_file [OF fat]) (simp_all add: len(1) bytes)
  then obtain w where "v_read (fs_env env) (V_fat con fs node) (fh_offset fh) len buf (world (files st))
      = Some (Inr (bytes @ drop (length bytes) buf, w))"
    using s lb h(4) by auto
  from read_through_handle [OF cur h(1-3) n this, of junk]
  have "u_read env junk fd buf len st = Some (Inr (Some ((len, None), bytes @ drop (length bytes) buf),
      set_world w (set_handles ((handles (sched st))(i \<mapsto> fh\<lparr>fh_offset := ucast len\<rparr>)) st)))"
    by (simp add: u_read_def call_system_def answer_def with_errno_def no_error_def h(4))
  moreover have "unat (node_limit node (ucast len) len2) = (2 ^ 32 - (unat len - ?s)) mod 2 ^ 32"
    using node_limit_below_zero [of node "ucast len" len2] s unat_lt32 [of len] unat_lt32 [of len2]
    by (simp add: unat_ucast64)
  ultimately show ?thesis using s by auto
qed

definition fat_system :: "(unit, unit, nat \<Rightarrow> u8) system" where
  "fat_system = shared_system\<lparr>files := slice_vfs\<lparr>node_heap := [0 \<mapsto> (1, V_fat ram_container fs_sample sample_node)]\<rparr>\<rparr>"

theorem read_hides_end_witness:
  "\<exists>st1. u_read kernel_sample 0 0 [9, 9, 9, 9, 9] 5 fat_system = Some (Inr (Some ((5, None), [4, 5, 6, 9, 9]), st1))
    \<and> unat (node_limit sample_node 5 1) = 2 ^ 32 - 2"
proof -
  have h: "get_current_process (strategy (sched fat_system)) = Inr 10"
    "procs (sched fat_system) 10 = Some ((process_sample 1)\<lparr>holder := holder_sample\<rparr>)"
    "filehandles (holder ((process_sample 1)\<lparr>holder := holder_sample\<rparr>)) 0 = Some 4"
    "handles (sched fat_system) 4 = Some (filehandle_new (Some 0) CHR 0x00 CHR 0x00 0)"
    "fh_node (filehandle_new (Some 0) CHR 0x00 CHR 0x00 0) = Some 0" "fh_offset (filehandle_new (Some 0) CHR 0x00 CHR 0x00 0) = 0"
    "node_heap (files fat_system) 0 = Some (1, V_fat ram_container fs_sample sample_node)"
    using sample_current(2) by (simp_all add: fat_system_def shared_system_def holder_sample_def filehandle_new_def)
  have w: "world (files fat_system) = (\<lambda>i. of_nat i)" by (simp add: fat_system_def slice_vfs_def)
  have ok: "\<forall>x \<in> set (node_cluster sample_node # [1]). cluster_ok fs_sample 8 x"
    by (simp add: cluster_ok_def fs_sample_simps sample_node_def)
  have lk: "linked (fs_table fs_sample) (node_cluster sample_node # [1])"
    using sample_linked by (simp add: fs_sample_simps sample_node_def)
  have fb: "file_bytes fs_sample [0, 1] (\<lambda>i. of_nat i) = [4, 5, 6, 7]"
    by (simp add: file_bytes_def chunk_def fs_sample_simps upt_rec)
  have n: "node_cluster sample_node = 0" "de_size (node_entry sample_node) = 3" "\<not> node_directory sample_node"
    by (simp_all add: sample_node_def)
  show ?thesis
    using read_hides_end [OF h(1) _ h(2-7) ram_container_laws lk ok, of "[9, 9, 9, 9, 9]" 5 "[4, 5, 6]" kernel_sample 0 1]
    by (auto simp: n w fs_sample_simps fb)
qed

end
