(* ===== verification/Syscall_Inv.thy ===== *)
theory Syscall_Inv
  imports User_Calls
begin

text \<open>
  What every system call keeps: the invariants of the scheduler, of the file system and of the
  tables of handles, together over the state of the kernel.
\<close>

lemma bind_loop_Inr_iff:
  "bind_loop r f = Some (Inr y) \<longleftrightarrow> (\<exists>x. r = Some (Inr x) \<and> f x = Some (Inr y))"
proof (cases r)
  case (Some q)
  then show ?thesis by (cases q) auto
qed simp

section \<open>The invariant of the kernel\<close>

definition handles_sound :: "scheduler \<Rightarrow> bool" where
  "handles_sound s \<longleftrightarrow> (\<forall>c p. procs s c = Some p \<longrightarrow> holder_inv (handles s) (holder p))"

definition nodes_alive :: "handle_store \<Rightarrow> ('drv, 'con, 'w) vfs \<Rightarrow> bool" where
  "nodes_alive hs fs \<longleftrightarrow> (\<forall>i fh f. hs i = Some fh \<longrightarrow> fh_node fh = Some f \<longrightarrow> node_heap fs f \<noteq> None)"

definition system_inv :: "('drv, 'con, 'w) system \<Rightarrow> bool" where
  "system_inv st \<longleftrightarrow> sched_inv (sched st) \<and> vfs_inv (files st) \<and> handles_sound (sched st)
     \<and> nodes_alive (handles (sched st)) (files st)"

text \<open>
  What a call relies on: new memory is not in use, no counter has reached its end, and nothing
  is found behind the last entry of a map.
\<close>

definition call_ready :: "('drv, 'con, 'w) kernel_env \<Rightarrow> ('drv, 'con, 'w) system \<Rightarrow> bool" where
  "call_ready env st \<longleftrightarrow> fresh_memory (new_mem env) (sched st) \<and> fork_label env \<noteq> MAGIC_VALUE
     \<and> handles (sched st) (new_handle env) = None \<and> no_wrap (files st) \<and> sane_past (fs_env env)
     \<and> (\<forall>cur p. get_current_process (strategy (sched st)) = Inr cur \<longrightarrow> procs (sched st) cur = Some p \<longrightarrow>
          fd_counter (holder p) \<noteq> - 1 \<and> set (fd_keys env) = dom (filehandles (holder p)))"

section \<open>Steps that leave the processes alone\<close>

definition same_procs :: "scheduler \<Rightarrow> scheduler \<Rightarrow> bool" where
  "same_procs s s' \<longleftrightarrow> strategy s' = strategy s \<and> next_pid s' = next_pid s \<and> handles s' = handles s
     \<and> dom (procs s') = dom (procs s)
     \<and> (\<forall>c p q. procs s c = Some p \<longrightarrow> procs s' c = Some q \<longrightarrow> pid q = pid p \<and> holder q = holder p)"

lemma same_procs_refl [simp]: "same_procs s s"
  by (simp add: same_procs_def)

lemma same_procsD:
  assumes "same_procs s s'"
  shows "strategy s' = strategy s" and "next_pid s' = next_pid s" and "handles s' = handles s"
    and "dom (procs s') = dom (procs s)" and "procs s c = Some p \<Longrightarrow> procs s' c = Some q \<Longrightarrow> pid q = pid p \<and> holder q = holder p"
  using assms unfolding same_procs_def by blast+

lemma same_procs_proc:
  assumes "same_procs s s'" and "procs s' c = Some q"
  obtains p where "procs s c = Some p" "pid p = pid q" "holder p = holder q"
proof -
  have "c \<in> dom (procs s)" using same_procsD(4) [OF assms(1)] assms(2) by blast
  then obtain p where p: "procs s c = Some p" by blast
  from same_procsD(5) [OF assms(1) p assms(2)] show ?thesis using that [OF p] by metis
qed

lemma same_procs_trans:
  assumes "same_procs s s1" and "same_procs s1 s2"
  shows "same_procs s s2"
proof -
  have "pid q = pid p \<and> holder q = holder p" if pq: "procs s c = Some p" "procs s2 c = Some q" for c p q
  proof -
    obtain p1 where p1: "procs s1 c = Some p1" "pid p1 = pid q" "holder p1 = holder q" using same_procs_proc [OF assms(2) pq(2)] .
    from same_procsD(5) [OF assms(1) pq(1) p1(1)] p1(2,3) show ?thesis by metis
  qed
  moreover have "strategy s2 = strategy s" "next_pid s2 = next_pid s" "handles s2 = handles s" "dom (procs s2) = dom (procs s)"
    using same_procsD(1-4) [OF assms(1)] same_procsD(1-4) [OF assms(2)] by (metis, metis, metis, metis)
  ultimately show ?thesis unfolding same_procs_def by blast
qed

lemma same_procs_memory [simp]: "same_procs s (s'\<lparr>memory := v\<rparr>) = same_procs s s'"
  "same_procs s (s'\<lparr>cpu_state := c\<rparr>) = same_procs s s'"
  by (simp_all add: same_procs_def)

lemma same_procs_put:
  assumes "proc_at s c = Inr p" and "pid q = pid p" and "holder q = holder p"
  shows "same_procs s (put_process c q s)"
  using assms by (auto simp: same_procs_def put_process_def proc_at_def split: if_splits option.splits)

lemma pids_ok_same:
  assumes "pids_ok ps n" and "\<And>c q. ps' c = Some q \<Longrightarrow> \<exists>p. ps c = Some p \<and> pid p = pid q"
  shows "pids_ok ps' n"
  using assms unfolding pids_ok_def by metis

lemma sched_inv_same_procs:
  assumes "sched_inv s" and "same_procs s s'"
  shows "sched_inv s'"
proof -
  obtain qs where qs: "qs \<noteq> []" "runnable s qs" "dom (procs s) = set qs" and ok: "pids_ok (procs s) (next_pid s)"
    using assms(1) by (auto simp: sched_inv_def)
  have d: "dom (procs s') = set qs" using same_procsD(4) [OF assms(2)] qs(3) by simp
  then have "runnable s' qs" using qs(2) same_procsD(1) [OF assms(2)] by (auto simp: runnable_def)
  moreover have "pids_ok (procs s') (next_pid s')"
  proof -
    have "next_pid s' = next_pid s" using assms(2) by (rule same_procsD)
    moreover have "pids_ok (procs s') (next_pid s)"
      by (rule pids_ok_same [OF ok]) (use same_procs_proc [OF assms(2)] in blast)
    ultimately show ?thesis by simp
  qed
  ultimately show ?thesis using sched_invI [OF qs(1) _ d] by blast
qed

lemma handles_sound_same_procs:
  assumes "handles_sound s" and "same_procs s s'"
  shows "handles_sound s'"
  unfolding handles_sound_def
proof (intro allI impI)
  fix c q assume "procs s' c = Some q"
  then obtain p where "procs s c = Some p" "holder p = holder q" using same_procs_proc [OF assms(2)] by metis
  moreover have "handles s' = handles s" using assms(2) by (rule same_procsD)
  ultimately show "holder_inv (handles s') (holder q)" using assms(1) by (metis handles_sound_def)
qed

lemma break_same_procs:
  assumes "sys_break areas cur incr a s = Inr (e, i, b, s')"
  shows "same_procs s s'"
proof -
  obtain p where p: "proc_at s cur = Inr p" using assms by (auto simp: sys_break_def bind_result_Inr_iff)
  have put: "same_procs s (put_process cur (p\<lparr>heap_top := t\<rparr>) s)" for t
    by (rule same_procs_put [OF p]) simp_all
  have put0: "same_procs s (put_process cur p s)" by (rule same_procs_put [OF p]) simp_all
  have mem: "same_procs s (put_process cur q (s\<lparr>memory := v\<rparr>)) = same_procs s (put_process cur q s)" for q v
    by (simp flip: put_memory)
  show ?thesis
    using assms p put put0
    by (auto simp: sys_break_def sbrk_within_def sbrk_pages_def sbrk_release_def bind_result_Inr_iff Let_def mem split: if_splits)
qed

section \<open>The loader\<close>

definition only_world :: "('drv, 'con, 'w) system \<Rightarrow> ('drv, 'con, 'w) system \<Rightarrow> bool" where
  "only_world st st' \<longleftrightarrow> same_procs (sched st) (sched st') \<and> (\<exists>w. files st' = (files st)\<lparr>world := w\<rparr>)"

lemma only_worldI: "same_procs (sched st) (sched st') \<Longrightarrow> files st' = (files st)\<lparr>world := w\<rparr> \<Longrightarrow> only_world st st'"
  by (auto simp: only_world_def)

lemma only_world_trans: "only_world st st1 \<Longrightarrow> only_world st1 st2 \<Longrightarrow> only_world st st2"
  by (auto simp: only_world_def intro: same_procs_trans)

lemma area_same_procs:
  assumes "allocate_area areas c vaddr sz s = Inr (b, s')"
  shows "same_procs s s'"
proof -
  obtain p where p: "proc_at s c = Inr p" using assms by (auto simp: allocate_area_def bind_result_Inr_iff)
  then have "same_procs s (put_process c p s)" "same_procs s (put_process c (p\<lparr>heap_top := t\<rparr>) s)" for t
    by (simp_all add: same_procs_put)
  then show ?thesis using assms p
    by (auto simp: allocate_area_def bind_result_Inr_iff Let_def split: if_splits)
qed

lemma segment_only_world:
  assumes "load_segment env areas current c node p success st = Some (Inr (b, st'))"
  shows "only_world st st'"
proof -
  obtain b1 s1 where a: "allocate_area areas c (p_vaddr p) (ucast (p_memsz p)) (sched st) = Inr (b1, s1)"
    using assms by (auto simp: load_segment_def bind_loop_Inr_iff)
  have one: "only_world st (st\<lparr>sched := s1\<rparr>)"
    using area_same_procs [OF a] by (intro only_worldI [where w = "world (files st)"]) simp_all
  have two: "only_world st1 st2"
    if "copy_to_area env areas current pt node off v sz st1 = Some (Inr (b2, st2))" for pt off v sz st1 b2 st2
    using that by (auto simp: copy_to_area_def bind_loop_Inr_iff bind_result_Inr_iff Let_def intro!: only_worldI)
  show ?thesis
    using assms a one only_world_trans [OF one two]
    by (auto simp: load_segment_def bind_loop_Inr_iff Let_def split: if_splits)
qed

lemma segments_only_world:
  "load_segments env areas junk current c node n off success st = Some (Inr (b, st')) \<Longrightarrow> only_world st st'"
proof (induction n arbitrary: off success st)
  case 0
  then show ?case by (auto intro: only_worldI [where w = "world (files st)"])
next
  case (Suc n)
  then obtain bs w b1 st1 where
    s: "load_segment env areas current c node (elf32_phdr_of bs) success (st\<lparr>files := (files st)\<lparr>world := w\<rparr>\<rparr>) = Some (Inr (b1, st1))"
    and l: "load_segments env areas junk current c node n (off + sizeof_phdr) b1 st1 = Some (Inr (b, st'))"
    by (auto simp: bind_loop_Inr_iff)
  have "only_world st (st\<lparr>files := (files st)\<lparr>world := w\<rparr>\<rparr>)" by (auto intro: only_worldI)
  with segment_only_world [OF s] Suc.IH [OF l] show ?case by (blast intro: only_world_trans)
qed

section \<open>Nodes stay\<close>

definition keeps_nodes :: "('drv, 'con, 'w) vfs \<Rightarrow> ('drv, 'con, 'w) vfs \<Rightarrow> bool" where
  "keeps_nodes s s' \<longleftrightarrow> (\<forall>p. node_heap s p \<noteq> None \<longrightarrow> node_heap s' p \<noteq> None)"

lemma keeps_nodes_same: "node_heap s' = node_heap s \<Longrightarrow> keeps_nodes s s'"
  by (simp add: keeps_nodes_def)

lemma keeps_nodes_trans: "keeps_nodes s s1 \<Longrightarrow> keeps_nodes s1 s2 \<Longrightarrow> keeps_nodes s s2"
  by (simp add: keeps_nodes_def)

lemma nodes_alive_keeps: "nodes_alive hs fs \<Longrightarrow> keeps_nodes fs fs' \<Longrightarrow> nodes_alive hs fs'"
  by (simp add: nodes_alive_def keeps_nodes_def)

lemma open_subnode_keeps:
  assumes "vfs_open_subnode env b full sub s = Some (Inr (b', s'))" and "sane_past env"
  shows "keeps_nodes s s'"
  using assms by (cases rule: vfs_open_subnode_cases) (auto simp: keeps_nodes_def new_node_def)

lemma open_tokens_keeps:
  assumes "sane_past env"
  shows "open_tokens env b acc sep ts s = Some (Inr (b', s')) \<Longrightarrow> keeps_nodes s s'"
proof (induction ts arbitrary: b acc sep s)
  case (Cons t ts)
  show ?case
  proof (cases "b = None")
    case False
    then obtain b1 s1 where "vfs_open_subnode env b ((if sep then acc @ ''/'' else acc) @ t) t s = Some (Inr (b1, s1))"
      and rest: "open_tokens env b1 ((if sep then acc @ ''/'' else acc) @ t) True ts s1 = Some (Inr (b', s'))"
      using Cons.prems by (auto simp: Let_def split: option.splits sum.splits)
    then have "keeps_nodes s s1" using open_subnode_keeps assms by blast
    then show ?thesis using Cons.IH [OF rest] by (rule keeps_nodes_trans)
  qed (use Cons.prems in \<open>simp add: keeps_nodes_def\<close>)
qed (simp add: keeps_nodes_def)

lemma mark_open_keeps:
  assumes "mark_open b s = Inr s'"
  shows "keeps_nodes s s' \<and> valid_node s' b"
proof (cases b)
  case None
  then show ?thesis using assms by (simp add: mark_open_def keeps_nodes_def valid_node_def)
next
  case (Some p)
  then obtain u n where d: "node_heap s p = Some (u, n)"
    using assms by (auto simp: mark_open_def deref_def bind_result_Inr_iff split: option.splits)
  then have "s' = s \<or> s' = s\<lparr>node_heap := (node_heap s)(p \<mapsto> (u + 1, n)), open_nodes := (open_nodes s)(v_path n \<mapsto> p)\<rparr>"
    using assms Some by (auto simp: mark_open_def deref_def split: if_splits)
  then show ?thesis using d Some by (auto simp: keeps_nodes_def valid_node_def)
qed

lemma open_node_keeps:
  assumes r: "open_node env name s = Some (Inr (b, s'))" and sane: "sane_past env"
  shows "keeps_nodes s s' \<and> valid_node s' b"
proof -
  have same: "keeps_nodes s s \<and> valid_node s None" by (simp add: keeps_nodes_def valid_node_def)
  obtain t ts where c: "clean_path name = t # ts" using r by (auto simp: open_node_def split: list.splits)
  show ?thesis
  proof (cases "t = ''/''")
    case False
    then show ?thesis using r c same by (auto simp: open_node_def)
  next
    case True
    obtain x where x: "find_second (past_nodes env) (mounted_filesystems s) ''/'' = Inr x"
      using r c True by (auto simp: open_node_def split: sum.splits)
    show ?thesis
    proof (cases x)
      case None
      then show ?thesis using r c True x same by (auto simp: open_node_def)
    next
      case (Some base)
      have "(case open_tokens env (Some base) ''/'' False ts s of None \<Rightarrow> None | Some (Inl e) \<Rightarrow> Some (Inl e)
          | Some (Inr (b, s1)) \<Rightarrow> Some (bind_result (mark_open b s1) (\<lambda>s2. Inr (b, s2)))) = Some (Inr (b, s'))"
        using r c True x Some by (simp add: open_node_def)
      then obtain s1 where w: "open_tokens env (Some base) ''/'' False ts s = Some (Inr (b, s1))"
        and m: "mark_open b s1 = Inr s'"
        unfolding case_ran_iff by (auto simp: bind_result_Inr_iff)
      from mark_open_keeps [OF m] keeps_nodes_trans [OF open_tokens_keeps [OF sane w]] show ?thesis by blast
    qed
  qed
qed

lemma close_node_keeps:
  assumes "close_node env b s = Inr s'"
  shows "keeps_nodes s s'"
proof -
  obtain p u n where "b = Some p" and p: "node_heap s p = Some (u, n)"
    using assms by (auto simp: close_node_def deref_def bind_result_Inr_iff split: option.splits)
  then have "node_heap s' = node_heap s \<or> node_heap s' = (node_heap s)(p \<mapsto> (u - 1, n))"
    using assms by (auto simp: close_node_def deref_def bind_result_Inr_iff split: if_splits)
  then show ?thesis using p by (auto simp: keeps_nodes_def)
qed

section \<open>The loader keeps the invariants\<close>

lemma reset_same_procs:
  assumes "reset_process c s = Inr s'"
  shows "same_procs s s'"
proof -
  obtain p v where p: "proc_at s c = Inr p" and s': "s' = put_process c (p\<lparr>heap_top := 0\<rparr>) (s\<lparr>memory := v\<rparr>)"
    using assms by (auto simp: reset_process_def bind_result_Inr_iff)
  have "same_procs s (put_process c (p\<lparr>heap_top := 0\<rparr>) s)" by (rule same_procs_put [OF p]) simp_all
  then show ?thesis by (simp add: s' flip: put_memory)
qed

lemma enter_same_procs:
  assumes "enter_image areas c entry st = Inr (r, st')"
  shows "same_procs (sched st) (sched st') \<and> files st' = files st"
  using assms by (auto simp: enter_image_def allocate_stack_def jump_in_def bind_result_Inr_iff split: if_splits)

lemma load_elf_keeps:
  assumes r: "load_elf env areas junk pjunk name st = Some (Inr (x, st'))"
    and "vfs_inv (files st)" and "no_wrap (files st)" and sane: "sane_past env"
  shows "same_procs (sched st) (sched st') \<and> vfs_inv (files st') \<and> keeps_nodes (files st) (files st')"
proof -
  obtain c where c: "get_current_process (strategy (sched st)) = Inr c" using r by (auto simp: load_elf_def bind_loop_Inr_iff)
  show ?thesis
  proof (cases "c = 0")
    case True
    then show ?thesis using r c assms(2) by (simp add: load_elf_def keeps_nodes_def)
  next
    case False
    obtain nd fs1 where o: "open_node env name (files st) = Some (Inr (nd, fs1))"
      using r c False by (auto simp: load_elf_def bind_loop_Inr_iff)
    have inv1: "vfs_inv fs1" "keeps_nodes (files st) fs1" "valid_node fs1 nd"
      using inv_open_node [OF assms(2,3) sane o] open_node_keeps [OF o sane] by auto
    show ?thesis
    proof (cases nd)
      case None
      then show ?thesis using r c False o inv1 by (auto simp: load_elf_def)
    next
      case (Some f)
      obtain u node where n: "node_heap fs1 f = Some (u, node)" using inv1(3) Some by (auto simp: valid_node_def)
      obtain bs w where rd: "v_read env node 0 sizeof_ehdr junk (world fs1) = Some (Inr (bs, w))"
        using r c False o Some n by (auto simp: load_elf_def bind_loop_Inr_iff deref_def)
      have inv2: "vfs_inv (fs1\<lparr>world := w\<rparr>)" "keeps_nodes (files st) (fs1\<lparr>world := w\<rparr>)" for w
        using inv1 by (simp_all add: inv_world keeps_nodes_def)
      note eq = load_elf_open [OF c False o [unfolded Some] n rd, of areas pjunk]
      show ?thesis
      proof (cases "take 4 (e_ident (elf32_ehdr_of bs)) = ELFMAG")
        case no: False
        then show ?thesis using r eq inv2 by (auto simp: Let_def)
      next
        case True
        let ?h = "elf32_ehdr_of bs"
        have "\<exists>(p :: process) s3 success st4 fs5. reset_process c (sched st) = Inr s3
          \<and> load_segments env areas pjunk (Some (ptable p)) c node (unat (e_phnum ?h)) (ucast (e_phoff ?h)) True
              (st\<lparr>files := fs1\<lparr>world := w\<rparr>, sched := s3\<rparr>) = Some (Inr (success, st4))
          \<and> close_node env (Some f) (files st4) = Inr fs5
          \<and> (if \<not> success then Some (Inr (Returned False, st4\<lparr>files := fs5\<rparr>))
              else Some (enter_image areas c (e_entry ?h) (st4\<lparr>files := fs5\<rparr>))) = Some (Inr (x, st'))"
          using r eq True
          by (auto simp: Let_def bind_loop_Inr_iff)
            (intro exI conjI impI, assumption+, simp, simp, assumption, simp)
        then obtain p :: process and s3 success st4 fs5 where s3: "reset_process c (sched st) = Inr s3"
          and l: "load_segments env areas pjunk (Some (ptable p)) c node (unat (e_phnum ?h)) (ucast (e_phoff ?h)) True
              (st\<lparr>files := fs1\<lparr>world := w\<rparr>, sched := s3\<rparr>) = Some (Inr (success, st4))"
          and cl: "close_node env (Some f) (files st4) = Inr fs5"
          and fin: "(if \<not> success then Some (Inr (Returned False, st4\<lparr>files := fs5\<rparr>))
              else Some (enter_image areas c (e_entry ?h) (st4\<lparr>files := fs5\<rparr>))) = Some (Inr (x, st'))" by blast
        obtain w4 where "same_procs s3 (sched st4)" and f4: "files st4 = fs1\<lparr>world := w4\<rparr>"
          using segments_only_world [OF l] by (auto simp: only_world_def)
        with reset_same_procs [OF s3] have p4: "same_procs (sched st) (sched st4)" by (blast intro: same_procs_trans)
        have inv5: "vfs_inv fs5" "keeps_nodes (files st) fs5"
          using inv_close_node [OF _ cl] close_node_keeps [OF cl] inv2 [of w4] keeps_nodes_trans by (simp_all add: f4) blast+
        show ?thesis
        proof (cases success)
          case False
          then show ?thesis using fin p4 inv5 by auto
        next
          case True
          then have "enter_image areas c (e_entry ?h) (st4\<lparr>files := fs5\<rparr>) = Inr (x, st')" using fin by simp
          from enter_same_procs [OF this] show ?thesis using p4 inv5 same_procs_trans by auto
        qed
      qed
    qed
  qed
qed

section \<open>Forking\<close>

lemma fork_keeps_handles:
  assumes sound: "handles_sound s" and inv: "sched_inv s"
    and keys: "\<And>cur p. get_current_process (strategy s) = Inr cur \<Longrightarrow> procs s cur = Some p \<Longrightarrow> set keys = dom (filehandles (holder p))"
    and r: "fork_process areas keys nm label krn child_pid s = Some (Inr (b, n, s'))"
  shows "handles_sound s' \<and> handles s' = handles s"
proof -
  obtain k s1 where made: "make_child areas keys nm krn s = Inr (k, s1)"
    using r by (auto simp: fork_process_def split: sum.splits)
  note f = make_child_facts [OF made]
  have s1: "handles s1 = handles s" "procs s1 = procs s" using f by (simp_all add: same_but_memory_def)
  show ?thesis
  proof (cases k)
    case (Child cur p c)
    then have c: "get_current_process (strategy s) = Inr cur" "procs s cur = Some p"
      "copy_filehandles (handles s) keys (holder p) holder_new = Inr (holder c)" using f by blast+
    have hp: "holder_inv (handles s) (holder p)" using sound c(2) by (simp add: handles_sound_def)
    then have hc: "holder c = holder p" using copy_filehandles_eq [OF hp keys [OF c(1,2)]] c(3) by simp
    have "handles s' = handles s1 \<and> (\<exists>d. procs s' = procs s1 \<or> procs s' = (procs s1)(nm_process nm \<mapsto> c\<lparr>sched_data := d\<rparr>))"
      using r made Child
      by (auto simp: fork_process_def fork_return_def put_process_def split: sum.splits if_splits)
    then show ?thesis using sound hp hc s1 by (auto simp: handles_sound_def split: if_splits)
  qed (use r made s1 sound in \<open>auto simp: fork_process_def handles_sound_def\<close>)
qed

section \<open>One call\<close>

lemma holder_inv_other:
  assumes "holder_inv hs h" and "hs i = None \<or> hs i = Some fh0 \<and> fh_fd fh = fh_fd fh0"
  shows "holder_inv (hs(i \<mapsto> fh)) h"
  using assms unfolding holder_inv_def by fastforce

text \<open>The running process with another table of handles.\<close>

lemma set_holder_inv:
  assumes "sched_inv s" and "procs s cur = Some p" and "cur \<noteq> 0"
  shows "sched_inv (put_process cur (p\<lparr>holder := h\<rparr>) s)"
proof -
  let ?s = "put_process cur (p\<lparr>holder := h\<rparr>) s"
  obtain qs where qs: "qs \<noteq> []" "runnable s qs" "dom (procs s) = set qs" and ok: "pids_ok (procs s) (next_pid s)"
    using assms(1) by (auto simp: sched_inv_def)
  have d: "dom (procs ?s) = set qs" using qs(3) assms(2) by (auto simp: put_process_def)
  then have "runnable ?s qs" using qs(2) by (auto simp: runnable_def put_process_def)
  moreover have "pids_ok (procs ?s) (next_pid s)"
    by (rule pids_ok_same [OF ok]) (auto simp: put_process_def assms(2) split: if_splits)
  ultimately show ?thesis using sched_invI [OF qs(1) _ d] by (simp add: put_process_def)
qed

lemma open_keeps_inv:
  assumes "system_inv st" and ready: "call_ready env st"
    and cur: "get_current_process (strategy (sched st)) = Inr cur" "cur \<noteq> 0"
    and r: "sys_open env cur fd0 name flags mode st = Some (Inr (m, st'))"
  shows "system_inv st'"
proof -
  obtain nd fs where o: "open_node (fs_env env) name (files st) = Some (Inr (nd, fs))"
    using r by (auto simp: sys_open_def bind_loop_Inr_iff)
  have inv: "sched_inv (sched st)" "vfs_inv (files st)" "handles_sound (sched st)" "nodes_alive (handles (sched st)) (files st)"
    using assms(1) by (simp_all add: system_inv_def)
  have rd: "no_wrap (files st)" "sane_past (fs_env env)" "handles (sched st) (new_handle env) = None"
    using ready by (simp_all add: call_ready_def)
  have k: "keeps_nodes (files st) fs" "valid_node fs nd" using open_node_keeps [OF o rd(2)] by simp_all
  have inv1: "vfs_inv fs" "nodes_alive (handles (sched st)) fs"
    using inv_open_node [OF inv(2) rd(1,2) o] nodes_alive_keeps [OF inv(4) k(1)] by simp_all
  show ?thesis
  proof (cases nd)
    case None
    then show ?thesis using r o inv inv1 by (auto simp: sys_open_def answer_def system_inv_def)
  next
    case (Some f)
    obtain p where p: "procs (sched st) cur = Some p"
      using r o Some cur(2) by (auto simp: sys_open_def bind_loop_Inr_iff proc_at_def split: option.splits)
    let ?n = "fd_counter (holder p)" and ?fh = "filehandle_new (Some f) (char_of (unat flags)) (char_of (unat mode)) (fd_counter (holder p))"
    let ?h = "(holder p)\<lparr>filehandles := (filehandles (holder p))(?n \<mapsto> new_handle env), fd_counter := ?n + 1\<rparr>"
    have st': "st' = set_handles ((handles (sched st))(new_handle env \<mapsto> ?fh)) (set_holder cur p ?h (st\<lparr>files := fs\<rparr>))"
      using r o Some p cur(2) by (simp add: sys_open_def proc_at_def push_filehandle_eq answer_def)
    have "sched_inv (sched st')"
      using set_holder_inv [OF inv(1) p cur(2), of ?h]
      by (auto simp: st' set_handles_def set_holder_def sched_inv_def runnable_def)
    moreover have "handles_sound (sched st')"
    proof -
      have hp: "holder_inv (handles (sched st)) (holder p)" using inv(3) p by (simp add: handles_sound_def)
      have n: "?n \<noteq> - 1" using ready cur(1) p by (simp add: call_ready_def)
      have "holder_inv ((handles (sched st))(new_handle env \<mapsto> ?fh)) ?h"
        using hp rd(3) less_succ [OF n] unfolding holder_inv_def
        by (auto simp: filehandle_new_def intro: less_trans) (metis option.distinct(1) option.inject)+
      then show ?thesis
        using inv(3) rd(3) holder_inv_other [of "handles (sched st)" _ "new_handle env"] by (auto simp: handles_sound_def st')
    qed
    moreover have "nodes_alive (handles (sched st')) (files st')"
      using inv1(2) k(2) Some by (auto simp: nodes_alive_def st' filehandle_new_def valid_node_def)
    ultimately show ?thesis using inv1 by (simp add: system_inv_def st')
  qed
qed

lemma close_keeps_inv:
  assumes "system_inv st" and cur: "cur \<noteq> 0" and r: "sys_close env cur fd st = Some (Inr (m, st'))"
  shows "system_inv st'"
proof -
  have inv: "sched_inv (sched st)" "vfs_inv (files st)" "handles_sound (sched st)" "nodes_alive (handles (sched st)) (files st)"
    using assms(1) by (simp_all add: system_inv_def)
  obtain p where p: "procs (sched st) cur = Some p"
    using r cur by (auto simp: sys_close_def bind_loop_Inr_iff proc_at_def split: option.splits)
  obtain i fh where i: "filehandles (holder p) fd = Some i" "handles (sched st) i = Some fh"
    using r p cur by (auto simp: sys_close_def bind_loop_Inr_iff proc_at_def remove_filehandle_def split: option.splits)
  let ?h = "(holder p)\<lparr>filehandles := (filehandles (holder p))(fd := None)\<rparr>"
  let ?st1 = "set_holder cur p ?h st"
  have rm: "remove_filehandle fd (holder p) (handles (sched st)) = Inr (fh_node fh, ?h)" using i by (simp add: remove_filehandle_def)
  have "holder_inv (handles (sched st)) (holder p)" using inv(3) p by (simp add: handles_sound_def)
  then have "holder_inv (handles (sched st)) ?h" by (auto simp: holder_inv_def)
  then have hs: "handles_sound (sched ?st1)" using inv(3) by (auto simp: handles_sound_def)
  have si: "sched_inv (sched ?st1)" using set_holder_inv [OF inv(1) p cur] by (simp add: set_holder_def)
  show ?thesis
  proof (cases "fh_node fh")
    case None
    then show ?thesis using r p cur rm hs si inv by (auto simp: sys_close_def proc_at_def answer_def system_inv_def)
  next
    case (Some f)
    then obtain fs where cl: "close_node (fs_env env) (Some f) (files st) = Inr fs" and st': "st' = ?st1\<lparr>files := fs\<rparr>"
      using r p cur rm by (auto simp: sys_close_def proc_at_def bind_loop_Inr_iff answer_def)
    then show ?thesis
      using hs si inv_close_node [OF inv(2) cl] nodes_alive_keeps [OF inv(4) close_node_keeps [OF cl]]
      by (simp add: system_inv_def)
  qed
qed

text \<open>A call that changes one handle, but not its number and its node, and perhaps the world.\<close>

lemma moved_handle_inv:
  assumes "system_inv st" and "handles (sched st) i = Some fh" and "fh_fd fh1 = fh_fd fh" and "fh_node fh1 = fh_node fh"
  shows "system_inv (set_handles ((handles (sched st))(i \<mapsto> fh1)) st)"
    and "system_inv (set_world w (set_handles ((handles (sched st))(i \<mapsto> fh1)) st))"
proof -
  have "sched_inv ((sched st)\<lparr>handles := hs\<rparr>)" for hs
    using assms(1) by (simp add: system_inv_def sched_inv_def runnable_def)
  moreover have "handles_sound ((sched st)\<lparr>handles := (handles (sched st))(i \<mapsto> fh1)\<rparr>)"
    using assms holder_inv_other [of "handles (sched st)" _ i fh fh1] by (auto simp: system_inv_def handles_sound_def)
  moreover have "nodes_alive ((handles (sched st))(i \<mapsto> fh1)) (files st)"
    using assms unfolding system_inv_def nodes_alive_def by (metis fun_upd_apply option.inject)
  ultimately show "system_inv (set_handles ((handles (sched st))(i \<mapsto> fh1)) st)"
    "system_inv (set_world w (set_handles ((handles (sched st))(i \<mapsto> fh1)) st))"
    using assms(1) by (simp_all add: system_inv_def set_handles_def set_world_def inv_world nodes_alive_def)
qed

lemma handle_of_found: "handle_of cur fd st = Inr (i, fh) \<Longrightarrow> handles (sched st) i = Some fh"
  by (auto simp: handle_of_def bind_result_Inr_iff split: option.splits)

lemma dispatch_keeps_inv:
  assumes inv: "system_inv st" and ready: "call_ready env st"
    and r: "real_dispatch_syscall env msg st = Some (Inr (m, st'))"
  shows "system_inv st'"
proof -
  have si: "sched_inv (sched st)" "vfs_inv (files st)" "handles_sound (sched st)" "nodes_alive (handles (sched st)) (files st)"
    using inv by (simp_all add: system_inv_def)
  have rd: "no_wrap (files st)" "sane_past (fs_env env)" "fresh_memory (new_mem env) (sched st)" "fork_label env \<noteq> MAGIC_VALUE"
    using ready by (simp_all add: call_ready_def)
  obtain cur where cur: "get_current_process (strategy (sched st)) = Inr cur" "cur \<noteq> 0"
    using r by (auto simp: real_dispatch_syscall_def bind_loop_Inr_iff split: if_splits)
  have same: ?thesis if "same_procs (sched st) (sched st')" "vfs_inv (files st')" "keeps_nodes (files st) (files st')"
  proof -
    have "handles (sched st') = handles (sched st)" using that(1) by (rule same_procsD)
    then show ?thesis
      using that si sched_inv_same_procs handles_sound_same_procs nodes_alive_keeps by (auto simp: system_inv_def)
  qed
  have moved: "system_inv (set_handles ((handles (sched st))(i \<mapsto> fh1)) st)"
      "system_inv (set_world w (set_handles ((handles (sched st))(i \<mapsto> fh1)) st))"
    if "handle_of cur fd st = Inr (i, fh)" "fh_fd fh1 = fh_fd fh" "fh_node fh1 = fh_node fh" for fd i fh fh1 w
    by (rule moved_handle_inv [OF inv handle_of_found [OF that(1)] that(2,3)])+
  show ?thesis
  proof (cases "msg_call msg")
    case (Open_data fd0 name flags mode)
    then have "sys_open env cur fd0 name flags mode st = Some (Inr (m, st'))" using r cur by (simp add: real_dispatch_syscall_def)
    then show ?thesis by (rule open_keeps_inv [OF inv ready cur])
  next
    case (Close_data fd)
    then have "sys_close env cur fd st = Some (Inr (m, st'))" using r cur by (simp add: real_dispatch_syscall_def)
    then show ?thesis by (rule close_keeps_inv [OF inv cur(2)])
  next
    case (Read_data fd buf len)
    then have "sys_read env cur fd buf len st = Some (Inr (m, st'))" using r cur by (simp add: real_dispatch_syscall_def)
    then show ?thesis
      by (auto simp: sys_read_def bind_loop_Inr_iff fh_read_def fh_transfer_def answer_def Let_def split: option.splits)
        (rule moved(2), assumption, simp, simp)+
  next
    case (Write_data fd buf len)
    then have "sys_write env cur fd buf len st = Some (Inr (m, st'))" using r cur by (simp add: real_dispatch_syscall_def)
    then show ?thesis
      by (auto simp: sys_write_def bind_loop_Inr_iff fh_write_def fh_transfer_def answer_def Let_def split: option.splits)
        (rule moved(2), assumption, simp, simp)+
  next
    case (Lseek_data fd off dir)
    then have l: "sys_lseek cur fd off dir st = Some (Inr (m, st'))" using r cur by (simp add: real_dispatch_syscall_def)
    have "fh_fd fh1 = fh_fd fh \<and> fh_node fh1 = fh_node fh" if "fh_seek info off dir fh = (b, fh1)" for info fh b fh1
      using that by (auto simp: fh_seek_def seek_to_def split: option.splits if_splits)
    with l show ?thesis
      by (auto simp: sys_lseek_def bind_loop_Inr_iff answer_def split: if_splits prod.splits)
        (rule moved(1), assumption, simp, simp)+
  next
    case (Fstat_data fd v)
    then have "sys_fstat cur fd v st = Some (Inr (m, st'))" using r cur by (simp add: real_dispatch_syscall_def)
    then have "st' = st" by (auto simp: sys_fstat_def bind_loop_Inr_iff answer_def split: option.splits)
    then show ?thesis using inv by simp
  next
    case (Sbrk_data incr addr)
    then have "sys_sbrk env cur incr addr st = Some (Inr (m, st'))" using r cur by (simp add: real_dispatch_syscall_def)
    then obtain e i b s1 where b: "sys_break (mem_areas env) cur incr addr (sched st) = Inr (e, i, b, s1)" and st': "st' = st\<lparr>sched := s1\<rparr>"
      by (auto simp: sys_sbrk_def bind_loop_Inr_iff answer_def)
    show ?thesis using break_same_procs [OF b] si(2) by (intro same) (simp_all add: st' keeps_nodes_def)
  next
    case (Getpid_data x)
    then have "sys_getpid cur st = Some (Inr (m, st'))" using r cur by (simp add: real_dispatch_syscall_def)
    then show ?thesis using inv by (auto simp: sys_getpid_def bind_loop_Inr_iff answer_def)
  next
    case (Fork_data x)
    then have "sys_fork env st = Some (Inr (m, st'))" using r cur by (simp add: real_dispatch_syscall_def)
    then obtain b child s1 where fk: "fork_process (mem_areas env) (fd_keys env) (new_mem env) (fork_label env) False 0 (sched st)
        = Some (Inr (b, child, s1))" and st': "st' = st\<lparr>sched := s1\<rparr>"
      by (auto simp: sys_fork_def bind_loop_Inr_iff answer_def split: if_splits)
    have "handles_sound s1 \<and> handles s1 = handles (sched st)"
      by (rule fork_keeps_handles [OF si(3,1) _ fk]) (use ready in \<open>auto simp: call_ready_def\<close>)
    then show ?thesis using sched_inv_fork [OF si(1) rd(3,4) fk] si by (simp add: system_inv_def st')
  next
    case (Execve_data name)
    then have "sys_execve env name st = Some (Inr (m, st'))" using r cur by (simp add: real_dispatch_syscall_def)
    then obtain x st1 where l: "load_elf (fs_env env) (mem_areas env) (ehdr_junk env) (phdr_junk env) name st = Some (Inr (x, st1))"
      and c: "(case x of Entered \<Rightarrow> Some (Inr (None, st1))
          | Returned success \<Rightarrow> answer (Execve_data name) (if \<not> success then e_no_exec else no_error) st1) = Some (Inr (m, st'))"
      by (auto simp: sys_execve_def bind_loop_Inr_iff)
    from c have "st1 = st'" by (cases x) (simp_all add: answer_def)
    note l = l [unfolded this]
    show ?thesis using load_elf_keeps [OF l si(2) rd(1,2)] same by blast
  next
    case (Testcall_data a b c d)
    then show ?thesis using r cur inv by (auto simp: real_dispatch_syscall_def sys_test_def answer_def split: if_splits)
  next
    case (Exit_data code)
    then show ?thesis using r cur by (simp add: real_dispatch_syscall_def sys_exit_def exit_process_def)
  qed (use r cur inv in \<open>simp_all add: real_dispatch_syscall_def answer_def\<close>)
qed

section \<open>Sequences of calls\<close>

text \<open>The calls of the running processes and the switches between them, in any order.\<close>

inductive kernel_run :: "('drv, 'con, 'w) system \<Rightarrow> ('drv, 'con, 'w) system \<Rightarrow> bool" where
  run_none: "kernel_run st st"
| run_call: "kernel_run st st1 \<Longrightarrow> call_ready env st1 \<Longrightarrow> real_dispatch_syscall env msg st1 = Some (Inr (m, st2)) \<Longrightarrow> kernel_run st st2"
| run_switch: "kernel_run st st1 \<Longrightarrow> context_switch label (sched st1) = Inr s2 \<Longrightarrow> kernel_run st (st1\<lparr>sched := s2\<rparr>)"

lemma switch_keeps_handles:
  assumes "context_switch label s = Inr s'"
  shows "handles s' = handles s \<and> (\<forall>c q. procs s' c = Some q \<longrightarrow> (\<exists>p. procs s c = Some p \<and> holder p = holder q))"
  using assms
  by (auto simp: context_switch_def switch_to_def put_process_def proc_at_def bind_result_Inr_iff Let_def split: if_splits option.splits)

text \<open>The kernel stays sound. Along every sequence of system calls and switches between the
  processes, from a state in which the invariant holds, it holds afterwards: every process is in
  the list of the scheduler once and has a number of its own; every descriptor of every process is
  below the counter of its table and leads to a handle that carries its number; the node of every
  handle exists; and the open and the mounted nodes are filed under their paths.\<close>

theorem calls_keep_system_sound:
  assumes "kernel_run st st'" and "system_inv st"
  shows "system_inv st'"
  using assms
proof (induction rule: kernel_run.induct)
  case (run_call st st1 env msg m st2)
  then show ?case using dispatch_keeps_inv by blast
next
  case (run_switch st st1 label s2)
  then have inv: "system_inv st1" by simp
  have "sched_inv s2" using sched_inv_switch [of "sched st1" label] inv run_switch.hyps(2) by (auto simp: system_inv_def)
  moreover have "handles_sound s2"
    using switch_keeps_handles [OF run_switch.hyps(2)] inv unfolding system_inv_def handles_sound_def by metis
  ultimately show ?case using inv switch_keeps_handles [OF run_switch.hyps(2)] by (simp add: system_inv_def)
qed

definition console_system :: "(unit, unit, nat \<Rightarrow> u8) system" where
  "console_system = \<lparr>sched = sched_sample, files = used_vfs 1\<rparr>"

lemma console_system_inv: "system_inv console_system"
proof -
  have "sched_inv sched_sample"
    by (rule sched_invI [OF _ sched_sample_runnable]) (auto simp: sched_sample_def process_sample_def pids_ok_def split: if_splits)
  moreover have "vfs_inv (used_vfs 1)"
    by (rule vfs_invI) (auto simp: used_vfs_def dev_node_copy_def split: if_splits)
  ultimately show ?thesis
    by (auto simp: system_inv_def console_system_def handles_sound_def nodes_alive_def sched_sample_def process_sample_def
        holder_inv_def holder_new_def split: if_splits)
qed

lemma console_system_ready: "call_ready kernel_sample console_system"
proof -
  have "rr_fresh 0x400 rr_sample" by (simp add: rr_fresh_def rr_sample_def push_new_def round_robin_new_def)
  then show ?thesis
    using rr_current [OF rr_sample_rep]
    by (auto simp: call_ready_def kernel_sample_def console_system_def fresh_memory_def nm_sample_def sched_sample_def
        MAGIC_VALUE_def no_wrap_def used_vfs_def sane_past_def sample_env_def process_sample_def holder_new_def split: if_splits)
qed

theorem calls_keep_system_sound_witness:
  "\<exists>st. kernel_run console_system st \<and> system_inv st
    \<and> real_dispatch_syscall kernel_sample \<lparr>msg_call = Open_data 9 ''/'' 0 0, msg_error = 0\<rparr> console_system
        = answer (Open_data 0 ''/'' 0 0) no_error st"
proof -
  have cur: "get_current_process (strategy (sched console_system)) = Inr 10" "procs (sched console_system) 10 = Some (process_sample 1)"
    using rr_current [OF rr_sample_rep] by (simp_all add: console_system_def sched_sample_def)
  have "open_node (fs_env kernel_sample) ''/'' (files console_system) = Some (Inr (Some 0, root_opened))"
    using root_open by (simp add: kernel_sample_def console_system_def)
  from open_pushes [OF cur(1) _ cur(2) this, of 9 0 0 0]
  obtain st where st: "real_dispatch_syscall kernel_sample \<lparr>msg_call = Open_data 9 ''/'' 0 0, msg_error = 0\<rparr> console_system
      = answer (Open_data 0 ''/'' 0 0) no_error st" by (auto simp: process_sample_def holder_new_def)
  have run: "kernel_run console_system st"
    by (rule run_call [OF run_none console_system_ready]) (use st in \<open>simp add: answer_def\<close>)
  show ?thesis using run st calls_keep_system_sound [OF run console_system_inv] by blast
qed

end
