(* ===== verification/Keyboard.thy ===== *)
theory Keyboard
  imports Kern_Prelude
begin

text \<open>
  The keyboard (kern/arch/x86/devices/keyboard.h, keyboard.cpp): the interrupt handler stores scan
  codes in a ring of 128 bytes, get_next_key takes one out and decodes it with the state of the
  modifier keys, and the light emitting diodes are set through the controller. The locale
  \<open>bounded_fifo\<close> is what the reader of the ring relies on.
\<close>

section \<open>Bounded queues\<close>

text \<open>
  Bytes arrive, and are dropped when the queue holds \<open>cap\<close> of them; a fetch answers the oldest,
  or \<open>none\<close> when there is none. \<open>queue_run\<close> is the reference: it works on a list and collects
  the answers.
\<close>

datatype 'e fifo_op = Arrive 'e | Fetch

fun queue_run :: "nat \<Rightarrow> 'e \<Rightarrow> 'e fifo_op list \<Rightarrow> 'e list \<Rightarrow> 'e list \<times> 'e list" where
  "queue_run cap none [] q = ([], q)"
| "queue_run cap none (Arrive x # ops) q = queue_run cap none ops (if length q < cap then q @ [x] else q)"
| "queue_run cap none (Fetch # ops) q =
     (let (as, q') = queue_run cap none ops (tl q) in ((case q of [] \<Rightarrow> none | x # _ \<Rightarrow> x) # as, q'))"

fun fifo_run :: "('e \<Rightarrow> 's \<Rightarrow> 's result) \<Rightarrow> ('s \<Rightarrow> ('e \<times> 's) result) \<Rightarrow> 'e fifo_op list \<Rightarrow> 's \<Rightarrow> ('e list \<times> 's) result" where
  "fifo_run put get [] s = Inr ([], s)"
| "fifo_run put get (Arrive x # ops) s = bind_result (put x s) (fifo_run put get ops)"
| "fifo_run put get (Fetch # ops) s =
     bind_result (get s) (\<lambda>(a, s1). bind_result (fifo_run put get ops s1) (\<lambda>(as, s2). Inr (a # as, s2)))"

definition arrivals :: "'e fifo_op list \<Rightarrow> 'e list" where
  "arrivals ops = concat (map (\<lambda>op. case op of Arrive x \<Rightarrow> [x] | Fetch \<Rightarrow> []) ops)"

lemma arrivals_simps [simp]:
  "arrivals [] = []" "arrivals (Arrive x # ops) = x # arrivals ops" "arrivals (Fetch # ops) = arrivals ops"
  by (simp_all add: arrivals_def)

lemma queue_run_bounded: "length q \<le> cap \<Longrightarrow> length (snd (queue_run cap none ops q)) \<le> cap"
  by (induction cap none ops q rule: queue_run.induct) (auto simp: split_beta Let_def)

text \<open>A queue that is large enough for everything that arrives loses nothing and keeps the order.\<close>

lemma queue_run_lossless:
  assumes "length q + length (arrivals ops) \<le> cap" and "none \<notin> set q" and "none \<notin> set (arrivals ops)"
  shows "filter (\<lambda>x. x \<noteq> none) (fst (queue_run cap none ops q)) @ snd (queue_run cap none ops q) = q @ arrivals ops"
  using assms
proof (induction cap none ops q rule: queue_run.induct)
  case (3 cap none ops q)
  have "filter (\<lambda>x. x \<noteq> none) (fst (queue_run cap none ops (tl q))) @ snd (queue_run cap none ops (tl q))
      = tl q @ arrivals ops"
    using 3 by (cases q) auto
  then show ?case using 3(3) by (cases q) (auto simp: split_beta Let_def)
qed auto

locale bounded_fifo =
  fixes ok :: "'s \<Rightarrow> bool" and content :: "'s \<Rightarrow> 'e list" and cap :: nat and none :: 'e
    and put :: "'e \<Rightarrow> 's \<Rightarrow> 's result" and get :: "'s \<Rightarrow> ('e \<times> 's) result"
  assumes put_law: "ok s \<Longrightarrow> \<exists>t. put x s = Inr t \<and> ok t
      \<and> content t = (if length (content s) < cap then content s @ [x] else content s)"
    and get_law: "ok s \<Longrightarrow> \<exists>t. get s = Inr (case content s of [] \<Rightarrow> none | x # _ \<Rightarrow> x, t) \<and> ok t
      \<and> content t = tl (content s)"
    and within: "ok s \<Longrightarrow> length (content s) \<le> cap"
begin

lemma run_refines:
  assumes "ok s"
  shows "\<exists>t. fifo_run put get ops s = Inr (fst (queue_run cap none ops (content s)), t) \<and> ok t
    \<and> content t = snd (queue_run cap none ops (content s))"
  using assms
proof (induction ops arbitrary: s)
  case (Cons op ops)
  show ?case
  proof (cases op)
    case (Arrive x)
    then show ?thesis using put_law [OF Cons.prems, of x] Cons.IH by fastforce
  next
    case Fetch
    from get_law [OF Cons.prems] obtain t where
      "get s = Inr (case content s of [] \<Rightarrow> none | x # _ \<Rightarrow> x, t)" "ok t" "content t = tl (content s)" by blast
    with Cons.IH [of t] Fetch show ?thesis by (auto simp: split_beta Let_def)
  qed
qed simp

end

section \<open>The ring of scan codes\<close>

record key_ring =
  kb_buffer :: "u8 list"
  kb_in :: u16
  kb_out :: u16

definition kb_size :: nat where "kb_size = 128"

text \<open>The constructor fills the buffer with zeros; the indices are static and start at 0.\<close>

definition new_key_ring :: key_ring where
  "new_key_ring = \<lparr>kb_buffer = replicate kb_size 0, kb_in = 0, kb_out = 0\<rparr>"

text \<open>The operands of the comparison are promoted to int, so that \<open>0 - 1\<close> is no index.\<close>

definition ring_full :: "key_ring \<Rightarrow> bool" where
  "ring_full r \<longleftrightarrow> uint (kb_in r) = uint (kb_out r) - 1 \<or> unat (kb_in r) = kb_size - 1 \<and> kb_out r = 0"

definition push_event :: "u8 \<Rightarrow> key_ring \<Rightarrow> key_ring result" where
  "push_event e r =
     (if ring_full r then Inr r
      else if unat (kb_in r) < length (kb_buffer r)
      then (let i = kb_in r + 1
            in Inr (r\<lparr>kb_buffer := (kb_buffer r)[unat (kb_in r) := e], kb_in := if kb_size \<le> unat i then 0 else i\<rparr>))
      else Inl Out_of_bounds)"

text \<open>
  A fetch reads a byte and moves the index on, and in a second step sets the index back; the
  interrupt handler may run between the two.
\<close>

definition take_event :: "key_ring \<Rightarrow> (u8 \<times> key_ring) result" where
  "take_event r =
     (if unat (kb_out r) < length (kb_buffer r)
      then Inr (kb_buffer r ! unat (kb_out r), r\<lparr>kb_out := kb_out r + 1\<rparr>)
      else Inl Out_of_bounds)"

definition wrap_out :: "key_ring \<Rightarrow> key_ring" where
  "wrap_out r = (if kb_size \<le> unat (kb_out r) then r\<lparr>kb_out := 0\<rparr> else r)"

definition get_next_event :: "key_ring \<Rightarrow> (u8 \<times> key_ring) result" where
  "get_next_event r =
     (if kb_in r \<noteq> kb_out r then bind_result (take_event r) (\<lambda>(e, r1). Inr (e, wrap_out r1))
      else Inr (0, r))"

text \<open>The handler gets the byte that it reads from the port of the keyboard.\<close>

definition handle_interrupt :: "u8 \<Rightarrow> key_ring \<Rightarrow> key_ring result" where
  "handle_interrupt scan_code r = push_event scan_code r"

section \<open>Modifier keys\<close>

record keyboard =
  left_shift_state :: bool
  right_shift_state :: bool
  caps_lock_state :: bool
  caps_lock_ignore_one :: bool
  super_state :: bool
  left_ctrl_state :: bool
  right_ctrl_state :: bool
  alt_state :: bool
  alt_gr_state :: bool
  escaped :: bool

definition new_keyboard :: keyboard where
  "new_keyboard = \<lparr>left_shift_state = False, right_shift_state = False, caps_lock_state = False,
     caps_lock_ignore_one = False, super_state = False, left_ctrl_state = False, right_ctrl_state = False,
     alt_state = False, alt_gr_state = False, escaped = False\<rparr>"

text \<open>The characters of the keys: plain, with shift, with alt-gr and escaped. The rows that the
  initialiser does not name are zero.\<close>

definition keyboard_german :: "u8 list list" where
  "keyboard_german =
  [[0, 0, 0, 0], [0, 0, 0, 0], [0x31, 0x21, 0, 0], [0x32, 0x22, 0, 0],
   [0x33, 0, 0, 0], [0x34, 0x24, 0, 0], [0x35, 0x25, 0, 0], [0x36, 0x26, 0, 0],
   [0x37, 0x2F, 0x7B, 0], [0x38, 0x28, 0x5B, 0], [0x39, 0x29, 0x5D, 0], [0x30, 0x3D, 0x7D, 0],
   [0, 0x3F, 0x5C, 0], [0, 0x60, 0, 0], [0x08, 0x08, 0, 0], [0x09, 0, 0, 0],
   [0x71, 0x51, 0x40, 0], [0x77, 0x57, 0, 0], [0x65, 0x45, 0, 0], [0x72, 0x52, 0, 0],
   [0x74, 0x54, 0, 0], [0x7A, 0x5A, 0, 0], [0x75, 0x55, 0, 0], [0x69, 0x49, 0, 0],
   [0x6F, 0x4F, 0, 0], [0x70, 0x50, 0, 0], [0, 0, 0, 0], [0x2B, 0x2A, 0x7E, 0],
   [0x0A, 0, 0, 0x0A], [0, 0, 0, 0], [0x61, 0x41, 0, 0], [0x73, 0x53, 0, 0],
   [0x64, 0x44, 0, 0], [0x66, 0x46, 0, 0], [0x67, 0x47, 0, 0], [0x68, 0x48, 0, 0],
   [0x6A, 0x4A, 0, 0], [0x6B, 0x4B, 0, 0], [0x6C, 0x4C, 0, 0], [0, 0, 0, 0],
   [0, 0, 0, 0], [0x5E, 0, 0, 0], [0, 0, 0, 0], [0x23, 0x27, 0, 0],
   [0x79, 0x59, 0, 0], [0x78, 0x58, 0, 0], [0x63, 0x43, 0, 0], [0x76, 0x56, 0, 0],
   [0x62, 0x42, 0, 0], [0x6E, 0x4E, 0, 0], [0x6D, 0x4D, 0, 0], [0x2C, 0x3B, 0, 0],
   [0x2E, 0x3A, 0, 0], [0x2D, 0x5F, 0, 0x2F], [0, 0, 0, 0], [0x2A, 0, 0, 0],
   [0, 0, 0, 0], [0x20, 0x20, 0, 0], [0, 0, 0, 0], [0, 0, 0, 0],
   [0, 0, 0, 0], [0, 0, 0, 0], [0, 0, 0, 0], [0, 0, 0, 0],
   [0, 0, 0, 0], [0, 0, 0, 0], [0, 0, 0, 0], [0, 0, 0, 0],
   [0, 0, 0, 0], [0, 0, 0, 0], [0, 0, 0, 0], [0x37, 0, 0, 0],
   [0x38, 0, 0, 0], [0x39, 0, 0, 0], [0x2D, 0, 0, 0], [0x34, 0, 0, 0],
   [0x35, 0, 0, 0], [0x36, 0, 0, 0], [0x2B, 0, 0, 0], [0x31, 0, 0, 0],
   [0x32, 0, 0, 0], [0x33, 0, 0, 0], [0x30, 0, 0, 0], [0x2C, 0, 0, 0],
   [0, 0, 0, 0], [0, 0, 0, 0], [0x3C, 0x3E, 0x7C, 0]]
   @ replicate 41 [0, 0, 0, 0]"

definition caps_lock_pressed :: "keyboard \<Rightarrow> keyboard" where
  "caps_lock_pressed k =
     k\<lparr>caps_lock_state := if caps_lock_ignore_one k then caps_lock_state k else \<not> caps_lock_state k,
       caps_lock_ignore_one := \<not> caps_lock_ignore_one k, escaped := False\<rparr>"

definition key_char :: "u8 \<Rightarrow> keyboard \<Rightarrow> u8 \<times> keyboard" where
  "key_char c k =
     (if c AND 0x80 = 0
      then if 128 < unat c then (0, k)
           else if escaped k then (keyboard_german ! unat c ! 3, k\<lparr>escaped := False\<rparr>)
           else if alt_gr_state k then (keyboard_german ! unat c ! 2, k)
           else if left_shift_state k \<or> right_shift_state k \<or> caps_lock_state k
           then (keyboard_german ! unat c ! 1, k)
           else (keyboard_german ! unat c ! 0, k)
      else (0, k))"

definition decode_key :: "u8 \<Rightarrow> keyboard \<Rightarrow> u8 \<times> keyboard" where
  "decode_key c k =
     (if c = 0xBA then (0, k)
      else if c = 0x3A then (0, caps_lock_pressed k)
      else if c = 0x2A then (0, k\<lparr>left_shift_state := True, escaped := False\<rparr>)
      else if c = 0xAA then (0, k\<lparr>left_shift_state := False, escaped := False\<rparr>)
      else if c = 0x36 then (0, k\<lparr>right_shift_state := True, escaped := False\<rparr>)
      else if c = 0xB6 then (0, k\<lparr>right_shift_state := False, escaped := False\<rparr>)
      else if c = 0x1D then (0, k\<lparr>left_ctrl_state := True, escaped := False\<rparr>)
      else if c = 0x9D then (0, k\<lparr>left_ctrl_state := False, escaped := False\<rparr>)
      else if c = 0x38
      then (0, if escaped k then k\<lparr>alt_gr_state := True, escaped := False\<rparr> else k\<lparr>alt_state := True\<rparr>)
      else if c = 0xB8
      then (0, if escaped k then k\<lparr>alt_gr_state := False, escaped := False\<rparr> else k\<lparr>alt_state := False\<rparr>)
      else if c = 0xE0 then key_char c (k\<lparr>escaped := True\<rparr>)
      else key_char c k)"

definition get_next_key :: "keyboard \<Rightarrow> key_ring \<Rightarrow> (u8 \<times> keyboard \<times> key_ring) result" where
  "get_next_key k r =
     bind_result (get_next_event r) (\<lambda>(c, r1). let (ret, k1) = decode_key c k in Inr (ret, k1, r1))"

section \<open>Lights\<close>

definition new_leds :: "bool \<Rightarrow> bool \<Rightarrow> bool \<Rightarrow> u8" where
  "new_leds scroll num caps = of_bool scroll OR push_bit 1 (of_bool num) OR push_bit 2 (of_bool caps)"

definition get_scroll_lock_led_state :: "u8 \<Rightarrow> bool" where "get_scroll_lock_led_state leds = bit leds 0"
definition get_num_lock_led_state :: "u8 \<Rightarrow> bool" where "get_num_lock_led_state leds = bit leds 1"
definition get_caps_lock_led_state :: "u8 \<Rightarrow> bool" where "get_caps_lock_led_state leds = bit leds 2"

text \<open>
  The status port of the controller answers \<open>busy n\<close> to its \<open>n\<close>-th reading; bit 1 says that the
  controller is busy. The bytes written to the port of the keyboard are returned. Not getting
  ready is \<open>None\<close>.
\<close>

definition wait_ready :: "(nat \<Rightarrow> u8) \<Rightarrow> nat \<Rightarrow> nat option" where
  "wait_ready busy n = poll (\<lambda>status. status AND 2 = 0) busy n"

definition refresh_leds :: "(nat \<Rightarrow> u8) \<Rightarrow> u8 \<Rightarrow> nat \<Rightarrow> (u8 list \<times> nat) option" where
  "refresh_leds busy leds n =
     (case wait_ready busy n of
        None \<Rightarrow> None
      | Some n1 \<Rightarrow> (case wait_ready busy n1 of None \<Rightarrow> None | Some n2 \<Rightarrow> Some ([0xED, leds], n2)))"

definition put_led :: "nat \<Rightarrow> bool \<Rightarrow> (nat \<Rightarrow> u8) \<Rightarrow> u8 \<Rightarrow> nat \<Rightarrow> (u8 list \<times> u8 \<times> nat) option" where
  "put_led b state busy leds n =
     (let l = if state then set_bit b leds else unset_bit b leds
      in case refresh_leds busy l n of None \<Rightarrow> None | Some (out, n1) \<Rightarrow> Some (out, l, n1))"

definition set_scroll_lock_led_state :: "bool \<Rightarrow> (nat \<Rightarrow> u8) \<Rightarrow> u8 \<Rightarrow> nat \<Rightarrow> (u8 list \<times> u8 \<times> nat) option" where
  "set_scroll_lock_led_state = put_led 0"
definition set_num_lock_led_state :: "bool \<Rightarrow> (nat \<Rightarrow> u8) \<Rightarrow> u8 \<Rightarrow> nat \<Rightarrow> (u8 list \<times> u8 \<times> nat) option" where
  "set_num_lock_led_state = put_led 1"
definition set_caps_lock_led_state :: "bool \<Rightarrow> (nat \<Rightarrow> u8) \<Rightarrow> u8 \<Rightarrow> nat \<Rightarrow> (u8 list \<times> u8 \<times> nat) option" where
  "set_caps_lock_led_state = put_led 2"

section \<open>The ring is a queue\<close>

definition ring_ok :: "key_ring \<Rightarrow> bool" where
  "ring_ok r \<longleftrightarrow> length (kb_buffer r) = kb_size \<and> unat (kb_in r) < kb_size \<and> unat (kb_out r) < kb_size"

definition ring_count :: "key_ring \<Rightarrow> nat" where
  "ring_count r = (unat (kb_in r) + kb_size - unat (kb_out r)) mod kb_size"

definition ring_items :: "key_ring \<Rightarrow> u8 list" where
  "ring_items r = map (\<lambda>k. kb_buffer r ! ((unat (kb_out r) + k) mod kb_size)) [0 ..< ring_count r]"

lemma unat_Suc16: "unat (i :: u16) < 65535 \<Longrightarrow> unat (i + 1) = Suc (unat i)"
  using unat_plus_nowrap [of i 1] by simp

lemma ring_okD:
  assumes "ring_ok r"
  shows "length (kb_buffer r) = 128" "unat (kb_in r) < 128" "unat (kb_out r) < 128"
    "ring_count r = (if unat (kb_out r) \<le> unat (kb_in r) then unat (kb_in r) - unat (kb_out r)
       else unat (kb_in r) + 128 - unat (kb_out r))"
  using assms by (auto simp: ring_ok_def ring_count_def kb_size_def mod_if)

lemma ring_full_iff:
  assumes "ring_ok r"
  shows "ring_full r \<longleftrightarrow> ring_count r = kb_size - 1"
proof -
  have i: "uint (kb_in r) = uint (kb_out r) - 1 \<longleftrightarrow> Suc (unat (kb_in r)) = unat (kb_out r)"
    unfolding uint_nat by linarith
  have z: "kb_out r = 0 \<longleftrightarrow> unat (kb_out r) = 0" by (simp add: unat_eq_0)
  show ?thesis
    unfolding ring_full_def i z ring_okD(4) [OF assms] kb_size_def using ring_okD(2,3) [OF assms] by auto
qed

lemma ring_count_lt: "ring_count r < kb_size"
  by (simp add: ring_count_def kb_size_def)

lemma push_event_ring:
  assumes "ring_ok r"
  shows "\<exists>t. push_event e r = Inr t \<and> ring_ok t
    \<and> ring_items t = (if length (ring_items r) < kb_size - 1 then ring_items r @ [e] else ring_items r)"
proof (cases "ring_full r")
  case True
  then show ?thesis using assms by (simp add: push_event_def ring_full_iff ring_items_def)
next
  case False
  let ?i = "unat (kb_in r)" and ?o = "unat (kb_out r)"
  define n where "n = (if kb_size \<le> unat (kb_in r + 1) then 0 else kb_in r + 1)"
  let ?t = "r\<lparr>kb_buffer := (kb_buffer r)[?i := e], kb_in := n\<rparr>"
  note ok = ring_okD [OF assms]
  have n: "unat n = (if ?i = 127 then 0 else Suc ?i)" using ok(2) by (simp add: n_def unat_Suc16 kb_size_def)
  have c: "ring_count r < 127" using False assms ring_count_lt [of r] by (simp add: ring_full_iff kb_size_def)
  have okt: "ring_ok ?t" unfolding ring_ok_def using ok(1-3) n by (simp add: kb_size_def)
  have ct: "ring_count ?t = Suc (ring_count r)"
    using ring_okD(4) [OF okt] c ok(2-4) n by (auto split: if_splits)
  have at: "(?o + k) mod 128 = ?i \<longleftrightarrow> k = ring_count r" if "k \<le> ring_count r" for k
    using that ok(2-4) c by (auto simp: mod_if split: if_splits)
  have new: "(?o + ring_count r) mod 128 = ?i" and old: "\<And>k. k < ring_count r \<Longrightarrow> ?i \<noteq> (?o + k) mod 128"
    using at by (simp, metis less_imp_le less_irrefl)
  have "ring_items ?t = ring_items r @ [e]"
    unfolding ring_items_def ct using ok(1,2) by (simp add: kb_size_def new old)
  moreover have "push_event e r = Inr ?t" using False ok by (simp add: push_event_def Let_def n_def)
  ultimately show ?thesis using c okt by (simp add: ring_items_def kb_size_def)
qed

lemma get_next_event_ring:
  assumes "ring_ok r"
  shows "\<exists>t. get_next_event r = Inr (case ring_items r of [] \<Rightarrow> 0 | x # _ \<Rightarrow> x, t) \<and> ring_ok t
    \<and> ring_items t = tl (ring_items r)"
proof (cases "kb_in r = kb_out r")
  case True
  then show ?thesis using assms by (simp add: get_next_event_def ring_items_def ring_count_def kb_size_def)
next
  case False
  let ?i = "unat (kb_in r)" and ?o = "unat (kb_out r)"
  let ?t = "wrap_out (r\<lparr>kb_out := kb_out r + 1\<rparr>)"
  note ok = ring_okD [OF assms]
  have ne: "?i \<noteq> ?o" using False unsigned_word_eqI by blast
  have o: "unat (kb_out ?t) = (Suc ?o) mod 128" using ok(3) by (auto simp: wrap_out_def unat_Suc16 kb_size_def mod_if)
  have same: "kb_buffer ?t = kb_buffer r" "kb_in ?t = kb_in r" by (simp_all add: wrap_out_def)
  have okt: "ring_ok ?t" using ok(1-3) o by (simp add: ring_ok_def same kb_size_def)
  have c: "ring_count r = Suc (ring_count ?t)"
    using ring_okD(4) [OF okt] ok(2-4) ne unfolding o same by (auto simp: mod_if split: if_splits)
  have "ring_items r = kb_buffer r ! ?o # ring_items ?t"
    unfolding ring_items_def c o same using ok(3)
    by (simp add: kb_size_def upt_conv_Cons map_Suc_upt [symmetric] mod_simps del: upt_Suc)
  moreover have "get_next_event r = Inr (kb_buffer r ! ?o, ?t)"
    using False ok by (simp add: get_next_event_def take_event_def)
  ultimately show ?thesis using okt by simp
qed

interpretation keys: bounded_fifo ring_ok ring_items "kb_size - 1" 0 push_event get_next_event
proof unfold_locales
  fix s assume "ring_ok s"
  then show "length (ring_items s) \<le> kb_size - 1" using ring_count_lt [of s] by (simp add: ring_items_def)
qed (erule push_event_ring get_next_event_ring)+

section \<open>The order of the keys\<close>

lemma new_ring: "ring_ok new_key_ring" "ring_items new_key_ring = []"
  by (simp_all add: new_key_ring_def ring_ok_def ring_items_def ring_count_def kb_size_def)

text \<open>C18: The indices of the ring stay within the buffer, and the ring is a queue of 127 scan
  codes. However the interrupts and the reads follow one another from the start, no access is out
  of the bounds of the buffer, the reads answer what a queue with room for 127 answers, of which
  the codes that find it full are lost, and an empty queue answers 0.\<close>

theorem key_ring_bounds:
  "\<exists>r. fifo_run handle_interrupt get_next_event ops new_key_ring
      = Inr (fst (queue_run 127 0 ops []), r)
    \<and> unat (kb_in r) < 128 \<and> unat (kb_out r) < 128 \<and> length (kb_buffer r) = 128
    \<and> ring_items r = snd (queue_run 127 0 ops []) \<and> length (ring_items r) \<le> 127"
proof -
  have h: "handle_interrupt = push_event" by (simp add: fun_eq_iff handle_interrupt_def)
  from keys.run_refines [OF new_ring(1), of ops] obtain r where
    "fifo_run push_event get_next_event ops new_key_ring = Inr (fst (queue_run 127 0 ops []), r)"
    "ring_ok r" "ring_items r = snd (queue_run 127 0 ops [])"
    by (auto simp: new_ring kb_size_def)
  then show ?thesis
    using queue_run_bounded [of "[]" 127 0 ops] ring_okD [of r] unfolding h by auto
qed

text \<open>No key is lost while the reader keeps up. Of a burst of at most 127 scan codes, none of
  them 0, every one is answered in the order of arrival or is still in the ring.\<close>

theorem key_burst_in_order:
  assumes "length (arrivals ops) \<le> 127" and "0 \<notin> set (arrivals ops)"
  shows "\<exists>as r. fifo_run handle_interrupt get_next_event ops new_key_ring = Inr (as, r)
    \<and> filter (\<lambda>x. x \<noteq> 0) as @ ring_items r = arrivals ops"
proof -
  have h: "handle_interrupt = push_event" by (simp add: fun_eq_iff handle_interrupt_def)
  from keys.run_refines [OF new_ring(1), of ops] obtain r where
    "fifo_run push_event get_next_event ops new_key_ring = Inr (fst (queue_run 127 0 ops []), r)"
    "ring_items r = snd (queue_run 127 0 ops [])"
    by (auto simp: new_ring kb_size_def)
  then show ?thesis
    using queue_run_lossless [of "[]" ops 127 0] assms unfolding h by auto
qed

theorem key_burst_in_order_witness:
  "\<exists>as r. fifo_run handle_interrupt get_next_event [Arrive 0x1E, Fetch, Fetch, Arrive 0x30] new_key_ring = Inr (as, r)
    \<and> filter (\<lambda>x. x \<noteq> 0) as @ ring_items r = [0x1E, 0x30]"
  using key_burst_in_order [of "[Arrive 0x1E, Fetch, Fetch, Arrive 0x30]"] by simp

text \<open>C34: The interrupt handler may run between the two steps of a read. When it runs after the
  byte was taken and before the index is set back, the ring is what it is when it runs after the
  read.\<close>

theorem interrupt_within_read:
  assumes "ring_ok r" and "kb_in r \<noteq> kb_out r" and "take_event r = Inr (c, r1)"
  shows "bind_result (handle_interrupt e r1) (\<lambda>r2. Inr (wrap_out r2)) = handle_interrupt e (wrap_out r1)"
proof -
  note ok = ring_okD [OF assms(1)]
  have r1: "r1 = r\<lparr>kb_out := kb_out r + 1\<rparr>" using assms(3) ok by (simp add: take_event_def)
  have o: "unat (kb_out r + 1) = Suc (unat (kb_out r))" using ok(3) by (simp add: unat_Suc16)
  have ne: "unat (kb_in r) \<noteq> unat (kb_out r)" using assms(2) unsigned_word_eqI by blast
  have u: "uint (kb_in r) = uint w - 1 \<longleftrightarrow> Suc (unat (kb_in r)) = unat w" for w :: u16
    unfolding uint_nat by linarith
  have z: "(w = 0) = (unat w = 0)" for w :: u16 by (simp add: unat_eq_0)
  have m: "uint (kb_in r) \<noteq> - 1" using unsigned_greater_eq [of "kb_in r", where ?'a = int] by linarith
  show ?thesis
    using ok(1-3) ne m
    by (auto simp: r1 handle_interrupt_def push_event_def wrap_out_def ring_full_def u z o kb_size_def Let_def)
qed

theorem interrupt_within_read_witness:
  "take_event (new_key_ring\<lparr>kb_in := 0, kb_out := 127\<rparr>) = Inr (0, new_key_ring\<lparr>kb_in := 0, kb_out := 128\<rparr>)
    \<and> bind_result (handle_interrupt 0x1E (new_key_ring\<lparr>kb_in := 0, kb_out := 128\<rparr>)) (\<lambda>r2. Inr (wrap_out r2))
      = handle_interrupt 0x1E (wrap_out (new_key_ring\<lparr>kb_in := 0, kb_out := 128\<rparr>))"
proof -
  have t: "take_event (new_key_ring\<lparr>kb_in := 0, kb_out := 127\<rparr>) = Inr (0, new_key_ring\<lparr>kb_in := 0, kb_out := 128\<rparr>)"
    by (simp add: take_event_def new_key_ring_def kb_size_def)
  have "ring_ok (new_key_ring\<lparr>kb_in := 0, kb_out := 127\<rparr>)"
    by (simp add: ring_ok_def new_key_ring_def kb_size_def)
  from interrupt_within_read [OF this _ t] t show ?thesis by simp
qed

section \<open>Decoding\<close>

lemma keyboard_german_rows: "length keyboard_german = 128" "\<forall>row \<in> set keyboard_german. length row = 4"
  by (simp_all add: keyboard_german_def)

text \<open>A code without the break bit is a row of the table.\<close>

lemma make_code_lt: "c AND 0x80 = 0 \<Longrightarrow> unat (c :: u8) < 128"
  using and_exp_eq_0_iff_not_bit [of c 7] by (simp add: bit7_iff not_le)

text \<open>Two of the modifiers are never set, and a release does not end an escape.\<close>

lemma decode_keeps: "super_state (snd (decode_key c k)) = super_state k"
  "right_ctrl_state (snd (decode_key c k)) = right_ctrl_state k"
  by (simp_all add: decode_key_def key_char_def caps_lock_pressed_def)

lemma release_keeps_escape:
  assumes "c AND 0x80 \<noteq> 0" and "c \<notin> {0xBA, 0xAA, 0xB6, 0x9D, 0xB8, 0xE0}"
  shows "decode_key c k = (0, k)"
proof -
  have "c \<noteq> 0x3A" "c \<noteq> 0x2A" "c \<noteq> 0x36" "c \<noteq> 0x1D" "c \<noteq> 0x38" using assms(1) by (clarsimp; simp)+
  moreover have "key_char c k = (0, k)" using assms(1) unfolding key_char_def by (rule if_not_P)
  ultimately show ?thesis using assms(2) unfolding decode_key_def by (simp split del: if_split)
qed

text \<open>The keys that the code does not treat as modifiers.\<close>

definition plain_key :: "u8 \<Rightarrow> bool" where
  "plain_key c \<longleftrightarrow> c AND 0x80 = 0 \<and> c \<noteq> 0x3A \<and> c \<noteq> 0x2A \<and> c \<noteq> 0x36 \<and> c \<noteq> 0x1D \<and> c \<noteq> 0x38"

lemma decode_plain:
  assumes "plain_key c"
  shows "decode_key c k =
    (keyboard_german ! unat c ! (if escaped k then 3 else if alt_gr_state k then 2
       else if left_shift_state k \<or> right_shift_state k \<or> caps_lock_state k then 1 else 0),
     k\<lparr>escaped := False\<rparr>)"
proof -
  have "unat c < 128" using assms by (simp add: plain_key_def make_code_lt)
  moreover have "c AND 0x80 = 0" using assms by (simp add: plain_key_def)
  moreover from this have "c \<notin> {0xBA, 0xAA, 0xB6, 0x9D, 0xB8, 0xE0}" by auto
  ultimately show ?thesis using assms by (simp add: decode_key_def plain_key_def key_char_def)
qed

text \<open>A sequence of codes taken from the ring.\<close>

fun decode_keys :: "u8 list \<Rightarrow> keyboard \<Rightarrow> u8 list \<times> keyboard" where
  "decode_keys [] k = ([], k)"
| "decode_keys (c # cs) k =
     (let (ret, k1) = decode_key c k; (rets, k2) = decode_keys cs k1 in (ret # rets, k2))"

text \<open>C35: A key with an escaped code loses the key that follows it. Pressing such a key sends the
  escape and the code, releasing it the escape and the code with the break bit; the release sets
  the escape and leaves it set, so that the next plain key is read from the column of the escaped
  keys instead of the column of its modifiers. For every key with a letter or a digit this column
  has 0: the key is lost.\<close>

theorem escaped_release_swallows:
  assumes "plain_key e" and "e OR 0x80 \<notin> {0xBA, 0xAA, 0xB6, 0x9D, 0xB8, 0xE0}" and "plain_key c"
  shows "fst (decode_keys [0xE0, e, 0xE0, e OR 0x80, c] k)
    = [0, keyboard_german ! unat e ! 3, 0, 0, keyboard_german ! unat c ! 3]"
proof -
  have esc: "decode_key 0xE0 k' = (0, k'\<lparr>escaped := True\<rparr>)" for k'
    by (simp add: decode_key_def key_char_def)
  have "bit (e OR 0x80) 7" by (simp add: bit_simps)
  then have "(e OR 0x80) AND 0x80 \<noteq> 0" using and_exp_eq_0_iff_not_bit [of "e OR 0x80" 7] by simp
  then have rel: "decode_key (e OR 0x80) k' = (0, k')" for k' using assms(2) by (rule release_keeps_escape)
  show ?thesis
    by (simp add: esc rel decode_plain [OF assms(1)] decode_plain [OF assms(3)])
qed

text \<open>The key Delete, then the letter A: the letter is lost.\<close>

theorem escaped_release_swallows_witness:
  "fst (decode_keys [0xE0, 0x53, 0xE0, 0xD3, 0x1E] new_keyboard) = [0, 0, 0, 0, 0]
    \<and> fst (decode_keys [0x1E] new_keyboard) = [0x61]"
proof -
  have p: "plain_key 0x53" "plain_key 0x1E" by (simp_all add: plain_key_def)
  from escaped_release_swallows [OF p(1) _ p(2), of new_keyboard]
  show ?thesis by (simp add: decode_plain [OF p(2)] new_keyboard_def keyboard_german_def)
qed

section \<open>Lights\<close>

lemma led_states:
  "get_scroll_lock_led_state (new_leds s n c) = s" "get_num_lock_led_state (new_leds s n c) = n"
  "get_caps_lock_led_state (new_leds s n c) = c"
  by (auto simp: get_scroll_lock_led_state_def get_num_lock_led_state_def get_caps_lock_led_state_def
      new_leds_def bit_simps)

text \<open>Setting the caps lock light comes to an end when the controller gets ready once and again,
  and then the light has the state that is asked for, the others are as they were, and the two
  bytes of the command are sent.\<close>

theorem led_set_when_ready:
  assumes "n \<le> m" and "busy m AND 2 = 0" and "m < m'" and "busy m' AND 2 = 0"
  shows "\<exists>l n'. set_caps_lock_led_state state busy leds n = Some ([0xED, l], l, n')
    \<and> get_caps_lock_led_state l = state \<and> get_num_lock_led_state l = get_num_lock_led_state leds
    \<and> get_scroll_lock_led_state l = get_scroll_lock_led_state leds"
proof -
  from poll_returns [of "\<lambda>status. status AND 2 = 0" busy, OF assms(2,1)] obtain k where
    k: "k \<le> m" "wait_ready busy n = Some (Suc k)" by (auto simp: wait_ready_def)
  have "Suc k \<le> m'" using k(1) assms(3) by simp
  from poll_returns [of "\<lambda>status. status AND 2 = 0" busy, OF assms(4) this] obtain k' where
    "wait_ready busy (Suc k) = Some (Suc k')" by (auto simp: wait_ready_def)
  with k show ?thesis
    by (auto simp: set_caps_lock_led_state_def put_led_def refresh_leds_def Let_def bit_simps
        get_scroll_lock_led_state_def get_num_lock_led_state_def get_caps_lock_led_state_def)
qed

theorem led_set_when_ready_witness:
  "\<exists>l n'. set_caps_lock_led_state True (\<lambda>i. if i < 3 then 2 else 0) 1 0 = Some ([0xED, l], l, n')
    \<and> get_caps_lock_led_state l = True \<and> get_num_lock_led_state l = get_num_lock_led_state 1
    \<and> get_scroll_lock_led_state l = get_scroll_lock_led_state 1"
  using led_set_when_ready [of 0 3 "\<lambda>i. if i < 3 then 2 else 0" 4 True 1] by simp

end
