(* ===== verification/Video.thy ===== *)
theory Video
  imports Kern_Prelude
begin

text \<open>
  The text screen (kern/arch/x86/devices/video.h, video.cpp): 25 lines of 80 cells in the video
  memory, of which each is a character and its colours, and a cursor. The reference of the writing
  of a character, \<open>term_put\<close>, works on lines.
\<close>

section \<open>The state\<close>

record video =
  cursor_x :: u32
  cursor_y :: u32
  colors :: u32
  videomem :: "u16 list"

text \<open>The constructor leaves the video memory as it finds it.\<close>

definition new_video :: "u16 list \<Rightarrow> video" where
  "new_video mem = \<lparr>cursor_x = 0, cursor_y = 0, colors = 0x0F00, videomem = mem\<rparr>"

definition video_write :: "nat \<Rightarrow> u16 \<Rightarrow> u16 list \<Rightarrow> u16 list result" where
  "video_write i w mem = (if i < length mem then Inr (mem[i := w]) else Inl Out_of_bounds)"

text \<open>A character is kept by its byte; char is signed on the target.\<close>

definition cell :: "u8 \<Rightarrow> video \<Rightarrow> u16" where
  "cell c v = ucast (scast c OR colors v)"

definition blank :: "video \<Rightarrow> u16" where
  "blank v = cell 0x20 v"

fun write_loop :: "(nat \<Rightarrow> u16 list \<Rightarrow> u16 list result) \<Rightarrow> nat list \<Rightarrow> u16 list \<Rightarrow> u16 list result" where
  "write_loop f [] mem = Inr mem"
| "write_loop f (i # is) mem = bind_result (f i mem) (write_loop f is)"

section \<open>The operations\<close>

definition clear_screen :: "video \<Rightarrow> video result" where
  "clear_screen v =
     bind_result (write_loop (\<lambda>i. video_write i (blank v)) [0 ..< 80 * 25] (videomem v)) (\<lambda>mem.
       Inr (v\<lparr>videomem := mem, cursor_y := 0, cursor_x := 0\<rparr>))"

definition scroll :: "video \<Rightarrow> video result" where
  "scroll v =
     (if 25 \<le> cursor_y v
      then bind_result (write_loop (\<lambda>i mem. if i + 80 < length mem then video_write i (mem ! (i + 80)) mem
                                            else Inl Out_of_bounds) [0 ..< 80 * 24] (videomem v)) (\<lambda>mem1.
           bind_result (write_loop (\<lambda>x. video_write (80 * 24 + x) (blank v)) [0 ..< 80] mem1) (\<lambda>mem2.
             Inr (v\<lparr>videomem := mem2, cursor_y := 24\<rparr>)))
      else Inr v)"

text \<open>The bytes written to the ports of the controller, with the numbers of the ports.\<close>

definition move_hardware_cursor :: "video \<Rightarrow> (u16 \<times> u8) list" where
  "move_hardware_cursor v =
     (let index = ucast (cursor_y v * 80 + cursor_x v) :: u16
      in [(0x3D4, 14), (0x3D5, ucast (drop_bit 8 index AND 0xFF)),
          (0x3D4, 15), (0x3D5, ucast (index AND 0xFF))])"

definition place_char :: "u8 \<Rightarrow> video \<Rightarrow> video result" where
  "place_char c v =
     (if c = 0x08 then Inr (if cursor_x v \<noteq> 0 then v\<lparr>cursor_x := cursor_x v - 1\<rparr> else v)
      else if c = 0x09 then Inr (v\<lparr>cursor_x := (cursor_x v + 8) AND NOT 7\<rparr>)
      else if c = 0x0D then Inr (v\<lparr>cursor_x := 0\<rparr>)
      else if c = 0x0A then Inr (v\<lparr>cursor_x := 0, cursor_y := cursor_y v + 1\<rparr>)
      else if 0x20 <=s c
      then bind_result (video_write (unat (cursor_y v * 80 + cursor_x v)) (cell c v) (videomem v)) (\<lambda>mem.
             Inr (v\<lparr>videomem := mem, cursor_x := cursor_x v + 1\<rparr>))
      else Inr v)"

definition put_char :: "u8 \<Rightarrow> video \<Rightarrow> (video \<times> (u16 \<times> u8) list) result" where
  "put_char c v =
     bind_result (place_char c v) (\<lambda>v1.
       let v2 = if 80 \<le> cursor_x v1 then v1\<lparr>cursor_x := 0, cursor_y := cursor_y v1 + 1\<rparr> else v1
       in bind_result (scroll v2) (\<lambda>v3. Inr (v3, move_hardware_cursor v3)))"

definition set_textcolor :: "u32 \<Rightarrow> u32 \<Rightarrow> video \<Rightarrow> video" where
  "set_textcolor backcolor forecolor v =
     v\<lparr>colors := push_bit 8 (push_bit 4 (backcolor AND 0x0F) OR (forecolor AND 0x0F))\<rparr>"

text \<open>A text is written character by character; the writes to the ports are collected.\<close>

fun put_text :: "u8 list \<Rightarrow> video \<Rightarrow> (video \<times> (u16 \<times> u8) list) result" where
  "put_text [] v = Inr (v, [])"
| "put_text (c # cs) v =
     bind_result (put_char c v) (\<lambda>(v1, out1).
       bind_result (put_text cs v1) (\<lambda>(v2, out2). Inr (v2, out1 @ out2)))"

section \<open>Reference: lines of a terminal\<close>

definition video_ok :: "video \<Rightarrow> bool" where
  "video_ok v \<longleftrightarrow> length (videomem v) = 2000 \<and> cursor_x v < 80 \<and> cursor_y v < 25"

definition video_lines :: "video \<Rightarrow> u16 list list" where
  "video_lines v = map (\<lambda>y. take 80 (drop (80 * y) (videomem v))) [0 ..< 25]"

text \<open>A terminal is its lines, the column and the line of the cursor.\<close>

type_synonym terminal = "u16 list list \<times> nat \<times> nat"

definition line_feed :: "u16 \<Rightarrow> terminal \<Rightarrow> terminal" where
  "line_feed b = (\<lambda>(ls, x, y). if y < 24 then (ls, 0, Suc y) else (tl ls @ [replicate 80 b], 0, 24))"

definition term_move :: "u16 \<Rightarrow> nat \<Rightarrow> terminal \<Rightarrow> terminal" where
  "term_move b n = (\<lambda>(ls, x, y). if n < 80 then (ls, n, y) else line_feed b (ls, x, y))"

definition term_put :: "u16 \<Rightarrow> u16 \<Rightarrow> u8 \<Rightarrow> terminal \<Rightarrow> terminal" where
  "term_put b w c = (\<lambda>(ls, x, y).
     if c = 0x08 then (ls, x - 1, y)
     else if c = 0x09 then term_move b (8 * (x div 8 + 1)) (ls, x, y)
     else if c = 0x0D then (ls, 0, y)
     else if c = 0x0A then line_feed b (ls, x, y)
     else if 0x20 \<le> unat c \<and> unat c < 0x80 then term_move b (Suc x) (ls[y := (ls ! y)[x := w]], x, y)
     else (ls, x, y))"

definition video_terminal :: "video \<Rightarrow> terminal" where
  "video_terminal v = (video_lines v, unat (cursor_x v), unat (cursor_y v))"

section \<open>Writing a range of cells\<close>

lemma write_loop_steps:
  assumes "\<And>i. i < n \<Longrightarrow> f i (g i) = Inr (g (Suc i))"
  shows "write_loop f [0 ..< n] (g 0) = Inr (g n)"
proof -
  have snoc: "write_loop f (xs @ ys) mem = bind_result (write_loop f xs mem) (write_loop f ys)" for xs ys mem
  proof (induction xs arbitrary: mem)
    case (Cons x xs)
    then show ?case by (cases "f x mem") simp_all
  qed simp
  show ?thesis using assms by (induction n) (simp_all add: snoc)
qed

lemma fill_loop:
  assumes "k + n \<le> length mem"
  shows "write_loop (\<lambda>i. video_write (k + i) b) [0 ..< n] mem
    = Inr (take k mem @ replicate n b @ drop (k + n) mem)"
proof -
  let ?g = "\<lambda>i. take k mem @ replicate i b @ drop (k + i) mem"
  have step: "video_write (k + i) b (?g i) = Inr (?g (Suc i))" if "i < n" for i
  proof -
    have "drop (k + i) mem = mem ! (k + i) # drop (Suc (k + i)) mem" using that assms by (simp add: Cons_nth_drop_Suc)
    then have "(?g i)[k + i := b] = take k mem @ replicate i b @ b # drop (Suc (k + i)) mem"
      using that assms by (simp add: list_update_append)
    then show ?thesis using that assms by (simp add: video_write_def replicate_app_Cons_same)
  qed
  show ?thesis using write_loop_steps [of n "\<lambda>i. video_write (k + i) b" ?g, OF step] by simp
qed

lemma move_loop:
  assumes "length mem = n + k" and "0 < k"
  shows "write_loop (\<lambda>i mem. if i + k < length mem then video_write i (mem ! (i + k)) mem else Inl Out_of_bounds)
      [0 ..< n] mem = Inr (drop k mem @ drop n mem)"
proof -
  let ?g = "\<lambda>i. take i (drop k mem) @ drop i mem"
  have step: "(if i + k < length (?g i) then video_write i (?g i ! (i + k)) (?g i) else Inl Out_of_bounds)
      = Inr (?g (Suc i))" if "i < n" for i
  proof -
    have "drop i mem = mem ! i # drop (Suc i) mem" using that assms by (simp add: Cons_nth_drop_Suc)
    then have "(?g i)[i := mem ! (i + k)] = take i (drop k mem) @ mem ! (i + k) # drop (Suc i) mem"
      using that assms by (simp add: list_update_append)
    moreover have "take (Suc i) (drop k mem) = take i (drop k mem) @ [mem ! (i + k)]"
      using that assms by (simp add: take_Suc_conv_app_nth add.commute)
    moreover have "?g i ! (i + k) = mem ! (i + k)" using that assms by (simp add: nth_append)
    ultimately show ?thesis using that assms by (simp add: video_write_def)
  qed
  show ?thesis using write_loop_steps [where n = n and g = ?g and f = "\<lambda>i mem. if i + k < length mem
      then video_write i (mem ! (i + k)) mem else Inl Out_of_bounds", OF step] assms by simp
qed

section \<open>The terminal\<close>

lemma clear_screen_ok:
  assumes "length (videomem v) = 2000"
  shows "clear_screen v = Inr (v\<lparr>videomem := replicate 2000 (blank v), cursor_y := 0, cursor_x := 0\<rparr>)"
  using fill_loop [of 0 2000 "videomem v" "blank v"] assms by (simp add: clear_screen_def del: upt_rec_numeral)

lemma scroll_ok:
  assumes "length (videomem v) = 2000" and "25 \<le> cursor_y v"
  shows "scroll v = Inr (v\<lparr>videomem := drop 80 (videomem v) @ replicate 80 (blank v), cursor_y := 24\<rparr>)"
proof -
  let ?m = "drop 80 (videomem v) @ drop 1920 (videomem v)"
  have "write_loop (\<lambda>x. video_write (1920 + x) (blank v)) [0 ..< 80] ?m
      = Inr (drop 80 (videomem v) @ replicate 80 (blank v))"
    using fill_loop [of 1920 80 ?m "blank v"] assms(1) by (simp del: upt_rec_numeral)
  then show ?thesis
    using move_loop [of "videomem v" 1920 80] assms by (simp add: scroll_def del: upt_rec_numeral)
qed

lemma video_lines_nth:
  "length (videomem v) = 2000 \<Longrightarrow> y < 25 \<Longrightarrow> x < 80 \<Longrightarrow> video_lines v ! y ! x = videomem v ! (80 * y + x)"
  by (simp add: video_lines_def del: upt_rec_numeral)

lemma video_lines_lengths:
  "length (video_lines v) = 25"
  "length (videomem v) = 2000 \<Longrightarrow> y < 25 \<Longrightarrow> length (video_lines v ! y) = 80"
  by (simp_all add: video_lines_def del: upt_rec_numeral)

lemma lines_eqI:
  assumes "length ls = 25" and "\<And>y. y < 25 \<Longrightarrow> length (ls ! y) = 80" and "length (videomem v) = 2000"
    and "\<And>y x. y < 25 \<Longrightarrow> x < 80 \<Longrightarrow> videomem v ! (80 * y + x) = ls ! y ! x"
  shows "video_lines v = ls"
  using assms by (intro nth_equalityI) (simp_all add: video_lines_lengths video_lines_nth)

lemma cell_index_eq: "(x :: nat) < 80 \<Longrightarrow> x' < 80 \<Longrightarrow> 80 * y + x = 80 * y' + x' \<longleftrightarrow> y = y' \<and> x = x'"
proof
  assume lt: "x < 80" "x' < 80" and e: "80 * y + x = 80 * y' + x'"
  have "y = (80 * y + x) div 80" "y' = (80 * y' + x') div 80" using lt by simp_all
  then show "y = y' \<and> x = x'" using e by simp
qed simp

lemma lines_update:
  assumes "length (videomem v) = 2000" and "x < 80" and "y < 25"
  shows "video_lines (v\<lparr>videomem := (videomem v)[80 * y + x := w]\<rparr>)
    = (video_lines v)[y := (video_lines v ! y)[x := w]]"
  using assms by (intro lines_eqI)
    (auto simp: video_lines_lengths video_lines_nth nth_list_update cell_index_eq)

lemma lines_scrolled:
  assumes "length (videomem v) = 2000"
  shows "video_lines (v\<lparr>videomem := drop 80 (videomem v) @ replicate 80 b\<rparr>) = tl (video_lines v) @ [replicate 80 b]"
proof (rule lines_eqI)
  fix y x :: nat
  assume yx: "y < 25" "x < 80"
  show "videomem (v\<lparr>videomem := drop 80 (videomem v) @ replicate 80 b\<rparr>) ! (80 * y + x)
      = (tl (video_lines v) @ [replicate 80 b]) ! y ! x"
  proof (cases "y < 24")
    case True
    then show ?thesis using yx assms video_lines_nth [of v "Suc y" x]
      by (simp add: nth_append nth_tl video_lines_lengths add.assoc)
  next
    case False
    then have "y = 24" using yx by simp
    then show ?thesis using yx assms by (simp add: nth_append video_lines_lengths)
  qed
qed (use assms in \<open>auto simp: video_lines_lengths nth_append nth_tl less_Suc_eq\<close>)

lemma video_lines_cong: "videomem v = videomem v' \<Longrightarrow> video_lines v = video_lines v'"
  by (simp add: video_lines_def)

lemma printable_iff: "0x20 <=s c \<longleftrightarrow> 0x20 \<le> unat c \<and> unat c < 0x80" for c :: u8
proof (cases "bit c 7")
  case True
  then have "sint c < 0" using bit_last_iff [of c] by simp
  then show ?thesis using True by (simp add: word_sle_eq bit7_iff)
next
  case False
  then have "unat c < 128" by (simp add: bit7_iff)
  moreover from this have "sint c = uint c"
    unfolding sint_uint uint_nat by (simp add: signed_take_bit_int_eq_self_iff del: of_nat_unat)
  ultimately show ?thesis by (simp add: word_sle_eq) (simp add: uint_nat del: of_nat_unat)
qed

lemma tab_stop: "unat ((x + 8) AND NOT 7) = 8 * (unat x div 8 + 1)" if "unat (x :: u32) < 80"
proof -
  have "unat (x + 8) = unat x + 8" using that unat_plus_nowrap [of x 8] by simp
  moreover have "(7 :: u32) = mask 3" by (simp add: mask_numeral)
  ultimately have "unat ((x + 8) AND NOT 7) = unat x + 8 - (unat x + 8) mod 8"
    using unat_and_not_mask [of "x + 8" 3] by simp
  also have "\<dots> = (unat x - unat x mod 8) + 8" by simp
  finally show ?thesis by (simp add: minus_mod_eq_mult_div)
qed

text \<open>The cursor moved to the column \<open>n\<close>; the end of the line and of the screen.\<close>

definition settle :: "video \<Rightarrow> video result" where
  "settle v = scroll (if 80 \<le> cursor_x v then v\<lparr>cursor_x := 0, cursor_y := cursor_y v + 1\<rparr> else v)"

definition settled :: "video \<Rightarrow> video result \<Rightarrow> terminal \<Rightarrow> bool" where
  "settled v r term \<longleftrightarrow> (\<exists>t. r = Inr t \<and> video_ok t \<and> colors t = colors v \<and> video_terminal t = term)"

lemma scroll_feed:
  assumes "length (videomem v) = 2000" and "cursor_x v = 0" and "unat (cursor_y v) = Suc y" and "y < 25"
  shows "settled v (scroll v) (line_feed (blank v) (video_lines v, x, y))"
proof (cases "y < 24")
  case True
  then have "\<not> 25 \<le> cursor_y v" using assms(3) by (simp add: word_le_nat_alt)
  then show ?thesis using assms True
    by (simp add: settled_def scroll_def video_ok_def video_terminal_def line_feed_def word_less_nat_alt)
next
  case False
  then have c: "25 \<le> cursor_y v" using assms(3,4) by (simp add: word_le_nat_alt)
  have l: "video_lines (v\<lparr>videomem := drop 80 (videomem v) @ replicate 80 (blank v), cursor_y := 24\<rparr>)
      = tl (video_lines v) @ [replicate 80 (blank v)]"
    using lines_scrolled [OF assms(1), of "blank v"] by (simp add: video_lines_def del: upt_rec_numeral)
  show ?thesis using False assms scroll_ok [OF assms(1) c]
    by (simp add: settled_def video_ok_def video_terminal_def line_feed_def l)
qed

lemma settle_feed:
  assumes "length (videomem v) = 2000" and "cursor_x v = 0" and "unat (cursor_y v) = Suc y" and "y < 25"
  shows "settled v (settle v) (line_feed (blank v) (video_lines v, x, y))"
  using scroll_feed [OF assms] assms(2) by (simp add: settle_def)

lemma settle_move:
  assumes "length (videomem v) = 2000" and "unat (cursor_x v) = n" and "unat (cursor_y v) = y" and "y < 25"
  shows "settled v (settle v) (term_move (blank v) n (video_lines v, x, y))"
proof (cases "n < 80")
  case True
  then have "\<not> 80 \<le> cursor_x v" "\<not> 25 \<le> cursor_y v" using assms(2-4) by (simp_all add: word_le_nat_alt)
  then show ?thesis using assms True
    by (simp add: settled_def settle_def scroll_def video_ok_def video_terminal_def term_move_def word_less_nat_alt)
next
  case False
  let ?v = "v\<lparr>cursor_x := 0, cursor_y := cursor_y v + 1\<rparr>"
  have "unat (cursor_y ?v) = Suc y" using assms(3,4) unat_plus_nowrap [of "cursor_y v" 1] by simp
  then have "settled ?v (scroll ?v) (line_feed (blank ?v) (video_lines ?v, x, y))"
    using assms by (intro scroll_feed) simp_all
  moreover have "blank ?v = blank v" "video_lines ?v = video_lines v" by (simp_all add: blank_def cell_def video_lines_def)
  moreover have "80 \<le> cursor_x v" using False assms(2) by (simp add: word_le_nat_alt)
  ultimately show ?thesis using False by (simp add: settle_def settled_def term_move_def)
qed

lemma video_okD:
  assumes "video_ok v"
  shows "length (videomem v) = 2000" "unat (cursor_x v) < 80" "unat (cursor_y v) < 25"
    "unat (cursor_x v + 1) = Suc (unat (cursor_x v))" "unat (cursor_y v + 1) = Suc (unat (cursor_y v))"
    "unat (cursor_y v * 80 + cursor_x v) = 80 * unat (cursor_y v) + unat (cursor_x v)"
proof -
  show b: "length (videomem v) = 2000" "unat (cursor_x v) < 80" "unat (cursor_y v) < 25"
    using assms by (simp_all add: video_ok_def word_less_nat_alt)
  show "unat (cursor_x v + 1) = Suc (unat (cursor_x v))" "unat (cursor_y v + 1) = Suc (unat (cursor_y v))"
    using b unat_plus_nowrap [of "cursor_x v" 1] unat_plus_nowrap [of "cursor_y v" 1] by simp_all
  show "unat (cursor_y v * 80 + cursor_x v) = 80 * unat (cursor_y v) + unat (cursor_x v)"
    using b by (simp add: unat_word_ariths)
qed

lemma same_screen:
  "blank (v\<lparr>cursor_x := x\<rparr>) = blank v" "video_lines (v\<lparr>cursor_x := x\<rparr>) = video_lines v"
  "blank (v\<lparr>cursor_x := x, cursor_y := y\<rparr>) = blank v" "video_lines (v\<lparr>cursor_x := x, cursor_y := y\<rparr>) = video_lines v"
  "blank (v\<lparr>videomem := m, cursor_x := x\<rparr>) = blank v" "video_lines (v\<lparr>videomem := m, cursor_x := x\<rparr>) = video_lines (v\<lparr>videomem := m\<rparr>)"
  by (simp_all add: blank_def cell_def video_lines_def)

lemma settled_same: "colors v' = colors v \<Longrightarrow> settled v' r term \<Longrightarrow> settled v r term"
  by (simp add: settled_def)

lemma print_char:
  assumes "video_ok v" and "0x20 <=s c"
  shows "settled v (bind_result (place_char c v) settle) (term_put (blank v) (cell c v) c (video_terminal v))"
proof -
  note ok = video_okD [OF assms(1)]
  let ?x = "unat (cursor_x v)" and ?y = "unat (cursor_y v)"
  have p: "0x20 \<le> unat c" "unat c < 0x80" using assms(2) by (simp_all add: printable_iff)
  then have ctl: "c \<noteq> 0x08" "c \<noteq> 0x09" "c \<noteq> 0x0D" "c \<noteq> 0x0A" by auto
  let ?w = "v\<lparr>videomem := (videomem v)[80 * ?y + ?x := cell c v], cursor_x := cursor_x v + 1\<rparr>"
  have l: "video_lines ?w = (video_lines v)[?y := (video_lines v ! ?y)[?x := cell c v]]"
    unfolding same_screen using lines_update [OF ok(1-3)] by simp
  have "settled ?w (settle ?w) (term_move (blank ?w) (Suc ?x) (video_lines ?w, ?x, ?y))"
    using ok by (intro settle_move) simp_all
  then have "settled v (settle ?w) (term_move (blank v) (Suc ?x) ((video_lines v)[?y := (video_lines v ! ?y)[?x := cell c v]], ?x, ?y))"
    unfolding l by (simp add: settled_def blank_def cell_def)
  moreover have "place_char c v = Inr ?w" using ctl assms(2) ok by (simp add: place_char_def video_write_def)
  ultimately show ?thesis using p ctl by (simp add: term_put_def video_terminal_def)
qed

lemma control_char:
  assumes "video_ok v" and "\<not> 0x20 <=s c"
  shows "settled v (bind_result (place_char c v) settle) (term_put (blank v) (cell c v) c (video_terminal v))"
proof -
  note ok = video_okD [OF assms(1)]
  let ?x = "unat (cursor_x v)" and ?y = "unat (cursor_y v)"
  have p: "\<not> (0x20 \<le> unat c \<and> unat c < 0x80)" using assms(2) by (simp add: printable_iff)
  have move: "settled v (settle w) (term_move (blank v) n (video_lines v, ?x, ?y))"
    if "w = v\<lparr>cursor_x := i\<rparr>" "unat i = n" for w i n
    using that ok settle_move [of w n ?y ?x] by (simp add: same_screen settled_def)
  have still: "term_move (blank v) n (video_lines v, ?x, ?y) = (video_lines v, n, ?y)" if "n < 80" for n
    using that by (simp add: term_move_def)
  show ?thesis
  proof (cases "c = 0x0A")
    case True
    have "settled v (settle (v\<lparr>cursor_x := 0, cursor_y := cursor_y v + 1\<rparr>)) (line_feed (blank v) (video_lines v, ?x, ?y))"
      using settle_feed [of "v\<lparr>cursor_x := 0, cursor_y := cursor_y v + 1\<rparr>" ?y ?x] ok
      by (simp add: same_screen settled_def)
    then show ?thesis using True by (simp add: place_char_def term_put_def video_terminal_def)
  next
    case False
    have bsp: "settled v (settle (if cursor_x v \<noteq> 0 then v\<lparr>cursor_x := cursor_x v - 1\<rparr> else v)) (video_lines v, ?x - 1, ?y)"
    proof (cases "cursor_x v = 0")
      case True
      then show ?thesis using move [of v 0 0] still [of 0] by simp
    next
      case nz: False
      then have "unat (cursor_x v - 1) = ?x - 1" using unat_minus_le [of 1 "cursor_x v"]
        by (simp add: word_le_nat_alt unat_gt_0 Suc_le_eq)
      then show ?thesis using move [OF refl, of "cursor_x v - 1" "?x - 1"] still [of "?x - 1"] ok(2) nz by simp
    qed
    show ?thesis
      using False assms(2) p bsp move [OF refl tab_stop [OF ok(2)]] move [OF refl, of 0 0] still [of 0]
        move [of v "cursor_x v" ?x] still [of ?x] ok(2)
      by (auto simp: place_char_def term_put_def video_terminal_def)
  qed
qed

lemma put_char_settle:
  "put_char c v = bind_result (bind_result (place_char c v) settle) (\<lambda>t. Inr (t, move_hardware_cursor t))"
  by (cases "place_char c v") (simp_all add: put_char_def settle_def Let_def)

lemma put_char_ok:
  assumes "video_ok v"
  shows "\<exists>t. put_char c v = Inr (t, move_hardware_cursor t) \<and> video_ok t \<and> colors t = colors v
    \<and> video_terminal t = term_put (blank v) (cell c v) c (video_terminal v)"
proof -
  have "settled v (bind_result (place_char c v) settle) (term_put (blank v) (cell c v) c (video_terminal v))"
    using print_char [OF assms] control_char [OF assms] by blast
  then show ?thesis by (auto simp: settled_def put_char_settle)
qed

lemma put_text_ok:
  assumes "video_ok v"
  shows "\<exists>t out. put_text cs v = Inr (t, out) \<and> video_ok t \<and> colors t = colors v
    \<and> video_terminal t = fold (\<lambda>c. term_put (blank v) (cell c v) c) cs (video_terminal v)
    \<and> (cs \<noteq> [] \<longrightarrow> (\<exists>pre. out = pre @ move_hardware_cursor t))"
  using assms
proof (induction cs arbitrary: v)
  case (Cons c cs)
  obtain t where t: "put_char c v = Inr (t, move_hardware_cursor t)" "video_ok t" "colors t = colors v"
    "video_terminal t = term_put (blank v) (cell c v) c (video_terminal v)"
    using put_char_ok [OF Cons.prems, of c] by blast
  have same: "blank t = blank v" "cell c' t = cell c' v" for c' by (simp_all add: blank_def cell_def t(3))
  show ?case using Cons.IH [OF t(2)] t(1,3) by (cases cs) (auto simp: same t(4))
qed simp

section \<open>What the screen shows\<close>

text \<open>C19: Writing a text to the screen is writing it to a terminal. From a screen whose cursor is
  on it, no write leaves the 2000 cells of the video memory, whatever bytes are written; the lines
  and the cursor afterwards are those of a terminal of 25 lines of 80 cells that treats backspace,
  tabulator, carriage return and newline, feeds a line at the right border, moves its lines up at
  the lower border, shows the bytes from 0x20 to 0x7F in the colours of the screen and ignores the
  others; the cursor stays on the screen.\<close>

theorem text_on_terminal:
  assumes "length (videomem v) = 2000" and "cursor_x v < 80" and "cursor_y v < 25"
  shows "\<exists>t out. put_text cs v = Inr (t, out)
    \<and> length (videomem t) = 2000 \<and> cursor_x t < 80 \<and> cursor_y t < 25
    \<and> video_terminal t = fold (\<lambda>c. term_put (blank v) (cell c v) c) cs (video_terminal v)"
  using put_text_ok [of v cs] assms by (auto simp: video_ok_def)

definition sample_screen :: video where
  "sample_screen = (new_video (replicate 2000 0x0F20))\<lparr>cursor_x := 79, cursor_y := 24\<rparr>"

theorem text_on_terminal_witness:
  "\<exists>t out. put_text [0x41, 0x42] sample_screen = Inr (t, out)
    \<and> length (videomem t) = 2000 \<and> cursor_x t < 80 \<and> cursor_y t < 25
    \<and> video_terminal t = fold (\<lambda>c. term_put 0x0F20 (cell c sample_screen) c) [0x41, 0x42] (video_terminal sample_screen)"
  using text_on_terminal [of sample_screen "[0x41, 0x42]"]
  by (simp add: sample_screen_def new_video_def blank_def cell_def)

text \<open>The hardware cursor follows. After a text that is not empty, the last four bytes written
  to the controller select the two halves of its cursor register, and these halves make up the
  number of the cell where the next character goes; it is one of the 2000 cells.\<close>

theorem hardware_cursor_follows:
  assumes "length (videomem v) = 2000" and "cursor_x v < 80" and "cursor_y v < 25" and "cs \<noteq> []"
  shows "\<exists>t pre hi lo. put_text cs v = Inr (t, pre @ [(0x3D4, 14), (0x3D5, hi), (0x3D4, 15), (0x3D5, lo)])
    \<and> 256 * unat hi + unat lo = 80 * unat (cursor_y t) + unat (cursor_x t) \<and> 256 * unat hi + unat lo < 2000"
proof -
  have "video_ok v" using assms by (simp add: video_ok_def)
  from put_text_ok [OF this, of cs] assms(4) obtain t pre where
    t: "put_text cs v = Inr (t, pre @ move_hardware_cursor t)" "video_ok t" by auto
  note ok = video_okD [OF t(2)]
  let ?n = "80 * unat (cursor_y t) + unat (cursor_x t)"
  let ?i = "ucast (cursor_y t * 80 + cursor_x t) :: u16"
  have i: "unat ?i = ?n" using ok by (simp add: unsigned_ucast_eq take_bit_eq_mod)
  have m: "(0xFF :: u16) = mask 8" by (simp add: mask_numeral)
  have "unat (drop_bit 8 ?i AND 0xFF) = ?n div 256 mod 256" "unat (?i AND 0xFF) = ?n mod 256"
    unfolding m unat_and_mask unat_drop_bit_eq i unfolding drop_bit_eq_div by simp_all
  then have "unat (ucast (drop_bit 8 ?i AND 0xFF) :: u8) = ?n div 256" "unat (ucast (?i AND 0xFF) :: u8) = ?n mod 256"
    using ok(2,3) by (simp_all only: unsigned_ucast_eq take_bit_eq_mod) simp_all
  moreover have "256 * (?n div 256) + ?n mod 256 = ?n" by simp
  ultimately show ?thesis using t(1) ok(2,3) unfolding move_hardware_cursor_def Let_def
    by (intro exI [of _ t] exI [of _ pre] exI [of _ "ucast (drop_bit 8 ?i AND 0xFF)"] exI [of _ "ucast (?i AND 0xFF)"])
      (simp only: conj_assoc; intro conjI; simp)
qed

theorem hardware_cursor_follows_witness:
  "\<exists>t pre hi lo. put_text [0x41] sample_screen = Inr (t, pre @ [(0x3D4, 14), (0x3D5, hi), (0x3D4, 15), (0x3D5, lo)])
    \<and> 256 * unat hi + unat lo = 80 * unat (cursor_y t) + unat (cursor_x t) \<and> 256 * unat hi + unat lo < 2000"
  using hardware_cursor_follows [of sample_screen "[0x41]"]
  by (simp add: sample_screen_def new_video_def)

text \<open>Bytes from 0x80 on are no characters: char is signed, so that they are below the space and
  the screen does not change.\<close>

theorem high_bytes_ignored:
  assumes "length (videomem v) = 2000" and "cursor_x v < 80" and "cursor_y v < 25" and "0x80 \<le> unat c"
  shows "\<exists>t out. put_text [c] v = Inr (t, out) \<and> video_terminal t = video_terminal v"
proof -
  have "c \<noteq> 0x08" "c \<noteq> 0x09" "c \<noteq> 0x0D" "c \<noteq> 0x0A" using assms(4) by auto
  then have "term_put b w c s = s" for b w s using assms(4) by (cases s) (simp add: term_put_def)
  then show ?thesis using put_text_ok [of v "[c]"] assms(1-3) by (auto simp: video_ok_def)
qed

theorem high_bytes_ignored_witness:
  "\<exists>t out. put_text [0xE4] sample_screen = Inr (t, out) \<and> video_terminal t = video_terminal sample_screen"
  using high_bytes_ignored [of sample_screen "0xE4"] by (simp add: sample_screen_def new_video_def)

text \<open>Clearing makes every cell a space in the current colours and takes the cursor to the first
  cell.\<close>

theorem clear_blanks_screen:
  assumes "length (videomem v) = 2000"
  shows "\<exists>t. clear_screen v = Inr t \<and> video_terminal t = (replicate 25 (replicate 80 (blank v)), 0, 0)"
proof -
  let ?t = "v\<lparr>videomem := replicate 2000 (blank v), cursor_y := 0, cursor_x := 0\<rparr>"
  have "video_lines ?t = replicate 25 (replicate 80 (blank v))" by (rule lines_eqI) simp_all
  then show ?thesis using clear_screen_ok [OF assms] by (simp add: video_terminal_def)
qed

theorem clear_blanks_screen_witness:
  "\<exists>t. clear_screen sample_screen = Inr t \<and> video_terminal t = (replicate 25 (replicate 80 0x0F20), 0, 0)"
  using clear_blanks_screen [of sample_screen]
  by (simp add: sample_screen_def new_video_def blank_def cell_def)

end
