(* ===== verification/Console.thy ===== *)
theory Console
  imports Keyboard Video Dev_Fs
begin

text \<open>
  Character devices (kern/devices/i_char_device.cpp) and the console (kern/devices/i_console.cpp):
  the device that the nodes stdin, stdout and stderr of the device file system are made of, which
  reads from the keyboard and writes to the screen. \<open>console_io\<close> makes it the console of the device
  nodes.
\<close>

section \<open>Character devices\<close>

text \<open>
  A transfer gets the buffer, the number of bytes and the state; reading also answers the buffer.
  A character device has no addresses: a transfer to another address than 0 does nothing.
\<close>

definition char_device_read ::
  "(u8 list \<Rightarrow> u32 \<Rightarrow> 'w \<Rightarrow> (u32 \<times> u8 list \<times> 'w) result) \<Rightarrow> u64 \<Rightarrow> u8 list \<Rightarrow> u32 \<Rightarrow> 'w
   \<Rightarrow> (u32 \<times> u8 list \<times> 'w) result" where
  "char_device_read rd base buf n w = (if base \<noteq> 0 then Inr (0, buf, w) else rd buf n w)"

definition char_device_write ::
  "(u8 list \<Rightarrow> u32 \<Rightarrow> 'w \<Rightarrow> (u32 \<times> 'w) result) \<Rightarrow> u64 \<Rightarrow> u8 list \<Rightarrow> u32 \<Rightarrow> 'w \<Rightarrow> (u32 \<times> 'w) result" where
  "char_device_write wr base buf n w = (if base \<noteq> 0 then Inr (0, w) else wr buf n w)"

section \<open>The console\<close>

text \<open>All consoles share the keyboard and the screen; \<open>cw_ports\<close> collects the writes to ports.\<close>

record console_world =
  cw_keyboard :: keyboard
  cw_ring :: key_ring
  cw_video :: video
  cw_ports :: "(u16 \<times> u8) list"

definition i_console_write :: "u8 list \<Rightarrow> u32 \<Rightarrow> console_world \<Rightarrow> (u32 \<times> console_world) result" where
  "i_console_write buf n w =
     (if unat n \<le> length buf
      then bind_result (put_text (take (unat n) buf) (cw_video w)) (\<lambda>(v, out).
             Inr (n, w\<lparr>cw_video := v, cw_ports := cw_ports w @ out\<rparr>))
      else Inl Out_of_bounds)"

text \<open>The number of bytes that is asked for is not used.\<close>

definition i_console_read :: "u8 list \<Rightarrow> u32 \<Rightarrow> console_world \<Rightarrow> (u32 \<times> u8 list \<times> console_world) result" where
  "i_console_read buf n w =
     bind_result (get_next_key (cw_keyboard w) (cw_ring w)) (\<lambda>(c, k, r).
       if buf = [] then Inl Out_of_bounds
       else Inr (1, buf[0 := c], w\<lparr>cw_keyboard := k, cw_ring := r\<rparr>))"

definition i_console_clear :: "console_world \<Rightarrow> console_world result" where
  "i_console_clear w = bind_result (clear_screen (cw_video w)) (\<lambda>v. Inr (w\<lparr>cw_video := v\<rparr>))"

text \<open>A console is known by its name.\<close>

definition i_console_init :: "('drv, string) dev_fs_node \<Rightarrow> ('drv, string) dev_fs_node" where
  "i_console_init root =
     add_subnode (Some (dev_node_console ''stdout'' ''stdout''))
      (add_subnode (Some (dev_node_console ''stderr'' ''stderr''))
        (add_subnode (Some (dev_node_console ''stdin'' ''stdin'')) root))"

definition console_io :: "('drv, string, console_world) dev_io \<Rightarrow> ('drv, string, console_world) dev_io" where
  "console_io io = io\<lparr>
     console_read := \<lambda>_ n buf w. bind_result (i_console_read buf n w) (\<lambda>(_, buf1, w1). Inr (buf1, w1)),
     console_write := \<lambda>_ n buf w. bind_result (i_console_write buf n w) (\<lambda>(_, w1). Inr w1)\<rparr>"

section \<open>Reading the keyboard\<close>

lemma get_next_key_ring:
  assumes "ring_ok r"
  shows "\<exists>t. get_next_key k r = Inr (fst (decode_key (hd (ring_items r @ [0])) k), snd (decode_key (hd (ring_items r @ [0])) k), t)
    \<and> ring_ok t \<and> ring_items t = tl (ring_items r)"
proof -
  from get_next_event_ring [OF assms] obtain t where
    "get_next_event r = Inr (hd (ring_items r @ [0]), t)" "ring_ok t" "ring_items t = tl (ring_items r)"
    by (cases "ring_items r") auto
  then show ?thesis by (auto simp: get_next_key_def split_beta Let_def)
qed

lemma console_node:
  "dn_type (dev_node_console name con) = Char_node" "\<not> dn_directory (dev_node_console name con)"
  "dn_console (dev_node_console name con) = Some con"
  by (simp_all add: dev_node_console_def)

lemma console_node_read:
  "dev_node_read (console_io io) (dev_node_console name con) offset n buf w
    = Some (bind_result (i_console_read buf n w) (\<lambda>(_, buf1, w1). Inr (buf1, w1)))"
  by (simp add: dev_node_read_def console_node console_io_def)

lemma console_node_write:
  "dev_node_write (console_io io) (dev_node_console name con) offset n buf w
    = Some (bind_result (i_console_write buf n w) (\<lambda>(_, w1). Inr w1))"
  by (simp add: dev_node_write_def console_node console_io_def)

text \<open>Reading one byte again and again through a node.\<close>

fun read_keys :: "(u8 list \<Rightarrow> 'w \<Rightarrow> (u8 list \<times> 'w) result option) \<Rightarrow> nat \<Rightarrow> 'w \<Rightarrow> (u8 list \<times> 'w) result option" where
  "read_keys rd 0 w = Some (Inr ([], w))"
| "read_keys rd (Suc n) w =
     (case rd [0] w of
        None \<Rightarrow> None
      | Some r \<Rightarrow> (case r of
          Inl e \<Rightarrow> Some (Inl e)
        | Inr (buf, w1) \<Rightarrow> map_option (\<lambda>r. bind_result r (\<lambda>(cs, w2). Inr (buf @ cs, w2))) (read_keys rd n w1)))"

lemma read_keys_decode:
  assumes "ring_ok (cw_ring w)" and "ring_items (cw_ring w) = cs @ rest"
  shows "\<exists>w1. read_keys (\<lambda>buf. dev_node_read (console_io io) (dev_node_console name con) offset 1 buf) (length cs) w
      = Some (Inr (fst (decode_keys cs (cw_keyboard w)), w1))
    \<and> ring_items (cw_ring w1) = rest \<and> cw_keyboard w1 = snd (decode_keys cs (cw_keyboard w)) \<and> cw_video w1 = cw_video w"
  using assms
proof (induction cs arbitrary: w)
  case (Cons c cs)
  from get_next_key_ring [OF Cons.prems(1), of "cw_keyboard w"] Cons.prems(2) obtain t where
    t: "get_next_key (cw_keyboard w) (cw_ring w) = Inr (fst (decode_key c (cw_keyboard w)), snd (decode_key c (cw_keyboard w)), t)"
      "ring_ok t" "ring_items t = cs @ rest"
    by auto
  let ?w = "w\<lparr>cw_keyboard := snd (decode_key c (cw_keyboard w)), cw_ring := t\<rparr>"
  have "\<exists>w1. read_keys (\<lambda>buf. dev_node_read (console_io io) (dev_node_console name con) offset 1 buf) (length cs) ?w
      = Some (Inr (fst (decode_keys cs (cw_keyboard ?w)), w1))
    \<and> ring_items (cw_ring w1) = rest \<and> cw_keyboard w1 = snd (decode_keys cs (cw_keyboard ?w)) \<and> cw_video w1 = cw_video ?w"
    by (rule Cons.IH) (simp_all add: t)
  moreover have "dev_node_read (console_io io) (dev_node_console name con) offset 1 [0] w
      = Some (Inr ([fst (decode_key c (cw_keyboard w))], ?w))"
    by (simp add: console_node_read i_console_read_def t(1))
  ultimately show ?case by (auto simp: split_beta Let_def)
qed simp

section \<open>What programs see of the console\<close>

text \<open>C36: What is written to a node of the console is on the screen. Whichever of the nodes it is,
  stdin as well as stdout, and whatever the offset, the first bytes of the buffer are written to
  the terminal that the screen shows; a buffer that is shorter than the number of bytes is
  overrun.\<close>

theorem console_shows_text:
  assumes "length (videomem (cw_video w)) = 2000" and "cursor_x (cw_video w) < 80" and "cursor_y (cw_video w) < 25"
  shows "(unat n \<le> length buf \<longrightarrow>
      (\<exists>w1. dev_node_write (console_io io) (dev_node_console name con) offset n buf w = Some (Inr w1)
        \<and> video_terminal (cw_video w1)
          = fold (\<lambda>c. term_put (blank (cw_video w)) (cell c (cw_video w)) c) (take (unat n) buf) (video_terminal (cw_video w))
        \<and> cw_keyboard w1 = cw_keyboard w \<and> cw_ring w1 = cw_ring w))
    \<and> (length buf < unat n \<longrightarrow>
        dev_node_write (console_io io) (dev_node_console name con) offset n buf w = Some (Inl Out_of_bounds))"
proof -
  have "video_ok (cw_video w)" using assms by (simp add: video_ok_def)
  from put_text_ok [OF this, of "take (unat n) buf"] show ?thesis
    by (auto simp: console_node_write i_console_write_def)
qed

definition sample_world :: console_world where
  "sample_world = \<lparr>cw_keyboard = new_keyboard, cw_ring = new_key_ring, cw_video = sample_screen, cw_ports = []\<rparr>"

definition idle_io :: "(unit, string, console_world) dev_io" where
  "idle_io = \<lparr>drive_read = (\<lambda>_ a n buf w. Some (Inr (buf, w))), drive_write = (\<lambda>_ a n buf w. Some (Inr w)),
     console_read = (\<lambda>_ n buf w. Inr (buf, w)), console_write = (\<lambda>_ n buf w. Inr w)\<rparr>"

theorem console_shows_text_witness:
  "\<exists>w1. dev_node_write (console_io idle_io) (dev_node_console ''stdin'' ''stdin'') 7 1 [0x41, 0x42] sample_world = Some (Inr w1)
    \<and> video_terminal (cw_video w1) = term_put 0x0F20 0x0F41 0x41 (video_terminal sample_screen)"
  using console_shows_text [of sample_world 1 "[0x41, 0x42]" idle_io "''stdin''" "''stdin''" 7]
  by (auto simp: sample_world_def sample_screen_def new_video_def blank_def cell_def)

text \<open>What is typed is read. When the ring of the keyboard holds the scan codes of some keys,
  reading that many times from a console one byte each answers the characters that they stand for,
  one for each code, and leaves the codes behind them; the screen does not change.\<close>

theorem typed_keys_read:
  assumes "unat (kb_in (cw_ring w)) < 128" and "unat (kb_out (cw_ring w)) < 128"
    and "length (kb_buffer (cw_ring w)) = 128" and "ring_items (cw_ring w) = cs @ rest"
  shows "\<exists>w1. read_keys (\<lambda>buf. dev_node_read (console_io io) (dev_node_console name con) offset 1 buf) (length cs) w
      = Some (Inr (fst (decode_keys cs (cw_keyboard w)), w1))
    \<and> ring_items (cw_ring w1) = rest \<and> cw_keyboard w1 = snd (decode_keys cs (cw_keyboard w)) \<and> cw_video w1 = cw_video w"
proof -
  have "ring_ok (cw_ring w)" using assms by (simp add: ring_ok_def kb_size_def)
  then show ?thesis using assms(4) by (rule read_keys_decode)
qed

definition typed_ring :: key_ring where
  "typed_ring = new_key_ring\<lparr>kb_buffer := (replicate 128 0)[0 := 0x2A, 1 := 0x1E], kb_in := 2\<rparr>"

theorem typed_keys_read_witness:
  "\<exists>w1. read_keys (\<lambda>buf. dev_node_read (console_io idle_io) (dev_node_console ''stdin'' ''stdin'') 0 1 buf) 2
      (sample_world\<lparr>cw_ring := typed_ring\<rparr>) = Some (Inr ([0, 0x41], w1))"
proof -
  let ?w = "sample_world\<lparr>cw_ring := typed_ring\<rparr>"
  have i: "ring_items (cw_ring ?w) = [0x2A, 0x1E] @ []"
    by (simp add: ring_items_def ring_count_def typed_ring_def new_key_ring_def kb_size_def upt_rec)
  have p: "plain_key 0x1E" by (simp add: plain_key_def)
  have d: "fst (decode_keys [0x2A, 0x1E] new_keyboard) = [0, 0x41]"
    by (simp add: decode_plain [OF p] decode_key_def [of "0x2A"] new_keyboard_def keyboard_german_def)
  have r: "unat (kb_in (cw_ring ?w)) < 128" "unat (kb_out (cw_ring ?w)) < 128" "length (kb_buffer (cw_ring ?w)) = 128"
    by (simp_all add: typed_ring_def new_key_ring_def)
  have two: "length [0x2A, 0x1E :: u8] = 2" and k: "cw_keyboard ?w = new_keyboard" by (simp_all add: sample_world_def)
  show ?thesis
    using typed_keys_read [OF r i, of idle_io "''stdin''" "''stdin''" 0] unfolding two k d by blast
qed

text \<open>A read from the console takes one byte, whatever number is asked for: a larger buffer keeps
  its other bytes, and asking for no byte changes the first byte behind the buffer's start all the
  same. Without a key the byte is 0, so that a program cannot tell that nothing was typed from a
  key without a character.\<close>

theorem console_reads_one_byte:
  assumes "unat (kb_in (cw_ring w)) < 128" and "unat (kb_out (cw_ring w)) < 128"
    and "length (kb_buffer (cw_ring w)) = 128"
  shows "\<exists>c w1. dev_node_read (console_io io) (dev_node_console name con) offset n (b # buf) w = Some (Inr (c # buf, w1))
      \<and> (ring_items (cw_ring w) = [] \<longrightarrow> c = 0 \<and> ring_items (cw_ring w1) = [])
      \<and> ring_items (cw_ring w1) = tl (ring_items (cw_ring w))"
proof -
  have ok: "ring_ok (cw_ring w)" using assms by (simp add: ring_ok_def kb_size_def)
  have z: "plain_key 0" by (simp add: plain_key_def)
  have row: "keyboard_german ! 0 = [0, 0, 0, 0]" by (simp add: keyboard_german_def)
  have zero: "fst (decode_key 0 k) = 0" for k by (simp add: decode_plain [OF z] row)
  show "\<exists>c w1. dev_node_read (console_io io) (dev_node_console name con) offset n (b # buf) w = Some (Inr (c # buf, w1))
      \<and> (ring_items (cw_ring w) = [] \<longrightarrow> c = 0 \<and> ring_items (cw_ring w1) = [])
      \<and> ring_items (cw_ring w1) = tl (ring_items (cw_ring w))"
    using get_next_key_ring [OF ok, of "cw_keyboard w"]
    by (auto simp: console_node_read i_console_read_def zero)
qed

theorem console_reads_one_byte_witness:
  "\<exists>c w1. dev_node_read (console_io idle_io) (dev_node_console ''stdin'' ''stdin'') 0 0 (5 # [6, 7]) sample_world
      = Some (Inr (c # [6, 7], w1)) \<and> c = 0"
  using console_reads_one_byte [of sample_world idle_io "''stdin''" "''stdin''" 0 0 5 "[6, 7]"]
  by (auto simp: sample_world_def new_key_ring_def kb_size_def ring_items_def ring_count_def)

text \<open>After the start the root of the device file system has the three nodes.\<close>

lemma console_init_nodes:
  assumes "dn_directory root"
  shows "map_of (dn_subnodes (i_console_init root))
    = (map_of (dn_subnodes root))(''stdin'' \<mapsto> dev_node_console ''stdin'' ''stdin'',
        ''stderr'' \<mapsto> dev_node_console ''stderr'' ''stderr'', ''stdout'' \<mapsto> dev_node_console ''stdout'' ''stdout'')"
  using assms
  by (cases root) (simp add: i_console_init_def dev_node_console_def update_conv')

end
