(* ===== verification/Port_Devices.thy ===== *)
theory Port_Devices
  imports Kern_Prelude
begin

text \<open>
  The serial port, the programmable timer and the loudspeaker (kern/arch/x86/devices/serial_port.h
  and .cpp, timer.h and .cpp, sound.h and .cpp), devices that are driven through ports alone. An
  operation returns the writes to ports in their order; what it reads is a parameter.
\<close>

type_synonym port_writes = "(u16 \<times> u8) list"

section \<open>The serial port\<close>

text \<open>The modes: a queue of 14 bytes that is emptied, words of 8 bits, ready to send and receive.\<close>

definition serial_init :: port_writes where
  "serial_init =
     [(0x3F9, 0), (0x3FB, 0x80), (0x3F8, ucast (0x02 AND 0xFF :: u16)), (0x3F9, ucast (drop_bit 8 (0x02 :: u16))),
      (0x3FB, 0x03 OR 0x00 OR 0x00), (0x3FA, 0x01 OR 0x02 OR 0x04 OR 0xC0), (0x3FC, 0x02 OR 0x01)]"

text \<open>The readings are those of the line status; the result has the number of the next reading.\<close>

definition real_write :: "(nat \<Rightarrow> u8) \<Rightarrow> u8 \<Rightarrow> nat \<Rightarrow> (port_writes \<times> nat) option" where
  "real_write status c n =
     (case poll (\<lambda>b. b AND 0x20 \<noteq> 0) status n of None \<Rightarrow> None | Some n1 \<Rightarrow> Some ([(0x3F8, c)], n1))"

definition serial_write :: "(nat \<Rightarrow> u8) \<Rightarrow> u8 \<Rightarrow> nat \<Rightarrow> (port_writes \<times> nat) option" where
  "serial_write status c n =
     (case real_write status c n of
        None \<Rightarrow> None
      | Some (out, n1) \<Rightarrow>
          if c = 0x0A
          then (case real_write status 0x0D n1 of None \<Rightarrow> None | Some (out1, n2) \<Rightarrow> Some (out @ out1, n2))
          else Some (out, n1))"

definition serial_read :: "(nat \<Rightarrow> u8) \<Rightarrow> u8 \<Rightarrow> nat \<Rightarrow> (u8 \<times> nat) option" where
  "serial_read status received n =
     (case poll (\<lambda>b. b AND 0x01 \<noteq> 0) status n of None \<Rightarrow> None | Some n1 \<Rightarrow> Some (received, n1))"

fun serial_text :: "(nat \<Rightarrow> u8) \<Rightarrow> u8 list \<Rightarrow> nat \<Rightarrow> (port_writes \<times> nat) option" where
  "serial_text status [] n = Some ([], n)"
| "serial_text status (c # cs) n =
     (case serial_write status c n of
        None \<Rightarrow> None
      | Some (out, n1) \<Rightarrow> (case serial_text status cs n1 of None \<Rightarrow> None | Some (out1, n2) \<Rightarrow> Some (out @ out1, n2)))"

section \<open>The timer\<close>

text \<open>Each field of the mode is cut to its width.\<close>

definition timer_mode :: "u8 \<Rightarrow> u8 \<Rightarrow> u8 \<Rightarrow> u8 \<Rightarrow> u8" where
  "timer_mode counter_nr rw_mode mode counter_type =
     take_bit 1 counter_type OR push_bit 1 (take_bit 3 mode) OR push_bit 4 (take_bit 2 rw_mode)
       OR push_bit 6 (take_bit 2 counter_nr)"

definition input_clock :: u32 where "input_clock = 1193180"

definition set_frequency :: "u32 \<Rightarrow> port_writes result" where
  "set_frequency frequency =
     (if frequency = 0 then Inl Div_zero
      else (let timer_divisor = ucast (input_clock div frequency) :: u16
            in Inr [(0x43, timer_mode 0 3 3 0), (0x40, ucast (timer_divisor AND 0xFF)),
                    (0x40, ucast (drop_bit 8 timer_divisor AND 0xFF))]))"

text \<open>The readings are those of the count of ticks; the sum may wrap around.\<close>

definition wait_ticks :: "(nat \<Rightarrow> u64) \<Rightarrow> u64 \<Rightarrow> nat \<Rightarrow> nat option" where
  "wait_ticks ticks n k = (let reached = ticks k + n in poll (\<lambda>t. \<not> t < reached) ticks (Suc k))"

section \<open>The loudspeaker\<close>

text \<open>\<open>spk\<close> is what is read from the port of the loudspeaker.\<close>

definition play_sound :: "u32 \<Rightarrow> u8 \<Rightarrow> port_writes result" where
  "play_sound frequency spk =
     (if frequency = 0 then Inl Div_zero
      else (let sound_divisor = input_clock div frequency
            in Inr ([(0x43, timer_mode 2 3 3 0), (0x42, ucast (sound_divisor AND 0xFF)),
                     (0x42, ucast (drop_bit 8 sound_divisor AND 0xFF))]
                    @ (if spk \<noteq> spk OR 0x3 then [(0x61, spk OR 0x3)] else []))))"

definition stop_sound :: "u8 \<Rightarrow> port_writes" where
  "stop_sound spk = (if spk \<noteq> spk AND 0xFC then [(0x61, spk AND 0xFC)] else [])"

text \<open>The port of the loudspeaker keeps what is written to it.\<close>

definition port_after :: "u16 \<Rightarrow> port_writes \<Rightarrow> u8 \<Rightarrow> u8" where
  "port_after p out b = fold (\<lambda>(q, c) a. if q = p then c else a) out b"

definition beep :: "(nat \<Rightarrow> u64) \<Rightarrow> nat \<Rightarrow> u8 \<Rightarrow> (port_writes \<times> nat) result option" where
  "beep ticks k spk =
     (case play_sound 500 spk of
        Inl e \<Rightarrow> Some (Inl e)
      | Inr out \<Rightarrow>
          (case wait_ticks ticks 10 k of
             None \<Rightarrow> None
           | Some k1 \<Rightarrow> Some (Inr (out @ stop_sound (port_after 0x61 out spk), k1))))"

section \<open>Sending a text\<close>

text \<open>A newline is followed by a carriage return.\<close>

definition serial_bytes :: "u8 list \<Rightarrow> u8 list" where
  "serial_bytes cs = concat (map (\<lambda>c. if c = 0x0A then [0x0A, 0x0D] else [c]) cs)"

lemma real_write_ready:
  assumes "\<And>n. \<exists>m\<ge>n. status m AND 0x20 \<noteq> 0"
  shows "\<exists>k. real_write status c n = Some ([(0x3F8, c)], k)"
proof -
  obtain m where "n \<le> m" "status m AND 0x20 \<noteq> 0" using assms by blast
  from poll_returns [of "\<lambda>b. b AND 0x20 \<noteq> 0" status, OF this(2,1)] show ?thesis by (auto simp: real_write_def)
qed

lemma serial_write_ready:
  assumes "\<And>n. \<exists>m\<ge>n. status m AND 0x20 \<noteq> 0"
  shows "\<exists>k. serial_write status c n = Some (map (Pair 0x3F8) (serial_bytes [c]), k)"
proof -
  obtain k where k: "real_write status c n = Some ([(0x3F8, c)], k)" using real_write_ready [OF assms] by blast
  obtain k' where "real_write status 0x0D k = Some ([(0x3F8, 0x0D)], k')" using real_write_ready [OF assms] by blast
  with k show ?thesis by (auto simp: serial_write_def serial_bytes_def)
qed

lemma serial_text_ready:
  assumes "\<And>n. \<exists>m\<ge>n. status m AND 0x20 \<noteq> 0"
  shows "\<exists>k. serial_text status cs n = Some (map (Pair 0x3F8) (serial_bytes cs), k)"
proof (induction cs arbitrary: n)
  case Nil
  then show ?case by (simp add: serial_bytes_def)
next
  case (Cons c cs)
  obtain k where k: "serial_write status c n = Some (map (Pair 0x3F8) (serial_bytes [c]), k)"
    using serial_write_ready [OF assms] by blast
  obtain k' where "serial_text status cs k = Some (map (Pair 0x3F8) (serial_bytes cs), k')" using Cons by blast
  moreover have "serial_bytes (c # cs) = serial_bytes [c] @ serial_bytes cs" by (simp add: serial_bytes_def)
  ultimately show ?case using k by simp
qed

text \<open>A text comes out of the serial port. When the port gets ready to send again and again,
  sending a text comes to an end, and the writes to its data port are the bytes of the text in
  their order, with a carriage return after each newline; nothing else is written.\<close>

theorem serial_text_sent:
  assumes "\<And>n. \<exists>m\<ge>n. status m AND 0x20 \<noteq> 0"
  shows "\<exists>k. serial_text status cs n = Some (map (Pair 0x3F8) (serial_bytes cs), k)"
  using serial_text_ready [of status, OF assms] .

theorem serial_text_sent_witness:
  "\<exists>k. serial_text (\<lambda>n. if even n then 0x20 else 0) [0x41, 0x0A, 0x42] 1
    = Some ([(0x3F8, 0x41), (0x3F8, 0x0A), (0x3F8, 0x0D), (0x3F8, 0x42)], k)"
proof -
  have "\<exists>m\<ge>n. (if even m then 0x20 else 0 :: u8) AND 0x20 \<noteq> 0" for n :: nat
    by (intro exI [of _ "2 * n"]) simp
  from serial_text_sent [of "\<lambda>n. if even n then 0x20 else 0", OF this, of "[0x41, 0x0A, 0x42]" 1]
  show ?thesis by (simp add: serial_bytes_def)
qed

text \<open>A port that never gets ready blocks the kernel.\<close>

lemma poll_never:
  assumes "\<And>m. n \<le> m \<Longrightarrow> \<not> ready (reads m)"
  shows "poll ready reads n = None"
proof (cases "poll ready reads n")
  case (Some k)
  from poll_result [OF this] have "n \<le> k - 1" "ready (reads (k - 1))" by auto
  then show ?thesis using assms by blast
qed simp

text \<open>A serial port that never gets ready stops the kernel: sending a text that is not empty does
  not come to an end.\<close>

theorem serial_never_ready:
  assumes "\<And>m. n \<le> m \<Longrightarrow> status m AND 0x20 = 0" and "cs \<noteq> []"
  shows "serial_text status cs n = None"
  using assms(2) poll_never [of n "\<lambda>b. b AND 0x20 \<noteq> 0" status] assms(1)
  by (cases cs) (simp_all add: serial_write_def real_write_def)

theorem serial_never_ready_witness: "serial_text (\<lambda>_. 0) [0x41] 0 = None"
  using serial_never_ready [of 0 "\<lambda>_. 0" "[0x41]"] by simp

section \<open>Frequencies\<close>

lemma mask_byte: "(0xFF :: u16) = mask 8" "(0xFF :: u32) = mask 8"
  by (simp_all add: mask_numeral)

lemma low_high16:
  fixes w :: u16
  shows "256 * unat (ucast (drop_bit 8 w AND 0xFF) :: u8) + unat (ucast (w AND 0xFF) :: u8) = unat w"
proof -
  have "unat (drop_bit 8 w AND 0xFF) = unat w div 256 mod 256" "unat (w AND 0xFF) = unat w mod 256"
    unfolding mask_byte unat_and_mask unat_drop_bit_eq unfolding drop_bit_eq_div by simp_all
  then have "unat (ucast (drop_bit 8 w AND 0xFF) :: u8) = unat w div 256" "unat (ucast (w AND 0xFF) :: u8) = unat w mod 256"
    using unat_lt16 [of w] by (simp_all only: unsigned_ucast_eq take_bit_eq_mod) simp_all
  then show ?thesis by simp
qed

text \<open>The timer is programmed with the quotient of its clock and the frequency, as long as that
  fits into 16 bits: from 19 to the clock's 1193180 ticks a second. Below 19 the divisor is cut to
  16 bits, so that the timer ticks faster than asked for, above the clock's frequency it is 0; for
  0 the kernel divides by zero.\<close>

theorem timer_divisor:
  "set_frequency 0 = Inl Div_zero
    \<and> (frequency \<noteq> 0 \<longrightarrow> (\<exists>lo hi. set_frequency frequency = Inr [(0x43, 0x36), (0x40, lo), (0x40, hi)]
        \<and> 256 * unat hi + unat lo = (1193180 div unat frequency) mod 65536
        \<and> (19 \<le> frequency \<longrightarrow> 256 * unat hi + unat lo = 1193180 div unat frequency)
        \<and> (1193180 < frequency \<longrightarrow> 256 * unat hi + unat lo = 0)))"
proof -
  let ?q = "1193180 div unat frequency"
  have m: "timer_mode 0 3 3 0 = 0x36" by (simp add: timer_mode_def take_bit_numeral_numeral)
  have u: "unat (ucast (input_clock div frequency) :: u16) = ?q mod 65536"
    by (simp add: unsigned_ucast_eq take_bit_eq_mod unat_div input_clock_def)
  have small: "?q < 65536" if "19 \<le> frequency"
  proof -
    have "19 \<le> unat frequency" using that by (simp add: word_le_nat_alt)
    then have "?q \<le> 1193180 div 19" by (intro div_le_mono2) simp_all
    then show ?thesis by simp
  qed
  have none: "?q = 0" if "1193180 < frequency" using that by (simp add: word_less_nat_alt)
  show ?thesis
    using low_high16 [of "ucast (input_clock div frequency)"] small none
    unfolding u set_frequency_def Let_def m by auto
qed

text \<open>A timer that is asked for 18 ticks a second ticks 1588 times a second.\<close>

lemma timer_at_18: "set_frequency 18 = Inr [(0x43, 0x36), (0x40, 0xEF), (0x40, 0x02)]"
  by (simp add: set_frequency_def input_clock_def timer_mode_def Let_def)

section \<open>Waiting\<close>

text \<open>Waiting for ticks comes to an end no sooner than when they have passed, if the count has
  not wrapped around, and it comes to an end as soon as a reading shows that they have.\<close>

theorem wait_long_enough:
  assumes "unat (ticks k) + unat n < 2 ^ 64" and "k < m" and "unat (ticks k) + unat n \<le> unat (ticks m)"
  shows "\<exists>j. wait_ticks ticks n k = Some (Suc j) \<and> k < j \<and> j \<le> m \<and> unat (ticks k) + unat n \<le> unat (ticks j)"
proof -
  have s: "unat (ticks k + n) = unat (ticks k) + unat n" using assms(1) by (simp add: unat_plus_nowrap)
  have "\<not> ticks m < ticks k + n" using assms(3) by (simp add: word_less_nat_alt s)
  from poll_returns [of "\<lambda>t. \<not> t < ticks k + n" ticks, OF this, of "Suc k"] assms(2) show ?thesis
    by (auto simp: wait_ticks_def Let_def word_less_nat_alt s Suc_le_eq)
qed

theorem wait_long_enough_witness:
  "\<exists>j. wait_ticks (\<lambda>i. of_nat (i div 2)) 3 0 = Some (Suc j) \<and> 0 < j \<and> j \<le> 6 \<and> 3 \<le> unat (of_nat (j div 2) :: u64)"
  using wait_long_enough [of "\<lambda>i. of_nat (i div 2)" 0 3 6] by simp

text \<open>The loudspeaker is off after a beep, and the other bits of its port are as before.\<close>

lemma beep_restores:
  assumes "beep ticks k spk = Some (Inr (out, k1))"
  shows "port_after 0x61 out spk = spk AND 0xFC"
proof -
  have a: "(spk OR 3) AND 0xFC = spk AND 0xFC" by (simp add: bit.conj_disj_distrib2)
  then show ?thesis using assms
    by (auto simp: beep_def play_sound_def stop_sound_def port_after_def Let_def split: option.splits if_splits)
qed

end
