(* ===== verification/Descriptors.thy ===== *)
theory Descriptors
  imports Kern_Prelude
begin

text \<open>
  The tables of the processor (kern/arch/x86/core): selectors and descriptors of segments
  (segment_selector.h, memory_descriptor.h and .cpp), the global descriptor table
  (global_descriptor_table.h and .cpp), the task state segment (task_state_segment.h and .cpp) and
  gates (gate_descriptor.h and .cpp). Fields have the width of their bit fields; a field of one bit
  is a truth value. \<open>selector_entry\<close>, \<open>gate_offset\<close> and \<open>segment_last\<close> are how the processor reads
  them.
\<close>

section \<open>Selectors\<close>

datatype level = System_level | Unused_level_1 | Unused_level_2 | User_level

fun level_code :: "level \<Rightarrow> 2 word" where
  "level_code System_level = 0"
| "level_code Unused_level_1 = 1"
| "level_code Unused_level_2 = 2"
| "level_code User_level = 3"

datatype descriptor_table = Global_table | Local_table

fun table_code :: "descriptor_table \<Rightarrow> bool" where
  "table_code Global_table = False"
| "table_code Local_table = True"

text \<open>The bits of a selector: the level, the table and 13 bits of the number of the entry.\<close>

definition segment_selector :: "u16 \<Rightarrow> level \<Rightarrow> descriptor_table \<Rightarrow> u16" where
  "segment_selector nr pl t = ucast (level_code pl) OR push_bit 2 (of_bool (table_code t)) OR push_bit 3 (take_bit 13 nr)"

definition selector_level :: "u16 \<Rightarrow> 2 word" where "selector_level s = ucast s"
definition selector_local :: "u16 \<Rightarrow> bool" where "selector_local s = bit s 2"
definition selector_entry :: "u16 \<Rightarrow> u16" where "selector_entry s = drop_bit 3 s"

section \<open>Descriptors of segments\<close>

datatype segment_type = Null_segment | Kernel_code | Kernel_data | User_code | User_data | Task_segment | Local_table_segment

record memory_descriptor =
  limit_0_to_15 :: u16
  base_0_to_15 :: u16
  base_16_to_23 :: u8
  md_type :: "4 word"
  md_system :: bool
  md_privilege :: "2 word"
  segment_present :: bool
  limit_16_to_19 :: "4 word"
  md_avl :: bool
  md_reserved :: bool
  data_or_code :: bool
  md_granularity :: bool
  base_24_to_31 :: u8

definition plain_descriptor :: "bool \<Rightarrow> u32 \<Rightarrow> u32 \<Rightarrow> bool \<Rightarrow> memory_descriptor" where
  "plain_descriptor present base limit high_granularity =
     \<lparr>limit_0_to_15 = ucast (limit AND 0xFFFF), base_0_to_15 = ucast (base AND 0xFFFF),
      base_16_to_23 = ucast (drop_bit 16 base AND 0xFF), md_type = 0, md_system = True, md_privilege = 0,
      segment_present = present, limit_16_to_19 = ucast (drop_bit 16 limit AND 0xF), md_avl = False,
      md_reserved = False, data_or_code = False, md_granularity = \<not> high_granularity,
      base_24_to_31 = ucast (drop_bit 24 base AND 0xFF)\<rparr>"

definition null_descriptor :: memory_descriptor where
  "null_descriptor =
     \<lparr>limit_0_to_15 = 0, base_0_to_15 = 0, base_16_to_23 = 0, md_type = 0, md_system = False, md_privilege = 0,
      segment_present = False, limit_16_to_19 = 0, md_avl = False, md_reserved = False, data_or_code = False,
      md_granularity = False, base_24_to_31 = 0\<rparr>"

definition memory_descriptor_new :: "segment_type \<Rightarrow> bool \<Rightarrow> u32 \<Rightarrow> u32 \<Rightarrow> bool \<Rightarrow> memory_descriptor" where
  "memory_descriptor_new t present base limit high_granularity =
     (let d = plain_descriptor present base limit high_granularity
      in case t of
           Null_segment \<Rightarrow> null_descriptor
         | Kernel_code \<Rightarrow> d\<lparr>md_type := 0xA, md_privilege := 0, data_or_code := True\<rparr>
         | Kernel_data \<Rightarrow> d\<lparr>md_type := 0x2, md_privilege := 0, data_or_code := True\<rparr>
         | User_code \<Rightarrow> d\<lparr>md_type := 0xA, md_privilege := 3, data_or_code := True\<rparr>
         | User_data \<Rightarrow> d\<lparr>md_type := 0x2, md_privilege := 3, data_or_code := True\<rparr>
         | Task_segment \<Rightarrow> d\<lparr>md_type := 0x9, md_system := False, md_privilege := 0, data_or_code := True\<rparr>
         | Local_table_segment \<Rightarrow> d\<lparr>md_type := 0x2, md_system := False, md_privilege := 0, data_or_code := True\<rparr>)"

definition md_base :: "memory_descriptor \<Rightarrow> u32" where
  "md_base d = push_bit 24 (ucast (base_24_to_31 d)) + push_bit 16 (ucast (base_16_to_23 d)) + ucast (base_0_to_15 d)"

definition md_limit :: "memory_descriptor \<Rightarrow> u32" where
  "md_limit d = push_bit 16 (ucast (limit_16_to_19 d)) + ucast (limit_0_to_15 d)"

text \<open>The offset of the last byte of a segment: the limit counts bytes or pages.\<close>

definition segment_last :: "memory_descriptor \<Rightarrow> nat" where
  "segment_last d = (if md_granularity d then 4096 * unat (md_limit d) + 4095 else unat (md_limit d))"

section \<open>The global descriptor table\<close>

definition gdt_size :: nat where "gdt_size = 16"

definition new_gdt :: "memory_descriptor list" where
  "new_gdt = replicate gdt_size null_descriptor"

text \<open>The default arguments of the constructor: the whole memory, in pages.\<close>

definition flat_segment :: "segment_type \<Rightarrow> memory_descriptor" where
  "flat_segment t = memory_descriptor_new t True 0 0xFFFFF False"

definition init_gdt :: "memory_descriptor list \<Rightarrow> memory_descriptor list" where
  "init_gdt table = table[0 := null_descriptor, 1 := flat_segment Kernel_code, 2 := flat_segment Kernel_data,
     3 := flat_segment User_code, 4 := flat_segment User_data]"

text \<open>104 bytes of registers and the emergency stack of 897 words, aligned to 128.\<close>

definition sizeof_task_state_segment :: u32 where "sizeof_task_state_segment = 3712"

definition set_task_state_segment :: "u16 \<Rightarrow> ptr \<Rightarrow> memory_descriptor list \<Rightarrow> memory_descriptor list" where
  "set_task_state_segment n tss table =
     (if 5 \<le> n \<and> unat n < gdt_size
      then table[unat n := memory_descriptor_new Task_segment True tss (tss + sizeof_task_state_segment) True]
      else table)"

definition set_local_descriptor_table_segment :: "u16 \<Rightarrow> ptr \<Rightarrow> memory_descriptor list \<Rightarrow> memory_descriptor list" where
  "set_local_descriptor_table_segment n default_ldt table =
     (if 5 \<le> n \<and> unat n < gdt_size
      then table[unat n := memory_descriptor_new Local_table_segment True default_ldt 1 False]
      else table)"

text \<open>The tables as the core sets them up (cpu_core.cpp).\<close>

definition init_task_state_segment :: "ptr \<Rightarrow> ptr \<Rightarrow> memory_descriptor list \<Rightarrow> memory_descriptor list" where
  "init_task_state_segment tss default_ldt table =
     set_local_descriptor_table_segment 6 default_ldt (set_task_state_segment 5 tss table)"

section \<open>The task state segment\<close>

record task_state_segment =
  ts_link :: u32
  ts_esp0 :: ptr
  ts_ss0 :: u32
  ts_esp1 :: ptr
  ts_ss1 :: u32
  ts_esp2 :: ptr
  ts_ss2 :: u32
  ts_cr3 :: u32
  ts_registers :: "u32 list"
  ts_es :: u32
  ts_cs :: u32
  ts_ss :: u32
  ts_ds :: u32
  ts_fs :: u32
  ts_gs :: u32
  ts_ldtr :: u32
  ts_iopb_offset :: u16

text \<open>\<open>this\<close> is the address of the segment; the registers from EIP to EDI are zero.\<close>

definition task_state_segment_new :: "ptr \<Rightarrow> task_state_segment" where
  "task_state_segment_new this =
     (let stack = this + 104 + 4 * 0x380;
          data = ucast (segment_selector 2 User_level Global_table);
          switch = ucast (segment_selector 2 System_level Global_table)
      in \<lparr>ts_link = 0, ts_esp0 = stack, ts_ss0 = switch, ts_esp1 = stack, ts_ss1 = switch, ts_esp2 = stack,
          ts_ss2 = switch, ts_cr3 = 0, ts_registers = replicate 10 0, ts_es = data,
          ts_cs = ucast (segment_selector 1 User_level Global_table), ts_ss = data, ts_ds = data, ts_fs = data,
          ts_gs = data, ts_ldtr = push_bit 3 6 + 3, ts_iopb_offset = ucast sizeof_task_state_segment\<rparr>)"

definition switch_interrupt_task :: "ptr \<Rightarrow> ptr \<Rightarrow> task_state_segment \<Rightarrow> task_state_segment" where
  "switch_interrupt_task stack_pointer page_table t = t\<lparr>ts_esp0 := stack_pointer, ts_cr3 := page_table\<rparr>"

section \<open>Gates\<close>

datatype gate_type = Interrupt_gate | Trap_gate

fun gate_code :: "gate_type \<Rightarrow> 5 word" where
  "gate_code Interrupt_gate = 0x0E"
| "gate_code Trap_gate = 0x0F"

record gate_descriptor =
  offset_0_to_15 :: u16
  segment_selector_bits :: u16
  gd_reserved :: u8
  gd_type :: "5 word"
  gd_dpl :: "2 word"
  gd_present :: bool
  offset_16_to_31 :: u16

definition gate_with_selector :: "ptr \<Rightarrow> gate_type \<Rightarrow> bool \<Rightarrow> level \<Rightarrow> u16 \<Rightarrow> gate_descriptor" where
  "gate_with_selector offset t present lvl seg_sel =
     \<lparr>offset_0_to_15 = ucast (offset AND 0xFFFF), segment_selector_bits = seg_sel, gd_reserved = 0,
      gd_type = gate_code t, gd_dpl = level_code lvl, gd_present = present,
      offset_16_to_31 = ucast (drop_bit 16 offset AND 0xFFFF)\<rparr>"

definition gate_descriptor_new :: "ptr \<Rightarrow> gate_type \<Rightarrow> bool \<Rightarrow> level \<Rightarrow> gate_descriptor" where
  "gate_descriptor_new offset t present lvl =
     gate_with_selector offset t present lvl (segment_selector 1 System_level Global_table)"

definition gate_offset :: "gate_descriptor \<Rightarrow> ptr" where
  "gate_offset g = push_bit 16 (ucast (offset_16_to_31 g)) OR ucast (offset_0_to_15 g)"

section \<open>Reading back\<close>

lemma mask_const:
  "(0xFFFF :: u32) = mask 16" "(0xFF :: u32) = mask 8" "(0xF :: u32) = mask 4"
  by (simp_all add: mask_numeral)

lemma join16:
  fixes w :: u32
  shows "push_bit 16 (ucast (ucast (drop_bit 16 w AND 0xFFFF) :: u16)) OR ucast (ucast (w AND 0xFFFF) :: u16) = w"
  unfolding mask_const by (rule bit_word_eqI) (auto simp: bit_simps)

lemma gate_offset_new [simp]: "gate_offset (gate_with_selector offset t present lvl s) = offset"
  unfolding gate_offset_def gate_with_selector_def by (simp add: join16)

lemma or_fields:
  fixes a b c :: u32
  assumes "a AND b = 0" and "(a OR b) AND c = 0"
  shows "a + b + c = a OR b OR c"
  using assms by (simp add: disjunctive_add_eq_or or.assoc)

lemma md_base_new: "md_base (plain_descriptor present base limit g) = base"
proof -
  let ?a = "push_bit 24 (ucast (ucast (drop_bit 24 base AND mask 8) :: u8)) :: u32"
  let ?b = "push_bit 16 (ucast (ucast (drop_bit 16 base AND mask 8) :: u8)) :: u32"
  let ?c = "ucast (ucast (base AND mask 16) :: u16) :: u32"
  have "?a AND ?b = 0" "(?a OR ?b) AND ?c = 0" by (rule bit_word_eqI; auto simp: bit_simps)+
  from or_fields [OF this] have "md_base (plain_descriptor present base limit g) = ?a OR ?b OR ?c"
    unfolding md_base_def plain_descriptor_def mask_const memory_descriptor.select_convs .
  also have "\<dots> = base"
  proof (rule bit_word_eqI)
    fix n assume "n < LENGTH(32)"
    then show "bit (?a OR ?b OR ?c) n = bit base n" by (cases "n < 24") (auto simp: bit_simps)
  qed
  finally show ?thesis .
qed

lemma md_limit_new: "md_limit (plain_descriptor present base limit g) = take_bit 20 limit"
proof -
  let ?b = "push_bit 16 (ucast (ucast (drop_bit 16 limit AND mask 4) :: 4 word)) :: u32"
  let ?c = "ucast (ucast (limit AND mask 16) :: u16) :: u32"
  have "?b AND ?c = 0" by (rule bit_word_eqI) (auto simp: bit_simps)
  then have "md_limit (plain_descriptor present base limit g) = ?b OR ?c"
    unfolding md_limit_def plain_descriptor_def mask_const memory_descriptor.select_convs
    by (rule disjunctive_add_eq_or)
  also have "\<dots> = take_bit 20 limit" by (rule bit_word_eqI) (auto simp: bit_simps)
  finally show ?thesis .
qed

text \<open>The type of a segment does not touch its range.\<close>

lemma descriptor_range:
  assumes "t \<noteq> Null_segment"
  shows "md_base (memory_descriptor_new t present base limit g) = base"
    and "md_limit (memory_descriptor_new t present base limit g) = take_bit 20 limit"
    and "md_granularity (memory_descriptor_new t present base limit g) = (\<not> g)"
    and "segment_present (memory_descriptor_new t present base limit g) = present"
proof -
  have "md_base (d\<lparr>md_type := ty, md_privilege := p, data_or_code := x\<rparr>) = md_base d"
    "md_limit (d\<lparr>md_type := ty, md_privilege := p, data_or_code := x\<rparr>) = md_limit d"
    "md_base (d\<lparr>md_type := ty, md_system := y, md_privilege := p, data_or_code := x\<rparr>) = md_base d"
    "md_limit (d\<lparr>md_type := ty, md_system := y, md_privilege := p, data_or_code := x\<rparr>) = md_limit d" for d ty p x y
    by (simp_all add: md_base_def md_limit_def)
  then show "md_base (memory_descriptor_new t present base limit g) = base"
    "md_limit (memory_descriptor_new t present base limit g) = take_bit 20 limit"
    using assms by (cases t; simp add: memory_descriptor_new_def md_base_new md_limit_new)+
  show "md_granularity (memory_descriptor_new t present base limit g) = (\<not> g)"
    "segment_present (memory_descriptor_new t present base limit g) = present"
    using assms by (cases t; simp add: memory_descriptor_new_def plain_descriptor_def)+
qed

section \<open>What the tables say\<close>

text \<open>A descriptor keeps the base and the lower 20 bits of the limit of its segment, whatever
  its type; a selector keeps its level, its table and 13 bits of the number of its entry; and a gate
  keeps the address of its handler. What is put together from parts is what the parts were cut
  from.\<close>

theorem descriptors_roundtrip:
  "(t \<noteq> Null_segment \<longrightarrow>
      md_base (memory_descriptor_new t present base limit g) = base
      \<and> md_limit (memory_descriptor_new t present base limit g) = take_bit 20 limit)
    \<and> selector_level (segment_selector nr pl tab) = level_code pl
    \<and> selector_local (segment_selector nr pl tab) = table_code tab
    \<and> selector_entry (segment_selector nr pl tab) = take_bit 13 nr
    \<and> gate_offset (gate_descriptor_new offset gt present pl) = offset"
proof (intro conjI impI)
  show "selector_level (segment_selector nr pl tab) = level_code pl"
    unfolding selector_level_def segment_selector_def by (rule bit_word_eqI) (auto simp: bit_simps)
  show "selector_local (segment_selector nr pl tab) = table_code tab"
    unfolding selector_local_def segment_selector_def by (auto simp: bit_simps dest: bit_imp_le_length)
  show "selector_entry (segment_selector nr pl tab) = take_bit 13 nr"
    unfolding selector_entry_def segment_selector_def
    by (rule bit_word_eqI) (auto simp: bit_simps dest: bit_imp_le_length)
qed (simp_all add: descriptor_range gate_descriptor_new_def)

theorem descriptors_roundtrip_witness:
  "md_base (memory_descriptor_new Task_segment True 0x12345678 0x67 True) = 0x12345678
    \<and> selector_entry (segment_selector 6 User_level Local_table) = 6"
  using descriptors_roundtrip [of Task_segment True "0x12345678" "0x67" True 6 User_level Local_table 0 Interrupt_gate]
  by (simp add: take_bit_numeral_numeral)

lemma gdt_lengths [simp]:
  "length (init_gdt table) = length table" "length (set_task_state_segment n tss table) = length table"
  "length (set_local_descriptor_table_segment n ldt table) = length table"
  by (simp_all add: init_gdt_def set_task_state_segment_def set_local_descriptor_table_segment_def)

lemma flat_segment_facts:
  assumes "t \<noteq> Null_segment"
  shows "md_base (flat_segment t) = 0" "segment_last (flat_segment t) = 2 ^ 32 - 1" "segment_present (flat_segment t)"
  using assms by (simp_all add: flat_segment_def segment_last_def descriptor_range take_bit_numeral_numeral)

lemma flat_privilege:
  "md_privilege (flat_segment Kernel_code) = 0" "md_privilege (flat_segment Kernel_data) = 0"
  "md_privilege (flat_segment User_code) = 3" "md_privilege (flat_segment User_data) = 3"
  by (simp_all add: flat_segment_def memory_descriptor_new_def)

lemma gdt_set_up:
  "take 5 (init_task_state_segment tss ldt (init_gdt new_gdt))
    = [null_descriptor, flat_segment Kernel_code, flat_segment Kernel_data, flat_segment User_code, flat_segment User_data]"
  "init_task_state_segment tss ldt (init_gdt new_gdt) ! 5
    = memory_descriptor_new Task_segment True tss (tss + sizeof_task_state_segment) True"
proof -
  have e: "init_task_state_segment tss ldt g =
      g[5 := memory_descriptor_new Task_segment True tss (tss + sizeof_task_state_segment) True,
        6 := memory_descriptor_new Local_table_segment True ldt 1 False]" for g
    by (simp add: init_task_state_segment_def set_local_descriptor_table_segment_def set_task_state_segment_def gdt_size_def)
  have l: "length (init_gdt new_gdt) = 16" by (simp add: new_gdt_def gdt_size_def)
  have "take 5 (init_gdt new_gdt)
      = [null_descriptor, flat_segment Kernel_code, flat_segment Kernel_data, flat_segment User_code, flat_segment User_data]"
    by (simp add: init_gdt_def new_gdt_def gdt_size_def eval_nat_numeral)
  then show "take 5 (init_task_state_segment tss ldt (init_gdt new_gdt))
    = [null_descriptor, flat_segment Kernel_code, flat_segment Kernel_data, flat_segment User_code, flat_segment User_data]"
    unfolding e by simp
  show "init_task_state_segment tss ldt (init_gdt new_gdt) ! 5
    = memory_descriptor_new Task_segment True tss (tss + sizeof_task_state_segment) True"
    unfolding e by (simp add: l del: gdt_lengths)
qed

text \<open>The memory model is flat. After the set-up the first entry of the table is not present, and
  the segments of the code and the data of the kernel and of the user start at 0 and end with the
  last byte of the 4 GiB; those of the kernel have the level 0 and those of the user the level 3.\<close>

theorem segments_flat:
  "map (\<lambda>d. (md_base d, segment_last d, segment_present d, md_privilege d))
      (take 5 (init_task_state_segment tss ldt (init_gdt new_gdt)))
    = [(0, 0, False, 0), (0, 2 ^ 32 - 1, True, 0), (0, 2 ^ 32 - 1, True, 0), (0, 2 ^ 32 - 1, True, 3), (0, 2 ^ 32 - 1, True, 3)]"
proof -
  have "md_base null_descriptor = 0" "segment_last null_descriptor = 0" "\<not> segment_present null_descriptor"
    "md_privilege null_descriptor = 0"
    by (simp_all add: null_descriptor_def md_base_def md_limit_def segment_last_def)
  then show ?thesis
    unfolding gdt_set_up by (simp only: list.map flat_segment_facts flat_privilege segment_type.distinct simp_thms)
qed

lemma task_segment_range:
  "md_base (init_task_state_segment tss ldt (init_gdt new_gdt) ! 5) = tss"
  "segment_last (init_task_state_segment tss ldt (init_gdt new_gdt) ! 5) = (unat tss + 3712) mod 2 ^ 20"
proof -
  have "unat (take_bit 20 (tss + sizeof_task_state_segment)) = (unat tss + 3712) mod 2 ^ 20"
    by (simp add: unat_take_bit sizeof_task_state_segment_def unat_word_ariths mod_mod_cancel)
  then show "md_base (init_task_state_segment tss ldt (init_gdt new_gdt) ! 5) = tss"
    "segment_last (init_task_state_segment tss ldt (init_gdt new_gdt) ! 5) = (unat tss + 3712) mod 2 ^ 20"
    unfolding gdt_set_up by (simp_all add: descriptor_range segment_last_def)
qed

text \<open>The limit of the task state segment is not its size. It is the lower 20 bits of the address
  behind the segment, in bytes: the segment seems to go on for up to 1 MiB behind its end, and when
  it ends near a border of 1 MiB the limit is less than the 103 that the processor asks for.\<close>

theorem task_segment_limit:
  "let d = init_task_state_segment tss ldt (init_gdt new_gdt) ! 5
   in md_base d = tss \<and> segment_last d = (unat tss + 3712) mod 2 ^ 20"
  by (simp add: task_segment_range del: power.simps)

lemma task_segment_too_short: "segment_last (init_task_state_segment 0x1FF180 ldt (init_gdt new_gdt) ! 5) = 0"
  by (simp add: task_segment_range)

end
