(* ===== verification/Interrupts.thy ===== *)
theory Interrupts
  imports Descriptors Port_Devices Console Syscall_Inv
begin

text \<open>
  Interrupts: the controller (kern/arch/x86/pic/8259A.h), the gates and the dispatcher
  (kern/arch/x86/core/interrupt_descriptor_table.h and .cpp, isr.h, core/service_routine.h), the
  interrupt flag (core/interrupts.cpp) and the routines of the kernel (x86_kernel.hpp). The state is
  that of the whole kernel: the timer's count, the processes and files, and in the world of the
  files the keyboard and the screen.
\<close>

section \<open>The interrupt controller\<close>

text \<open>\<open>ports\<close> is what the ports answer when they are read.\<close>

definition relocate_irqs :: "u8 \<Rightarrow> u8 \<Rightarrow> bool \<Rightarrow> (u16 \<Rightarrow> u8) \<Rightarrow> port_writes" where
  "relocate_irqs master slave preserve_mask ports =
     (let master_mask = (if preserve_mask then ports 0x21 else 0);
          slave_mask = (if preserve_mask then ports 0xA1 else 0)
      in [(0x20, 0x10 OR 0x01), (0xA0, 0x10 OR 0x01), (0x21, master), (0xA1, slave), (0x21, 0x04), (0xA1, 0x02),
          (0x21, 0x01), (0xA1, 0x01), (0x21, master_mask), (0xA1, slave_mask)])"

definition send_end_of_interrupt :: "u8 \<Rightarrow> port_writes" where
  "send_end_of_interrupt irq =
     (if irq < 16 then (if 8 \<le> irq then [(0xA0, 0x20)] else []) @ [(0x20, 0x20)] else [])"

definition mask_interrupt :: "u8 \<Rightarrow> bool \<Rightarrow> (u16 \<Rightarrow> u8) \<Rightarrow> port_writes" where
  "mask_interrupt irq enable ports =
     (if 16 \<le> irq then []
      else (let port = (if 8 \<le> irq then 0xA1 else 0x21);
                line = (if 8 \<le> irq then irq - 8 else irq);
                mask = push_bit (unat line) 1;
                value = ports port
            in [(port, if enable then value AND NOT mask else value OR mask)]))"

text \<open>Ports that answer what was written to them last, as the two mask registers do.\<close>

definition apply_writes :: "port_writes \<Rightarrow> (u16 \<Rightarrow> u8) \<Rightarrow> u16 \<Rightarrow> u8" where
  "apply_writes out ports = fold (\<lambda>(p, b) f. f(p := b)) out ports"

section \<open>The interrupt descriptor table\<close>

text \<open>The entries written in assembler, at the addresses \<open>stub\<close>.\<close>

datatype isr_stub = Uninitialized_stub | Isr_stub nat | Irq_stub nat

definition idt_size :: nat where "idt_size = 256"

definition set_interrupt_gate :: "nat \<Rightarrow> ptr \<Rightarrow> gate_descriptor list \<Rightarrow> gate_descriptor list" where
  "set_interrupt_gate n f table = table[n := gate_descriptor_new f Interrupt_gate True System_level]"

definition set_system_gate :: "nat \<Rightarrow> ptr \<Rightarrow> gate_descriptor list \<Rightarrow> gate_descriptor list" where
  "set_system_gate n f table = table[n := gate_descriptor_new f Interrupt_gate True User_level]"

definition set_trap_gate :: "nat \<Rightarrow> ptr \<Rightarrow> gate_descriptor list \<Rightarrow> gate_descriptor list" where
  "set_trap_gate n f table = table[n := gate_descriptor_new f Trap_gate True User_level]"

definition init_idt :: "(isr_stub \<Rightarrow> ptr) \<Rightarrow> gate_descriptor list \<Rightarrow> gate_descriptor list" where
  "init_idt stub table =
     (let uninit = fold (\<lambda>i. set_trap_gate i (stub Uninitialized_stub)) [0 ..< idt_size] table;
          exceptions = fold (\<lambda>i. (if i \<in> {3, 4, 5} then set_system_gate else set_trap_gate) i (stub (Isr_stub i)))
            [0 ..< 32] uninit;
          irqs = fold (\<lambda>i. set_interrupt_gate (32 + i) (stub (Irq_stub i))) [0 ..< 16] exceptions
      in set_system_gate 0x80 (stub (Isr_stub 0x80)) irqs)"

section \<open>Service routines\<close>

text \<open>A routine of the table: the ones of the dispatcher, none at all, and those of the devices.\<close>

datatype irq_routine = Timer_routine | Keyboard_routine

datatype service = No_routine | Dummy_dummy | Syscall_handler | Exception_handler | Dummy_interrupt | Device irq_routine

record service_routine =
  sr_enabled :: bool
  sr_function :: service

definition irq_count :: nat where "irq_count = 16"

text \<open>The initialiser names the first entry of the table only.\<close>

definition new_irq_handlers :: "service_routine list" where
  "new_irq_handlers = \<lparr>sr_enabled = False, sr_function = Dummy_dummy\<rparr>
     # replicate 15 \<lparr>sr_enabled = False, sr_function = No_routine\<rparr>"

definition register_irq_handler :: "u16 \<Rightarrow> service_routine \<Rightarrow> service_routine list \<Rightarrow> service_routine list" where
  "register_irq_handler irq h table = (if unat irq < irq_count then table[unat irq := h] else table)"

definition remove_irq_handler :: "u16 \<Rightarrow> service_routine list \<Rightarrow> service_routine list" where
  "remove_irq_handler irq table =
     (if unat irq < irq_count then table[unat irq := \<lparr>sr_enabled = False, sr_function = Dummy_interrupt\<rparr>] else table)"

definition enable_irq_handler :: "u16 \<Rightarrow> service_routine list \<Rightarrow> service_routine list" where
  "enable_irq_handler irq table =
     (if unat irq < irq_count then table[unat irq := (table ! unat irq)\<lparr>sr_enabled := True\<rparr>] else table)"

definition disable_irq_handler :: "u16 \<Rightarrow> service_routine list \<Rightarrow> service_routine list" where
  "disable_irq_handler irq table =
     (if unat irq < irq_count then table[unat irq := (table ! unat irq)\<lparr>sr_enabled := False\<rparr>] else table)"

definition set_irq_usability :: "u16 \<Rightarrow> bool \<Rightarrow> (u16 \<Rightarrow> u8) \<Rightarrow> port_writes" where
  "set_irq_usability entry_number present ports =
     (if unat entry_number < irq_count then mask_interrupt (ucast entry_number) present ports else [])"

definition init_irq_handlers :: "service_routine list \<Rightarrow> service_routine list" where
  "init_irq_handlers table = fold (\<lambda>i. remove_irq_handler (of_nat i)) [0 ..< irq_count] table"

text \<open>The routines that the kernel registers; all other lines are masked.\<close>

definition set_up_handlers :: "service_routine list \<Rightarrow> service_routine list" where
  "set_up_handlers table =
     register_irq_handler 1 \<lparr>sr_enabled = True, sr_function = Device Keyboard_routine\<rparr>
       (register_irq_handler 0 \<lparr>sr_enabled = True, sr_function = Device Timer_routine\<rparr> table)"

definition mask_lines :: "(u16 \<Rightarrow> u8) \<Rightarrow> u16 \<Rightarrow> u8" where
  "mask_lines ports = fold (\<lambda>i p. apply_writes (set_irq_usability (of_nat i) False p) p) [2 ..< 16] ports"

section \<open>Dispatching\<close>

text \<open>What the entries push, and the registers that the routines look at.\<close>

record isr_registers =
  reg_exception :: u32
  reg_irq :: u32
  reg_error_code :: u32
  reg_eip :: ptr
  reg_cr2 :: ptr

text \<open>
  What the processor and the devices give to a routine: the environment of a call, the address
  a switched-out process goes on at, the byte at the port of the keyboard, and the message that
  the register eax points to.
\<close>

record 'drv interrupt_env =
  ie_kernel :: "('drv, string, console_world) kernel_env"
  ie_label :: ptr
  ie_scan_code :: u8
  ie_message :: syscall_message

text \<open>The machine; \<open>m_reply\<close> is the message as the last call left it.\<close>

record 'drv machine =
  m_ticks :: u64
  m_system :: "('drv, string, console_world) system"
  m_handlers :: "service_routine list"
  m_reply :: "syscall_message option"

text \<open>The names of the exceptions.\<close>

definition exception_names :: "string list" where
  "exception_names =
     [''divide_by_zero_exception'', ''debug'', ''nmi'', ''breakpoint'', ''overflow'', ''bounds_check'',
      ''invalid_opcode'', ''device_not_available'', ''double_fault'', ''coprocessor_segment_overrun'',
      ''invalid_tss'', ''segment_not_present'', ''stack_exception'', ''general_protection'', ''page_fault'',
      ''intel_reserved'', ''floating_point_error'', ''alignment_check'', ''machine_check'']"

definition exception_to_string :: "u32 \<Rightarrow> string" where
  "exception_to_string e =
     (if unat e < length exception_names then exception_names ! unat e
      else if e = 0x80 then ''syscall'' else ''no_such_exception'')"

definition exception_handler :: "isr_registers \<Rightarrow> 'drv machine \<Rightarrow> 'drv machine result" where
  "exception_handler regs m =
     bind_result (real_dispatch_exception
         \<lparr>exception_text = exception_to_string (reg_exception regs), exception_number = reg_exception regs,
          error_code = reg_error_code regs, instruction_address = reg_eip regs, memory_address = reg_cr2 regs\<rparr>
         (m_system m)) (\<lambda>st. Inr (m\<lparr>m_system := st\<rparr>))"

definition syscall_handler :: "'drv interrupt_env \<Rightarrow> 'drv machine \<Rightarrow> 'drv machine result option" where
  "syscall_handler env m =
     bind_loop (real_dispatch_syscall (ie_kernel env) (ie_message env) (m_system m)) (\<lambda>(reply, st).
       Some (Inr (m\<lparr>m_system := st, m_reply := reply\<rparr>)))"

fun device_routine :: "'drv interrupt_env \<Rightarrow> irq_routine \<Rightarrow> 'drv machine \<Rightarrow> 'drv machine result" where
  "device_routine env Timer_routine m =
     bind_result (timer_interrupt_handler (ie_label env) (m_ticks m, sched (m_system m))) (\<lambda>(t, s).
       Inr (m\<lparr>m_ticks := t, m_system := (m_system m)\<lparr>sched := s\<rparr>\<rparr>))"
| "device_routine env Keyboard_routine m =
     (let fs = files (m_system m); w = world fs
      in bind_result (handle_interrupt (ie_scan_code env) (cw_ring w)) (\<lambda>r.
           Inr (m\<lparr>m_system := (m_system m)\<lparr>files := fs\<lparr>world := w\<lparr>cw_ring := r\<rparr>\<rparr>\<rparr>\<rparr>)))"

fun run_service :: "'drv interrupt_env \<Rightarrow> isr_registers \<Rightarrow> service \<Rightarrow> 'drv machine \<Rightarrow> 'drv machine result option" where
  "run_service env regs No_routine m = Some (Inl Null_deref)"
| "run_service env regs Dummy_dummy m = Some (Inl Die)"
| "run_service env regs Syscall_handler m = syscall_handler env m"
| "run_service env regs Exception_handler m = Some (exception_handler regs m)"
| "run_service env regs Dummy_interrupt m = Some (Inr m)"
| "run_service env regs (Device d) m = Some (device_routine env d m)"

definition call_routine :: "'drv interrupt_env \<Rightarrow> isr_registers \<Rightarrow> service_routine \<Rightarrow> 'drv machine \<Rightarrow> 'drv machine result option" where
  "call_routine env regs sr m = (if sr_enabled sr then run_service env regs (sr_function sr) m else Some (Inr m))"

definition irq_service :: "u32 \<Rightarrow> 'drv machine \<Rightarrow> service_routine result" where
  "irq_service irq m =
     (if unat irq < length (m_handlers m) then Inr (m_handlers m ! unat irq) else Inl Out_of_bounds)"

definition dispatch_interrupt ::
  "'drv interrupt_env \<Rightarrow> isr_registers \<Rightarrow> 'drv machine \<Rightarrow> (port_writes \<times> 'drv machine) result option" where
  "dispatch_interrupt env regs m =
     (if 0 \<le>s reg_irq regs
      then bind_loop (Some (irq_service (reg_irq regs) m)) (\<lambda>sr.
             bind_loop (call_routine env regs sr m) (\<lambda>m1.
               Some (Inr (send_end_of_interrupt (ucast (reg_irq regs)), m1))))
      else (let sr = (if reg_exception regs = 0x80 then \<lparr>sr_enabled = True, sr_function = Syscall_handler\<rparr>
                      else if 0 \<le>s reg_exception regs \<and> reg_exception regs <s 18
                      then \<lparr>sr_enabled = True, sr_function = Exception_handler\<rparr>
                      else \<lparr>sr_enabled = True, sr_function = Dummy_dummy\<rparr>)
            in bind_loop (call_routine env regs sr m) (\<lambda>m1. Some (Inr ([], m1)))))"

section \<open>Lines and masks\<close>

text \<open>Line \<open>j\<close> is masked in the mask register of its controller.\<close>

definition line_masked :: "(u16 \<Rightarrow> u8) \<Rightarrow> nat \<Rightarrow> bool" where
  "line_masked ports j = bit (ports (if 8 \<le> j then 0xA1 else 0x21)) (j mod 8)"

lemma one_bit: "bit (push_bit n (1 :: u8)) m \<longleftrightarrow> m = n \<and> n < 8"
  by (auto simp: bit_simps)

lemma mask_interrupt_line:
  assumes "unat irq < 16" and "j < 16"
  shows "line_masked (apply_writes (mask_interrupt irq enable ports) ports) j
    \<longleftrightarrow> (if j = unat irq then \<not> enable else line_masked ports j)"
proof -
  have i: "\<not> 16 \<le> irq" "8 \<le> irq \<longleftrightarrow> 8 \<le> unat irq" using assms(1) by (simp_all add: word_le_nat_alt)
  have l: "unat (if 8 \<le> irq then irq - 8 else irq) = unat irq mod 8"
    using assms(1) unat_minus_le [of 8 irq] i(2) by (auto simp: mod_if)
  have j: "j = unat irq \<longleftrightarrow> (8 \<le> j \<longleftrightarrow> 8 \<le> unat irq) \<and> j mod 8 = unat irq mod 8"
    using assms by (auto simp: mod_if)
  show ?thesis
    unfolding line_masked_def mask_interrupt_def Let_def apply_writes_def l j using i
    by (auto simp: bit_simps one_bit)
qed

lemma mask_loop:
  assumes "\<forall>i \<in> set is. i < 16" and "j < 16"
  shows "line_masked (fold (\<lambda>i p. apply_writes (set_irq_usability (of_nat i) False p) p) is ports) j
    \<longleftrightarrow> j \<in> set is \<or> line_masked ports j"
  using assms(1)
proof (induction "is" arbitrary: ports)
  case (Cons i "is")
  have n: "unat (of_nat i :: u16) = i" "unat (ucast (of_nat i :: u16) :: u8) = i"
    using Cons.prems by (simp_all add: unsigned_ucast_eq take_bit_eq_mod unsigned_of_nat)
  have "set_irq_usability (of_nat i) False ports = mask_interrupt (ucast (of_nat i :: u16)) False ports"
    using Cons.prems n(1) by (simp add: set_irq_usability_def irq_count_def)
  then show ?case
    using Cons mask_interrupt_line [of "ucast (of_nat i :: u16)" j False ports] assms(2) n(2) by auto
qed simp

text \<open>Of the interrupt lines only those of the timer and of the keyboard stay open. Moving the
  lines to the interrupts 32 to 47 opens all of them, and masking one line changes the mask of no
  other, so that after the set-up the lines 2 to 15 are masked and 0 and 1 are not.\<close>

theorem lines_masked:
  "j < 16 \<Longrightarrow> line_masked (mask_lines (apply_writes (relocate_irqs 32 40 False ports) ports)) j \<longleftrightarrow> 2 \<le> j"
proof -
  assume j: "j < 16"
  have "\<not> line_masked (apply_writes (relocate_irqs 32 40 False ports) ports) j"
    by (simp add: line_masked_def apply_writes_def relocate_irqs_def)
  moreover have "\<forall>i \<in> set [2 ..< 16 :: nat]. i < 16" by (simp only: set_upt) simp
  moreover have "j \<in> set [2 ..< 16] \<longleftrightarrow> 2 \<le> j" using j by (simp only: set_upt) simp
  ultimately show ?thesis unfolding mask_lines_def by (simp only: mask_loop j simp_thms)
qed

theorem lines_masked_witness:
  "line_masked (mask_lines (apply_writes (relocate_irqs 32 40 False (\<lambda>_. 0xFF)) (\<lambda>_. 0xFF))) 14
    \<and> \<not> line_masked (mask_lines (apply_writes (relocate_irqs 32 40 False (\<lambda>_. 0xFF)) (\<lambda>_. 0xFF))) 1"
  using lines_masked [of 14 "\<lambda>_. 0xFF"] lines_masked [of 1 "\<lambda>_. 0xFF"] by simp

section \<open>Gates\<close>

lemma fold_gates:
  assumes "k < length t"
  shows "fold (\<lambda>i t. t[c + i := f i]) [0 ..< n] t ! k = (if c \<le> k \<and> k < c + n then f (k - c) else t ! k)"
    and "length (fold (\<lambda>i t. t[c + i := f i]) [0 ..< n] t) = length t"
proof -
  have l: "length (fold (\<lambda>i t. t[c + i := f i]) [0 ..< n] t) = length t" for n by (induction n) simp_all
  then show "length (fold (\<lambda>i t. t[c + i := f i]) [0 ..< n] t) = length t" .
  show "fold (\<lambda>i t. t[c + i := f i]) [0 ..< n] t ! k = (if c \<le> k \<and> k < c + n then f (k - c) else t ! k)"
  proof (induction n)
    case (Suc n)
    show ?case using assms l [of n] Suc by (cases "k = c + n") auto
  qed auto
qed

text \<open>The entry of an interrupt, its type and its level.\<close>

definition idt_stub :: "nat \<Rightarrow> isr_stub" where
  "idt_stub n = (if n < 32 \<or> n = 0x80 then Isr_stub n else if n < 48 then Irq_stub (n - 32) else Uninitialized_stub)"

definition idt_gate :: "(isr_stub \<Rightarrow> ptr) \<Rightarrow> nat \<Rightarrow> gate_descriptor" where
  "idt_gate stub n =
     gate_descriptor_new (stub (idt_stub n))
       (if n \<in> {3, 4, 5, 0x80} \<or> 32 \<le> n \<and> n < 48 then Interrupt_gate else Trap_gate) True
       (if 32 \<le> n \<and> n < 48 then System_level else User_level)"

lemma init_idt_gate:
  assumes "length table = 256" and "n < 256"
  shows "init_idt stub table ! n = idt_gate stub n"
proof -
  let ?g = "\<lambda>i. gate_descriptor_new (stub (Isr_stub i)) (if i \<in> {3, 4, 5} then Interrupt_gate else Trap_gate) True User_level"
  let ?u = "\<lambda>i :: nat. gate_descriptor_new (stub Uninitialized_stub) Trap_gate True User_level"
  let ?q = "\<lambda>i. gate_descriptor_new (stub (Irq_stub i)) Interrupt_gate True System_level"
  let ?t1 = "fold (\<lambda>i t. t[0 + i := ?u i]) [0 ..< 256] table"
  let ?t2 = "fold (\<lambda>i t. t[0 + i := ?g i]) [0 ..< 32] ?t1"
  let ?t3 = "fold (\<lambda>i t. t[32 + i := ?q i]) [0 ..< 16] ?t2"
  have e: "(\<lambda>i. (if i \<in> {3, 4, 5} then set_system_gate else set_trap_gate) i (stub (Isr_stub i))) = (\<lambda>i t. t[0 + i := ?g i])"
    "(\<lambda>i. set_trap_gate i (stub Uninitialized_stub)) = (\<lambda>i t. t[0 + i := ?u i])"
    "(\<lambda>i. set_interrupt_gate (32 + i) (stub (Irq_stub i))) = (\<lambda>i t. t[32 + i := ?q i])"
    by (auto simp: fun_eq_iff set_system_gate_def set_trap_gate_def set_interrupt_gate_def)
  have s: "init_idt stub table = ?t3[0x80 := gate_descriptor_new (stub (Isr_stub 0x80)) Interrupt_gate True User_level]"
    unfolding init_idt_def Let_def e idt_size_def by (simp only: set_system_gate_def)
  have l1: "length ?t1 = 256" using assms fold_gates(2) [of n table 0 ?u 256] by (simp only:)
  have l2: "length ?t2 = 256" using assms l1 fold_gates(2) [of n ?t1 0 ?g 32] by (simp only:)
  have l3: "length ?t3 = 256" using assms l2 fold_gates(2) [of n ?t2 32 ?q 16] by (simp only:)
  have "?t3 ! n = (if 32 \<le> n \<and> n < 48 then ?q (n - 32) else if n < 32 then ?g n else ?u n)"
    using fold_gates(1) [of n ?t2 32 ?q 16] fold_gates(1) [of n ?t1 0 ?g 32] fold_gates(1) [of n table 0 ?u 256] l1 l2 assms
    by (simp del: upt_rec_numeral)
  then show ?thesis
    unfolding s idt_gate_def idt_stub_def using l3 assms by (simp add: nth_list_update del: upt_rec_numeral)
qed

lemma gate_facts:
  "gd_present (gate_descriptor_new f t p l) = p" "gd_dpl (gate_descriptor_new f t p l) = level_code l"
  "gate_offset (gate_descriptor_new f t p l) = f"
  by (simp_all add: gate_descriptor_new_def) (simp_all add: gate_with_selector_def)

section \<open>Exceptions\<close>

text \<open>The numbers that the entries push.\<close>

fun stub_exception :: "isr_stub \<Rightarrow> u32" where
  "stub_exception Uninitialized_stub = - 2"
| "stub_exception (Isr_stub n) = of_nat n"
| "stub_exception (Irq_stub n) = - 1"

fun stub_irq :: "isr_stub \<Rightarrow> u32" where
  "stub_irq Uninitialized_stub = - 2"
| "stub_irq (Isr_stub n) = - 1"
| "stub_irq (Irq_stub n) = of_nat n"

lemma exception_dies:
  assumes "\<not> 0 \<le>s reg_irq regs" and "reg_exception regs \<noteq> 0x80"
  shows "dispatch_interrupt env regs m = Some (Inl Die)"
  using assms
  by (simp add: dispatch_interrupt_def call_routine_def exception_handler_def real_dispatch_exception_def Let_def)


section \<open>Interrupts of the hardware\<close>

lemma hardware_number: "n < 16 \<Longrightarrow> 0 \<le>s (of_nat n :: u32)" "n < 16 \<Longrightarrow> unat (of_nat n :: u32) = n"
  "n < 16 \<Longrightarrow> unat (ucast (of_nat n :: u32) :: u8) = n"
proof -
  assume n: "n < 16"
  show u: "unat (of_nat n :: u32) = n" using n by (simp add: unat_of_nat_lt)
  show "unat (ucast (of_nat n :: u32) :: u8) = n" using n u by (simp add: unsigned_ucast_eq take_bit_eq_mod)
  have "uint (of_nat n :: u32) = int n" using u by (metis uint_nat)
  then show "0 \<le>s (of_nat n :: u32)"
    using n by (simp add: word_sle_eq sint_uint signed_take_bit_int_eq_self)
qed

text \<open>An interrupt of the hardware is acknowledged once and reaches its routine. The end of the
  interrupt is sent to the first controller, and before that to the second when the line is one of
  its eight; then the routine of the line runs if it is enabled, and otherwise nothing changes. A
  number past the table is an access out of its bounds.\<close>

theorem irq_acknowledged:
  assumes "length (m_handlers m) = 16" and "n < 16" and "reg_irq regs = of_nat n"
  shows "dispatch_interrupt env regs m
    = bind_loop (if sr_enabled (m_handlers m ! n) then run_service env regs (sr_function (m_handlers m ! n)) m else Some (Inr m))
        (\<lambda>m1. Some (Inr ((if 8 \<le> n then [(0xA0, 0x20)] else []) @ [(0x20, 0x20)], m1)))"
proof -
  have "send_end_of_interrupt (ucast (of_nat n :: u32)) = (if 8 \<le> n then [(0xA0, 0x20)] else []) @ [(0x20, 0x20)]"
    using hardware_number [OF assms(2)] assms(2) by (simp add: send_end_of_interrupt_def word_le_nat_alt word_less_nat_alt)
  then show ?thesis
    using hardware_number [OF assms(2)] assms
    by (simp add: dispatch_interrupt_def irq_service_def call_routine_def)
qed

section \<open>A run of the machine\<close>

text \<open>Interrupts of any kind in any order, and changes of the table of routines.\<close>

inductive machine_run :: "'drv machine \<Rightarrow> 'drv machine \<Rightarrow> bool" where
  machine_none: "machine_run m m"
| machine_interrupt: "machine_run m m1 \<Longrightarrow> call_ready (ie_kernel env) (m_system m1)
    \<Longrightarrow> dispatch_interrupt env regs m1 = Some (Inr (out, m2)) \<Longrightarrow> machine_run m m2"
| machine_register: "machine_run m m1 \<Longrightarrow> machine_run m (m1\<lparr>m_handlers := register_irq_handler irq h (m_handlers m1)\<rparr>)"
| machine_remove: "machine_run m m1 \<Longrightarrow> machine_run m (m1\<lparr>m_handlers := remove_irq_handler irq (m_handlers m1)\<rparr>)"
| machine_enable: "machine_run m m1 \<Longrightarrow> machine_run m (m1\<lparr>m_handlers := enable_irq_handler irq (m_handlers m1)\<rparr>)"
| machine_disable: "machine_run m m1 \<Longrightarrow> machine_run m (m1\<lparr>m_handlers := disable_irq_handler irq (m_handlers m1)\<rparr>)"

definition machine_inv :: "'drv machine \<Rightarrow> bool" where
  "machine_inv m \<longleftrightarrow> system_inv (m_system m) \<and> length (m_handlers m) = irq_count"

lemma world_irrelevant: "system_inv (st\<lparr>files := (files st)\<lparr>world := w\<rparr>\<rparr>) = system_inv st"
  by (simp add: system_inv_def vfs_inv_def nodes_alive_def)

lemma switch_keeps_system:
  assumes "system_inv st" and "context_switch label (sched st) = Inr s"
  shows "system_inv (st\<lparr>sched := s\<rparr>)"
proof -
  have "sched_inv s" using sched_inv_switch [of "sched st" label] assms by (auto simp: system_inv_def)
  moreover have "handles_sound s"
    using switch_keeps_handles [OF assms(2)] assms(1) unfolding system_inv_def handles_sound_def by metis
  ultimately show ?thesis using assms(1) switch_keeps_handles [OF assms(2)] by (simp add: system_inv_def)
qed

lemma device_keeps_inv:
  assumes "device_routine env d m = Inr m1" and "machine_inv m"
  shows "machine_inv m1"
proof (cases d)
  case Timer_routine
  with assms switch_keeps_system [of "m_system m" "ie_label env"] show ?thesis
    by (auto simp: timer_interrupt_handler_def machine_inv_def bind_result_Inr_iff Let_def split: if_splits)
next
  case Keyboard_routine
  with assms show ?thesis
    by (auto simp: machine_inv_def bind_result_Inr_iff Let_def world_irrelevant)
qed

lemma service_keeps_inv:
  assumes "run_service env regs s m = Some (Inr m1)" and "call_ready (ie_kernel env) (m_system m)" and "machine_inv m"
  shows "machine_inv m1"
proof (cases s)
  case Syscall_handler
  with assms(1) obtain reply st where
    r: "real_dispatch_syscall (ie_kernel env) (ie_message env) (m_system m) = Some (Inr (reply, st))"
    and m1: "m1 = m\<lparr>m_system := st, m_reply := reply\<rparr>"
    by (auto simp: syscall_handler_def bind_loop_Inr_iff)
  have "system_inv st" using dispatch_keeps_inv [OF _ assms(2) r] assms(3) by (simp add: machine_inv_def)
  then show ?thesis using assms(3) by (simp add: m1 machine_inv_def)
qed (use assms device_keeps_inv in \<open>auto simp: exception_handler_def real_dispatch_exception_def\<close>)

lemma dispatch_interrupt_inv:
  assumes "dispatch_interrupt env regs m = Some (Inr (out, m1))" and "call_ready (ie_kernel env) (m_system m)" and "machine_inv m"
  shows "machine_inv m1"
proof -
  have "\<exists>sr. call_routine env regs sr m = Some (Inr m1)"
    using assms(1) unfolding dispatch_interrupt_def Let_def bind_loop_Inr_iff by (auto simp: bind_loop_Inr_iff split: if_splits)
  then show ?thesis using service_keeps_inv [OF _ assms(2,3)] assms(3) by (auto simp: call_routine_def split: if_splits)
qed

definition boot_vfs :: "(unit, string, console_world) vfs" where
  "boot_vfs = \<lparr>node_heap = Map.empty, node_next = 0, open_nodes = Map.empty, mounted_filesystems = Map.empty,
     dev_root = i_console_init dev_fs_new, world = sample_world\<rparr>"

definition boot_machine :: "unit machine" where
  "boot_machine = \<lparr>m_ticks = 0, m_system = \<lparr>sched = sched_sample, files = boot_vfs\<rparr>,
     m_handlers = set_up_handlers (init_irq_handlers new_irq_handlers), m_reply = None\<rparr>"

definition boot_env :: "unit interrupt_env" where
  "boot_env = \<lparr>ie_kernel = \<lparr>fs_env = \<lparr>env_io = console_io idle_io, past_subnodes = Inr None, past_nodes = Inr None,
       boot_memory = [], table_memory = (\<lambda>_. [])\<rparr>, mem_areas = [], new_handle = 7, new_mem = nm_sample, fd_keys = [],
       fork_label = 0x8000, ehdr_junk = [], phdr_junk = \<lambda>_. []\<rparr>, ie_label = 0x8000, ie_scan_code = 0x1E,
     ie_message = \<lparr>msg_call = Getpid_data 0, msg_error = 0\<rparr>\<rparr>"

definition irq_regs :: "u32 \<Rightarrow> isr_registers" where
  "irq_regs n = \<lparr>reg_exception = - 1, reg_irq = n, reg_error_code = 0, reg_eip = 0, reg_cr2 = 0\<rparr>"

lemma handlers_length:
  "length (register_irq_handler irq h table) = length table" "length (remove_irq_handler irq table) = length table"
  "length (enable_irq_handler irq table) = length table" "length (disable_irq_handler irq table) = length table"
  by (simp_all add: register_irq_handler_def remove_irq_handler_def enable_irq_handler_def disable_irq_handler_def)

lemma init_handlers_length: "length (init_irq_handlers table) = length table"
proof -
  have "length (fold (\<lambda>i. remove_irq_handler (of_nat i)) is table) = length table" for "is" :: "nat list"
    by (induction "is" arbitrary: table) (simp_all add: handlers_length)
  then show ?thesis by (simp add: init_irq_handlers_def)
qed

lemma boot_handlers:
  "length (m_handlers boot_machine) = 16"
  "m_handlers boot_machine ! 0 = \<lparr>sr_enabled = True, sr_function = Device Timer_routine\<rparr>"
  "m_handlers boot_machine ! 1 = \<lparr>sr_enabled = True, sr_function = Device Keyboard_routine\<rparr>"
proof -
  have "length new_irq_handlers = 16" by (simp add: new_irq_handlers_def)
  then have l: "length (init_irq_handlers new_irq_handlers) = 16" by (simp add: init_handlers_length)
  then show "length (m_handlers boot_machine) = 16"
    by (simp add: boot_machine_def set_up_handlers_def handlers_length)
  show "m_handlers boot_machine ! 0 = \<lparr>sr_enabled = True, sr_function = Device Timer_routine\<rparr>"
    "m_handlers boot_machine ! 1 = \<lparr>sr_enabled = True, sr_function = Device Keyboard_routine\<rparr>"
    using l by (simp_all add: boot_machine_def set_up_handlers_def register_irq_handler_def irq_count_def)
qed

lemma boot_machine_inv: "machine_inv boot_machine"
proof -
  have "sched_inv sched_sample"
    by (rule sched_invI [OF _ sched_sample_runnable]) (auto simp: sched_sample_def process_sample_def pids_ok_def split: if_splits)
  moreover have "vfs_inv boot_vfs" by (simp add: vfs_inv_def boot_vfs_def)
  ultimately show ?thesis
    using boot_handlers(1)
    by (auto simp: machine_inv_def system_inv_def boot_machine_def handles_sound_def nodes_alive_def sched_sample_def
        process_sample_def holder_inv_def holder_new_def irq_count_def split: if_splits)
qed

lemma boot_ready: "call_ready (ie_kernel boot_env) (m_system boot_machine)"
proof -
  have "rr_fresh 0x400 rr_sample" by (simp add: rr_fresh_def rr_sample_def push_new_def round_robin_new_def)
  then show ?thesis
    using rr_current [OF rr_sample_rep]
    by (auto simp: call_ready_def boot_env_def boot_machine_def fresh_memory_def nm_sample_def sched_sample_def
        MAGIC_VALUE_def no_wrap_def boot_vfs_def sane_past_def process_sample_def holder_new_def split: if_splits)
qed

text \<open>C3: the whole kernel stays sound. However interrupts of the timer and the keyboard, system calls
  and changes of the table of routines follow one another, from a machine in which the invariant
  holds, it holds in every machine that is reached: the processes, their descriptors and the open
  files are in order as after single calls, and the table keeps its 16 entries.\<close>

theorem machine_keeps_sound:
  assumes "machine_run m m'" and "system_inv (m_system m)" and "length (m_handlers m) = 16"
  shows "system_inv (m_system m') \<and> length (m_handlers m') = 16"
proof -
  have "machine_inv m'"
    using assms
  proof (induction rule: machine_run.induct)
    case (machine_interrupt m m1 env regs out m2)
    then show ?case using dispatch_interrupt_inv by blast
  qed (simp_all add: machine_inv_def irq_count_def handlers_length)
  then show ?thesis by (simp add: machine_inv_def irq_count_def)
qed

text \<open>C5: a pressed key reaches the program. When the interrupt of the keyboard comes while its ring
  has room, it is acknowledged, the processes go on as before, and the program that reads one byte
  for each code in the ring gets the characters of the codes that were there and of the new one.\<close>

theorem key_press_to_program:
  fixes m :: "'drv machine"
  assumes "length (m_handlers m) = 16" and "m_handlers m ! 1 = \<lparr>sr_enabled = True, sr_function = Device Keyboard_routine\<rparr>"
    and "w = world (files (m_system m))" and "reg_irq regs = 1"
    and "unat (kb_in (cw_ring w)) < 128" and "unat (kb_out (cw_ring w)) < 128" and "length (kb_buffer (cw_ring w)) = 128"
    and "length (ring_items (cw_ring w)) < 127"
  shows "\<exists>m1 w1. dispatch_interrupt env regs m = Some (Inr ([(0x20, 0x20)], m1))
    \<and> sched (m_system m1) = sched (m_system m)
    \<and> read_keys (\<lambda>buf. dev_node_read (console_io io) (dev_node_console name con) offset 1 buf)
        (length (ring_items (cw_ring w) @ [ie_scan_code env])) (world (files (m_system m1)))
      = Some (Inr (fst (decode_keys (ring_items (cw_ring w) @ [ie_scan_code env]) (cw_keyboard w)), w1))"
proof -
  have "ring_ok (cw_ring w)" using assms by (simp add: ring_ok_def kb_size_def)
  from push_event_ring [OF this, of "ie_scan_code env"] obtain r where
    r: "push_event (ie_scan_code env) (cw_ring w) = Inr r" "ring_ok r" "ring_items r = ring_items (cw_ring w) @ [ie_scan_code env]"
    using assms(8) by (auto simp: kb_size_def)
  let ?m = "m\<lparr>m_system := (m_system m)\<lparr>files := (files (m_system m))\<lparr>world := w\<lparr>cw_ring := r\<rparr>\<rparr>\<rparr>\<rparr>"
  have n: "0 \<le>s (1 :: u32)" "\<not> 8 \<le> (1 :: u8)" by (simp_all add: word_sle_eq word_le_nat_alt)
  have "dispatch_interrupt env regs m = Some (Inr ([(0x20, 0x20)], ?m))"
    using assms(1-4) r(1) n
    by (simp add: dispatch_interrupt_def irq_service_def call_routine_def send_end_of_interrupt_def handle_interrupt_def Let_def)
  moreover have "\<exists>w1. read_keys (\<lambda>buf. dev_node_read (console_io io) (dev_node_console name con) offset 1 buf)
        (length (ring_items (cw_ring w) @ [ie_scan_code env])) (world (files (m_system ?m)))
      = Some (Inr (fst (decode_keys (ring_items (cw_ring w) @ [ie_scan_code env]) (cw_keyboard w)), w1))"
    using read_keys_decode [of "w\<lparr>cw_ring := r\<rparr>" "ring_items (cw_ring w) @ [ie_scan_code env]" "[]" io name con offset] r(2,3)
    by auto
  ultimately show ?thesis by fastforce
qed

lemma boot_ring:
  "unat (kb_in (cw_ring sample_world)) < 128" "unat (kb_out (cw_ring sample_world)) < 128"
  "length (kb_buffer (cw_ring sample_world)) = 128" "ring_items (cw_ring sample_world) = []"
  by (simp_all add: sample_world_def new_ring) (simp_all add: new_key_ring_def kb_size_def)

theorem key_press_to_program_witness:
  "\<exists>m1 w1. dispatch_interrupt boot_env (irq_regs 1) boot_machine = Some (Inr ([(0x20, 0x20)], m1))
    \<and> read_keys (\<lambda>buf. dev_node_read (console_io idle_io) (dev_node_console ''stdin'' ''stdin'') 0 1 buf)
        1 (world (files (m_system m1))) = Some (Inr ([0x61], w1))"
proof -
  have w: "sample_world = world (files (m_system boot_machine))" by (simp add: boot_machine_def boot_vfs_def)
  have p: "plain_key 0x1E" by (simp add: plain_key_def)
  have d: "fst (decode_keys (ring_items (cw_ring sample_world) @ [ie_scan_code boot_env]) (cw_keyboard sample_world)) = [0x61]"
    unfolding boot_ring(4) by (simp add: boot_env_def sample_world_def decode_plain [OF p] new_keyboard_def keyboard_german_def)
  have l: "length (ring_items (cw_ring sample_world) @ [ie_scan_code boot_env]) = 1" by (simp add: boot_ring)
  have i: "reg_irq (irq_regs 1) = 1" by (simp add: irq_regs_def)
  have room: "length (ring_items (cw_ring sample_world)) < 127" by (simp add: boot_ring)
  show ?thesis
    using key_press_to_program [OF boot_handlers(1,3) w i boot_ring(1-3) room, of boot_env idle_io "''stdin''" "''stdin''" 0]
    unfolding d l by blast
qed

theorem machine_keeps_sound_witness:
  "\<exists>m. machine_run boot_machine m \<and> system_inv (m_system m)
    \<and> dispatch_interrupt boot_env (irq_regs 1) boot_machine = Some (Inr ([(0x20, 0x20)], m))"
proof -
  have "\<exists>m. dispatch_interrupt boot_env (irq_regs 1) boot_machine = Some (Inr ([(0x20, 0x20)], m))"
  proof -
    have "0 \<le>s (1 :: u32)" "\<not> 8 \<le> (1 :: u8)" by (simp_all add: word_sle_eq word_le_nat_alt)
    moreover have "\<exists>r. push_event 0x1E (cw_ring sample_world) = Inr r"
      using push_event_ring [of new_key_ring "0x1E"] new_ring by (auto simp: sample_world_def)
    ultimately show ?thesis
      using boot_handlers
      by (auto simp: dispatch_interrupt_def irq_service_def call_routine_def irq_regs_def send_end_of_interrupt_def
          handle_interrupt_def Let_def boot_env_def) (auto simp: boot_machine_def boot_vfs_def)
  qed
  then obtain m where d: "dispatch_interrupt boot_env (irq_regs 1) boot_machine = Some (Inr ([(0x20, 0x20)], m))" by blast
  have run: "machine_run boot_machine m"
    by (rule machine_interrupt [OF machine_none boot_ready d])
  show ?thesis
    using d run machine_keeps_sound [OF run] boot_machine_inv by (auto simp: machine_inv_def irq_count_def)
qed

theorem irq_acknowledged_witness:
  "dispatch_interrupt boot_env (irq_regs 9) (boot_machine\<lparr>m_handlers := init_irq_handlers (m_handlers boot_machine)\<rparr>)
    = Some (Inr ([(0xA0, 0x20), (0x20, 0x20)], boot_machine\<lparr>m_handlers := init_irq_handlers (m_handlers boot_machine)\<rparr>))"
proof -
  let ?h = "init_irq_handlers (m_handlers boot_machine)"
  have l: "length ?h = 16" using boot_handlers(1) by (simp add: init_handlers_length)
  have "?h ! 9 = \<lparr>sr_enabled = False, sr_function = Dummy_interrupt\<rparr>"
    using boot_handlers(1) by (simp add: init_irq_handlers_def irq_count_def upt_rec remove_irq_handler_def)
  then show ?thesis
    using irq_acknowledged [of "boot_machine\<lparr>m_handlers := ?h\<rparr>" 9 "irq_regs 9" boot_env] l by (simp add: irq_regs_def)
qed


end
