(* ===== verification/Logger.thy ===== *)
theory Logger
  imports Video Port_Devices
begin

text \<open>
  The logger (kern/lib/logger: message.h and .cpp, filter.h, level_filter.h, standard_filter.h,
  logger.h) and the writing of strings and numbers to a device (kern/include/devices/i_video.h): a
  message is a copy of a string, and goes to the serial port and to the screen if the filters of
  the two let its level pass; numbers are made into strings by \<open>sprintf\<close>.
\<close>

section \<open>Messages\<close>

datatype message_type = Stdout_message | Stderr_message

datatype msg_level = Too_verbose | More_verbose | Verbose_level | Info | Warn | Error_level | Critical

fun level_number :: "msg_level \<Rightarrow> nat" where
  "level_number Too_verbose = 0"
| "level_number More_verbose = 10"
| "level_number Verbose_level = 20"
| "level_number Info = 30"
| "level_number Warn = 40"
| "level_number Error_level = 50"
| "level_number Critical = 60"

definition msg_size :: nat where "msg_size = 1000"

record message =
  message_kind :: message_type
  msg :: "u8 list"
  msg_error :: bool
  msg_level_of :: msg_level

text \<open>
  A pointer to a string is the bytes from there on, of which the string ends with the first 0. The
  copy stops behind the 0 or when the room is used up; bytes that it does not write are \<open>junk\<close>.
  The result is the bytes written and whether the 0 was reached.
\<close>

fun copy_message :: "nat \<Rightarrow> u8 list \<Rightarrow> (u8 list \<times> bool) result" where
  "copy_message 0 src = Inr ([], False)"
| "copy_message (Suc n) [] = Inl Out_of_bounds"
| "copy_message (Suc n) (c # src) =
     (if c = 0 then Inr ([0], True)
      else bind_result (copy_message n src) (\<lambda>(to, done). Inr (c # to, done)))"

definition message_new :: "u8 list \<Rightarrow> u8 list option \<Rightarrow> msg_level \<Rightarrow> message_type \<Rightarrow> message result" where
  "message_new junk text lvl kind =
     (case text of
        None \<Rightarrow> Inr \<lparr>message_kind = kind, msg = junk[0 := 0], msg_error = False, msg_level_of = lvl\<rparr>
      | Some src \<Rightarrow>
          bind_result (copy_message msg_size src) (\<lambda>(to, ended).
            let m = to @ drop (length to) junk
            in Inr \<lparr>message_kind = kind, msg = if ended then m else m[msg_size - 1 := 0],
                    msg_error = \<not> ended, msg_level_of = lvl\<rparr>))"

section \<open>Filters\<close>

datatype filter = Level_filter msg_level | Standard_filter

fun pass :: "filter \<Rightarrow> message \<Rightarrow> bool" where
  "pass (Level_filter lvl) m \<longleftrightarrow> level_number lvl \<le> level_number (msg_level_of m)"
| "pass Standard_filter m \<longleftrightarrow> True"

section \<open>The logger\<close>

text \<open>Strings are written up to their 0.\<close>

definition c_string :: "u8 list \<Rightarrow> u8 list" where
  "c_string bs = takeWhile (\<lambda>c. c \<noteq> 0) bs"

record log_state =
  log_hex :: bool
  std_filter :: filter
  alt_filter :: filter
  std_level :: msg_level
  log_video :: video
  log_ports :: port_writes
  log_reading :: nat

definition new_logger :: "video \<Rightarrow> log_state" where
  "new_logger v = \<lparr>log_hex = False, std_filter = Level_filter Verbose_level, alt_filter = Level_filter More_verbose,
     std_level = Verbose_level, log_video = v, log_ports = [], log_reading = 0\<rparr>"

text \<open>The serial port comes first; a port that never gets ready is \<open>None\<close>.\<close>

definition log_serial :: "(nat \<Rightarrow> u8) \<Rightarrow> message \<Rightarrow> log_state \<Rightarrow> log_state option" where
  "log_serial status m s =
     (if pass (alt_filter s) m
      then (case serial_text status (c_string (msg m)) (log_reading s) of
              None \<Rightarrow> None
            | Some (out, n) \<Rightarrow> Some (s\<lparr>log_ports := log_ports s @ out, log_reading := n\<rparr>))
      else Some s)"

definition log_screen :: "message \<Rightarrow> log_state \<Rightarrow> log_state result" where
  "log_screen m s =
     (if pass (std_filter s) m
      then bind_result (put_text (c_string (msg m)) (log_video s)) (\<lambda>(v, out).
             Inr (s\<lparr>log_video := v, log_ports := log_ports s @ out\<rparr>))
      else Inr s)"

definition log_write :: "(nat \<Rightarrow> u8) \<Rightarrow> message \<Rightarrow> log_state \<Rightarrow> log_state result option" where
  "log_write status m s =
     (case log_serial status m s of None \<Rightarrow> None | Some s1 \<Rightarrow> Some (log_screen m s1))"

section \<open>Numbers\<close>

text \<open>
  The formats of \<open>sprintf\<close> that are used: digits to a base, without zeros in front. A \<open>short\<close>
  argument is cut to 16 bits, and a \<open>long\<close> has 32 bits on this machine.
\<close>

definition digit :: "nat \<Rightarrow> u8" where
  "digit d = (if d < 10 then 0x30 + of_nat d else 0x61 + of_nat (d - 10))"

fun digits :: "nat \<Rightarrow> nat \<Rightarrow> u8 list" where
  "digits b n = (if n < b \<or> b < 2 then [digit n] else digits b (n div b) @ [digit (n mod b)])"

declare digits.simps [simp del]

definition text_dec :: "nat \<Rightarrow> u8 list" where "text_dec n = digits 10 n"
definition text_hex :: "nat \<Rightarrow> u8 list" where "text_hex n = [0x30, 0x78] @ digits 16 n"

definition text_signed :: "int \<Rightarrow> u8 list" where
  "text_signed i = (if i < 0 then 0x2D # text_dec (nat (- i)) else text_dec (nat i))"

text \<open>The operands of the logger, signed and unsigned of each width, as the bits they are.\<close>

datatype log_number = N_u8 u8 | N_s8 u8 | N_u16 u16 | N_s16 u16 | N_u32 u32 | N_s32 u32 | N_u64 u64 | N_s64 u64

definition long_text :: "bool \<Rightarrow> u64 \<Rightarrow> u8 list" where
  "long_text hex n = (let l = (ucast n :: u32) in if hex then text_hex (unat l) else text_dec (unat l))"

fun number_text :: "bool \<Rightarrow> log_number \<Rightarrow> u8 list" where
  "number_text hex (N_u8 n) = (let h = (ucast n :: u16) in if hex then text_hex (unat h) else text_dec (unat h))"
| "number_text hex (N_s8 n) = (let h = (scast n :: u16) in if hex then text_hex (unat h) else text_signed (sint h))"
| "number_text hex (N_u16 n) = (if hex then text_hex (unat n) else text_dec (unat n))"
| "number_text hex (N_s16 n) = (if hex then text_hex (unat n) else text_signed (sint n))"
| "number_text hex (N_u32 n) = (if hex then text_hex (unat n) else text_dec (unat n))"
| "number_text hex (N_s32 n) = (if hex then text_hex (unat n) else text_signed (sint n))"
| "number_text hex (N_u64 n) = long_text hex n"
| "number_text hex (N_s64 n) = long_text hex n"

fun number_buffer :: "log_number \<Rightarrow> nat" where
  "number_buffer (N_u64 n) = 30"
| "number_buffer (N_s64 n) = 30"
| "number_buffer _ = 15"

text \<open>The text and the 0 behind it must have room in the buffer.\<close>

definition sprintf_into :: "nat \<Rightarrow> u8 list \<Rightarrow> u8 list result" where
  "sprintf_into room text = (if length text < room then Inr (text @ [0]) else Inl Out_of_bounds)"

section \<open>What can be put into the logger\<close>

datatype log_item =
    Log_text "u8 list option"
  | Log_char u8
  | Log_number log_number
  | Log_message message
  | Log_endl
  | Log_hex
  | Log_dec
  | Log_level msg_level

definition put_string :: "(nat \<Rightarrow> u8) \<Rightarrow> u8 list \<Rightarrow> u8 list option \<Rightarrow> log_state \<Rightarrow> log_state result option" where
  "put_string status junk text s =
     (case message_new junk text (std_level s) Stdout_message of
        Inl e \<Rightarrow> Some (Inl e)
      | Inr m \<Rightarrow> log_write status m s)"

fun log_put :: "(nat \<Rightarrow> u8) \<Rightarrow> u8 list \<Rightarrow> log_item \<Rightarrow> log_state \<Rightarrow> log_state result option" where
  "log_put status junk (Log_text t) s = put_string status junk t s"
| "log_put status junk (Log_char c) s = put_string status junk (Some [c, 0]) s"
| "log_put status junk (Log_number n) s =
     (case sprintf_into (number_buffer n) (number_text (log_hex s) n) of
        Inl e \<Rightarrow> Some (Inl e)
      | Inr buffer \<Rightarrow> put_string status junk (Some buffer) s)"
| "log_put status junk (Log_message m) s = log_write status m s"
| "log_put status junk Log_endl s = put_string status junk (Some [0x0A, 0]) s"
| "log_put status junk Log_hex s = Some (Inr (s\<lparr>log_hex := True\<rparr>))"
| "log_put status junk Log_dec s = Some (Inr (s\<lparr>log_hex := False\<rparr>))"
| "log_put status junk (Log_level l) s = Some (Inr (s\<lparr>std_level := l\<rparr>))"

fun log_print :: "(nat \<Rightarrow> u8) \<Rightarrow> u8 list \<Rightarrow> log_item list \<Rightarrow> log_state \<Rightarrow> log_state result option" where
  "log_print status junk [] s = Some (Inr s)"
| "log_print status junk (i # is) s =
     (case log_put status junk i s of
        None \<Rightarrow> None
      | Some (Inl e) \<Rightarrow> Some (Inl e)
      | Some (Inr s1) \<Rightarrow> log_print status junk is s1)"

definition stdfilter :: "filter \<Rightarrow> log_state \<Rightarrow> filter \<times> log_state" where
  "stdfilter flt s = (std_filter s, s\<lparr>std_filter := flt\<rparr>)"

definition altfilter :: "filter \<Rightarrow> log_state \<Rightarrow> filter \<times> log_state" where
  "altfilter flt s = (alt_filter s, s\<lparr>alt_filter := flt\<rparr>)"

text \<open>
  A screen writes numbers on its own, without a prefix; in decimal they are signed ones, whether the
  operand is or not. Operands of 8 and 16 bits are widened to 32 before.
\<close>

definition video_text32 :: "bool \<Rightarrow> u32 \<Rightarrow> u8 list" where
  "video_text32 hex n = (if hex then digits 16 (unat n) else text_signed (sint n))"

definition video_text64 :: "bool \<Rightarrow> u64 \<Rightarrow> u8 list" where
  "video_text64 hex n = video_text32 hex (ucast n)"

section \<open>Copies of strings\<close>

lemma copy_message_text:
  assumes "0 \<notin> set cs"
  shows "copy_message n (cs @ 0 # rest) = Inr (if length cs < n then (cs @ [0], True) else (take n cs, False))"
  using assms
proof (induction n arbitrary: cs)
  case (Suc n)
  then show ?case by (cases cs) auto
qed simp

lemma c_string_text: "0 \<notin> set cs \<Longrightarrow> c_string (cs @ 0 # rest) = cs"
  by (simp add: c_string_def takeWhile_append)

lemma message_text:
  assumes "0 \<notin> set cs" and "length junk = 1000"
  shows "\<exists>m. message_new junk (Some (cs @ 0 # rest)) lvl kind = Inr m
    \<and> length (msg m) = 1000 \<and> c_string (msg m) = take 999 cs \<and> (msg_error m \<longleftrightarrow> 1000 \<le> length cs) \<and> msg_level_of m = lvl"
proof (cases "length cs < 1000")
  case True
  then show ?thesis
    using copy_message_text [OF assms(1), of 1000 rest] assms
    by (simp add: message_new_def msg_size_def c_string_text)
next
  case False
  have t: "take 1000 cs = take 999 cs @ [cs ! 999]" using False take_Suc_conv_app_nth [of 999 cs] by simp
  have l: "length (take 999 cs) = 999" using False by simp
  have "(ys @ [c])[999 := 0] = ys @ 0 # []" if "length ys = 999" for ys and c :: u8
    using that by (simp add: list_update_append)
  from this [OF l] have "(take 1000 cs)[999 := 0] = take 999 cs @ 0 # []" unfolding t .
  moreover have "0 \<notin> set (take 999 cs)" using assms(1) by (meson in_set_takeD)
  ultimately show ?thesis
    using copy_message_text [OF assms(1), of 1000 rest] assms False c_string_text [of "take 999 cs" "[]"]
    by (simp add: message_new_def msg_size_def)
qed

text \<open>A message holds its string, cut to the 999 characters that have room. Whatever the length
  of the string, the 1000 bytes of the message are what they are, the string read from them is
  the first 999 characters, and the error is set just when something was cut off.\<close>

theorem message_holds_text:
  assumes "0 \<notin> set cs" and "length junk = 1000"
  shows "\<exists>m. message_new junk (Some (cs @ 0 # rest)) lvl kind = Inr m
    \<and> length (msg m) = 1000 \<and> c_string (msg m) = take 999 cs \<and> (msg_error m \<longleftrightarrow> 1000 \<le> length cs) \<and> msg_level_of m = lvl"
  using assms by (rule message_text)

theorem message_holds_text_witness:
  "\<exists>m. message_new (replicate 1000 7) (Some ([0x41, 0x42] @ 0 # [9])) Info Stdout_message = Inr m
    \<and> length (msg m) = 1000 \<and> c_string (msg m) = [0x41, 0x42] \<and> \<not> msg_error m"
  using message_holds_text [of "[0x41, 0x42]" "replicate 1000 7" "[9]" Info Stdout_message] by auto

section \<open>Where messages go\<close>

lemma log_write_out:
  assumes "\<And>n. \<exists>m\<ge>n. status m AND 0x20 \<noteq> 0" and "video_ok (log_video s)"
  shows "\<exists>t pre out. log_write status m s = Some (Inr t) \<and> video_ok (log_video t)
    \<and> video_terminal (log_video t)
      = (if pass (std_filter s) m
         then fold (\<lambda>c. term_put (blank (log_video s)) (cell c (log_video s)) c) (c_string (msg m)) (video_terminal (log_video s))
         else video_terminal (log_video s))
    \<and> log_ports t = log_ports s
        @ (if pass (alt_filter s) m then map (Pair 0x3F8) (serial_bytes (c_string (msg m))) else []) @ out
    \<and> (\<not> pass (std_filter s) m \<longrightarrow> out = [] \<and> log_video t = log_video s)"
proof -
  obtain s1 where s1: "log_serial status m s = Some s1" "log_video s1 = log_video s" "std_filter s1 = std_filter s"
    "log_ports s1 = log_ports s @ (if pass (alt_filter s) m then map (Pair 0x3F8) (serial_bytes (c_string (msg m))) else [])"
    using serial_text_ready [OF assms(1), of "c_string (msg m)" "log_reading s"]
    by (cases "pass (alt_filter s) m") (auto simp: log_serial_def)
  show ?thesis
    using s1 put_text_ok [OF assms(2), of "c_string (msg m)"] assms(2)
    by (cases "pass (std_filter s) m") (auto simp: log_write_def log_screen_def)
qed

section \<open>Numbers and their texts\<close>

text \<open>How a reader takes a text: with a prefix to base 16, otherwise to base 10 with a sign.\<close>

definition digit_value :: "u8 \<Rightarrow> nat" where
  "digit_value c = (if unat c < 0x3A then unat c - 0x30 else unat c - 0x57)"

definition digits_value :: "nat \<Rightarrow> u8 list \<Rightarrow> nat" where
  "digits_value b = foldl (\<lambda>v c. v * b + digit_value c) 0"

definition read_number :: "u8 list \<Rightarrow> int" where
  "read_number cs =
     (if take 2 cs = [0x30, 0x78] then int (digits_value 16 (drop 2 cs))
      else if take 1 cs = [0x2D] then - int (digits_value 10 (drop 1 cs))
      else int (digits_value 10 cs))"

definition is_digit :: "u8 \<Rightarrow> bool" where
  "is_digit c \<longleftrightarrow> c \<noteq> 0 \<and> c \<noteq> 0x2D \<and> c \<noteq> 0x78"

lemma digit_ok:
  assumes "d < 16"
  shows "digit_value (digit d) = d \<and> is_digit (digit d)"
proof -
  let ?m = "if d < 10 then 48 + d else 87 + d"
  have "digit d = of_nat ?m" by (simp add: digit_def of_nat_diff)
  moreover have "?m < 256" using assms by simp
  ultimately have u: "unat (digit d) = ?m" by (simp only:) (simp add: unat_of_nat take_bit_nat_eq_self)
  then have "unat (digit d) \<noteq> unat (0 :: u8)" "unat (digit d) \<noteq> unat (0x2D :: u8)" "unat (digit d) \<noteq> unat (0x78 :: u8)"
    using assms by auto
  then have "is_digit (digit d)" by (metis is_digit_def)
  then show ?thesis using u assms by (auto simp: digit_value_def)
qed

lemma digits_small: "n < b \<Longrightarrow> digits b n = [digit n]"
  by (subst digits.simps) simp

lemma digits_step: "\<not> n < b \<Longrightarrow> 2 \<le> b \<Longrightarrow> digits b n = digits b (n div b) @ [digit (n mod b)]"
  by (subst digits.simps) simp

lemma digits_value_snoc: "digits_value b (xs @ [c]) = digits_value b xs * b + digit_value c"
  by (simp add: digits_value_def)

lemma digits_ok:
  assumes "2 \<le> b" and "b \<le> 16"
  shows "digits_value b (digits b n) = n \<and> (\<forall>c \<in> set (digits b n). is_digit c) \<and> digits b n \<noteq> []"
proof (induction n rule: less_induct)
  case (less n)
  show ?case
  proof (cases "n < b")
    case True
    then show ?thesis using assms digit_ok [of n] digits_value_snoc [of b "[]"] by (simp add: digits_small digits_value_def)
  next
    case False
    have "n mod b < 16" using assms mod_less_divisor [of b n] by linarith
    moreover have "n div b < n" using False assms by simp
    ultimately show ?thesis
      using less.IH [of "n div b"] digit_ok [of "n mod b"] assms
      by (simp add: digits_step [OF False assms(1)] digits_value_snoc)
  qed
qed

lemma digits_length:
  assumes "2 \<le> b"
  shows "n < b ^ Suc k \<Longrightarrow> length (digits b n) \<le> Suc k"
proof (induction k arbitrary: n)
  case 0
  then show ?case by (simp add: digits_small)
next
  case (Suc k)
  show ?case
  proof (cases "n < b")
    case True
    then show ?thesis by (simp add: digits_small)
  next
    case False
    have "n div b < b ^ Suc k" using Suc.prems by (simp add: less_mult_imp_div_less mult.commute)
    from Suc.IH [OF this] show ?thesis using False assms by (simp add: digits_step)
  qed
qed

lemma text_dec_ok: "read_number (text_dec n) = int n \<and> 0 \<notin> set (text_dec n)"
proof -
  obtain c cs where d: "digits 10 n = c # cs" using digits_ok [of 10 n] by (cases "digits 10 n") auto
  show ?thesis using digits_ok [of 10 n] unfolding text_dec_def d
    by (cases cs) (auto simp: read_number_def is_digit_def)
qed

lemma text_hex_ok: "read_number (text_hex n) = int n \<and> 0 \<notin> set (text_hex n)"
  using digits_ok [of 16 n] by (auto simp: text_hex_def read_number_def is_digit_def)

lemma text_signed_ok: "read_number (text_signed i) = i \<and> 0 \<notin> set (text_signed i)"
proof (cases "i < 0")
  case True
  have "digits_value 10 (text_dec (nat (- i))) = nat (- i)" using digits_ok [of 10] by (simp add: text_dec_def)
  then show ?thesis using True text_dec_ok [of "nat (- i)"] by (simp add: text_signed_def read_number_def)
qed (simp add: text_signed_def text_dec_ok)

lemma text_dec_length: "n < 10 ^ Suc k \<Longrightarrow> length (text_dec n) \<le> Suc k"
  unfolding text_dec_def by (rule digits_length) simp_all

lemma text_hex_length: "n < 16 ^ Suc k \<Longrightarrow> length (text_hex n) \<le> Suc k + 2"
  unfolding text_hex_def using digits_length [of 16 n k] by simp

lemma text_signed_length:
  assumes "- (10 ^ Suc k) < i" and "i < 10 ^ Suc k"
  shows "length (text_signed i) \<le> Suc k + 1"
proof -
  have "nat (- i) < nat (10 ^ Suc k)" "nat i < nat (10 ^ Suc k)" using assms by linarith+
  then have "nat (- i) < 10 ^ Suc k" "nat i < 10 ^ Suc k" by (simp_all only: nat_power_eq nat_numeral)
  then show ?thesis
    using text_dec_length [of "nat (- i)" k] text_dec_length [of "nat i" k] by (simp add: text_signed_def)
qed

text \<open>
  What a reader sees: the number in decimal and its bits in hexadecimal, where numbers of 8 bits
  with a sign are widened to 16 bits and numbers of 64 bits are cut to 32 without a sign.
\<close>

fun shown_value :: "bool \<Rightarrow> log_number \<Rightarrow> int" where
  "shown_value hex (N_u8 n) = uint n"
| "shown_value hex (N_s8 n) = (if hex then sint n mod 2 ^ 16 else sint n)"
| "shown_value hex (N_u16 n) = uint n"
| "shown_value hex (N_s16 n) = (if hex then uint n else sint n)"
| "shown_value hex (N_u32 n) = uint n"
| "shown_value hex (N_s32 n) = (if hex then uint n else sint n)"
| "shown_value hex (N_u64 n) = uint n mod 2 ^ 32"
| "shown_value hex (N_s64 n) = uint n mod 2 ^ 32"

lemma uint_scast: "uint (scast (n :: u8) :: u16) = sint n mod 2 ^ 16"
  unfolding scast_eq uint_word_of_int by simp

lemma sint_scast: "sint (scast (n :: u8) :: u16) = sint n"
  by (rule sint_up_scast) (simp add: is_up)

lemma uint_ucast8: "uint (ucast (n :: u8) :: u16) = uint n"
  by (rule uint_up_ucast) (simp add: is_up)

lemma uint_ucast64: "uint (ucast (n :: u64) :: u32) = uint n mod 2 ^ 32"
  unfolding ucast_eq uint_word_of_int by simp

lemma number_text_ok: "read_number (number_text hex n) = shown_value hex n \<and> 0 \<notin> set (number_text hex n)"
  using uint_scast uint_ucast64
  by (cases n) (simp_all add: Let_def long_text_def text_dec_ok text_hex_ok text_signed_ok sint_scast uint_ucast8)

lemma unsigned_room: "n < 2 ^ 32 \<Longrightarrow> length (text_dec n) < 15 \<and> length (text_hex n) < 15"
  using text_dec_length [of n 9] text_hex_length [of n 7] by simp

lemma signed_room: "- (2 ^ 31) \<le> i \<Longrightarrow> i < 2 ^ 31 \<Longrightarrow> length (text_signed i) < 15"
  using text_signed_length [of 9 i] by simp

lemma room16: "length (text_dec (unat (w :: u16))) < 15" "length (text_hex (unat w)) < 15" "length (text_signed (sint w)) < 15"
  using unsigned_room [of "unat w"] signed_room [of "sint w"] unat_lt16 [of w] sint_ge [of w] sint_lt [of w] by simp_all

lemma room32: "length (text_dec (unat (w :: u32))) < 15" "length (text_hex (unat w)) < 15" "length (text_signed (sint w)) < 15"
  using unsigned_room [of "unat w"] signed_room [of "sint w"] unat_lt32 [of w] sint_ge [of w] sint_lt [of w] by simp_all

lemma number_text_room: "length (number_text hex n) < number_buffer n"
  using room32 [THEN less_trans, where z = 30] by (cases n) (simp_all add: Let_def long_text_def room16 room32)

text \<open>The string of an item, of those that have one.\<close>

fun item_string :: "bool \<Rightarrow> log_item \<Rightarrow> u8 list option" where
  "item_string hex (Log_text None) = Some []"
| "item_string hex (Log_text (Some src)) = (if 0 \<in> set src then Some (c_string src) else None)"
| "item_string hex (Log_char c) = Some (if c = 0 then [] else [c])"
| "item_string hex (Log_number n) = Some (number_text hex n)"
| "item_string hex Log_endl = Some [0x0A]"
| "item_string hex _ = None"

lemma log_put_string:
  assumes "item_string (log_hex s) i = Some cs" and "length junk = 1000"
  shows "\<exists>m. log_put status junk i s = log_write status m s \<and> c_string (msg m) = take 999 cs \<and> msg_level_of m = std_level s"
proof -
  have say: "\<exists>m. put_string status junk (Some (xs @ 0 # rest)) s = log_write status m s
      \<and> c_string (msg m) = take 999 xs \<and> msg_level_of m = std_level s" if "0 \<notin> set xs" for xs rest
    using message_text [OF that assms(2), of rest "std_level s" Stdout_message] by (auto simp: put_string_def)
  show ?thesis
  proof (cases i)
    case (Log_text t)
    show ?thesis
    proof (cases t)
      case None
      then show ?thesis using Log_text assms
        by (cases junk) (auto simp: put_string_def message_new_def c_string_def)
    next
      case (Some src)
      then have "0 \<in> set src" "cs = c_string src" using Log_text assms by (auto split: if_splits)
      then obtain xs rest where "src = xs @ 0 # rest" "0 \<notin> set xs" by (meson split_list_first)
      then show ?thesis using Log_text Some \<open>cs = c_string src\<close> say [of xs rest] by (simp add: c_string_text)
    qed
  next
    case (Log_char c)
    then show ?thesis using assms say [of "[]" "[0]"] say [of "[c]" "[]"] by (cases "c = 0") auto
  next
    case (Log_number n)
    then show ?thesis using assms number_text_room [of "log_hex s" n] number_text_ok [of "log_hex s" n] say [of cs "[]"]
      by (auto simp: sprintf_into_def)
  next
    case Log_endl
    then show ?thesis using assms say [of "[0x0A]" "[]"] by auto
  qed (use assms in simp_all)
qed

text \<open>C20: what is logged is seen on the outputs whose filters let it pass. Texts, characters, numbers
  and ends of lines are put into the logger; when the serial port gets ready again and again, the
  string of the item, cut to 999 characters, is sent through it if the level of the logger reaches
  that of its filter, and is shown by the screen if the level reaches that of the screen's filter;
  otherwise neither changes.\<close>

theorem logged_item_seen:
  assumes "\<And>n. \<exists>m\<ge>n. status m AND 0x20 \<noteq> 0" and "length (videomem (log_video s)) = 2000"
    and "cursor_x (log_video s) < 80" and "cursor_y (log_video s) < 25"
    and "item_string (log_hex s) i = Some cs" and "length junk = 1000"
    and "std_filter s = Level_filter shown" and "alt_filter s = Level_filter sent"
  shows "\<exists>t out. log_put status junk i s = Some (Inr t)
    \<and> video_terminal (log_video t)
      = (if level_number shown \<le> level_number (std_level s)
         then fold (\<lambda>c. term_put (blank (log_video s)) (cell c (log_video s)) c) (take 999 cs) (video_terminal (log_video s))
         else video_terminal (log_video s))
    \<and> log_ports t = log_ports s
        @ (if level_number sent \<le> level_number (std_level s) then map (Pair 0x3F8) (serial_bytes (take 999 cs)) else []) @ out
    \<and> (\<not> level_number shown \<le> level_number (std_level s) \<longrightarrow> out = [] \<and> log_video t = log_video s)"
proof -
  from log_put_string [OF assms(5,6), of status] obtain m where
    m: "log_put status junk i s = log_write status m s" "c_string (msg m) = take 999 cs" "msg_level_of m = std_level s" by blast
  have "video_ok (log_video s)" using assms(2-4) by (simp add: video_ok_def)
  from log_write_out [of status, OF assms(1) this, of m] show ?thesis
    using m by (auto simp: assms(7,8))
qed

theorem logged_item_seen_witness:
  "\<exists>t out. log_put (\<lambda>_. 0x20) (replicate 1000 7) (Log_char 0x41) (new_logger sample_screen) = Some (Inr t)
    \<and> video_terminal (log_video t) = term_put 0x0F20 0x0F41 0x41 (video_terminal sample_screen)
    \<and> log_ports t = [(0x3F8, 0x41)] @ out"
  using logged_item_seen [of "\<lambda>_. 0x20" "new_logger sample_screen" "Log_char 0x41" "[0x41]" "replicate 1000 7" Verbose_level More_verbose]
  by (auto simp: new_logger_def sample_screen_def new_video_def blank_def cell_def serial_bytes_def)

text \<open>C38: a number that is put into the logger fits the buffer that its text is made in, and the text
  tells the number: its value in decimal and its bits in hexadecimal. Numbers of 64 bits lose
  their upper half and their sign.\<close>

theorem number_logged:
  "\<exists>buffer text. sprintf_into (number_buffer n) (number_text hex n) = Inr buffer \<and> item_string hex (Log_number n) = Some text
    \<and> c_string buffer = text \<and> read_number text = shown_value hex n"
  using number_text_room [of hex n] number_text_ok [of hex n] c_string_text [of "number_text hex n" "[]"]
  by (simp add: sprintf_into_def)

text \<open>The upper half of a number of 64 bits is not logged. Two of them with the same lower half are
  logged the same, in decimal and in hexadecimal, with or without a sign, and just as the lower half alone.\<close>

theorem long_number_cut:
  "number_text hex (N_u64 n) = number_text hex (N_u32 (ucast n)) \<and> number_text hex (N_s64 n) = number_text hex (N_u32 (ucast n))
    \<and> video_text64 hex n = video_text32 hex (ucast n)"
  by (simp add: video_text64_def long_text_def)

text \<open>A number of 8 bits with a sign is logged in hexadecimal with 16 bits when it is negative: -1 is
  0xffff, and not 0xff.\<close>

theorem negative_byte_widened:
  "item_string True (Log_number (N_s8 0xFF)) = Some [0x30, 0x78, 0x66, 0x66, 0x66, 0x66]
    \<and> item_string True (Log_number (N_u8 0xFF)) = Some [0x30, 0x78, 0x66, 0x66]"
proof -
  have "unat (- 1 :: u16) = 65535" "unat (- 1 :: u8) = 255" by (simp_all add: unsigned_minus_1_eq_mask mask_eq_exp_minus_1)
  then show ?thesis by (simp add: text_hex_def digit_def digits.simps [of 16] Let_def)
qed

text \<open>The screen writes unsigned numbers of 32 bits in decimal as signed ones.\<close>

theorem screen_number_signed:
  "read_number (video_text32 False n) = sint n \<and> digits_value 16 (video_text32 True n) = unat n"
  using text_signed_ok [of "sint n"] digits_ok [of 16 "unat n"] by (simp add: video_text32_def)

end
