(* ===== verification/Boot_Info.thy ===== *)
theory Boot_Info
  imports Byte_Fields
begin

text \<open>
  What the boot loader tells the kernel (kern/arch/x86/multiboot/multiboot.h and .cpp) and the
  registers of the processor that control paging (kern/arch/x86/devices/memory.cpp and memory.h).
\<close>

section \<open>The information of the boot loader\<close>

text \<open>Pointers are the addresses they hold; the two readings of \<open>syms\<close> are the same four words.\<close>

record multiboot_info =
  info_flags :: u32
  mem_lower :: u32
  mem_upper :: u32
  boot_device :: u32
  cmdline :: u32
  mods_count :: u32
  mods_addr :: u32
  sym_num :: u32
  sym_size :: u32
  sym_addr :: u32
  sym_shndx :: u32
  mmap_length :: u32
  mmap_addr :: u32
  drives_length :: u32
  drives_addr :: u32
  config_table_addr :: u32
  boot_loader_name :: u32
  apm_addr :: u32
  vbe_control_info :: u32
  vbe_mode_info :: u32
  vbe_mode :: u32
  vbe_interface_seg :: u32
  vbe_interface_off :: u32
  vbe_interface_len :: u32

text \<open>The layout is packed: the fields are the words of the structure one after the other.\<close>

definition multiboot_info_of :: "u8 list \<Rightarrow> multiboot_info" where
  "multiboot_info_of bs =
     (let w = (\<lambda>i. le32 bs (4 * i)) in
      \<lparr>info_flags = w 0, mem_lower = w 1, mem_upper = w 2, boot_device = w 3, cmdline = w 4, mods_count = w 5,
       mods_addr = w 6, sym_num = w 7, sym_size = w 8, sym_addr = w 9, sym_shndx = w 10, mmap_length = w 11,
       mmap_addr = w 12, drives_length = w 13, drives_addr = w 14, config_table_addr = w 15,
       boot_loader_name = w 16, apm_addr = w 17, vbe_control_info = w 18, vbe_mode_info = w 19, vbe_mode = w 20,
       vbe_interface_seg = w 21, vbe_interface_off = w 22, vbe_interface_len = w 23\<rparr>)"

definition bootloader_magic :: u32 where "bootloader_magic = 0x2BADB002"

record multiboot =
  mb_info :: multiboot_info
  mb_magic :: u32

definition set_info :: "u32 \<Rightarrow> multiboot_info \<Rightarrow> multiboot \<Rightarrow> multiboot" where
  "set_info magic info mb = mb\<lparr>mb_magic := magic, mb_info := info\<rparr>"

definition multiboot_info_valid :: "multiboot \<Rightarrow> bool" where
  "multiboot_info_valid mb \<longleftrightarrow> mb_magic mb = bootloader_magic"

definition mem_field_present :: "multiboot \<Rightarrow> bool" where
  "mem_field_present mb \<longleftrightarrow> info_flags (mb_info mb) AND 0x1 \<noteq> 0"

definition boot_device_field_present :: "multiboot \<Rightarrow> bool" where
  "boot_device_field_present mb \<longleftrightarrow> info_flags (mb_info mb) AND 0x2 \<noteq> 0"

definition cmdline_field_present :: "multiboot \<Rightarrow> bool" where
  "cmdline_field_present mb \<longleftrightarrow> info_flags (mb_info mb) AND 0x4 \<noteq> 0"

definition modules_field_present :: "multiboot \<Rightarrow> bool" where
  "modules_field_present mb \<longleftrightarrow> info_flags (mb_info mb) AND 0x8 \<noteq> 0"

definition aout_symbol_table_field_present :: "multiboot \<Rightarrow> bool" where
  "aout_symbol_table_field_present mb \<longleftrightarrow> info_flags (mb_info mb) AND 0x10 \<noteq> 0"

definition elf_section_field_present :: "multiboot \<Rightarrow> bool" where
  "elf_section_field_present mb \<longleftrightarrow> info_flags (mb_info mb) AND 0x20 \<noteq> 0"

definition memory_map_field_present :: "multiboot \<Rightarrow> bool" where
  "memory_map_field_present mb \<longleftrightarrow> info_flags (mb_info mb) AND 0x40 \<noteq> 0"

definition drives_field_present :: "multiboot \<Rightarrow> bool" where
  "drives_field_present mb \<longleftrightarrow> info_flags (mb_info mb) AND 0x80 \<noteq> 0"

definition config_table_field_present :: "multiboot \<Rightarrow> bool" where
  "config_table_field_present mb \<longleftrightarrow> info_flags (mb_info mb) AND 0x100 \<noteq> 0"

definition boot_loader_name_field_present :: "multiboot \<Rightarrow> bool" where
  "boot_loader_name_field_present mb \<longleftrightarrow> info_flags (mb_info mb) AND 0x200 \<noteq> 0"

definition apm_table_present :: "multiboot \<Rightarrow> bool" where
  "apm_table_present mb \<longleftrightarrow> info_flags (mb_info mb) AND 0x400 \<noteq> 0"

definition vbe_control_field_present :: "multiboot \<Rightarrow> bool" where
  "vbe_control_field_present mb \<longleftrightarrow> info_flags (mb_info mb) AND 0x800 \<noteq> 0"

definition get_memory_map :: "multiboot \<Rightarrow> u32" where
  "get_memory_map mb = mmap_addr (mb_info mb)"

definition get_memory_map_length :: "multiboot \<Rightarrow> u32" where
  "get_memory_map_length mb = mmap_length (mb_info mb)"

definition get_memory_lower :: "multiboot \<Rightarrow> u32" where
  "get_memory_lower mb = mem_lower (mb_info mb)"

definition get_memory_upper :: "multiboot \<Rightarrow> u32" where
  "get_memory_upper mb = mem_upper (mb_info mb) + 1024 * 1024"

definition get_drive_map_length :: "multiboot \<Rightarrow> u32" where
  "get_drive_map_length mb = drives_length (mb_info mb)"

definition get_drive_map :: "multiboot \<Rightarrow> u32" where
  "get_drive_map mb = drives_addr (mb_info mb)"

section \<open>The control registers\<close>

record control =
  cr0 :: u32
  cr3 :: u32
  cr4 :: u32

definition set_paging :: "bool \<Rightarrow> control \<Rightarrow> control" where
  "set_paging enable c = c\<lparr>cr0 := if enable then cr0 c OR 0x80000000 else cr0 c AND 0x7FFFFFFF\<rparr>"

definition paging :: "control \<Rightarrow> bool" where
  "paging c \<longleftrightarrow> cr0 c AND 0x80000000 = 0x80000000"

definition init_cr4 :: "control \<Rightarrow> control" where
  "init_cr4 c = c\<lparr>cr4 := cr4 c OR 0x10 OR 0x80\<rparr>"

definition set_page_table :: "u32 \<Rightarrow> control \<Rightarrow> control" where
  "set_page_table p c = c\<lparr>cr3 := p\<rparr>"

text \<open>A guard of a scope: what it keeps, and what its destructor does with it.\<close>

definition scoped_paging_off_new :: "bool \<Rightarrow> control \<Rightarrow> bool \<times> control" where
  "scoped_paging_off_new preserve c = (if preserve then paging c else True, set_paging False c)"

definition scoped_paging_off_delete :: "bool \<Rightarrow> control \<Rightarrow> control" where
  "scoped_paging_off_delete old c = set_paging old c"

text \<open>The body of a scope and the scopes within it.\<close>

datatype code = Step "control \<Rightarrow> control" | Scope bool "code list"

fun run_code :: "code \<Rightarrow> control \<Rightarrow> control"
  and run_codes :: "code list \<Rightarrow> control \<Rightarrow> control" where
  "run_code (Step f) c = f c"
| "run_code (Scope preserve body) c =
     (let (old, c1) = scoped_paging_off_new preserve c in scoped_paging_off_delete old (run_codes body c1))"
| "run_codes [] c = c"
| "run_codes (x # xs) c = run_codes xs (run_code x c)"

section \<open>Flags of the boot loader\<close>

lemma and_bit: "(w :: u32) AND push_bit n 1 \<noteq> 0 \<longleftrightarrow> bit w n"
  by (simp add: and_exp_eq_0_iff_not_bit push_bit_eq_mult)

text \<open>The fields that the boot loader has filled in are told by one bit of the flags each.\<close>

theorem flags_tell_fields:
  "[mem_field_present mb, boot_device_field_present mb, cmdline_field_present mb, modules_field_present mb,
    aout_symbol_table_field_present mb, elf_section_field_present mb, memory_map_field_present mb, drives_field_present mb,
    config_table_field_present mb, boot_loader_name_field_present mb, apm_table_present mb, vbe_control_field_present mb]
   = map (bit (info_flags (mb_info mb))) [0 ..< 12]"
proof -
  have "[0 ..< 12] = [0, 1, 2, 3, 4, 5, 6, 7, 8, 9, 10, 11 :: nat]" by (simp add: upt_rec)
  then show ?thesis
    using and_bit [of "info_flags (mb_info mb)" 0] and_bit [of "info_flags (mb_info mb)" 1] and_bit [of "info_flags (mb_info mb)" 2]
      and_bit [of "info_flags (mb_info mb)" 3] and_bit [of "info_flags (mb_info mb)" 4] and_bit [of "info_flags (mb_info mb)" 5]
      and_bit [of "info_flags (mb_info mb)" 6] and_bit [of "info_flags (mb_info mb)" 7] and_bit [of "info_flags (mb_info mb)" 8]
      and_bit [of "info_flags (mb_info mb)" 9] and_bit [of "info_flags (mb_info mb)" 10] and_bit [of "info_flags (mb_info mb)" 11]
    by (simp add: mem_field_present_def boot_device_field_present_def cmdline_field_present_def modules_field_present_def
        aout_symbol_table_field_present_def elf_section_field_present_def memory_map_field_present_def
        drives_field_present_def config_table_field_present_def boot_loader_name_field_present_def
        apm_table_present_def vbe_control_field_present_def push_bit_eq_mult)
qed

text \<open>The size of the upper memory is given in units of 1024 bytes, and what is added to it is the
  number of bytes of one megabyte: 31 megabytes of upper memory become 1055 megabytes.\<close>

theorem upper_memory_mixes_units:
  "get_memory_upper (mb\<lparr>mb_info := (mb_info mb)\<lparr>mem_upper := 31 * 1024\<rparr>\<rparr>) = 1055 * 1024"
  by (simp add: get_memory_upper_def)

section \<open>Scopes without paging\<close>

lemma paging_set: "paging (set_paging b c) = b"
proof -
  have "(w OR 0x80000000) AND 0x80000000 = (0x80000000 :: u32)" for w
    by (rule bit_word_eqI) (auto simp: bit_simps)
  moreover have "(w AND 0x7FFFFFFF) AND 0x80000000 = (0 :: u32)" for w
    by (simp add: and.assoc)
  ultimately show ?thesis by (simp add: paging_def set_paging_def)
qed

lemma set_paging_other:
  assumes "k \<noteq> 31"
  shows "bit (cr0 (set_paging b c)) k = bit (cr0 c) k"
proof -
  have "bit (push_bit 31 1 :: u32) k \<longleftrightarrow> k = 31" by (auto simp only: bit_push_bit_iff bit_1_iff) simp_all
  then have p: "\<not> bit (0x80000000 :: u32) k" using assms by (simp add: push_bit_eq_mult)
  have "bit (Bit_Operations.mask 31 :: u32) k \<longleftrightarrow> k < 31" by (auto simp: bit_mask_iff)
  then have q: "bit (0x7FFFFFFF :: u32) k \<longleftrightarrow> k < 31" by (simp add: mask_eq_exp_minus_1)
  show ?thesis using assms p q bit_imp_le_length [of "cr0 c" k]
    by (auto simp: set_paging_def bit_or_iff bit_and_iff)
qed

text \<open>
  A body is tame if its steps leave the paging flag alone and its scopes preserve the old value.
  What the steps see is whether paging is enabled when they run.
\<close>

definition keeps_paging :: "(control \<Rightarrow> control) \<Rightarrow> bool" where
  "keeps_paging f \<longleftrightarrow> (\<forall>c. paging (f c) = paging c)"

fun tame :: "code \<Rightarrow> bool" where
  "tame (Step f) \<longleftrightarrow> keeps_paging f"
| "tame (Scope preserve body) \<longleftrightarrow> preserve \<and> list_all tame body"

fun seen :: "code \<Rightarrow> control \<Rightarrow> bool list"
  and seen_all :: "code list \<Rightarrow> control \<Rightarrow> bool list" where
  "seen (Step f) c = [paging c]"
| "seen (Scope preserve body) c = seen_all body (snd (scoped_paging_off_new preserve c))"
| "seen_all [] c = []"
| "seen_all (x # xs) c = seen x c @ seen_all xs (run_code x c)"

lemma scoped_new: "scoped_paging_off_new True c = (paging c, set_paging False c)"
  by (simp add: scoped_paging_off_new_def)

lemma tame_keeps:
  "tame x \<Longrightarrow> paging (run_code x c) = paging c \<and> (\<not> paging c \<longrightarrow> True \<notin> set (seen x c))"
  "list_all tame xs \<Longrightarrow> paging (run_codes xs c) = paging c \<and> (\<not> paging c \<longrightarrow> True \<notin> set (seen_all xs c))"
proof (induction x c and xs c rule: run_code_run_codes.induct)
  case (2 preserve body c)
  then show ?case by (simp add: scoped_new scoped_paging_off_delete_def paging_set)
qed (simp_all add: keeps_paging_def)

text \<open>C37: a scope without paging gives back what it found. Whatever steps that leave the flag alone and
  whatever scopes are nested in it, every step within it runs without paging, and after it paging
  is enabled just when it was before.\<close>

theorem scope_restores_paging:
  assumes "list_all tame body"
  shows "paging (run_code (Scope True body) c) = paging c \<and> True \<notin> set (seen (Scope True body) c)"
  using tame_keeps(2) [OF assms, of "set_paging False c"]
  by (simp add: scoped_new scoped_paging_off_delete_def paging_set)

definition boot_control :: control where
  "boot_control = \<lparr>cr0 = 0x80000011, cr3 = 0, cr4 = 0\<rparr>"

theorem scope_restores_paging_witness:
  "paging (run_code (Scope True [Step (set_page_table 0x1000), Scope True [Step init_cr4], Step (set_page_table 0x2000)]) boot_control)"
proof -
  have "keeps_paging (set_page_table p)" "keeps_paging init_cr4" for p
    by (simp_all add: keeps_paging_def paging_def set_page_table_def init_cr4_def)
  then have "list_all tame [Step (set_page_table 0x1000), Scope True [Step init_cr4], Step (set_page_table 0x2000)]" by simp
  from scope_restores_paging [OF this, of boot_control] show ?thesis by (simp add: boot_control_def paging_def)
qed

text \<open>A scope that does not preserve the old value ends with paging enabled, also where paging was off
  before; the other bits of the register stay what they are.\<close>

theorem plain_scope_enables_paging:
  "paging (run_code (Scope False []) c) \<and> (k \<noteq> 31 \<longrightarrow> bit (cr0 (run_code (Scope False []) c)) k = bit (cr0 c) k)"
  by (simp add: scoped_paging_off_new_def scoped_paging_off_delete_def paging_set set_paging_other)

theorem plain_scope_enables_paging_witness:
  "bit (cr0 (run_code (Scope False []) (set_paging False boot_control))) 0"
  using plain_scope_enables_paging [of "set_paging False boot_control" 0]
  by (simp add: set_paging_other boot_control_def)

section \<open>The layout of the information\<close>

text \<open>The fields of the information are its words in order: writing the words as bytes and reading
  the structure gives them back.\<close>

theorem info_layout:
  assumes "length ws = 24"
  shows "(let i = multiboot_info_of (concat (map bytes32 ws) @ rest) in
     info_flags i = ws ! 0 \<and> mem_upper i = ws ! 2 \<and> sym_num i = ws ! 7 \<and> sym_addr i = ws ! 9
     \<and> mmap_length i = ws ! 11 \<and> mmap_addr i = ws ! 12 \<and> drives_length i = ws ! 13 \<and> drives_addr i = ws ! 14
     \<and> vbe_interface_len i = ws ! 23)"
proof -
  have w: "le32 (concat (map bytes32 xs) @ rest) (4 * k) = xs ! k" if "k < length xs" for xs k
    using that
  proof (induction xs arbitrary: k)
    case (Cons x xs)
    show ?case
    proof (cases k)
      case 0
      then show ?thesis by (simp add: le32_bytes32)
    next
      case (Suc j)
      have "length (bytes32 x) = 4" by (simp add: bytes32_def)
      moreover have "le32 (bytes32 x @ ys) (4 + i) = le32 ys i" for ys i
        using \<open>length (bytes32 x) = 4\<close> by (simp add: le32_def nth_append add.commute [of 3])
      ultimately show ?thesis using Cons Suc by simp
    qed
  qed simp
  show ?thesis
    using w [of 0 ws] w [of 2 ws] w [of 7 ws] w [of 9 ws] w [of 11 ws] w [of 12 ws] w [of 13 ws] w [of 14 ws] w [of 23 ws] assms
    by (simp add: multiboot_info_of_def Let_def)
qed

theorem info_layout_witness:
  "drives_addr (multiboot_info_of (concat (map bytes32 (replicate 14 0 @ [0x9000] @ replicate 9 0)) @ [])) = 0x9000"
  using info_layout [of "replicate 14 0 @ [0x9000] @ replicate 9 0" "[]"] by (simp add: Let_def nth_append)

end
