(* ===== verification/Ata_Boot.thy ===== *)
theory Ata_Boot
  imports Ata_Drive Partition_Table Boot_Info
begin

text \<open>
  The search for disks at boot (kern/arch/x86/ata/ata.cpp): the boot loader's map of drives is
  walked, and each drive of it that is known becomes a disk, is identified, and its partitions
  become device nodes.
\<close>

section \<open>The map of drives\<close>

record drive_map =
  entry_size :: u32
  entry_number :: u8
  entry_mode :: u8
  entry_cylinders :: u16
  entry_heads :: u8
  entry_sectors :: u8
  entry_ports :: u16

text \<open>The kernel reads the entries where the boot loader left them in the memory \<open>mem\<close>.\<close>

definition word16_at :: "(u32 \<Rightarrow> u8) \<Rightarrow> u32 \<Rightarrow> u16" where
  "word16_at mem a = le16 (map mem [a, a + 1]) 0"

definition word32_at :: "(u32 \<Rightarrow> u8) \<Rightarrow> u32 \<Rightarrow> u32" where
  "word32_at mem a = le32 (map mem [a, a + 1, a + 2, a + 3]) 0"

definition drive_map_at :: "(u32 \<Rightarrow> u8) \<Rightarrow> u32 \<Rightarrow> drive_map" where
  "drive_map_at mem a =
     \<lparr>entry_size = word32_at mem a, entry_number = mem (a + 4), entry_mode = mem (a + 5),
      entry_cylinders = word16_at mem (a + 6), entry_heads = mem (a + 8), entry_sectors = mem (a + 9),
      entry_ports = word16_at mem (a + 10)\<rparr>"

section \<open>The search\<close>

definition new_ata_drive :: "ata_drive_number \<Rightarrow> u16 \<Rightarrow> u16 \<Rightarrow> ata_drive" where
  "new_ata_drive number base alt =
     \<lparr>drive_number = number, information = replicate 512 0, base_port = base, alt_port = alt\<rparr>"

definition named_drive :: "u8 \<Rightarrow> (string \<times> ata_drive) option" where
  "named_drive n =
     (if n = 0x80 then Some (''hda'', new_ata_drive Ata_master 0x1F0 0x3F6)
      else if n = 0x81 then Some (''hdb'', new_ata_drive Ata_slave 0x1F0 0x3F6)
      else if n = 0x82 then Some (''hdc'', new_ata_drive Ata_master 0x170 0x376)
      else if n = 0x83 then Some (''hdd'', new_ata_drive Ata_slave 0x170 0x376)
      else None)"

text \<open>The device of a drive is the drive itself; \<open>tmp\<close> is the buffer for parts of a sector.\<close>

definition ata_dev_io ::
  "'w port_io \<Rightarrow> u8 list \<Rightarrow> (ata_drive, 'con, 'w ata_controller) dev_io \<Rightarrow> (ata_drive, 'con, 'w ata_controller) dev_io" where
  "ata_dev_io io tmp con =
     (let dev = (\<lambda>drive. block_io (ata_read_block io drive) (ata_write_block io drive) sector_size tmp con)
      in con\<lparr>drive_read := (\<lambda>drive. drive_read (dev drive) drive), drive_write := (\<lambda>drive. drive_write (dev drive) drive)\<rparr>)"

record ('con, 'w) ata_bus =
  bus_drives :: "ata_drive list"
  bus_root :: "(ata_drive, 'con) dev_fs_node"
  bus_controller :: "'w ata_controller"

record ('con, 'w) ata_env =
  ata_ports :: "'w port_io"
  ata_tmp :: "u8 list"
  ata_junk :: "u8 list"
  ata_devices :: "(ata_drive, 'con, 'w ata_controller) dev_io"

definition add_drive :: "('con, 'w) ata_env \<Rightarrow> string \<Rightarrow> ata_drive \<Rightarrow> ('con, 'w) ata_bus \<Rightarrow> ('con, 'w) ata_bus result option" where
  "add_drive env name drive bus =
     (case ata_identify (ata_ports env) drive (bus_controller bus) of
        Inl e \<Rightarrow> Some (Inl e)
      | Inr (found, drive1, c1) \<Rightarrow>
          map_option (\<lambda>r. bind_result r (\<lambda>(root, c2).
              Inr (bus\<lparr>bus_drives := bus_drives bus @ [drive1], bus_root := root, bus_controller := c2\<rparr>)))
            (probe_filesystems (ata_dev_io (ata_ports env) (ata_tmp env) (ata_devices env)) (ata_junk env)
              \<lparr>drive_id = drive1, drive_name = name, drive_block_size = sector_size, drive_length = ata_length drive1\<rparr>
              (bus_root bus) c1))"

text \<open>The ports of an entry are only logged, up to the word that ends them.\<close>

partial_function (option) scan_ports :: "(u32 \<Rightarrow> u8) \<Rightarrow> u32 \<Rightarrow> u32 option" where
  "scan_ports mem a = (if word16_at mem a = 0 then Some a else scan_ports mem (a + 2))"

definition init_entry ::
  "('con, 'w) ata_env \<Rightarrow> (u32 \<Rightarrow> u8) \<Rightarrow> u32 \<Rightarrow> ('con, 'w) ata_bus \<Rightarrow> ('con, 'w) ata_bus result option" where
  "init_entry env mem a bus =
     (let e = drive_map_at mem a in
      if entry_mode e \<noteq> 1 then Some (Inr bus)
      else if entry_ports e = 0
      then (case named_drive (entry_number e) of
              None \<Rightarrow> Some (Inr bus)
            | Some (name, drive) \<Rightarrow> add_drive env name drive bus)
      else map_option (\<lambda>_. Inr bus) (scan_ports mem (a + 10)))"

partial_function (option) init_loop ::
  "('con, 'w) ata_env \<Rightarrow> (u32 \<Rightarrow> u8) \<Rightarrow> u32 \<Rightarrow> u32 \<Rightarrow> ('con, 'w) ata_bus \<Rightarrow> ('con, 'w) ata_bus result option" where
  "init_loop env mem a end_ptr bus =
     (if a < end_ptr
      then (case init_entry env mem a bus of
              None \<Rightarrow> None
            | Some (Inl e) \<Rightarrow> Some (Inl e)
            | Some (Inr bus1) \<Rightarrow> init_loop env mem (a + entry_size (drive_map_at mem a)) end_ptr bus1)
      else Some (Inr bus))"

definition ata_init ::
  "('con, 'w) ata_env \<Rightarrow> multiboot \<Rightarrow> (u32 \<Rightarrow> u8) \<Rightarrow> ('con, 'w) ata_bus \<Rightarrow> ('con, 'w) ata_bus result option" where
  "ata_init env mb mem bus =
     (if \<not> drives_field_present mb then Some (Inr bus)
      else if get_drive_map_length mb = 0 then Some (Inr bus)
      else init_loop env mem (get_drive_map mb) (get_drive_map mb + get_drive_map_length mb) bus)"

section \<open>The walk over the map\<close>

text \<open>The addresses of the entries from one address to another.\<close>

fun walk :: "(u32 \<Rightarrow> u8) \<Rightarrow> u32 \<Rightarrow> u32 \<Rightarrow> u32 list \<Rightarrow> bool" where
  "walk mem a end_ptr [] \<longleftrightarrow> \<not> a < end_ptr"
| "walk mem a end_ptr (b # bs) \<longleftrightarrow> b = a \<and> a < end_ptr \<and> walk mem (a + entry_size (drive_map_at mem a)) end_ptr bs"

fun init_all ::
  "('con, 'w) ata_env \<Rightarrow> (u32 \<Rightarrow> u8) \<Rightarrow> u32 list \<Rightarrow> ('con, 'w) ata_bus \<Rightarrow> ('con, 'w) ata_bus result option" where
  "init_all env mem [] bus = Some (Inr bus)"
| "init_all env mem (a # as) bus =
     (case init_entry env mem a bus of
        None \<Rightarrow> None
      | Some (Inl e) \<Rightarrow> Some (Inl e)
      | Some (Inr bus1) \<Rightarrow> init_all env mem as bus1)"

lemma walk_end: "\<not> a < end_ptr \<Longrightarrow> walk mem a end_ptr as \<longleftrightarrow> as = []"
  by (cases "as") auto

lemma walk_loop: "walk mem a end_ptr as \<Longrightarrow> init_loop env mem a end_ptr bus = init_all env mem as bus"
proof (induction "as" arbitrary: a bus)
  case Nil
  then show ?case by (subst init_loop.simps) simp
next
  case (Cons b bs)
  then show ?case by (subst init_loop.simps) (auto split: option.splits sum.splits)
qed

text \<open>
  The addresses of a map that leads on: each entry has a size, does not reach around the end of the
  memory, and is followed by another address of the map.
\<close>

definition leads_on :: "(u32 \<Rightarrow> u8) \<Rightarrow> u32 \<Rightarrow> u32 set \<Rightarrow> bool" where
  "leads_on mem end_ptr S \<longleftrightarrow>
     (\<forall>b \<in> S. b < end_ptr \<longrightarrow>
        (let n = entry_size (drive_map_at mem b) in 0 < n \<and> unat b + unat n < 2 ^ 32 \<and> b + n \<in> S))"

lemma walk_exists:
  assumes "leads_on mem end_ptr S"
  shows "a \<in> S \<Longrightarrow> \<exists>as. walk mem a end_ptr as"
proof (induction "unat end_ptr - unat a" arbitrary: a rule: less_induct)
  case less
  show ?case
  proof (cases "a < end_ptr")
    case True
    let ?n = "entry_size (drive_map_at mem a)"
    have s: "0 < ?n" "unat a + unat ?n < 2 ^ 32" "a + ?n \<in> S"
      using assms less.prems True by (auto simp: leads_on_def Let_def)
    have "unat a < unat (a + ?n)" "unat a < unat end_ptr"
      using s(1,2) True by (simp_all add: unat_plus_nowrap word_less_nat_alt)
    then have "unat end_ptr - unat (a + ?n) < unat end_ptr - unat a" by linarith
    then obtain bs where "walk mem (a + ?n) end_ptr bs" using less.hyps [OF _ s(3)] by blast
    then have "walk mem a end_ptr (a # bs)" using True by simp
    then show ?thesis ..
  next
    case False
    then have "walk mem a end_ptr []" by simp
    then show ?thesis ..
  qed
qed

text \<open>The drives that an entry stands for, and what tells one drive from another.\<close>

definition found_drives :: "(u32 \<Rightarrow> u8) \<Rightarrow> u32 \<Rightarrow> ata_drive list" where
  "found_drives mem a =
     (let e = drive_map_at mem a in
      if entry_mode e = 1 \<and> entry_ports e = 0
      then (case named_drive (entry_number e) of None \<Rightarrow> [] | Some (name, drive) \<Rightarrow> [drive]) else [])"

definition place :: "ata_drive \<Rightarrow> ata_drive_number \<times> u16 \<times> u16" where
  "place drive = (drive_number drive, base_port drive, alt_port drive)"

lemma identify_place: "ata_identify io drive c = Inr (b, drive1, c1) \<Longrightarrow> place drive1 = place drive"
  by (auto simp: ata_identify_def identify_drive_def place_def bind_result_Inr_iff split: if_splits)

lemma add_drive_place:
  "add_drive env name drive bus = Some (Inr bus1) \<Longrightarrow> map place (bus_drives bus1) = map place (bus_drives bus) @ [place drive]"
  by (auto simp: add_drive_def bind_result_Inr_iff identify_place split: sum.splits prod.splits)

lemma init_entry_place:
  "init_entry env mem a bus = Some (Inr bus1)
   \<Longrightarrow> map place (bus_drives bus1) = map place (bus_drives bus) @ map place (found_drives mem a)"
  by (auto simp: init_entry_def found_drives_def Let_def add_drive_place split: if_splits option.splits)

lemma init_all_place:
  "init_all env mem as bus = Some (Inr bus1)
   \<Longrightarrow> map place (bus_drives bus1) = map place (bus_drives bus) @ map place (concat (map (found_drives mem) as))"
  by (induction "as" arbitrary: bus) (auto simp: init_entry_place split: option.splits sum.splits)

text \<open>C33: the map of drives is walked once, entry by entry. If the entries of the map have sizes that
  lead on and not around the end of the memory, there is a list of addresses of entries from the
  start of the map to its end, the search is the treatment of these entries one after the other,
  and when it succeeds it has found just the known drives among them, in their order.\<close>

theorem map_probed_in_order:
  assumes "drives_field_present mb" and "start = get_drive_map mb" and "end_ptr = start + get_drive_map_length mb"
    and "leads_on mem end_ptr S" and "start \<in> S"
  shows "\<exists>as. walk mem start end_ptr as \<and> ata_init env mb mem bus = init_all env mem as bus
    \<and> (\<forall>bus1. ata_init env mb mem bus = Some (Inr bus1)
        \<longrightarrow> map place (bus_drives bus1) = map place (bus_drives bus) @ map place (concat (map (found_drives mem) as)))"
proof -
  obtain as' where w: "walk mem start end_ptr as'" using walk_exists [OF assms(4,5)] by blast
  have "ata_init env mb mem bus = init_all env mem as' bus"
  proof (cases "get_drive_map_length mb = 0")
    case True
    then have "as' = []" using w assms(3) by (cases as') auto
    then show ?thesis using True by (simp add: ata_init_def)
  next
    case False
    then show ?thesis using walk_loop [OF w, of env bus] assms(1-3) by (simp add: ata_init_def)
  qed
  then show ?thesis using w init_all_place [of env mem as' bus] by auto
qed

section \<open>An entry without a size\<close>

lemma init_loop_stays:
  assumes "entry_size (drive_map_at mem a) = 0" and "entry_mode (drive_map_at mem a) \<noteq> 1" and "a < end_ptr"
  shows "init_loop env mem a end_ptr bus = None"
proof (rule ccontr)
  assume "init_loop env mem a end_ptr bus \<noteq> None"
  then obtain y where y: "init_loop env mem a end_ptr bus = Some y" by blast
  define P where "P = (\<lambda>env' mem' a' e' (bus' :: ('a, 'b) ata_bus) (y' :: ('a, 'b) ata_bus result).
    \<not> (env' = env \<and> mem' = mem \<and> a' = a \<and> e' = end_ptr))"
  have "P env mem a end_ptr bus y"
  proof (rule init_loop.raw_induct [OF _ y])
    fix f env' mem' a' e' bus' y'
    assume IH: "\<And>env mem a end_ptr bus y. f env mem a end_ptr bus = Some y \<Longrightarrow> P env mem a end_ptr bus y"
      and body: "(if a' < e'
        then (case init_entry env' mem' a' bus' of
                None \<Rightarrow> None
              | Some (Inl e) \<Rightarrow> Some (Inl e)
              | Some (Inr bus1) \<Rightarrow> f env' mem' (a' + entry_size (drive_map_at mem' a')) e' bus1)
        else Some (Inr bus')) = Some y'"
    show "P env' mem' a' e' bus' y'"
      unfolding P_def
    proof (intro notI, elim conjE)
      assume eq: "env' = env" "mem' = mem" "a' = a" "e' = end_ptr"
      have "init_entry env mem a bus' = Some (Inr bus')" using assms(2) by (simp add: init_entry_def Let_def)
      then have "f env mem a end_ptr bus' = Some y'" using body assms(1,3) unfolding eq by simp
      from IH [OF this] show False by (simp add: P_def)
    qed
  qed
  then show False by (simp add: P_def)
qed

text \<open>An entry of the map without a size stops the boot. If the first entry of the map has the size 0
  and a mode that is not handled, the search never ends.\<close>

theorem empty_entry_hangs:
  assumes "drives_field_present mb" and "get_drive_map mb < get_drive_map mb + get_drive_map_length mb"
    and "entry_size (drive_map_at mem (get_drive_map mb)) = 0" and "entry_mode (drive_map_at mem (get_drive_map mb)) \<noteq> 1"
  shows "ata_init env mb mem bus = None"
proof -
  have "get_drive_map_length mb \<noteq> 0" using assms(2) by auto
  then show ?thesis using assms(1) init_loop_stays [OF assms(3,4,2)] by (simp add: ata_init_def)
qed

section \<open>Samples\<close>

text \<open>
  A machine whose ports do nothing, and a map of two entries at 0x9000: a drive of a mode that is
  not handled, and a known number.
\<close>

definition quiet_env :: "(unit, (u16 \<times> u8) list) ata_env" where
  "quiet_env = \<lparr>ata_ports = log_io, ata_tmp = replicate 512 0, ata_junk = replicate 512 0,
     ata_devices = \<lparr>drive_read = \<lambda>_ _ _ b w. Some (Inr (b, w)), drive_write = \<lambda>_ _ _ b w. Some (Inr w),
       console_read = \<lambda>_ _ b w. Inr (b, w), console_write = \<lambda>_ _ b w. Inr w\<rparr>\<rparr>"

definition drives_info :: "u32 \<Rightarrow> u32 \<Rightarrow> multiboot" where
  "drives_info len addr = \<lparr>mb_info = (multiboot_info_of (replicate 96 0))
      \<lparr>info_flags := 0x80, drives_length := len, drives_addr := addr\<rparr>, mb_magic = bootloader_magic\<rparr>"

definition drives_at :: "u8 \<Rightarrow> u32 \<Rightarrow> u8" where
  "drives_at len a = (if a AND 15 = 0 then len else if a = 0x9014 then 0x81 else if a = 0x9015 then 1 else 0)"

definition quiet_bus :: "(unit, (u16 \<times> u8) list) ata_bus" where
  "quiet_bus = \<lparr>bus_drives = [], bus_root = dev_fs_new, bus_controller = ata_controller_new log_io []\<rparr>"

theorem map_probed_in_order_witness:
  "ata_init quiet_env (drives_info 32 0x9000) (drives_at 16) quiet_bus
   = init_all quiet_env (drives_at 16) [0x9000, 0x9010] quiet_bus"
proof -
  have sizes: "entry_size (drive_map_at (drives_at 16) 0x9000) = 16" "entry_size (drive_map_at (drives_at 16) 0x9010) = 16"
    by (simp_all add: drive_map_at_def word32_at_def le32_def drives_at_def)
  have "leads_on (drives_at 16) 0x9020 {0x9000, 0x9010, 0x9020}"
    by (simp add: leads_on_def sizes)
  then obtain as' where "walk (drives_at 16) 0x9000 0x9020 as'"
    and "ata_init quiet_env (drives_info 32 0x9000) (drives_at 16) quiet_bus = init_all quiet_env (drives_at 16) as' quiet_bus"
    using map_probed_in_order [of "drives_info 32 0x9000" "0x9000" "0x9020" "drives_at 16" "{0x9000, 0x9010, 0x9020}" quiet_env quiet_bus]
    by (auto simp: drives_info_def drives_field_present_def get_drive_map_def get_drive_map_length_def)
  moreover from this have "as' = [0x9000, 0x9010]"
    by (cases as' rule: remdups_adj.cases) (auto simp: sizes walk_end)
  ultimately show ?thesis by simp
qed

theorem empty_entry_hangs_witness:
  "ata_init quiet_env (drives_info 32 0x9000) (drives_at 0) quiet_bus = None"
  by (rule empty_entry_hangs)
    (simp_all add: drives_info_def drives_field_present_def get_drive_map_def get_drive_map_length_def
      drive_map_at_def word32_at_def le32_def drives_at_def)

end
