(* ===== verification/Runtime.thy ===== *)
theory Runtime
  imports Virtual_Mm
begin

text \<open>
  What the C++ library finds in the kernel (kern/lib/cppruntime): the global constructors and
  destructors (runtime_startup.cpp), and the calls of the C library into the system, of which
  only the allocator does something (libcalls.cpp).
\<close>

section \<open>Constructors and destructors\<close>

text \<open>
  The lists that the linker makes, as the words from their start on: a count or -1, the addresses of
  the functions, and 0. The result is the addresses in the order they are called.
\<close>

fun ctor_count :: "u32 list \<Rightarrow> nat result" where
  "ctor_count [] = Inl Out_of_bounds"
| "ctor_count (p # ps) = (if p = 0 then Inr 0 else bind_result (ctor_count ps) (\<lambda>n. Inr (Suc n)))"

fun call_ctors :: "u32 list \<Rightarrow> nat \<Rightarrow> u32 list result" where
  "call_ctors l 0 = Inr []"
| "call_ctors l (Suc i) =
     (if Suc i < length l then bind_result (call_ctors l i) (\<lambda>cs. Inr (l ! Suc i # cs)) else Inl Out_of_bounds)"

definition do_global_ctors :: "u32 list \<Rightarrow> u32 list result" where
  "do_global_ctors l =
     (case l of
        [] \<Rightarrow> Inl Out_of_bounds
      | h # ps \<Rightarrow> bind_result (if h = - 1 then ctor_count ps else Inr (nat (sint h))) (call_ctors l))"

fun call_dtors :: "u32 list \<Rightarrow> u32 list result" where
  "call_dtors [] = Inl Out_of_bounds"
| "call_dtors (p # ps) = (if p = 0 then Inr [] else bind_result (call_dtors ps) (\<lambda>cs. Inr (p # cs)))"

definition do_global_dtors :: "u32 list \<Rightarrow> u32 list result" where
  "do_global_dtors l = (case l of [] \<Rightarrow> Inl Out_of_bounds | h # ps \<Rightarrow> call_dtors ps)"

text \<open>What else happens at start and end is a call of the C++ library each, if it is there.\<close>

datatype runtime_event = Call u32 | Register_frame | Finalize | Deregister_frame

definition runtime_init :: "bool \<Rightarrow> u32 list \<Rightarrow> runtime_event list result" where
  "runtime_init frames ctors =
     bind_result (do_global_ctors ctors) (\<lambda>cs. Inr (map Call cs @ (if frames then [Register_frame] else [])))"

definition runtime_fini :: "bool \<Rightarrow> u32 list \<Rightarrow> runtime_event list result" where
  "runtime_fini frames dtors =
     bind_result (do_global_dtors dtors) (\<lambda>cs. Inr (map Call cs @ [Finalize] @ (if frames then [Deregister_frame] else [])))"

section \<open>Calls of the C library\<close>

datatype lib_call =
    L_close | L_execve | L_fork | L_fstat | L_getpid | L_isatty | L_kill | L_link | L_lseek | L_open | L_read
  | L_stat | L_times | L_unlink | L_wait | L_write | L_gettimeofday

text \<open>The answer, with the numbers of the C library: ENOMEM, EAGAIN, EINVAL, EMLINK, ENOENT and ECHILD.\<close>

fun lib_answer :: "lib_call \<Rightarrow> u32" where
  "lib_answer L_close = - 1"
| "lib_answer L_execve = 12"
| "lib_answer L_fork = 11"
| "lib_answer L_fstat = 0"
| "lib_answer L_getpid = 1"
| "lib_answer L_isatty = 1"
| "lib_answer L_kill = 22"
| "lib_answer L_link = 31"
| "lib_answer L_lseek = 0"
| "lib_answer L_open = - 1"
| "lib_answer L_read = 0"
| "lib_answer L_stat = 0"
| "lib_answer L_times = - 1"
| "lib_answer L_unlink = 2"
| "lib_answer L_wait = 10"
| "lib_answer L_write = 0"
| "lib_answer L_gettimeofday = 0"

text \<open>The mode that a status gets: that of a character device.\<close>

fun lib_mode :: "lib_call \<Rightarrow> u32 option" where
  "lib_mode L_fstat = Some 0x2000"
| "lib_mode L_stat = Some 0x2000"
| "lib_mode _ = None"

record lib_state =
  lib_vm :: vm_state
  lib_errno :: u32

definition malloc_r :: "memory_area list \<Rightarrow> u32 \<Rightarrow> lib_state \<Rightarrow> (ptr \<times> lib_state) result option" where
  "malloc_r areas n s =
     map_option (\<lambda>r. bind_result r (\<lambda>(p, vm).
         Inr (p, s\<lparr>lib_vm := vm, lib_errno := if p = 0 then 12 else lib_errno s\<rparr>)))
       (kmalloc areas n True False 0 (lib_vm s))"

definition free_r :: "ptr option \<Rightarrow> ptr \<Rightarrow> lib_state \<Rightarrow> lib_state result" where
  "free_r current addr s = bind_result (kfree addr True current (lib_vm s)) (\<lambda>(b, vm). Inr (s\<lparr>lib_vm := vm\<rparr>))"

definition realloc_r ::
  "memory_area list \<Rightarrow> ptr option \<Rightarrow> ptr \<Rightarrow> u32 \<Rightarrow> lib_state \<Rightarrow> (ptr \<times> lib_state) result option" where
  "realloc_r areas current old n s =
     (if old = 0 \<and> n \<noteq> 0 then malloc_r areas n s
      else if old = 0 \<and> n = 0 then Some (bind_result (free_r current old s) (\<lambda>s1. Inr (0, s1)))
      else Some (Inr (0, s\<lparr>lib_errno := 12\<rparr>)))"

section \<open>Start and end\<close>

lemma ctor_count_list: "0 \<notin> set ps \<Longrightarrow> ctor_count (ps @ 0 # rest) = Inr (length ps)"
  by (induction ps) auto

lemma call_ctors_take: "n < length l \<Longrightarrow> call_ctors l n = Inr (rev (take n (tl l)))"
proof (induction n)
  case (Suc n)
  then have "n < length (tl l)" by simp
  with Suc show ?case by (simp add: take_Suc_conv_app_nth nth_tl)
qed simp

lemma call_dtors_list: "0 \<notin> set ps \<Longrightarrow> call_dtors (ps @ 0 # rest) = Inr ps"
  by (induction ps) auto

text \<open>Global objects are destroyed in the reverse of the order they are made in. Whether the list
  of constructors starts with -1 or with their count, the constructors are called from its end to
  its start; the destructors of a list of the same order are called from its start to its end.\<close>

theorem destroyed_in_reverse:
  assumes "0 \<notin> set cs" and "0 \<notin> set ds" and "h = - 1 \<or> h = of_nat (length cs) \<and> length cs < 2 ^ 31"
  shows "runtime_init frames (h # cs @ 0 # rest) = Inr (map Call (rev cs) @ (if frames then [Register_frame] else []))
    \<and> runtime_fini frames (k # ds @ 0 # rest2) = Inr (map Call ds @ [Finalize] @ (if frames then [Deregister_frame] else []))"
proof -
  have n: "nat (sint (of_nat (length cs) :: u32)) = length cs" if "length cs < 2 ^ 31"
  proof -
    have "int (length cs) < 2 ^ 31" using that by (metis of_nat_less_iff of_nat_numeral of_nat_power)
    then have "signed_take_bit 31 (int (length cs)) = int (length cs)" by (intro signed_take_bit_int_eq_self) auto
    then show ?thesis by (simp add: signed_of_nat)
  qed
  have "do_global_ctors (h # cs @ 0 # rest) = call_ctors (h # cs @ 0 # rest) (length cs)"
    using assms(1,3) n by (auto simp: do_global_ctors_def ctor_count_list)
  also have "... = Inr (rev cs)" by (simp add: call_ctors_take)
  finally show ?thesis
    using call_dtors_list [OF assms(2), of rest2] by (simp add: runtime_init_def runtime_fini_def do_global_dtors_def)
qed

theorem destroyed_in_reverse_witness:
  "runtime_init True [2, 0x1000, 0x2000, 0] = Inr [Call 0x2000, Call 0x1000, Register_frame]
    \<and> runtime_fini True [2, 0x1010, 0x2010, 0] = Inr [Call 0x1010, Call 0x2010, Finalize, Deregister_frame]"
  using destroyed_in_reverse [of "[0x1000, 0x2000]" "[0x1010, 0x2010]" 2 True "[]" 2 "[]"] by simp

section \<open>The allocator\<close>

text \<open>A block is never resized: for every block and every size, 0 and smaller sizes as well, realloc
  answers that the memory is used up, and the block stays as it is and is not freed.\<close>

theorem realloc_never_resizes:
  assumes "old \<noteq> 0"
  shows "realloc_r areas current old n s = Some (Inr (0, s\<lparr>lib_errno := 12\<rparr>))"
  using assms by (simp add: realloc_r_def)

theorem realloc_never_resizes_witness:
  "\<forall>s. realloc_r [] None 0x1000 0 s = Some (Inr (0, s\<lparr>lib_errno := 12\<rparr>))"
  using realloc_never_resizes [where old = "0x1000" and areas = "[]" and current = None and n = 0] by simp

text \<open>Of the calls that fail only three say so: the answer of the others is a positive number, the
  error's, where the callers of these functions test for -1.\<close>

theorem failures_look_like_success:
  "(lib_answer c = - 1 \<longleftrightarrow> c \<in> {L_close, L_open, L_times}) \<and> (lib_answer c \<noteq> - 1 \<longleftrightarrow> 0 <=s lib_answer c)"
  by (cases c) (simp_all add: word_sle_eq)

end
