(* ===== verification/Spec2Isabelle.thy ===== *)
theory Spec2Isabelle
  imports Area_Alloc Round_Robin Ata_Drive Fs_Boot Elf_Loader Space_Reset Heap_Break Syscalls User_Calls Syscall_Inv Console Port_Devices Descriptors Interrupts Logger Ata_Boot Runtime
begin

text \<open>
  iPosix is a teaching operating system for 32-bit x86, written in C++ under
  bsp14_d/iposix/src. This library models its kernel (kern) and the entry of user programs into
  it (user/syscalls); file names below are relative to kern unless they begin otherwise.

  The program. At boot the kernel looks for the memory it may use, takes it over with a page
  allocator that also holds the kernel's heap, finds the disks and their partitions, mounts the
  device file system and the FAT file systems, opens the console, and starts process 0. From then
  on it runs in interrupts: the timer switches processes in the order of a round robin strategy,
  the keyboard stores codes, and a system call takes a message from a process, copies what it
  points to out of the address space of that process, and answers it out of the scheduler, the
  file system, the loader and the memory.

  How the code is represented. A class is a record (\<open>splitted\<close>, \<open>round_robin\<close>,
  \<open>filehandle\<close>, \<open>keyboard\<close>, ...), an enumeration or a tagged union a datatype, and a method
  a function from the state before to the state after. Machine integers are words of their width
  (\<open>u8\<close> to \<open>u64\<close> in Kern_Prelude), so overflow and comparison are those of the code. What can go
  wrong in C++ without being reported (an access outside an array, a null pointer, a division by
  0, an unset iterator) is \<open>Inl\<close> with the kind of fault, a \<open>result\<close>; what the code reports itself
  is a value inside \<open>Inr\<close>. Loops that need not end are \<open>partial_function (option)\<close>: \<open>None\<close> is
  running for ever. Objects reached by several pointers (list cells, handles, heap blocks, pages,
  stacks, open nodes) live in stores from addresses to contents.

  Theories, in the order of their imports:

  \<^item> Kern_Prelude: words, faults, results, waiting for a port, lemmas on lists and maps.
    Byte_Fields: little-endian fields of packed structures.
  \<^item> Memory. Memory_Area (mm/memory_area.cpp, arch/x86/devices/memory.cpp): areas and the choice
    from the boot loader's map; no area touches the kernel's image. Area_Alloc
    (include/mm/policies/straight.h, simple.h): two allocators over areas; live blocks are disjoint.
    Page_Bitmap, Kernel_Heap, Splitted_Pages (include/mm/policies/splitted.hpp): the two bits of a
    page (locale \<open>page_map\<close>), the list of heap blocks, which implements a first fit allocator on
    a list of blocks tiling the heap (refinement), and the pages taken from above, which stay apart
    from the heap.
  \<^item> Address spaces. Vm_Structs (arch/x86/vm): entries and tables. Process_Vm, Copy_Memory,
    Space_Reset (arch/x86/scheduler/process.cpp): mapping, translation, what is copied in and out,
    and what a reset leaves. Virtual_Mm (include/mm/policies/virtual.hpp, kmalloc.h): pages for
    programs, and the copy of a space for a fork.
  \<^item> Processes. Round_Robin (include/scheduler/policies/round_robin.hpp): the lists of the
    strategy, shown to be a rotating queue (locale \<open>scheduling_strategy\<close>), and its fairness.
    Context_Switch (arch/x86/scheduler): stacks and registers. Scheduler (scheduler): creation,
    fork and switches, with the step relation \<open>sched_step\<close>; a process finds its registers as it
    left them, and the processes stay sound.
  \<^item> Disks. Block_Device (devices/i_block_device.cpp): bytes over blocks (locale \<open>block_device\<close>),
    and what they are for a device that obeys \<open>disk_laws\<close>. Ata_Drive (arch/x86/ata): the commands
    of the controller, interpreted as a block device, and when its transfers end. Boot_Info
    (arch/x86/multiboot, arch/x86/devices/memory.cpp): what the boot loader tells, and scopes
    without paging. Ata_Boot (arch/x86/ata/ata.cpp): the search for disks.
  \<^item> Files. Dev_Fs, Partition_Table (fs/dev_fs_node.cpp, fs/partitiontable_crawler.cpp): slices of
    disks and the nodes that partitions become. Fat_Table, Fat_Fs, Fat_File, Fat_Node (fs/fat_fs.cpp,
    fs/fat_fs_node.cpp): chains of clusters, the contents of a file as one sequence of bytes, and
    directories. Clean_Path (fs/i_fs_node_operations.cpp): the parser of paths against the meaning
    of their components. Filehandle (fs/filehandle.cpp): handles and tables of them. Fs_Nodes,
    Fs_Boot (fs/i_fs_node_operations.cpp, iposix/iposix_kernel.cpp): open and mounted nodes with
    their invariant, and the boot of the file system.
  \<^item> Programs. Elf_Loader (elf, arch/x86/elf): exec. Heap_Break, Syscalls (syscalls): the message
    and every case of the dispatcher. User_Calls (user/syscalls): the wrappers of the library.
    Syscall_Inv: the invariants of scheduler, files and handles together over any sequence of
    calls and switches (\<open>kernel_run\<close>).
  \<^item> Devices. Keyboard, Video, Console, Port_Devices (arch/x86/devices, devices): the ring of codes
    (locale \<open>bounded_fifo\<close>) and their decoding, the screen against a terminal of lines, the nodes
    of the console, serial port, timer and loudspeaker. Logger (lib/logger). Descriptors,
    Interrupts (arch/x86/core, arch/x86/pic): the processor's tables, the controller, and the
    machine of all components under its interrupts (\<open>machine_run\<close>). Runtime (lib/cppruntime):
    global constructors and destructors, and the calls of the C library.

  This theory composes them: a file that is read through node, file system, partition and disk.

  Interfaces. Each locale is interpreted for the model of the code that provides it: \<open>page_map\<close> for
  the bitmap, \<open>scheduling_strategy\<close> for round_robin, \<open>block_device\<close> for the ATA drive and
  \<open>bounded_fifo\<close> for the keyboard's ring. Contracts that depend on a state (\<open>disk_laws\<close>,
  \<open>drive_laws\<close>, the invariants) are predicates, because they have to be assumed of a part of a
  larger state and not once and for all.

  What the groups of lemmas show. Invariants: kernel heap, pages, bitmap, lists of the strategy,
  processes, handles, open nodes, the ring, the screen, and the whole machine. Refinements:
  the heap against a list of blocks, a file against a sequence of bytes, a directory against its
  names, switching against registers that stay, the disk under the file. Equivalences: the parser
  of paths against the meaning of the path, and the walk over the map of drives. Round trips: bytes copied in
  and out, ELF headers. Termination: transfers of the drive, the ends of chains, the walk over
  tables, against the inputs for which the code never ends. Errors: what a failed exec,
  an unknown descriptor or an interrupt raised by a program does. Where a theorem shows behaviour
  that the code can hardly mean, its text says so, and the witness runs it.

  Bounds. The only fixed bound of a loop is that of the code, 100000 readings of a status
  (\<open>wait_status_timeout\<close>); structural loops over 2000 cells, 1024 entries or 8192 bits are
  counted by the sizes of the code. No fuel is used.

  Parameters. What is not under src is an argument: the machine behind the ports (\<open>port_io\<close>, the
  readings of a status port), the memory where the boot loader left its map, the container of a
  file system and the drives of device nodes, the contents of fresh pages and of uninitialised
  fields and buffers, what get_eip returns, and the clock's count. The laws assumed of them are the
  documented ones (a read of a disk returns its contents, a write changes just the blocks it
  names); each theorem with such a law has a witness with a concrete disk or machine.

  Not modelled. The assembler: startup.asm, isr.asm and scheduler.asm, loading the processor's
  tables and registers, and the instructions behind cli and sti; what they leave on the stack is
  in the records of registers. The order of the parts of the start (iposix/main.cpp), the
  singletons, and the memory of the library's containers: the model's lists and maps do not run
  out of memory. Messages that only log are left out where they are emitted, though the
  logger itself is modelled. Dumps print and change nothing. Code that cannot be compiled or is
  used by nothing: i_scheduler::block_process, the strategy two_state_scheduler, fs/pipe.cpp, the
  semaphore, atomic.h, the rest of elf.h (64-bit files, symbols, relocations). The programs of user/bin,
  which only call the library, the tests, and grub_mini_kernel, an example of the boot loader's
  documentation. Concurrency is that of one processor: interrupts come between the steps of
  \<open>machine_run\<close>, and within a step only in Keyboard, where an interrupt comes between the two
  halves of a read; the cases of the dispatcher run with interrupts off.
\<close>

section \<open>A file on a partition of a disk\<close>

text \<open>C4: a file is read through all the layers below it. For a disk whose blocks the driver
  transfers, a partition of it as a device node and a FAT file system mounted on that node,
  reading a file node from an offset up to its size returns, and what the buffer gets are the
  bytes of the disk where the clusters of the file lie within the partition, cut at the end of
  the file; the disk is not changed.\<close>

theorem file_on_partition:
  assumes "disk_laws bs rd wr contents blocks" and "length tmp = unat bs" and "blocks < 2 ^ 64"
    and "env_io env = block_io rd wr bs tmp io" and "slice_ok part (blocks * unat bs)" and "dn_drive part = Some drv"
    and "cap = min (unat (dn_last part) - unat (dn_first part)) (2 ^ 32 - 1)"
    and "linked (fs_table fs) (node_cluster node # cs)"
    and "\<forall>x \<in> set (node_cluster node # cs). cluster_ok fs cap x" and "0 < cluster_size fs"
    and "length (node_cluster node # cs) \<le> 2 ^ 32" and "\<not> node_directory node"
    and "unat (de_size (node_entry node)) \<le> length (node_cluster node # cs) * unat (cluster_size fs)"
    and "unat offset \<le> unat (de_size (node_entry node))" and "unat len \<le> length buf"
    and data: "bytes = take (unat (de_size (node_entry node)))
      (concat (map (\<lambda>c. map (\<lambda>i. contents d (unat (dn_first part) + i))
          [cluster_start fs c ..< cluster_start fs c + unat (cluster_size fs)]) (node_cluster node # cs)))"
  shows "\<exists>d'. v_read env (V_fat (v_container env (V_dev part)) fs node) offset len buf d
      = Some (Inr (take (unat len) (drop (unat offset) bytes)
          @ drop (min (unat len) (unat (de_size (node_entry node)) - unat offset)) buf, d'))
    \<and> (\<forall>i. contents d' (unat (dn_first part) + i) = contents d (unat (dn_first part) + i))"
proof -
  let ?size = "unat (de_size (node_entry node))" and ?shift = "\<lambda>w i. contents w (unat (dn_first part) + i)"
  have "drive_laws (env_io env) drv contents (blocks * unat bs)"
    unfolding assms(4) by (rule block_io_laws [OF assms(1-3)])
  then have "container_laws (node_container (env_io env) part) ?shift cap"
    unfolding assms(7) by (rule node_container_laws [OF _ assms(5,6)])
  moreover have "v_container env (V_dev part) = node_container (env_io env) part"
    by (simp add: v_container_def node_container_def)
  ultimately have laws: "container_laws (v_container env (V_dev part)) ?shift cap" by simp
  have "bytes = take ?size (file_bytes fs (node_cluster node # cs) (?shift d))"
    unfolding data file_bytes_def chunk_def ..
  then have cut: "take (min (unat len) (?size - unat offset)) (drop (unat offset) (file_bytes fs (node_cluster node # cs) (?shift d)))
      = take (unat len) (drop (unat offset) bytes)"
    by (simp add: drop_take min.commute)
  show ?thesis
    using node_read_bytes [OF laws assms(8-15) refl, of d] unfolding cut by (auto simp: fun_eq_iff)
qed

definition disk_env :: "(unit, unit, nat \<Rightarrow> u8) vfs_env" where
  "disk_env = (sample_env (Inr None))\<lparr>env_io := block_io ram_read ram_write 4 [0, 0, 0, 0] ram_dev_io\<rparr>"

definition disk_part :: "(unit, unit) dev_fs_node" where
  "disk_part = dev_node_drive ''hda1'' () 8 64"

theorem file_on_partition_witness:
  "\<exists>d'. v_read disk_env (V_fat (v_container disk_env (V_dev disk_part)) fs_sample sample_node) 1 5 [9, 9, 9, 9, 9] (\<lambda>i. of_nat i)
    = Some (Inr ([13, 14, 9, 9, 9], d'))"
proof -
  have n: "node_cluster sample_node = 0" "de_size (node_entry sample_node) = 3" "\<not> node_directory sample_node"
    by (simp_all add: sample_node_def)
  have p: "dn_first disk_part = 8" "dn_last disk_part = 64" "dn_drive disk_part = Some ()" "slice_ok disk_part (16 * unat (4 :: u32))"
    by (simp_all add: disk_part_def dev_node_drive_def slice_ok_def)
  have e: "env_io disk_env = block_io ram_read ram_write 4 [0, 0, 0, 0] ram_dev_io" by (simp add: disk_env_def)
  have ok: "\<forall>x \<in> set (node_cluster sample_node # [1]). cluster_ok fs_sample 56 x"
    by (simp add: cluster_ok_def fs_sample_simps n)
  have lk: "linked (fs_table fs_sample) (node_cluster sample_node # [1])"
    using sample_linked by (simp add: fs_sample_simps n)
  have bytes: "[12, 13, 14] = take (unat (de_size (node_entry sample_node)))
      (concat (map (\<lambda>c. map (\<lambda>i. of_nat (unat (dn_first disk_part) + i) :: u8)
          [cluster_start fs_sample c ..< cluster_start fs_sample c + unat (cluster_size fs_sample)]) (node_cluster sample_node # [1])))"
    by (simp add: n p fs_sample_simps upt_rec)
  have "(56 :: nat) = min (unat (dn_last disk_part) - unat (dn_first disk_part)) (2 ^ 32 - 1)" by (simp add: p)
  from file_on_partition [where d = "\<lambda>i. of_nat i" and buf = "[9, 9, 9, 9, 9]" and offset = 1 and len = 5,
      OF ram_laws _ _ e p(4,3) this lk ok _ _ n(3) _ _ _ bytes]
  show ?thesis by (auto simp: n fs_sample_simps)
qed

end
